(* ===== verification/Prelude.thy ===== *)
theory Prelude
  imports Main "HOL-Library.Sublist" "HOL-Library.AList" "HOL-Library.Char_ord"
    "HOL-Library.List_Lexorder"
begin

text \<open>
  Shared vocabulary of the development: C strings and byte buffers as \<^typ>\<open>string\<close>, unsigned
  machine integers as \<^typ>\<open>nat\<close> with the wrap-around written out, the decimal formatting of
  \<^verbatim>\<open>snprintf("%lu")\<close>, the parsing of \<^verbatim>\<open>strtoull\<close>, the little-endian layout of the integers
  that the program copies into its key-value store with \<^verbatim>\<open>memcpy\<close>, and generic facts on lists
  and prefixes that the components share.
\<close>

named_theorems fs_simps \<open>unfolding and frame facts of the file system model\<close>
named_theorems key_simps \<open>facts on formatted keys\<close>

section \<open>Integers and buffers\<close>

type_synonym bytes = string

text \<open>A \<^verbatim>\<open>uint64_t\<close> and a \<^verbatim>\<open>uint32_t\<close>: the value reduced to the width.\<close>

definition u64 :: "nat \<Rightarrow> nat" where
  "u64 n = n mod 18446744073709551616"

definition u32 :: "nat \<Rightarrow> nat" where
  "u32 n = n mod 4294967296"

definition u16 :: "nat \<Rightarrow> nat" where
  "u16 n = n mod 65536"

lemma u64_id [simp]: "n < 18446744073709551616 \<Longrightarrow> u64 n = n"
  by (simp add: u64_def)

lemma u32_id [simp]: "n < 4294967296 \<Longrightarrow> u32 n = n"
  by (simp add: u32_def)

lemma u16_id [simp]: "n < 65536 \<Longrightarrow> u16 n = n"
  by (simp add: u16_def)

lemma u64_bound [simp]: "u64 n < 18446744073709551616"
  by (simp add: u64_def)

lemma u32_bound [simp]: "u32 n < 4294967296"
  by (simp add: u32_def)

lemma u64_le: "u64 n \<le> n"
  by (simp add: u64_def)

lemma u64_idem [simp]: "u64 (u64 n) = u64 n"
  by (simp add: u64_def)

lemma u32_idem [simp]: "u32 (u32 n) = u32 n"
  by (simp add: u32_def)

text \<open>The NUL byte, and a buffer of zeros as \<^verbatim>\<open>memset(buf, 0, n)\<close> leaves it.\<close>

definition NUL :: char where
  "NUL = CHR 0x00"

definition zeros :: "nat \<Rightarrow> bytes" where
  "zeros n = replicate n NUL"

lemma length_zeros [simp]: "length (zeros n) = n"
  by (simp add: zeros_def)

lemma nth_zeros [simp]: "i < n \<Longrightarrow> zeros n ! i = NUL"
  by (simp add: zeros_def)

lemma zeros_0 [simp]: "zeros 0 = []"
  by (simp add: zeros_def)

lemma take_zeros [simp]: "take n (zeros m) = zeros (min n m)"
  by (simp add: zeros_def)

lemma drop_zeros [simp]: "drop n (zeros m) = zeros (m - n)"
  by (simp add: zeros_def)

lemma set_zeros: "set (zeros n) \<subseteq> {NUL}"
  by (auto simp: zeros_def)

section \<open>Little-endian integers\<close>

fun le_bytes :: "nat \<Rightarrow> nat \<Rightarrow> bytes" where
  "le_bytes 0 x = []"
| "le_bytes (Suc n) x = char_of (x mod 256) # le_bytes n (x div 256)"

fun le_val :: "bytes \<Rightarrow> nat" where
  "le_val [] = 0"
| "le_val (c # cs) = of_char c + 256 * le_val cs"

lemma length_le_bytes [simp]: "length (le_bytes n x) = n"
  by (induction n arbitrary: x) auto

lemma le_val_le_bytes: "le_val (le_bytes n x) = x mod 256 ^ n"
proof (induction n arbitrary: x)
  case 0
  then show ?case by simp
next
  case (Suc n)
  then show ?case by (simp add: mod_mult2_eq)
qed

lemma le_val_le_bytes_id: "x < 256 ^ n \<Longrightarrow> le_val (le_bytes n x) = x"
  by (simp add: le_val_le_bytes)

lemma le_val_bytes8 [simp]: "le_val (le_bytes 8 x) = u64 x"
  by (simp add: le_val_le_bytes u64_def)

lemma le_val_bytes4 [simp]: "le_val (le_bytes 4 x) = u32 x"
  by (simp add: le_val_le_bytes u32_def)

lemma le_val_bytes2 [simp]: "le_val (le_bytes 2 x) = u16 x"
  by (simp add: le_val_le_bytes u16_def)

lemma le_val_bound: "le_val cs < 256 ^ length cs"
proof (induction cs)
  case Nil
  then show ?case by simp
next
  case (Cons c cs)
  have "(of_char c :: nat) < 256" by simp
  with Cons have "of_char c + 256 * le_val cs < 256 * 256 ^ length cs" by linarith
  then show ?case by simp
qed

lemma le_bytes_le_val: "le_bytes (length cs) (le_val cs) = cs"
proof (induction cs)
  case Nil
  then show ?case by simp
next
  case (Cons c cs)
  have "(of_char c + 256 * le_val cs) mod 256 = (of_char c :: nat)"
    and "(of_char c + 256 * le_val cs) div 256 = le_val cs"
    by (simp_all add: div_mult_self2[of 256])
  with Cons show ?case by simp
qed

section \<open>Decimal numbers\<close>

definition is_digit :: "char \<Rightarrow> bool" where
  "is_digit c \<longleftrightarrow> 48 \<le> (of_char c :: nat) \<and> (of_char c :: nat) \<le> 57"

definition digit_char :: "nat \<Rightarrow> char" where
  "digit_char d = char_of (48 + d)"

text \<open>\<^verbatim>\<open>%lu\<close>, \<^verbatim>\<open>%llu\<close> and \<^verbatim>\<open>%u\<close> of \<^verbatim>\<open>printf\<close>.\<close>

fun dec :: "nat \<Rightarrow> string" where
  "dec n = (if n < 10 then [digit_char n] else dec (n div 10) @ [digit_char (n mod 10)])"

declare dec.simps [simp del]

definition undec :: "string \<Rightarrow> nat" where
  "undec cs = foldl (\<lambda>a c. 10 * a + (of_char c - 48)) 0 cs"

lemma of_digit_char: "d < 10 \<Longrightarrow> of_char (digit_char d) = (48 + d :: nat)"
  by (simp add: digit_char_def)

lemma digit_char_eval [simp]:
  "digit_char 0 = CHR ''0''" "digit_char 1 = CHR ''1''"
  "digit_char 2 = CHR ''2''" "digit_char 3 = CHR ''3''" "digit_char 4 = CHR ''4''"
  "digit_char 5 = CHR ''5''" "digit_char 6 = CHR ''6''" "digit_char 7 = CHR ''7''"
  "digit_char 8 = CHR ''8''" "digit_char 9 = CHR ''9''"
  by (simp_all add: digit_char_def char_of_def bit_Suc bit_0)

lemma is_digit_digit_char [simp]: "d < 10 \<Longrightarrow> is_digit (digit_char d)"
  by (simp add: is_digit_def of_digit_char)

lemma dec_nonempty [simp]: "dec n \<noteq> []"
  by (subst dec.simps) simp

lemma dec_digits: "c \<in> set (dec n) \<Longrightarrow> is_digit c"
proof (induction n rule: dec.induct)
  case (1 n)
  then show ?case
    by (cases "n < 10") (auto simp: dec.simps [of n])
qed

lemma undec_dec [simp]: "undec (dec n) = n"
proof (induction n rule: dec.induct)
  case (1 n)
  show ?case
  proof (cases "n < 10")
    case True
    then show ?thesis by (simp add: dec.simps [of n] undec_def of_digit_char)
  next
    case False
    with 1 have "undec (dec (n div 10)) = n div 10" by simp
    with False show ?thesis
      by (simp add: dec.simps [of n] undec_def of_digit_char)
  qed
qed

lemma dec_inject [simp]: "dec m = dec n \<longleftrightarrow> m = n"
  by (metis undec_dec)

lemma length_dec_le: "n < 10 ^ k \<Longrightarrow> 0 < k \<Longrightarrow> length (dec n) \<le> k"
proof (induction n arbitrary: k rule: dec.induct)
  case (1 n)
  show ?case
  proof (cases "n < 10")
    case True
    with "1.prems" show ?thesis by (simp add: dec.simps [of n])
  next
    case False
    obtain k' where k: "k = Suc k'" using "1.prems" by (cases k) auto
    with False "1.prems" have "0 < k'" by (cases k') auto
    note k = k this
    with "1.prems" have "n div 10 < 10 ^ k'" by auto
    with False k "1.IH" have "length (dec (n div 10)) \<le> k'" by blast
    with False k show ?thesis by (simp add: dec.simps [of n])
  qed
qed

lemma length_dec_u64: "n < 18446744073709551616 \<Longrightarrow> length (dec n) \<le> 20"
  by (rule length_dec_le) auto

lemma colon_notin_dec [simp]: "CHR '':'' \<notin> set (dec n)"
  using dec_digits [of "CHR '':''" n] by (auto simp: is_digit_def)

text \<open>A decimal number that a colon ends is read back unambiguously.\<close>

lemma split_at_sep:
  assumes "xs @ c # ys = xs' @ c # ys'" "c \<notin> set xs" "c \<notin> set xs'"
  shows "xs = xs' \<and> ys = ys'"
  using assms by (induction xs arbitrary: xs') (auto simp: Cons_eq_append_conv append_eq_Cons_conv)

lemma dec_colon_eq [key_simps]:
  "dec m @ CHR '':'' # xs = dec n @ CHR '':'' # ys \<longleftrightarrow> m = n \<and> xs = ys"
  using split_at_sep [of "dec m" "CHR '':''" xs "dec n" ys] by auto

lemma dec_colon_neq [key_simps]:
  "dec m @ CHR '':'' # xs \<noteq> dec n" "dec n \<noteq> dec m @ CHR '':'' # xs"
  by (metis colon_notin_dec in_set_conv_decomp)+

lemma dec_colon_prefix [key_simps]:
  "prefix (dec m @ CHR '':'' # xs) (dec n @ CHR '':'' # ys) \<longleftrightarrow> m = n \<and> prefix xs ys"
proof
  assume "prefix (dec m @ CHR '':'' # xs) (dec n @ CHR '':'' # ys)"
  then obtain zs where "dec n @ CHR '':'' # ys = dec m @ CHR '':'' # (xs @ zs)"
    by (auto simp: prefix_def)
  then show "m = n \<and> prefix xs ys"
    by (auto simp: key_simps)
qed (auto simp: prefix_def)

lemma dec_colon_not_prefix [key_simps]: "\<not> prefix (dec m @ CHR '':'' # xs) (dec n)"
  by (metis (no_types, lifting) colon_notin_dec in_set_conv_decomp prefix_def append_assoc append_Cons)

section \<open>Parsing a decimal number\<close>

text \<open>
  \<^verbatim>\<open>strtoull(s, &end, 10)\<close>: white space, an optional sign, then the longest run of digits. The
  result is the value, saturated at \<^verbatim>\<open>ULLONG_MAX\<close> and negated modulo \<open>2^64\<close> after a minus sign,
  and the rest of the input; without a digit it is 0 and the whole input.
\<close>

definition is_space :: "char \<Rightarrow> bool" where
  "is_space c \<longleftrightarrow> (let n = (of_char c :: nat) in n = 32 \<or> (9 \<le> n \<and> n \<le> 13))"

definition clamp64 :: "nat \<Rightarrow> nat" where
  "clamp64 n = (if n < 18446744073709551616 then n else 18446744073709551615)"

definition strtoull :: "string \<Rightarrow> nat \<times> string" where
  "strtoull s =
     (let t = dropWhile is_space s;
          neg = (t \<noteq> [] \<and> hd t = CHR ''-'');
          u = (if t \<noteq> [] \<and> (hd t = CHR ''-'' \<or> hd t = CHR ''+'') then tl t else t);
          ds = takeWhile is_digit u;
          v = undec ds
      in if ds = [] then (0, s)
         else (if v < 18446744073709551616 \<and> neg then u64 (18446744073709551616 - v)
               else clamp64 v,
               dropWhile is_digit u))"

lemma is_digit_not_space: "is_digit c \<Longrightarrow> \<not> is_space c"
  by (auto simp: is_digit_def is_space_def Let_def)

lemma strtoull_dec:
  assumes "n < 18446744073709551616"
  shows "strtoull (dec n) = (n, [])"
proof -
  obtain c cs where c: "dec n = c # cs" by (cases "dec n") auto
  then have "is_digit c" using dec_digits [of c n] by simp
  then have "\<not> is_space c" "c \<noteq> CHR ''-''" "c \<noteq> CHR ''+''"
    by (auto simp: is_digit_not_space is_digit_def)
  moreover have "takeWhile is_digit (dec n) = dec n" "dropWhile is_digit (dec n) = []"
    by (simp_all add: takeWhile_eq_all_conv dec_digits)
  ultimately show ?thesis
    using assms c undec_dec [of n] by (auto simp: strtoull_def clamp64_def Let_def)
qed

section \<open>Lists and prefixes\<close>

lemma prefix_iff_take: "prefix p k \<longleftrightarrow> length p \<le> length k \<and> take (length p) k = p"
  by (metis append_eq_conv_conj prefix_def prefix_length_le)

lemma map_of_update [simp]: "map_of (AList.update k v xs) = (map_of xs)(k \<mapsto> v)"
  by (rule update_conv')

lemma map_of_delete [simp]: "map_of (AList.delete k xs) = (map_of xs)(k := None)"
  by (rule delete_conv')

end
