(* ===== verification/Keys.thy ===== *)
theory Keys
  imports Prelude
begin

text \<open>
  The keys of the key-value store, as the formatting helpers of \<^verbatim>\<open>src/kvbfs.h\<close>,
  \<^verbatim>\<open>src/version.h\<close> and the format strings of \<^verbatim>\<open>src/mem.c\<close> and \<^verbatim>\<open>src/llm.c\<close> build them.
  The type \<open>key\<close> is the abstract name space (what a key is about); \<open>encode\<close> is its image
  under the helpers. The lemmas show that no two names share a key and that a prefix scan finds
  the entries of one inode only.
\<close>

definition KVBFS_BLOCK_SIZE :: nat where "KVBFS_BLOCK_SIZE = 4096"
definition KVBFS_MAGIC :: nat where "KVBFS_MAGIC = 0x4B564246"
definition KVBFS_VERSION :: nat where "KVBFS_VERSION = 1"
definition KVBFS_ROOT_INO :: nat where "KVBFS_ROOT_INO = 1"
definition KVBFS_KEY_MAX :: nat where "KVBFS_KEY_MAX = 512"
definition KVBFS_KEY_SUPER :: string where "KVBFS_KEY_SUPER = ''sb''"

section \<open>Formatting helpers\<close>

definition kvbfs_key_inode :: "nat \<Rightarrow> string" where
  "kvbfs_key_inode ino = ''i:'' @ dec ino"

text \<open>The helpers that take a name give an error (\<^verbatim>\<open>-1\<close>) when the text does not fit.\<close>

definition kvbfs_key_dirent :: "nat \<Rightarrow> nat \<Rightarrow> string \<Rightarrow> string option" where
  "kvbfs_key_dirent buflen parent name =
     (let k = ''d:'' @ dec parent @ '':'' @ name
      in if buflen \<le> length k then None else Some k)"

definition kvbfs_key_block :: "nat \<Rightarrow> nat \<Rightarrow> string" where
  "kvbfs_key_block ino block = ''b:'' @ dec ino @ '':'' @ dec block"

definition kvbfs_key_dirent_prefix :: "nat \<Rightarrow> string" where
  "kvbfs_key_dirent_prefix parent = ''d:'' @ dec parent @ '':''"

definition kvbfs_key_xattr :: "nat \<Rightarrow> nat \<Rightarrow> string \<Rightarrow> string option" where
  "kvbfs_key_xattr buflen ino name =
     (let k = ''x:'' @ dec ino @ '':'' @ name
      in if buflen \<le> length k then None else Some k)"

definition kvbfs_key_xattr_prefix :: "nat \<Rightarrow> string" where
  "kvbfs_key_xattr_prefix ino = ''x:'' @ dec ino @ '':''"

definition kvbfs_key_version_counter :: "nat \<Rightarrow> string" where
  "kvbfs_key_version_counter ino = ''vc:'' @ dec ino"

definition kvbfs_key_version_meta :: "nat \<Rightarrow> nat \<Rightarrow> string" where
  "kvbfs_key_version_meta ino ver = ''vm:'' @ dec ino @ '':'' @ dec ver"

definition kvbfs_key_version_block :: "nat \<Rightarrow> nat \<Rightarrow> nat \<Rightarrow> string" where
  "kvbfs_key_version_block ino ver block =
     ''vb:'' @ dec ino @ '':'' @ dec ver @ '':'' @ dec block"

definition kvbfs_key_version_meta_prefix :: "nat \<Rightarrow> string" where
  "kvbfs_key_version_meta_prefix ino = ''vm:'' @ dec ino @ '':''"

definition kvbfs_key_version_block_prefix :: "nat \<Rightarrow> nat \<Rightarrow> string" where
  "kvbfs_key_version_block_prefix ino ver = ''vb:'' @ dec ino @ '':'' @ dec ver @ '':''"

text \<open>The keys of the embedding store.\<close>

definition mem_key_seq :: "nat \<Rightarrow> string" where
  "mem_key_seq ino = ''m:seq:'' @ dec ino"

definition mem_key_gen :: "nat \<Rightarrow> string" where
  "mem_key_gen ino = ''m:gen:'' @ dec ino"

definition mem_key_vec :: "nat \<Rightarrow> nat \<Rightarrow> string" where
  "mem_key_vec ino seq = ''m:v:'' @ dec ino @ '':'' @ dec seq"

definition mem_key_text :: "nat \<Rightarrow> nat \<Rightarrow> string" where
  "mem_key_text ino seq = ''m:t:'' @ dec ino @ '':'' @ dec seq"

definition mem_key_header :: "nat \<Rightarrow> nat \<Rightarrow> string" where
  "mem_key_header ino seq = ''m:h:'' @ dec ino @ '':'' @ dec seq"

definition mem_key_archive :: "nat \<Rightarrow> nat \<Rightarrow> nat \<Rightarrow> string" where
  "mem_key_archive ino gen i = ''m:a:'' @ dec ino @ '':'' @ dec gen @ '':'' @ dec i"

definition mem_key_summary :: "nat \<Rightarrow> nat \<Rightarrow> string" where
  "mem_key_summary ino gen = ''m:s:'' @ dec ino @ '':'' @ dec gen"

definition mem_key_summary_vec :: "nat \<Rightarrow> nat \<Rightarrow> string" where
  "mem_key_summary_vec ino gen = ''m:v:s:'' @ dec ino @ '':'' @ dec gen"

definition mem_prefix_vec :: "nat \<Rightarrow> string" where
  "mem_prefix_vec ino = ''m:v:'' @ dec ino @ '':''"

definition mem_prefix_text :: "nat \<Rightarrow> string" where
  "mem_prefix_text ino = ''m:t:'' @ dec ino @ '':''"

definition mem_prefix_header :: "nat \<Rightarrow> string" where
  "mem_prefix_header ino = ''m:h:'' @ dec ino @ '':''"

section \<open>The abstract name space\<close>

datatype key =
    KSuper
  | KInode nat
  | KDirent nat string
  | KBlock nat nat
  | KXattr nat string
  | KVerCounter nat
  | KVerMeta nat nat
  | KVerBlock nat nat nat
  | KMemSeq nat
  | KMemGen nat
  | KMemVec nat nat
  | KMemText nat nat
  | KMemHeader nat nat
  | KMemArchive nat nat nat
  | KMemSummary nat nat
  | KMemSummaryVec nat nat

fun encode :: "key \<Rightarrow> string" where
  "encode KSuper = KVBFS_KEY_SUPER"
| "encode (KInode ino) = kvbfs_key_inode ino"
| "encode (KDirent p name) = ''d:'' @ dec p @ '':'' @ name"
| "encode (KBlock ino b) = kvbfs_key_block ino b"
| "encode (KXattr ino name) = ''x:'' @ dec ino @ '':'' @ name"
| "encode (KVerCounter ino) = kvbfs_key_version_counter ino"
| "encode (KVerMeta ino v) = kvbfs_key_version_meta ino v"
| "encode (KVerBlock ino v b) = kvbfs_key_version_block ino v b"
| "encode (KMemSeq ino) = mem_key_seq ino"
| "encode (KMemGen ino) = mem_key_gen ino"
| "encode (KMemVec ino s) = mem_key_vec ino s"
| "encode (KMemText ino s) = mem_key_text ino s"
| "encode (KMemHeader ino s) = mem_key_header ino s"
| "encode (KMemArchive ino g i) = mem_key_archive ino g i"
| "encode (KMemSummary ino g) = mem_key_summary ino g"
| "encode (KMemSummaryVec ino g) = mem_key_summary_vec ino g"

lemmas key_defs =
  KVBFS_KEY_SUPER_def kvbfs_key_inode_def kvbfs_key_block_def
  kvbfs_key_version_counter_def kvbfs_key_version_meta_def kvbfs_key_version_block_def
  mem_key_seq_def mem_key_gen_def mem_key_vec_def mem_key_text_def mem_key_header_def
  mem_key_archive_def mem_key_summary_def mem_key_summary_vec_def

lemmas prefix_defs =
  kvbfs_key_dirent_prefix_def kvbfs_key_xattr_prefix_def kvbfs_key_version_meta_prefix_def
  kvbfs_key_version_block_prefix_def mem_prefix_vec_def mem_prefix_text_def mem_prefix_header_def

text \<open>The letter in \<open>m:v:s:\<close> keeps summary vectors apart from the vectors of an inode.\<close>

lemma dec_neq_s [key_simps]: "dec m @ xs \<noteq> CHR ''s'' # ys" "CHR ''s'' # ys \<noteq> dec m @ xs"
proof -
  obtain c cs where c: "dec m = c # cs" by (cases "dec m") auto
  with dec_digits [of c m] have "c \<noteq> CHR ''s''" by (auto simp: is_digit_def)
  with c show "dec m @ xs \<noteq> CHR ''s'' # ys" "CHR ''s'' # ys \<noteq> dec m @ xs" by auto
qed

lemma dec_not_prefix_s [key_simps]: "\<not> prefix (dec m @ xs) (CHR ''s'' # ys)"
  by (metis Cons_prefix_Cons append_Nil2 dec_neq_s(1) prefix_Cons append_is_Nil_conv dec_nonempty)

lemma encode_inject [simp]: "encode k = encode k' \<longleftrightarrow> k = k'"
  by (cases k; cases k'; simp add: key_defs key_simps)

lemma kvbfs_key_dirent_Some:
  "kvbfs_key_dirent n p name = Some k \<longleftrightarrow> k = encode (KDirent p name) \<and> length k < n"
  by (auto simp: kvbfs_key_dirent_def Let_def)

lemma kvbfs_key_xattr_Some:
  "kvbfs_key_xattr n ino name = Some k \<longleftrightarrow> k = encode (KXattr ino name) \<and> length k < n"
  by (auto simp: kvbfs_key_xattr_def Let_def)

text \<open>A key helper result as an \<open>encode\<close> term, the normal form of the store lemmas.\<close>

lemmas key_fold = encode.simps(1,2,4,6-16) [symmetric]

section \<open>Prefix scans\<close>

lemma dirent_prefix_iff:
  "prefix (kvbfs_key_dirent_prefix p) (encode k) \<longleftrightarrow> (\<exists>name. k = KDirent p name)"
  by (cases k) (auto simp: key_defs prefix_defs key_simps)

lemma xattr_prefix_iff:
  "prefix (kvbfs_key_xattr_prefix i) (encode k) \<longleftrightarrow> (\<exists>name. k = KXattr i name)"
  by (cases k) (auto simp: key_defs prefix_defs key_simps)

lemma version_meta_prefix_iff:
  "prefix (kvbfs_key_version_meta_prefix i) (encode k) \<longleftrightarrow> (\<exists>v. k = KVerMeta i v)"
  by (cases k) (auto simp: key_defs prefix_defs key_simps)

lemma version_block_prefix_iff:
  "prefix (kvbfs_key_version_block_prefix i v) (encode k) \<longleftrightarrow> (\<exists>b. k = KVerBlock i v b)"
  by (cases k) (auto simp: key_defs prefix_defs key_simps)

lemma mem_vec_prefix_iff:
  "prefix (mem_prefix_vec i) (encode k) \<longleftrightarrow> (\<exists>s. k = KMemVec i s)"
  by (cases k) (auto simp: key_defs prefix_defs key_simps)

lemma mem_text_prefix_iff:
  "prefix (mem_prefix_text i) (encode k) \<longleftrightarrow> (\<exists>s. k = KMemText i s)"
  by (cases k) (auto simp: key_defs prefix_defs key_simps)

lemma mem_header_prefix_iff:
  "prefix (mem_prefix_header i) (encode k) \<longleftrightarrow> (\<exists>s. k = KMemHeader i s)"
  by (cases k) (auto simp: key_defs prefix_defs key_simps)

lemmas prefix_iffs =
  dirent_prefix_iff xattr_prefix_iff version_meta_prefix_iff version_block_prefix_iff
  mem_vec_prefix_iff mem_text_prefix_iff mem_header_prefix_iff

text \<open>The name behind a directory or attribute prefix, as the listing loops cut it out.\<close>

lemma drop_dirent_prefix [simp]:
  "drop (length (kvbfs_key_dirent_prefix p)) (encode (KDirent p name)) = name"
  by (simp add: prefix_defs)

lemma drop_xattr_prefix [simp]:
  "drop (length (kvbfs_key_xattr_prefix p)) (encode (KXattr p name)) = name"
  by (simp add: prefix_defs)

lemma drop_version_meta_prefix [simp]:
  "drop (length (kvbfs_key_version_meta_prefix p)) (encode (KVerMeta p v)) = dec v"
  by (simp add: prefix_defs key_defs)

text \<open>The fixed buffers (64 and 96 bytes) of the callers hold every key of 64-bit numbers.\<close>

lemma key_block_fits:
  assumes "ino < 18446744073709551616" "b < 18446744073709551616"
  shows "length (kvbfs_key_block ino b) < 64"
  using length_dec_u64 [OF assms(1)] length_dec_u64 [OF assms(2)] by (simp add: key_defs)

lemma key_version_block_fits:
  assumes "ino < 18446744073709551616" "v < 18446744073709551616" "b < 18446744073709551616"
  shows "length (kvbfs_key_version_block ino v b) < 96"
  using length_dec_u64 [OF assms(1)] length_dec_u64 [OF assms(2)] length_dec_u64 [OF assms(3)]
  by (simp add: key_defs)

section \<open>Properties\<close>

text \<open>
  C34. No two names of the program share a key: superblock, inode, directory entry, data block,
  attribute, version counter, version metadata, version block and the memory keys never collide,
  whatever the inode numbers, block numbers and names (names may contain colons and digits).
\<close>

theorem keys_never_collide: "inj encode"
  by (rule injI) simp

text \<open>
  A directory scan with the prefix of one directory meets exactly the keys of that
  directory's own entries: inode 1 never lists the entries of inode 10, and no block, inode,
  attribute or version key is mistaken for an entry.
\<close>

theorem dirent_scan_exact:
  "{k. prefix (kvbfs_key_dirent_prefix p) (encode k)} = range (KDirent p)"
  by (auto simp: dirent_prefix_iff)

end
