(* ===== verification/KvStore.thy ===== *)
theory KvStore
  imports Keys
begin

text \<open>
  The storage interface of \<^verbatim>\<open>src/kv_store.h\<close>. The file system reaches its backend only
  through these functions, so the model takes them as a record of operations; the contract they
  promise is a locale, and everything the file system proves about storage is proved once in it.
  An iterator is what it enumerates: the entries with the prefix at the time it was opened, in
  key order (both backends iterate over a snapshot).
\<close>

record 's kv_ops =
  kv_get :: "'s \<Rightarrow> string \<Rightarrow> bytes option"
  kv_put :: "'s \<Rightarrow> string \<Rightarrow> bytes \<Rightarrow> bool \<times> 's"
  kv_delete :: "'s \<Rightarrow> string \<Rightarrow> bool \<times> 's"
  kv_iter :: "'s \<Rightarrow> string \<Rightarrow> (string \<times> bytes) list"

text \<open>
  The clean-up loop of \<^verbatim>\<open>xattr_delete_all\<close>, \<^verbatim>\<open>version_delete_one\<close> and
  \<^verbatim>\<open>mem_delete_embeddings\<close>: delete every key the iterator yields, ignoring the results.
\<close>

fun kv_delete_keys :: "'s kv_ops \<Rightarrow> 's \<Rightarrow> string list \<Rightarrow> 's" where
  "kv_delete_keys K s [] = s"
| "kv_delete_keys K s (k # ks) = kv_delete_keys K (snd (kv_delete K s k)) ks"

definition kv_delete_prefix :: "'s kv_ops \<Rightarrow> 's \<Rightarrow> string \<Rightarrow> 's" where
  "kv_delete_prefix K s p = kv_delete_keys K s (map fst (kv_iter K s p))"

section \<open>The contract\<close>

text \<open>
  What a backend promises: a read gives the stored value; a write or a deletion that reports
  success has happened, one that reports failure has left the contents alone; a scan lists the
  entries with the prefix, each once, in byte order of the keys.
\<close>

locale kv_store =
  fixes K :: "'s kv_ops"
    and contents :: "'s \<Rightarrow> string \<Rightarrow> bytes option"
  assumes get: "kv_get K s k = contents s k"
    and put_ok: "kv_put K s k v = (True, s') \<Longrightarrow> contents s' = (contents s)(k \<mapsto> v)"
    and put_err: "kv_put K s k v = (False, s') \<Longrightarrow> contents s' = contents s"
    and delete_ok: "kv_delete K s k = (True, s') \<Longrightarrow> contents s' = (contents s)(k := None)"
    and delete_err: "kv_delete K s k = (False, s') \<Longrightarrow> contents s' = contents s"
    and iter_set: "set (kv_iter K s p) = {(k, v). contents s k = Some v \<and> prefix p k}"
    and iter_sorted: "sorted_wrt (<) (map fst (kv_iter K s p))"
begin

lemma put_cases:
  obtains (ok) s' where "kv_put K s k v = (True, s')" "contents s' = (contents s)(k \<mapsto> v)"
  | (err) s' where "kv_put K s k v = (False, s')" "contents s' = contents s"
proof -
  obtain b t where "kv_put K s k v = (b, t)" by fastforce
  then show thesis using that put_ok [of s k v t] put_err [of s k v t] by (cases b) simp_all
qed

lemma delete_cases:
  obtains (ok) s' where "kv_delete K s k = (True, s')" "contents s' = (contents s)(k := None)"
  | (err) s' where "kv_delete K s k = (False, s')" "contents s' = contents s"
proof -
  obtain b t where "kv_delete K s k = (b, t)" by fastforce
  then show thesis using that delete_ok [of s k t] delete_err [of s k t] by (cases b) simp_all
qed

lemma put_frame: "k' \<noteq> k \<Longrightarrow> contents (snd (kv_put K s k v)) k' = contents s k'"
  by (cases rule: put_cases [of s k v]) simp_all

lemma delete_frame: "k' \<noteq> k \<Longrightarrow> contents (snd (kv_delete K s k)) k' = contents s k'"
  by (cases rule: delete_cases [of s k]) simp_all

lemma delete_None: "contents s k = None \<Longrightarrow> contents (snd (kv_delete K s k)) = contents s"
  by (cases rule: delete_cases [of s k]) auto

lemma iter_mem: "(k, v) \<in> set (kv_iter K s p) \<longleftrightarrow> contents s k = Some v \<and> prefix p k"
  by (simp add: iter_set)

lemma iter_distinct: "distinct (map fst (kv_iter K s p))"
  using iter_sorted [of s p] strict_sorted_iff by blast

lemma iter_Nil: "kv_iter K s p = [] \<longleftrightarrow> (\<forall>k. prefix p k \<longrightarrow> contents s k = None)"
proof -
  have "kv_iter K s p = [] \<longleftrightarrow> set (kv_iter K s p) = {}" by simp
  also have "\<dots> \<longleftrightarrow> (\<forall>k. prefix p k \<longrightarrow> contents s k = None)"
    by (auto simp: iter_set)
  finally show ?thesis .
qed

lemma delete_keys_frame: "k \<notin> set ks \<Longrightarrow> contents (kv_delete_keys K s ks) k = contents s k"
  by (induction ks arbitrary: s) (auto simp: delete_frame)

lemma delete_prefix_frame: "\<not> prefix p k \<Longrightarrow> contents (kv_delete_prefix K s p) k = contents s k"
  unfolding kv_delete_prefix_def by (rule delete_keys_frame) (auto simp: iter_set)

text \<open>Two scans of stores with the same entries under the prefix are the same list.\<close>

lemma iter_from_keys:
  "kv_iter K s p = map (\<lambda>k. (k, the (contents s k))) (map fst (kv_iter K s p))"
proof -
  have "map (\<lambda>e. (fst e, the (contents s (fst e)))) (kv_iter K s p) = kv_iter K s p"
    by (rule map_idI) (auto simp: iter_set)
  then show ?thesis by (simp add: comp_def)
qed

lemma iter_cong:
  assumes "\<And>k. prefix p k \<Longrightarrow> contents s k = contents t k"
  shows "kv_iter K s p = kv_iter K t p"
proof -
  have "set (kv_iter K s p) = set (kv_iter K t p)"
    using assms by (auto simp: iter_set)
  then have "set (map fst (kv_iter K s p)) = set (map fst (kv_iter K t p))"
    by simp
  then have keys: "map fst (kv_iter K s p) = map fst (kv_iter K t p)"
    using iter_sorted [of s p] iter_sorted [of t p] strict_sorted_equal by blast
  have "kv_iter K s p = map (\<lambda>k. (k, the (contents s k))) (map fst (kv_iter K t p))"
    using iter_from_keys [of s p] unfolding keys .
  also have "\<dots> = map (\<lambda>k. (k, the (contents t k))) (map fst (kv_iter K t p))"
    using assms by (auto simp: iter_set)
  finally show ?thesis using iter_from_keys [of t p] by simp
qed

end

text \<open>A backend that is also live: it never refuses a write or a deletion.\<close>

locale kv_store_live = kv_store +
  assumes put_live: "fst (kv_put K s k v)"
    and delete_live: "fst (kv_delete K s k)"
begin

lemma put [simp]: "contents (snd (kv_put K s k v)) = (contents s)(k \<mapsto> v)"
  using put_ok [of s k v "snd (kv_put K s k v)"] put_live [of s k v]
  by (cases "kv_put K s k v") simp

lemma delete [simp]: "contents (snd (kv_delete K s k)) = (contents s)(k := None)"
  using delete_ok [of s k "snd (kv_delete K s k)"] delete_live [of s k]
  by (cases "kv_delete K s k") simp

lemma put_eq: "kv_put K s k v = (b, s') \<Longrightarrow> b \<and> contents s' = (contents s)(k \<mapsto> v)"
  using put_live [of s k v] put [of s k v] by simp

lemma delete_eq: "kv_delete K s k = (b, s') \<Longrightarrow> b \<and> contents s' = (contents s)(k := None)"
  using delete_live [of s k] delete [of s k] by simp

lemma delete_keys:
  "contents (kv_delete_keys K s ks) = (\<lambda>k. if k \<in> set ks then None else contents s k)"
  by (induction ks arbitrary: s) auto

lemma delete_prefix:
  "contents (kv_delete_prefix K s p) = (\<lambda>k. if prefix p k then None else contents s k)"
proof
  fix k
  show "contents (kv_delete_prefix K s p) k = (if prefix p k then None else contents s k)"
  proof (cases "k \<in> fst ` set (kv_iter K s p)")
    case True
    then have "prefix p k" by (auto simp: iter_set)
    with True show ?thesis by (simp add: kv_delete_prefix_def delete_keys)
  next
    case False
    have "contents s k = None" if "prefix p k"
      using False that by (force simp: iter_set image_iff)
    with False show ?thesis by (simp add: kv_delete_prefix_def delete_keys)
  qed
qed

end

end
