(* ===== verification/KvMem.thy ===== *)
theory KvMem
  imports KvStore "HOL-Library.DAList"
begin

text \<open>
  The in-memory store of the NVMe simulator, \<^verbatim>\<open>sim/kv_mem.c\<close>: a uthash table of key-value
  pairs. The table is an association list with distinct keys in insertion order, the order
  \<^verbatim>\<open>HASH_ITER\<close> walks; replacing a value keeps the entry's place. A prefix query copies the
  matching entries and sorts them with \<^verbatim>\<open>entry_cmp\<close>. Allocation never fails in the model, so
  the \<^verbatim>\<open>-1\<close> of an exhausted heap has no branch.
\<close>

section \<open>Operations\<close>

type_synonym kv_mem = "(string, bytes) alist"

definition kv_mem_create :: kv_mem where
  "kv_mem_create = DAList.empty"

definition kv_mem_store :: "kv_mem \<Rightarrow> string \<Rightarrow> bytes \<Rightarrow> bool \<times> kv_mem" where
  "kv_mem_store mem k v = (True, DAList.update k v mem)"

definition kv_mem_retrieve :: "kv_mem \<Rightarrow> string \<Rightarrow> bytes option" where
  "kv_mem_retrieve mem k = DAList.lookup mem k"

text \<open>Deletion is idempotent: an absent key is a success.\<close>

definition kv_mem_delete :: "kv_mem \<Rightarrow> string \<Rightarrow> bool \<times> kv_mem" where
  "kv_mem_delete mem k = (True, DAList.delete k mem)"

definition kv_mem_exist :: "kv_mem \<Rightarrow> string \<Rightarrow> bool" where
  "kv_mem_exist mem k \<longleftrightarrow> DAList.lookup mem k \<noteq> None"

text \<open>\<^verbatim>\<open>memcmp\<close> on the first \<open>n\<close> bytes: the sign of the first difference of unsigned bytes.\<close>

fun memcmp :: "nat \<Rightarrow> string \<Rightarrow> string \<Rightarrow> int" where
  "memcmp (Suc n) (a # as) (b # bs) =
     (if a = b then memcmp n as bs else int (of_char a) - int (of_char b))"
| "memcmp _ _ _ = 0"

definition entry_cmp :: "string \<times> bytes \<Rightarrow> string \<times> bytes \<Rightarrow> int" where
  "entry_cmp ea eb =
     (let min_len = (if length (fst ea) < length (fst eb) then length (fst ea) else length (fst eb));
          rc = memcmp min_len (fst ea) (fst eb)
      in if rc \<noteq> 0 then rc
         else if length (fst ea) < length (fst eb) then - 1
         else if length (fst ea) > length (fst eb) then 1
         else 0)"

text \<open>
  \<^verbatim>\<open>qsort\<close> with a comparison function. The keys of a result are distinct, so the sorted order is
  unique and any sorting method gives it.
\<close>

fun insert_by :: "('a \<Rightarrow> 'a \<Rightarrow> int) \<Rightarrow> 'a \<Rightarrow> 'a list \<Rightarrow> 'a list" where
  "insert_by cmp x [] = [x]"
| "insert_by cmp x (y # ys) = (if cmp x y \<le> 0 then x # y # ys else y # insert_by cmp x ys)"

definition qsort_by :: "('a \<Rightarrow> 'a \<Rightarrow> int) \<Rightarrow> 'a list \<Rightarrow> 'a list" where
  "qsort_by cmp xs = foldr (insert_by cmp) xs []"

definition kv_mem_list_prefix :: "kv_mem \<Rightarrow> string \<Rightarrow> (string \<times> bytes) list" where
  "kv_mem_list_prefix mem p =
     qsort_by entry_cmp
       (filter (\<lambda>e. length p \<le> length (fst e) \<and> memcmp (length p) (fst e) p = 0)
         (DAList.impl_of mem))"

text \<open>The simulator's store as a backend, and its contents.\<close>

definition mem_ops :: "kv_mem kv_ops" where
  "mem_ops = \<lparr>kv_get = kv_mem_retrieve, kv_put = kv_mem_store, kv_delete = kv_mem_delete,
     kv_iter = kv_mem_list_prefix\<rparr>"

lemma mem_ops_sel [simp]:
  "kv_get mem_ops = kv_mem_retrieve" "kv_put mem_ops = kv_mem_store"
  "kv_delete mem_ops = kv_mem_delete" "kv_iter mem_ops = kv_mem_list_prefix"
  by (simp_all add: mem_ops_def)

section \<open>Comparison and sorting\<close>

lemma memcmp_prefix: "length p \<le> length k \<Longrightarrow> memcmp (length p) k p = 0 \<longleftrightarrow> prefix p k"
proof (induction p arbitrary: k)
  case Nil
  then show ?case by (cases k) auto
next
  case (Cons a p)
  then show ?case by (cases k) auto
qed

lemma entry_cmp_neg: "entry_cmp a b < 0 \<longleftrightarrow> fst a < fst b"
proof -
  have "(memcmp (min (length x) (length y)) x y < 0 \<or>
         memcmp (min (length x) (length y)) x y = 0 \<and> length x < length y) = (x < y)" for x y
  proof (induction x arbitrary: y)
    case Nil
    then show ?case by (cases y) auto
  next
    case (Cons c x)
    then show ?case by (cases y) (auto simp: less_char_def)
  qed
  from this [of "fst a" "fst b"] show ?thesis
    by (auto simp: entry_cmp_def Let_def min_def split: if_splits)
qed

lemma entry_cmp_pos: "entry_cmp a b > 0 \<longleftrightarrow> fst b < fst a"
proof -
  have "(memcmp (min (length x) (length y)) x y > 0 \<or>
         memcmp (min (length x) (length y)) x y = 0 \<and> length x > length y) = (y < x)" for x y
  proof (induction x arbitrary: y)
    case Nil
    then show ?case by (cases y) auto
  next
    case (Cons c x)
    then show ?case by (cases y) (auto simp: less_char_def)
  qed
  from this [of "fst a" "fst b"] show ?thesis
    by (auto simp: entry_cmp_def Let_def min_def split: if_splits)
qed

lemma set_insert_by [simp]: "set (insert_by cmp x ys) = insert x (set ys)"
  by (induction ys) auto

lemma set_qsort_by [simp]: "set (qsort_by cmp xs) = set xs"
  by (induction xs) (auto simp: qsort_by_def)

lemma sorted_insert_by:
  assumes "sorted_wrt (\<lambda>a b. fst a < fst b) ys" "fst x \<notin> fst ` set ys"
  shows "sorted_wrt (\<lambda>a b. fst a < fst b) (insert_by entry_cmp x ys)"
  using assms
proof (induction ys)
  case Nil
  then show ?case by simp
next
  case (Cons y ys)
  have "\<not> fst x < fst y \<Longrightarrow> fst y < fst x" using Cons.prems(2) by auto
  with Cons show ?case
    using entry_cmp_pos [of x y] by (auto simp: not_less intro: less_trans)
qed

lemma sorted_qsort_by:
  "distinct (map fst xs) \<Longrightarrow> sorted_wrt (\<lambda>a b. fst a < fst b) (qsort_by entry_cmp xs)"
proof (induction xs)
  case Nil
  then show ?case by (simp add: qsort_by_def)
next
  case (Cons x xs)
  then have "sorted_wrt (\<lambda>a b. fst a < fst b) (qsort_by entry_cmp xs)"
    and "fst x \<notin> fst ` set (qsort_by entry_cmp xs)" by auto
  then show ?case by (simp add: qsort_by_def sorted_insert_by)
qed

section \<open>The contract holds\<close>

lemma set_list_prefix:
  "set (kv_mem_list_prefix mem p) = {(k, v). DAList.lookup mem k = Some v \<and> prefix p k}"
proof -
  have cmp: "length p \<le> length k \<and> memcmp (length p) k p = 0 \<longleftrightarrow> prefix p k" for k
    using memcmp_prefix [of p k] prefix_length_le [of p k] by blast
  have "map_of (DAList.impl_of mem) k = Some v \<longleftrightarrow> (k, v) \<in> set (DAList.impl_of mem)" for k v
    using impl_of [of mem] by (simp add: map_of_eq_Some_iff)
  then show ?thesis
    by (auto simp: kv_mem_list_prefix_def DAList.lookup.rep_eq cmp)
qed

lemma sorted_list_prefix: "sorted_wrt (<) (map fst (kv_mem_list_prefix mem p))"
  unfolding kv_mem_list_prefix_def sorted_wrt_map
  by (rule sorted_qsort_by) (rule distinct_map_filter, simp)

interpretation mem: kv_store_live mem_ops DAList.lookup
proof
  fix s s' k v p
  show "kv_get mem_ops s k = DAList.lookup s k"
    by (simp add: kv_mem_retrieve_def)
  show "kv_put mem_ops s k v = (True, s') \<Longrightarrow> DAList.lookup s' = (DAList.lookup s)(k \<mapsto> v)"
    by (auto simp: kv_mem_store_def)
  show "kv_put mem_ops s k v = (False, s') \<Longrightarrow> DAList.lookup s' = DAList.lookup s"
    by (simp add: kv_mem_store_def)
  show "kv_delete mem_ops s k = (True, s') \<Longrightarrow> DAList.lookup s' = (DAList.lookup s)(k := None)"
    by (auto simp: kv_mem_delete_def DAList.lookup_delete DAList.lookup_update)
  show "kv_delete mem_ops s k = (False, s') \<Longrightarrow> DAList.lookup s' = DAList.lookup s"
    by (simp add: kv_mem_delete_def)
  show "set (kv_iter mem_ops s p) = {(k, v). DAList.lookup s k = Some v \<and> prefix p k}"
    by (simp add: set_list_prefix)
  show "sorted_wrt (<) (map fst (kv_iter mem_ops s p))"
    by (simp add: sorted_list_prefix)
  show "fst (kv_put mem_ops s k v)" "fst (kv_delete mem_ops s k)"
    by (simp_all add: kv_mem_store_def kv_mem_delete_def)
qed

section \<open>Properties\<close>

text \<open>
  A prefix query of the simulator's store returns every stored entry whose key starts with
  the prefix and no other, each once, in strictly increasing byte order of the keys.
\<close>

theorem list_prefix_complete_sorted:
  "set (kv_mem_list_prefix mem p) = {(k, v). kv_mem_retrieve mem k = Some v \<and> prefix p k} \<and>
   sorted_wrt (<) (map fst (kv_mem_list_prefix mem p))"
  using set_list_prefix sorted_list_prefix by (auto simp: kv_mem_retrieve_def)

text \<open>
  The store is a map: after a store the key reads back as the new value and every other key
  as before; after a deletion the key is absent and every other key as before.
\<close>

theorem kv_mem_is_map:
  "kv_mem_retrieve (snd (kv_mem_store mem k v)) k' =
     (if k' = k then Some v else kv_mem_retrieve mem k') \<and>
   kv_mem_retrieve (snd (kv_mem_delete mem k)) k' =
     (if k' = k then None else kv_mem_retrieve mem k') \<and>
   kv_mem_exist mem k = (kv_mem_retrieve mem k \<noteq> None)"
  by (simp add: kv_mem_retrieve_def kv_mem_store_def kv_mem_delete_def kv_mem_exist_def
      DAList.lookup_delete DAList.lookup_update)

end
