(* ===== verification/Structs.thy ===== *)
theory Structs
  imports Keys
begin

unbundle bit_operations_syntax

text \<open>
  The structures of \<^verbatim>\<open>src/kvbfs.h\<close> and \<^verbatim>\<open>src/version.h\<close> and their images in the store.
  The program writes a structure with \<^verbatim>\<open>memcpy\<close>, so its image is the concatenation of the
  fields in declaration order, least significant byte first (x86-64 and AArch64; the structures
  have no padding). Unsigned fields are naturals below the field's width; a \<^verbatim>\<open>time_t\<close> or
  nanosecond count is its 64-bit pattern.
\<close>

section \<open>Structures\<close>

record timespec =
  tv_sec :: nat
  tv_nsec :: nat

record kvbfs_super =
  s_magic :: nat
  s_version :: nat
  s_next_ino :: nat

record kvbfs_inode =
  i_ino :: nat
  i_mode :: nat
  i_nlink :: nat
  i_size :: nat
  i_blocks :: nat
  i_atime :: timespec
  i_mtime :: timespec
  i_ctime :: timespec

record kvbfs_version_meta =
  m_size :: nat
  m_blocks :: nat
  m_mtime :: timespec

definition timespec0 :: timespec where
  "timespec0 = \<lparr>tv_sec = 0, tv_nsec = 0\<rparr>"

section \<open>Memory images\<close>

definition field :: "nat \<Rightarrow> nat \<Rightarrow> bytes \<Rightarrow> nat" where
  "field off n bs = le_val (take n (drop off bs))"

definition timespec_bytes :: "timespec \<Rightarrow> bytes" where
  "timespec_bytes t = le_bytes 8 (tv_sec t) @ le_bytes 8 (tv_nsec t)"

definition timespec_at :: "nat \<Rightarrow> bytes \<Rightarrow> timespec" where
  "timespec_at off bs = \<lparr>tv_sec = field off 8 bs, tv_nsec = field (off + 8) 8 bs\<rparr>"

definition super_bytes :: "kvbfs_super \<Rightarrow> bytes" where
  "super_bytes s = le_bytes 4 (s_magic s) @ le_bytes 4 (s_version s) @ le_bytes 8 (s_next_ino s)"

definition super_of_bytes :: "bytes \<Rightarrow> kvbfs_super" where
  "super_of_bytes bs =
     \<lparr>s_magic = field 0 4 bs, s_version = field 4 4 bs, s_next_ino = field 8 8 bs\<rparr>"

definition inode_bytes :: "kvbfs_inode \<Rightarrow> bytes" where
  "inode_bytes i =
     le_bytes 8 (i_ino i) @ le_bytes 4 (i_mode i) @ le_bytes 4 (i_nlink i) @
     le_bytes 8 (i_size i) @ le_bytes 8 (i_blocks i) @
     timespec_bytes (i_atime i) @ timespec_bytes (i_mtime i) @ timespec_bytes (i_ctime i)"

definition inode_of_bytes :: "bytes \<Rightarrow> kvbfs_inode" where
  "inode_of_bytes bs =
     \<lparr>i_ino = field 0 8 bs, i_mode = field 8 4 bs, i_nlink = field 12 4 bs,
      i_size = field 16 8 bs, i_blocks = field 24 8 bs,
      i_atime = timespec_at 32 bs, i_mtime = timespec_at 48 bs, i_ctime = timespec_at 64 bs\<rparr>"

definition version_meta_bytes :: "kvbfs_version_meta \<Rightarrow> bytes" where
  "version_meta_bytes m =
     le_bytes 8 (m_size m) @ le_bytes 8 (m_blocks m) @ timespec_bytes (m_mtime m)"

definition version_meta_of_bytes :: "bytes \<Rightarrow> kvbfs_version_meta" where
  "version_meta_of_bytes bs =
     \<lparr>m_size = field 0 8 bs, m_blocks = field 8 8 bs, m_mtime = timespec_at 16 bs\<rparr>"

text \<open>\<^verbatim>\<open>sizeof\<close> of the structures and of a stored \<^verbatim>\<open>uint64_t\<close>.\<close>

definition SIZEOF_SUPER :: nat where "SIZEOF_SUPER = 16"
definition SIZEOF_INODE :: nat where "SIZEOF_INODE = 80"
definition SIZEOF_VERSION_META :: nat where "SIZEOF_VERSION_META = 32"
definition SIZEOF_U64 :: nat where "SIZEOF_U64 = 8"
definition SIZEOF_U32 :: nat where "SIZEOF_U32 = 4"

lemmas sizeof_defs =
  SIZEOF_SUPER_def SIZEOF_INODE_def SIZEOF_VERSION_META_def SIZEOF_U64_def SIZEOF_U32_def

section \<open>Values in range\<close>

definition wf_timespec :: "timespec \<Rightarrow> bool" where
  "wf_timespec t \<longleftrightarrow> tv_sec t < 18446744073709551616 \<and> tv_nsec t < 18446744073709551616"

definition wf_super :: "kvbfs_super \<Rightarrow> bool" where
  "wf_super s \<longleftrightarrow> s_magic s < 4294967296 \<and> s_version s < 4294967296 \<and>
     s_next_ino s < 18446744073709551616"

definition wf_inode :: "kvbfs_inode \<Rightarrow> bool" where
  "wf_inode i \<longleftrightarrow> i_ino i < 18446744073709551616 \<and> i_mode i < 4294967296 \<and>
     i_nlink i < 4294967296 \<and> i_size i < 18446744073709551616 \<and>
     i_blocks i < 18446744073709551616 \<and>
     wf_timespec (i_atime i) \<and> wf_timespec (i_mtime i) \<and> wf_timespec (i_ctime i)"

definition wf_version_meta :: "kvbfs_version_meta \<Rightarrow> bool" where
  "wf_version_meta m \<longleftrightarrow> m_size m < 18446744073709551616 \<and> m_blocks m < 18446744073709551616 \<and>
     wf_timespec (m_mtime m)"

lemmas wf_defs = wf_timespec_def wf_super_def wf_inode_def wf_version_meta_def

lemma length_timespec_bytes [simp]: "length (timespec_bytes t) = 16"
  by (simp add: timespec_bytes_def)

lemma length_super_bytes [simp]: "length (super_bytes s) = SIZEOF_SUPER"
  by (simp add: super_bytes_def sizeof_defs)

lemma length_inode_bytes [simp]: "length (inode_bytes i) = SIZEOF_INODE"
  by (simp add: inode_bytes_def sizeof_defs)

lemma length_version_meta_bytes [simp]: "length (version_meta_bytes m) = SIZEOF_VERSION_META"
  by (simp add: version_meta_bytes_def sizeof_defs)

lemma super_roundtrip [simp]: "wf_super s \<Longrightarrow> super_of_bytes (super_bytes s) = s"
  by (simp add: super_of_bytes_def super_bytes_def field_def wf_super_def)

lemma inode_roundtrip [simp]: "wf_inode i \<Longrightarrow> inode_of_bytes (inode_bytes i) = i"
  by (simp add: inode_of_bytes_def inode_bytes_def field_def timespec_at_def timespec_bytes_def
      wf_inode_def wf_timespec_def)

lemma version_meta_roundtrip [simp]:
  "wf_version_meta m \<Longrightarrow> version_meta_of_bytes (version_meta_bytes m) = m"
  by (simp add: version_meta_of_bytes_def version_meta_bytes_def field_def timespec_at_def
      timespec_bytes_def wf_version_meta_def wf_timespec_def)

section \<open>File types\<close>

definition S_IFMT :: nat where "S_IFMT = 0xF000"
definition S_IFDIR :: nat where "S_IFDIR = 0x4000"
definition S_IFREG :: nat where "S_IFREG = 0x8000"
definition S_IFLNK :: nat where "S_IFLNK = 0xA000"

definition S_ISDIR :: "nat \<Rightarrow> bool" where "S_ISDIR m \<longleftrightarrow> m AND S_IFMT = S_IFDIR"
definition S_ISREG :: "nat \<Rightarrow> bool" where "S_ISREG m \<longleftrightarrow> m AND S_IFMT = S_IFREG"
definition S_ISLNK :: "nat \<Rightarrow> bool" where "S_ISLNK m \<longleftrightarrow> m AND S_IFMT = S_IFLNK"

lemmas mode_defs = S_IFMT_def S_IFDIR_def S_IFREG_def S_IFLNK_def S_ISDIR_def S_ISREG_def S_ISLNK_def

lemma and_or_distrib_nat: "((a::nat) OR b) AND c = (a AND c) OR (b AND c)"
  by (rule bit_eqI) (auto simp: bit_simps)

lemma perm_bits_not_type [simp]: "(m AND 511) AND 61440 = (0::nat)"
  by (simp add: and.assoc)

text \<open>Permission bits never change the type: \<^verbatim>\<open>0777\<close> is 511.\<close>

lemma S_ISDIR_perm [simp]: "S_ISDIR (S_IFDIR OR (m AND 511))"
  by (simp add: mode_defs and_or_distrib_nat)

lemma S_ISREG_perm [simp]: "S_ISREG (S_IFREG OR (m AND 511))"
  by (simp add: mode_defs and_or_distrib_nat)

lemma S_ISDIR_reg_perm [simp]: "\<not> S_ISDIR (S_IFREG OR (m AND 511))"
  by (simp add: mode_defs and_or_distrib_nat)

lemma S_ISREG_dir_perm [simp]: "\<not> S_ISREG (S_IFDIR OR (m AND 511))"
  by (simp add: mode_defs and_or_distrib_nat)

lemma S_ISDIR_not_REG: "S_ISDIR m \<Longrightarrow> \<not> S_ISREG m"
  by (simp add: mode_defs)

lemma S_ISDIR_not_LNK: "S_ISDIR m \<Longrightarrow> \<not> S_ISLNK m"
  by (simp add: mode_defs)

text \<open>\<^verbatim>\<open>chmod\<close> keeps the type of the inode.\<close>

lemma and_fmt_chmod: "((m AND S_IFMT) OR (a AND 511)) AND S_IFMT = m AND S_IFMT"
  by (simp add: mode_defs and_or_distrib_nat and.assoc)

lemma and_le_nat: "(a::nat) AND b \<le> a"
proof -
  have "int (a AND b) \<le> int a" by (simp add: of_nat_and_eq)
  then show ?thesis by simp
qed

lemma and_less_u32: "(a::nat) < 4294967296 \<Longrightarrow> a AND b < 4294967296"
  using and_le_nat [of a b] by simp

section \<open>Properties\<close>

text \<open>
  The stored image of an inode, of the superblock and of a version's metadata reads back as
  the same structure, and has exactly the length the loaders check, when every field is in the
  range of its C type.
\<close>

theorem stored_images_roundtrip:
  assumes "wf_inode i" "wf_super s" "wf_version_meta m"
  shows "inode_of_bytes (inode_bytes i) = i \<and> length (inode_bytes i) = SIZEOF_INODE \<and>
    super_of_bytes (super_bytes s) = s \<and> length (super_bytes s) = SIZEOF_SUPER \<and>
    version_meta_of_bytes (version_meta_bytes m) = m \<and>
    length (version_meta_bytes m) = SIZEOF_VERSION_META"
  using assms by simp

theorem stored_images_roundtrip_witness:
  "inode_of_bytes (inode_bytes
      \<lparr>i_ino = 300, i_mode = 33188, i_nlink = 1, i_size = 70000, i_blocks = 18,
       i_atime = timespec0, i_mtime = timespec0, i_ctime = timespec0\<rparr>) =
    \<lparr>i_ino = 300, i_mode = 33188, i_nlink = 1, i_size = 70000, i_blocks = 18,
       i_atime = timespec0, i_mtime = timespec0, i_ctime = timespec0\<rparr>"
  using stored_images_roundtrip
    [of "\<lparr>i_ino = 300, i_mode = 33188, i_nlink = 1, i_size = 70000, i_blocks = 18,
       i_atime = timespec0, i_mtime = timespec0, i_ctime = timespec0\<rparr>"
      "\<lparr>s_magic = KVBFS_MAGIC, s_version = KVBFS_VERSION, s_next_ino = 2\<rparr>"
      "\<lparr>m_size = 70000, m_blocks = 18, m_mtime = timespec0\<rparr>"]
  by (simp add: wf_defs timespec0_def KVBFS_MAGIC_def KVBFS_VERSION_def)

end
