(* ===== verification/VTree.thy ===== *)
theory VTree
  imports Prelude "HOL-Library.DAList"
begin

text \<open>
  The virtual \<^verbatim>\<open>.versions\<close> tree of \<^verbatim>\<open>src/vfs_versions.c\<close>: numbers handed out for virtual
  directories and version files, a table of the nodes by number and a reverse table by the text
  \<^verbatim>\<open>"parent:name"\<close>, cut to the 79 characters the 80-byte buffer holds. The lemmas give the
  invariant of the two tables, and what the cut does to long names.
\<close>

section \<open>State and operations\<close>

definition AGENTFS_VERSIONS_INO :: nat where "AGENTFS_VERSIONS_INO = 0xFFFFFFFFFFFFFD"
definition AGENTFS_VERSIONS_NAME :: string where "AGENTFS_VERSIONS_NAME = ''.versions''"
definition AGENTFS_VDIR_BASE :: nat where "AGENTFS_VDIR_BASE = 0xC000000000000001"
definition VDIR_END :: nat where "VDIR_END = 0xD000000000000000"

record vtree_node =
  vn_vino :: nat
  vn_real_ino :: nat
  vn_is_version_file :: bool
  vn_version :: nat

record vtree_ctx =
  vt_by_ino :: "(nat, vtree_node) alist"
  vt_by_parent :: "(string, nat) alist"
  vt_next_vino :: nat

definition vtree_init :: vtree_ctx where
  "vtree_init = \<lparr>vt_by_ino = DAList.empty, vt_by_parent = DAList.empty,
     vt_next_vino = AGENTFS_VDIR_BASE\<rparr>"

text \<open>Both tables are emptied; the counter stays as it is.\<close>

definition vtree_destroy :: "vtree_ctx \<Rightarrow> vtree_ctx" where
  "vtree_destroy vt = vt\<lparr>vt_by_ino := DAList.empty, vt_by_parent := DAList.empty\<rparr>"

definition vtree_key :: "nat \<Rightarrow> string \<Rightarrow> string" where
  "vtree_key parent_vino name = take 79 (dec parent_vino @ '':'' @ name)"

text \<open>0 stands for "not cached".\<close>

definition vtree_lookup_child :: "vtree_ctx \<Rightarrow> nat \<Rightarrow> string \<Rightarrow> nat" where
  "vtree_lookup_child vt parent_vino name =
     (case DAList.lookup (vt_by_parent vt) (vtree_key parent_vino name) of
        Some vino \<Rightarrow> vino | None \<Rightarrow> 0)"

definition vtree_get :: "vtree_ctx \<Rightarrow> nat \<Rightarrow> vtree_node option" where
  "vtree_get vt vino = DAList.lookup (vt_by_ino vt) vino"

definition vtree_alloc ::
  "vtree_ctx \<Rightarrow> nat \<Rightarrow> string \<Rightarrow> nat \<Rightarrow> bool \<Rightarrow> nat \<Rightarrow> nat \<times> vtree_ctx" where
  "vtree_alloc vt parent_vino name real_ino is_version_file ver =
     (let key = vtree_key parent_vino name in
      case DAList.lookup (vt_by_parent vt) key of
        Some vino \<Rightarrow> (vino, vt)
      | None \<Rightarrow>
          let vino = vt_next_vino vt;
              n = \<lparr>vn_vino = vino, vn_real_ino = real_ino,
                   vn_is_version_file = is_version_file, vn_version = ver\<rparr>
          in (vino, vt\<lparr>vt_next_vino := u64 (vino + 1),
                       vt_by_ino := DAList.update vino n (vt_by_ino vt),
                       vt_by_parent := DAList.update key vino (vt_by_parent vt)\<rparr>))"

definition vtree_alloc_dir :: "vtree_ctx \<Rightarrow> nat \<Rightarrow> string \<Rightarrow> nat \<Rightarrow> nat \<times> vtree_ctx" where
  "vtree_alloc_dir vt parent_vino name real_ino = vtree_alloc vt parent_vino name real_ino False 0"

definition vtree_alloc_vfile ::
  "vtree_ctx \<Rightarrow> nat \<Rightarrow> string \<Rightarrow> nat \<Rightarrow> nat \<Rightarrow> nat \<times> vtree_ctx" where
  "vtree_alloc_vfile vt parent_vino name real_ino ver =
     vtree_alloc vt parent_vino name real_ino True ver"

definition vtree_is_vnode :: "nat \<Rightarrow> bool" where
  "vtree_is_vnode ino \<longleftrightarrow> AGENTFS_VDIR_BASE \<le> ino \<and> ino < VDIR_END"

lemmas vtree_consts =
  AGENTFS_VERSIONS_INO_def AGENTFS_VDIR_BASE_def VDIR_END_def

section \<open>The invariant of the tables\<close>

text \<open>
  Every number in the reverse table has a node, distinct texts have distinct numbers, every node
  carries its own number, and the counter is above all of them and inside the virtual range.
\<close>

definition vtree_inv :: "vtree_ctx \<Rightarrow> bool" where
  "vtree_inv vt \<longleftrightarrow>
     (\<forall>k v. DAList.lookup (vt_by_parent vt) k = Some v \<longrightarrow> vtree_get vt v \<noteq> None) \<and>
     (\<forall>k k' v. DAList.lookup (vt_by_parent vt) k = Some v \<longrightarrow>
        DAList.lookup (vt_by_parent vt) k' = Some v \<longrightarrow> k = k') \<and>
     (\<forall>v n. vtree_get vt v = Some n \<longrightarrow>
        vn_vino n = v \<and> AGENTFS_VDIR_BASE \<le> v \<and> v < vt_next_vino vt) \<and>
     AGENTFS_VDIR_BASE \<le> vt_next_vino vt \<and> vt_next_vino vt \<le> VDIR_END"

lemma vtree_inv_init: "vtree_inv vtree_init"
  by (simp add: vtree_inv_def vtree_init_def vtree_get_def vtree_consts)

lemma vtree_inv_fresh:
  "vtree_inv vt \<Longrightarrow> DAList.lookup (vt_by_parent vt) k \<noteq> Some (vt_next_vino vt)"
  unfolding vtree_inv_def by (metis less_irrefl option.exhaust)

lemma vtree_alloc_inv:
  assumes "vtree_inv vt" "vt_next_vino vt < VDIR_END"
  shows "vtree_inv (snd (vtree_alloc vt p name r f ver))"
proof (cases "DAList.lookup (vt_by_parent vt) (vtree_key p name)")
  case (Some v)
  with assms show ?thesis by (simp add: vtree_alloc_def Let_def)
next
  case None
  have n: "u64 (Suc (vt_next_vino vt)) = Suc (vt_next_vino vt)"
    using assms(2) by (intro u64_id) (simp add: vtree_consts)
  show ?thesis
    using None assms vtree_inv_fresh [OF assms(1)]
    by (auto simp: vtree_inv_def vtree_alloc_def vtree_get_def Let_def n
        DAList.lookup_update less_Suc_eq split: if_splits)
qed

lemma vtree_alloc_result:
  assumes "vtree_inv vt" "vt_next_vino vt < VDIR_END"
  shows "vtree_is_vnode (fst (vtree_alloc vt p name r f ver)) \<and>
    vtree_get (snd (vtree_alloc vt p name r f ver)) (fst (vtree_alloc vt p name r f ver)) \<noteq> None"
proof (cases "DAList.lookup (vt_by_parent vt) (vtree_key p name)")
  case (Some v)
  then have "vtree_get vt v \<noteq> None" using assms(1) unfolding vtree_inv_def by blast
  then have "AGENTFS_VDIR_BASE \<le> v \<and> v < VDIR_END"
    using assms unfolding vtree_inv_def by (meson dual_order.strict_trans1 not_None_eq order_less_trans)
  with Some \<open>vtree_get vt v \<noteq> None\<close> show ?thesis
    by (simp add: vtree_alloc_def vtree_is_vnode_def)
next
  case None
  with assms show ?thesis
    by (simp add: vtree_alloc_def vtree_is_vnode_def vtree_get_def vtree_inv_def Let_def)
qed

text \<open>The text of a short name is not cut, and then it determines parent and name.\<close>

definition vtree_name_fits :: "nat \<Rightarrow> string \<Rightarrow> bool" where
  "vtree_name_fits p name \<longleftrightarrow> length (dec p) + 1 + length name < 80"

lemma vtree_key_inj:
  assumes "vtree_name_fits p n" "vtree_name_fits q m"
  shows "vtree_key p n = vtree_key q m \<longleftrightarrow> p = q \<and> n = m"
  using assms by (auto simp: vtree_key_def vtree_name_fits_def key_simps)

section \<open>Sequences of allocations\<close>

text \<open>A request: parent, name, real inode, whether it is a version file, and the version.\<close>

record vtree_req =
  vr_parent :: nat
  vr_name :: string
  vr_real :: nat
  vr_file :: bool
  vr_version :: nat

definition vr_key :: "vtree_req \<Rightarrow> string" where
  "vr_key x = vtree_key (vr_parent x) (vr_name x)"

definition vr_node :: "nat \<Rightarrow> vtree_req \<Rightarrow> vtree_node" where
  "vr_node v x = \<lparr>vn_vino = v, vn_real_ino = vr_real x, vn_is_version_file = vr_file x, vn_version = vr_version x\<rparr>"

fun vtree_allocs :: "vtree_ctx \<Rightarrow> vtree_req list \<Rightarrow> nat list \<times> vtree_ctx" where
  "vtree_allocs vt [] = ([], vt)"
| "vtree_allocs vt (x # xs) =
     (let (v, vt1) = vtree_alloc vt (vr_parent x) (vr_name x) (vr_real x) (vr_file x) (vr_version x);
          (vs, vt2) = vtree_allocs vt1 xs
      in (v # vs, vt2))"

lemma vtree_allocs_snoc:
  "vtree_allocs vt (xs @ [x]) =
     (let (vs, vt1) = vtree_allocs vt xs;
          (v, vt2) = vtree_alloc vt1 (vr_parent x) (vr_name x) (vr_real x) (vr_file x) (vr_version x)
      in (vs @ [v], vt2))"
  by (induction xs arbitrary: vt) (simp_all add: split_beta Let_def)

text \<open>The first request of a list with the same text as a given one.\<close>

definition first_like :: "vtree_req list \<Rightarrow> string \<Rightarrow> vtree_req option" where
  "first_like xs k = find (\<lambda>x. vr_key x = k) xs"

lemma first_like_snoc:
  "first_like (xs @ [x]) k =
     (case first_like xs k of Some y \<Rightarrow> Some y | None \<Rightarrow> if vr_key x = k then Some x else None)"
  by (induction xs) (auto simp: first_like_def)

text \<open>
  The tables after the requests: each text seen has one number, whose node is the one of the first
  request with that text, and different texts have different numbers.
\<close>

definition tables_of :: "vtree_ctx \<Rightarrow> vtree_req list \<Rightarrow> nat list \<Rightarrow> bool" where
  "tables_of vt xs vs \<longleftrightarrow>
     vtree_inv vt \<and> vt_next_vino vt \<le> AGENTFS_VDIR_BASE + length xs \<and>
     list_all2 (\<lambda>x v. DAList.lookup (vt_by_parent vt) (vr_key x) = Some v) xs vs \<and>
     (\<forall>k. DAList.lookup (vt_by_parent vt) k = None \<longleftrightarrow> first_like xs k = None) \<and>
     (\<forall>k v. DAList.lookup (vt_by_parent vt) k = Some v \<longrightarrow>
        vtree_get vt v = map_option (vr_node v) (first_like xs k))"

lemma tables_of_init: "tables_of vtree_init [] []"
  by (simp add: tables_of_def vtree_inv_init) (simp add: vtree_init_def first_like_def)

lemma tables_of_alloc:
  assumes t: "tables_of vt xs vs" and b: "AGENTFS_VDIR_BASE + length xs < VDIR_END"
    and a: "vtree_alloc vt (vr_parent x) (vr_name x) (vr_real x) (vr_file x) (vr_version x) = (v, vt')"
  shows "tables_of vt' (xs @ [x]) (vs @ [v])"
proof -
  have inv: "vtree_inv vt" and nxt: "vt_next_vino vt \<le> AGENTFS_VDIR_BASE + length xs"
    using t by (simp_all add: tables_of_def)
  have inv': "vtree_inv vt'"
    using vtree_alloc_inv [OF inv] nxt b a by (metis le_less_trans snd_conv)
  show ?thesis
  proof (cases "DAList.lookup (vt_by_parent vt) (vr_key x)")
    case (Some w)
    then have "v = w" "vt' = vt" using a by (simp_all add: vtree_alloc_def vr_key_def)
    moreover have "first_like xs (vr_key x) \<noteq> None" using t Some unfolding tables_of_def by (metis option.distinct(1))
    then have "first_like (xs @ [x]) k = first_like xs k" for k
      by (cases "first_like xs k") (auto simp: first_like_snoc)
    ultimately show ?thesis
      using t Some by (simp add: tables_of_def list_all2_appendI)
  next
    case None
    have n: "u64 (Suc (vt_next_vino vt)) = Suc (vt_next_vino vt)"
      using nxt b by (intro u64_id) (simp add: vtree_consts)
    have v: "v = vt_next_vino vt" and vt': "vt' = vt\<lparr>vt_next_vino := Suc v, vt_by_ino := DAList.update v (vr_node v x) (vt_by_ino vt),
        vt_by_parent := DAList.update (vr_key x) v (vt_by_parent vt)\<rparr>"
      using a None n by (auto simp: vtree_alloc_def vr_key_def vr_node_def Let_def)
    have new: "first_like xs (vr_key x) = None" using t None by (simp add: tables_of_def)
    have la: "list_all2 (\<lambda>x w. DAList.lookup (vt_by_parent vt) (vr_key x) = Some w) xs vs"
      using t by (simp add: tables_of_def)
    have keep: "list_all2 (\<lambda>x w. DAList.lookup (vt_by_parent vt') (vr_key x) = Some w) xs vs"
      using la
    proof (rule list_all2_mono)
      fix y w assume y: "DAList.lookup (vt_by_parent vt) (vr_key y) = Some w"
      with None have "vr_key y \<noteq> vr_key x" by auto
      with y show "DAList.lookup (vt_by_parent vt') (vr_key y) = Some w" by (simp add: vt' DAList.lookup_update)
    qed
    have old: "w \<noteq> v" if "DAList.lookup (vt_by_parent vt) k = Some w" for k w
      using vtree_inv_fresh [OF inv, of k] that v by auto
    show ?thesis
      using t inv' nxt keep old new None
      by (auto simp: tables_of_def vt' v vtree_get_def DAList.lookup_update first_like_snoc list_all2_appendI
          split: option.splits)
  qed
qed

lemma tables_of_allocs:
  "AGENTFS_VDIR_BASE + length xs \<le> VDIR_END \<Longrightarrow>
   tables_of (snd (vtree_allocs vtree_init xs)) xs (fst (vtree_allocs vtree_init xs))"
proof (induction xs rule: rev_induct)
  case Nil
  then show ?case by (simp add: tables_of_init)
next
  case (snoc x xs)
  then have "tables_of (snd (vtree_allocs vtree_init xs)) xs (fst (vtree_allocs vtree_init xs))" by simp
  then show ?case
    using snoc.prems by (auto simp: vtree_allocs_snoc split_beta Let_def intro!: tables_of_alloc)
qed

section \<open>Property\<close>

text \<open>
  C39. Virtual numbers, exactly. After any sequence of allocations (fewer than the virtual range has
  numbers) two requests have the same number exactly when their texts \<^verbatim>\<open>"parent:name"\<close>, cut to 79
  characters, are equal, and the number's node is that of the first request with the text. For
  names that fit, this means the same parent and the same name; names that do not fit and agree on
  the characters kept are confused, so that the versions of one file are answered with another's.
\<close>

theorem vtree_numbers:
  assumes "AGENTFS_VDIR_BASE + length xs \<le> VDIR_END" "vtree_allocs vtree_init xs = (vs, vt)"
    and "i < length xs" "j < length xs"
  shows "(vs ! i = vs ! j \<longleftrightarrow> vtree_key (vr_parent (xs ! i)) (vr_name (xs ! i)) = vtree_key (vr_parent (xs ! j)) (vr_name (xs ! j))) \<and>
    (\<exists>y. first_like xs (vr_key (xs ! i)) = Some y \<and> vtree_get vt (vs ! i) = Some (vr_node (vs ! i) y)) \<and>
    (vtree_name_fits (vr_parent (xs ! i)) (vr_name (xs ! i)) \<and> vtree_name_fits (vr_parent (xs ! j)) (vr_name (xs ! j)) \<longrightarrow>
       (vs ! i = vs ! j \<longleftrightarrow> vr_parent (xs ! i) = vr_parent (xs ! j) \<and> vr_name (xs ! i) = vr_name (xs ! j)))"
proof -
  have t: "tables_of vt xs vs" using tables_of_allocs [OF assms(1)] assms(2) by simp
  have lk: "DAList.lookup (vt_by_parent vt) (vr_key (xs ! n)) = Some (vs ! n)" if "n < length xs" for n
    using t that by (auto simp: tables_of_def list_all2_conv_all_nth)
  have "vtree_inv vt" using t by (simp add: tables_of_def)
  then have eq: "vs ! i = vs ! j \<longleftrightarrow> vr_key (xs ! i) = vr_key (xs ! j)"
    using lk [OF assms(3)] lk [OF assms(4)] unfolding vtree_inv_def by (metis option.inject)
  have "first_like xs (vr_key (xs ! i)) \<noteq> None"
    using t lk [OF assms(3)] unfolding tables_of_def by (metis option.distinct(1))
  moreover have "vtree_get vt (vs ! i) = map_option (vr_node (vs ! i)) (first_like xs (vr_key (xs ! i)))"
    using t lk [OF assms(3)] by (auto simp: tables_of_def)
  ultimately show ?thesis using eq by (auto simp: vr_key_def vtree_key_inj)
qed

definition sample_reqs :: "vtree_req list" where
  "sample_reqs =
     [\<lparr>vr_parent = 7, vr_name = replicate 80 (CHR ''a'') @ ''1'', vr_real = 3, vr_file = False, vr_version = 0\<rparr>,
      \<lparr>vr_parent = 7, vr_name = ''b'', vr_real = 9, vr_file = True, vr_version = 5\<rparr>,
      \<lparr>vr_parent = 7, vr_name = replicate 80 (CHR ''a'') @ ''2'', vr_real = 4, vr_file = False, vr_version = 0\<rparr>]"

theorem vtree_numbers_witness:
  "let vs = fst (vtree_allocs vtree_init sample_reqs) in vs ! 0 = vs ! 2 \<and> vs ! 0 \<noteq> vs ! 1"
proof -
  obtain vs vt where r: "vtree_allocs vtree_init sample_reqs = (vs, vt)" by fastforce
  have len: "AGENTFS_VDIR_BASE + length sample_reqs \<le> VDIR_END"
    by (simp add: sample_reqs_def vtree_consts)
  have "dec 7 = ''7''" by code_simp
  then have "vtree_key 7 (replicate 80 (CHR ''a'') @ ''1'') = vtree_key 7 (replicate 80 (CHR ''a'') @ ''2'')"
    "vtree_key 7 (replicate 80 (CHR ''a'') @ ''1'') \<noteq> vtree_key 7 ''b''"
    by (auto simp: vtree_key_def take_Cons' dest: arg_cong [of _ _ length])
  with vtree_numbers [OF len r, of 0 2] vtree_numbers [OF len r, of 0 1] have "vs ! 0 = vs ! 2" "vs ! 0 \<noteq> vs ! 1"
    by (auto simp: sample_reqs_def)
  then show ?thesis by (simp add: r)
qed

end
