(* ===== verification/Events.thy ===== *)
theory Events
  imports Structs "HOL-Library.Multiset"
begin

text \<open>
  The change-event stream of \<^verbatim>\<open>src/events.c\<close> and the three handlers of \<^verbatim>\<open>src/fuse_ops.c\<close>
  that read it (open, read and poll of \<^verbatim>\<open>/.events\<close>). The ring is a function from the slot
  (a position modulo \<^verbatim>\<open>EVENTS_RING_SIZE\<close>) to its byte; \<^verbatim>\<open>None\<close> is the null pointer of a
  context that was never initialised. The FUSE calls on poll handles are recorded in order in
  \<open>ev_calls\<close>. The lemmas relate the ring to the whole stream of bytes ever written.
\<close>

section \<open>State\<close>

definition AGENTFS_EVENTS_INO :: nat where "AGENTFS_EVENTS_INO = 0xFFFFFFFFFFFFFE"
definition AGENTFS_EVENTS_NAME :: string where "AGENTFS_EVENTS_NAME = ''.events''"
definition EVENTS_RING_SIZE :: nat where "EVENTS_RING_SIZE = 262144"

datatype event_type =
    EVT_CREATE | EVT_WRITE | EVT_UNLINK | EVT_MKDIR | EVT_RMDIR | EVT_RENAME
  | EVT_SETATTR | EVT_SETXATTR | EVT_REMOVEXATTR | EVT_LINK

datatype ph_call = NotifyPoll nat | DestroyPoll nat

record events_ctx =
  ev_ring :: "(nat \<Rightarrow> char) option"
  ev_head :: nat
  ev_tail :: nat
  ev_seq :: nat
  ev_ph :: "nat option"
  ev_calls :: "ph_call list"

record events_fh =
  efh_start_seq :: nat
  efh_read_pos :: nat

definition newline :: char where "newline = CHR 0x0A"
definition dquote :: char where "dquote = CHR 0x22"
definition backslash :: char where "backslash = CHR 0x5C"

lemmas char_consts = newline_def dquote_def backslash_def NUL_def

section \<open>Operations\<close>

fun event_type_str :: "event_type \<Rightarrow> string" where
  "event_type_str EVT_CREATE = ''create''"
| "event_type_str EVT_WRITE = ''write''"
| "event_type_str EVT_UNLINK = ''unlink''"
| "event_type_str EVT_MKDIR = ''mkdir''"
| "event_type_str EVT_RMDIR = ''rmdir''"
| "event_type_str EVT_RENAME = ''rename''"
| "event_type_str EVT_SETATTR = ''setattr''"
| "event_type_str EVT_SETXATTR = ''setxattr''"
| "event_type_str EVT_REMOVEXATTR = ''removexattr''"
| "event_type_str EVT_LINK = ''link''"

text \<open>A zeroed context, as \<^verbatim>\<open>calloc\<close> of the file system context leaves it.\<close>

definition events_zero :: events_ctx where
  "events_zero = \<lparr>ev_ring = None, ev_head = 0, ev_tail = 0, ev_seq = 0, ev_ph = None, ev_calls = []\<rparr>"

definition events_init :: "events_ctx \<Rightarrow> events_ctx" where
  "events_init ctx = \<lparr>ev_ring = Some (\<lambda>_. NUL), ev_head = 0, ev_tail = 0, ev_seq = 0,
     ev_ph = None, ev_calls = ev_calls ctx\<rparr>"

definition events_destroy :: "events_ctx \<Rightarrow> events_ctx" where
  "events_destroy ctx =
     (case ev_ph ctx of
        None \<Rightarrow> ctx\<lparr>ev_ring := None\<rparr>
      | Some ph \<Rightarrow> ctx\<lparr>ev_ph := None, ev_ring := None,
          ev_calls := ev_calls ctx @ [DestroyPoll ph]\<rparr>)"

text \<open>Escaping for JSON into a 512-byte buffer: \<open>ei\<close> bytes are already written.\<close>

fun escape_path :: "string \<Rightarrow> nat \<Rightarrow> string" where
  "escape_path [] ei = []"
| "escape_path (c # cs) ei =
     (if c = NUL \<or> 510 \<le> ei then []
      else if c = dquote \<or> c = backslash then backslash # c # escape_path cs (ei + 2)
      else c # escape_path cs (ei + 1))"

definition event_line :: "nat \<Rightarrow> event_type \<Rightarrow> nat \<Rightarrow> string option \<Rightarrow> timespec \<Rightarrow> string" where
  "event_line seq ty ino path ts =
     ''{'' @ [dquote] @ ''seq'' @ [dquote] @ '':'' @ dec seq @
     '','' @ [dquote] @ ''type'' @ [dquote] @ '':'' @ [dquote] @ event_type_str ty @ [dquote] @
     '','' @ [dquote] @ ''ino'' @ [dquote] @ '':'' @ dec ino @
     '','' @ [dquote] @ ''path'' @ [dquote] @ '':'' @ [dquote] @
       (case path of None \<Rightarrow> [] | Some p \<Rightarrow> escape_path p 0) @ [dquote] @
     '','' @ [dquote] @ ''ts'' @ [dquote] @ '':'' @ dec (tv_sec ts) @ ''}'' @ [newline]"

text \<open>The byte loop: each byte goes to the slot of the head, and the head always advances.\<close>

fun ring_write :: "(nat \<Rightarrow> char) \<Rightarrow> nat \<Rightarrow> string \<Rightarrow> (nat \<Rightarrow> char) \<times> nat" where
  "ring_write r h [] = (r, h)"
| "ring_write r h (c # cs) = ring_write (r(h mod EVENTS_RING_SIZE := c)) (u64 (h + 1)) cs"

text \<open>The scan that moves the tail to the next newline.\<close>

function skip_to_newline :: "(nat \<Rightarrow> char) \<Rightarrow> nat \<Rightarrow> nat \<Rightarrow> nat" where
  "skip_to_newline r h t =
     (if t < h \<and> r (t mod EVENTS_RING_SIZE) \<noteq> newline then skip_to_newline r h (t + 1) else t)"
  by pat_completeness auto
termination
  by (relation "measure (\<lambda>(r, h, t). h - t)") auto

declare skip_to_newline.simps [simp del]

definition events_emit ::
  "timespec \<Rightarrow> events_ctx \<Rightarrow> event_type \<Rightarrow> nat \<Rightarrow> string option \<Rightarrow> events_ctx" where
  "events_emit ts ctx ty ino path =
     (case ev_ring ctx of
        None \<Rightarrow> ctx
      | Some r \<Rightarrow>
          let seq = u64 (ev_seq ctx + 1);
              line = event_line seq ty ino path ts
          in if 1024 \<le> length line then ctx\<lparr>ev_seq := seq\<rparr>
             else
               let (r', h) = ring_write r (ev_head ctx) line;
                   t = (if EVENTS_RING_SIZE < h - ev_tail ctx then
                          let t1 = skip_to_newline r' h (h - EVENTS_RING_SIZE)
                          in if t1 < h then t1 + 1 else t1
                        else ev_tail ctx);
                   ctx' = ctx\<lparr>ev_seq := seq, ev_ring := Some r', ev_head := h, ev_tail := t\<rparr>
               in case ev_ph ctx of
                    None \<Rightarrow> ctx'
                  | Some ph \<Rightarrow> ctx'\<lparr>ev_ph := None,
                      ev_calls := ev_calls ctx @ [NotifyPoll ph, DestroyPoll ph]\<rparr>)"

text \<open>The parts of the FUSE handlers that use the ring: open, read and poll of the events file.\<close>

definition events_open :: "events_ctx \<Rightarrow> events_fh" where
  "events_open ctx = \<lparr>efh_start_seq = ev_seq ctx, efh_read_pos = ev_head ctx\<rparr>"

definition events_read :: "events_ctx \<Rightarrow> events_fh \<Rightarrow> nat \<Rightarrow> bytes \<times> events_fh" where
  "events_read ctx efh sz =
     (let pos = (if efh_read_pos efh < ev_tail ctx then ev_tail ctx else efh_read_pos efh);
          avail = ev_head ctx - pos
      in if avail = 0 then ([], efh\<lparr>efh_read_pos := pos\<rparr>)
         else
           let n = (if avail < sz then avail else sz);
               r = (case ev_ring ctx of Some r \<Rightarrow> r | None \<Rightarrow> (\<lambda>_. NUL))
           in (map (\<lambda>i. r ((pos + i) mod EVENTS_RING_SIZE)) [0..<n],
               efh\<lparr>efh_read_pos := pos + n\<rparr>))"

text \<open>
  Poll: with data, the handle is destroyed and the answer is "readable"; without, the handle
  replaces the registered one, which is destroyed.
\<close>

definition events_poll :: "events_ctx \<Rightarrow> events_fh option \<Rightarrow> nat option \<Rightarrow> bool \<times> events_ctx" where
  "events_poll ctx efh ph =
     (let has_data = (case efh of None \<Rightarrow> False | Some f \<Rightarrow> efh_read_pos f < ev_head ctx)
      in if has_data then
           (True, case ph of None \<Rightarrow> ctx
                    | Some p \<Rightarrow> ctx\<lparr>ev_calls := ev_calls ctx @ [DestroyPoll p]\<rparr>)
         else
           (False, case ph of None \<Rightarrow> ctx
                     | Some p \<Rightarrow> ctx\<lparr>ev_ph := Some p,
                         ev_calls := ev_calls ctx @
                           (case ev_ph ctx of None \<Rightarrow> [] | Some q \<Rightarrow> [DestroyPoll q])\<rparr>))"

section \<open>The ring holds the end of the stream\<close>

text \<open>
  \<open>ring_holds ctx S\<close>: \<open>S\<close> is everything ever written, and the window between tail and head is
  in the ring. The head is the length of the stream, below \<open>2^64\<close>.
\<close>

definition window_ok :: "(nat \<Rightarrow> char) \<Rightarrow> nat \<Rightarrow> string \<Rightarrow> bool" where
  "window_ok r lo S \<longleftrightarrow> (\<forall>i. lo \<le> i \<and> i < length S \<longrightarrow> r (i mod EVENTS_RING_SIZE) = S ! i)"

definition line_start :: "string \<Rightarrow> nat \<Rightarrow> bool" where
  "line_start S t \<longleftrightarrow> t \<le> length S \<and> (t = 0 \<or> S ! (t - 1) = newline)"

definition ring_holds :: "events_ctx \<Rightarrow> string \<Rightarrow> bool" where
  "ring_holds ctx S \<longleftrightarrow>
     (\<exists>r. ev_ring ctx = Some r \<and> window_ok r (ev_tail ctx) S) \<and>
     ev_head ctx = length S \<and> ev_head ctx - ev_tail ctx \<le> EVENTS_RING_SIZE \<and>
     line_start S (ev_tail ctx)"

lemma ring_size_pos [simp]: "0 < EVENTS_RING_SIZE"
  by (simp add: EVENTS_RING_SIZE_def)

lemma mod_ring_neq:
  assumes "i < j" "j < i + EVENTS_RING_SIZE"
  shows "i mod EVENTS_RING_SIZE \<noteq> j mod EVENTS_RING_SIZE"
proof
  assume "i mod EVENTS_RING_SIZE = j mod EVENTS_RING_SIZE"
  then have "EVENTS_RING_SIZE dvd j - i" using assms(1) by (metis mod_eq_dvd_iff_nat less_imp_le)
  then show False using assms by (auto dest!: dvd_imp_le)
qed

lemma ring_write_window:
  assumes "window_ok r lo S" "length S + length cs < 18446744073709551616"
  shows "\<exists>r'. ring_write r (length S) cs = (r', length S + length cs) \<and>
     window_ok r' (max lo (length S + length cs - EVENTS_RING_SIZE)) (S @ cs)"
  using assms
proof (induction cs arbitrary: r lo S)
  case Nil
  then show ?case by (auto simp: window_ok_def)
next
  case (Cons c cs)
  let ?r = "r(length S mod EVENTS_RING_SIZE := c)"
  let ?lo = "max lo (length S + 1 - EVENTS_RING_SIZE)"
  have "window_ok ?r ?lo (S @ [c])" unfolding window_ok_def
  proof (intro allI impI)
    fix i assume i: "?lo \<le> i \<and> i < length (S @ [c])"
    show "?r (i mod EVENTS_RING_SIZE) = (S @ [c]) ! i"
    proof (cases "i = length S")
      case False
      with i have "i mod EVENTS_RING_SIZE \<noteq> length S mod EVENTS_RING_SIZE"
        by (intro mod_ring_neq) auto
      with False i Cons.prems(1) show ?thesis by (simp add: window_ok_def nth_append)
    qed simp
  qed
  moreover have "length (S @ [c]) + length cs < 18446744073709551616" using Cons.prems(2) by simp
  ultimately obtain r' where
    "ring_write ?r (length (S @ [c])) cs = (r', length (S @ [c]) + length cs)"
    "window_ok r' (max ?lo (length (S @ [c]) + length cs - EVENTS_RING_SIZE)) ((S @ [c]) @ cs)"
    using Cons.IH by blast
  with Cons.prems(2) show ?case
    by (simp add: window_ok_def max_def split: if_splits)
qed

lemma skip_to_newline_spec:
  assumes "t \<le> h"
  shows "t \<le> skip_to_newline r h t \<and> skip_to_newline r h t \<le> h \<and>
    (skip_to_newline r h t < h \<longrightarrow> r (skip_to_newline r h t mod EVENTS_RING_SIZE) = newline)"
  using assms
proof (induction r h t rule: skip_to_newline.induct)
  case (1 r h t)
  then show ?case
    by (cases "t < h \<and> r (t mod EVENTS_RING_SIZE) \<noteq> newline")
      (auto simp: skip_to_newline.simps [of r h t])
qed

lemma ring_holds_init: "ring_holds (events_init ctx) []"
  by (simp add: ring_holds_def events_init_def window_ok_def line_start_def)

lemma event_line_last: "event_line seq ty ino path ts \<noteq> []"
  "last (event_line seq ty ino path ts) = newline"
  by (simp_all add: event_line_def)

lemma length_escape_path: "ei \<le> 511 \<Longrightarrow> length (escape_path p ei) + ei \<le> 511"
proof (induction p ei rule: escape_path.induct)
  case (1 ei)
  then show ?case by simp
next
  case (2 c cs ei)
  then show ?case
    by (cases "c = NUL \<or> 510 \<le> ei"; cases "c = dquote \<or> c = backslash") auto
qed

text \<open>The line always fits its 1024-byte buffer, so no event is dropped.\<close>

lemma event_line_fits:
  assumes "seq < 18446744073709551616" "ino < 18446744073709551616" "wf_timespec ts"
  shows "length (event_line seq ty ino path ts) < 1024"
proof -
  have "length (case path of None \<Rightarrow> [] | Some p \<Rightarrow> escape_path p 0) \<le> 511"
    using length_escape_path [of 0] by (auto split: option.splits)
  moreover have "length (dec seq) \<le> 20" "length (dec ino) \<le> 20" "length (dec (tv_sec ts)) \<le> 20"
    using assms by (auto intro!: length_dec_u64 simp: wf_timespec_def)
  moreover have "length (event_type_str ty) \<le> 11" by (cases ty) simp_all
  ultimately show ?thesis by (simp add: event_line_def)
qed

lemma events_emit_holds:
  assumes "ring_holds ctx S" "length S + 1024 < 18446744073709551616"
    and "ino < 18446744073709551616" "wf_timespec ts"
  shows "ring_holds (events_emit ts ctx ty ino path)
    (S @ event_line (u64 (ev_seq ctx + 1)) ty ino path ts)"
proof -
  define line where "line = event_line (u64 (ev_seq ctx + 1)) ty ino path ts"
  let ?n = "length S + length line"
  have fits: "length line < 1024" unfolding line_def by (rule event_line_fits) (simp_all add: assms)
  from assms(1) obtain r where r: "ev_ring ctx = Some r" "window_ok r (ev_tail ctx) S"
    and hd: "ev_head ctx = length S" "ev_head ctx - ev_tail ctx \<le> EVENTS_RING_SIZE"
    and ls: "line_start S (ev_tail ctx)" by (auto simp: ring_holds_def)
  obtain r' where r': "ring_write r (length S) line = (r', ?n)"
    "window_ok r' (max (ev_tail ctx) (?n - EVENTS_RING_SIZE)) (S @ line)"
    using ring_write_window [OF r(2), of line] fits assms(2) by auto
  define t1 where "t1 = skip_to_newline r' ?n (?n - EVENTS_RING_SIZE)"
  have t1: "?n - EVENTS_RING_SIZE \<le> t1" "t1 \<le> ?n"
    "t1 < ?n \<Longrightarrow> r' (t1 mod EVENTS_RING_SIZE) = newline"
    using skip_to_newline_spec [of "?n - EVENTS_RING_SIZE" ?n r'] by (auto simp: t1_def)
  define t where "t = (if EVENTS_RING_SIZE < ?n - ev_tail ctx then (if t1 < ?n then t1 + 1 else t1)
    else ev_tail ctx)"
  have last: "(S @ line) ! (?n - 1) = newline"
    using event_line_last last_conv_nth [of "S @ line"] by (simp add: line_def)
  have "line_start (S @ line) t"
  proof (cases "EVENTS_RING_SIZE < ?n - ev_tail ctx")
    case False
    then show ?thesis using ls by (auto simp: t_def line_start_def nth_append)
  next
    case True
    show ?thesis
    proof (cases "t1 < ?n")
      case True
      then have "(S @ line) ! t1 = newline"
        using t1 r'(2) \<open>EVENTS_RING_SIZE < ?n - ev_tail ctx\<close> by (simp add: window_ok_def)
      with True show ?thesis by (simp add: t_def line_start_def \<open>EVENTS_RING_SIZE < _\<close>)
    next
      case False
      with t1(2) last show ?thesis by (simp add: t_def line_start_def \<open>EVENTS_RING_SIZE < _\<close>)
    qed
  qed
  moreover have "?n - t \<le> EVENTS_RING_SIZE" using t1 by (auto simp: t_def)
  moreover have "window_ok r' t (S @ line)"
    using r'(2) t1(1) by (auto simp: t_def window_ok_def)
  moreover have "events_emit ts ctx ty ino path =
    (case ev_ph ctx of
       None \<Rightarrow> ctx\<lparr>ev_seq := u64 (ev_seq ctx + 1), ev_ring := Some r', ev_head := ?n, ev_tail := t\<rparr>
     | Some ph \<Rightarrow> ctx\<lparr>ev_seq := u64 (ev_seq ctx + 1), ev_ring := Some r', ev_head := ?n,
         ev_tail := t, ev_ph := None, ev_calls := ev_calls ctx @ [NotifyPoll ph, DestroyPoll ph]\<rparr>)"
    using r(1) r'(1) hd(1) fits unfolding events_emit_def line_def [symmetric] t_def t1_def Let_def
    by (simp split: option.splits)
  ultimately have "ring_holds (events_emit ts ctx ty ino path) (S @ line)"
    by (auto simp: ring_holds_def split: option.splits)
  then show ?thesis by (simp add: line_def)
qed

section \<open>Runs of emissions\<close>

type_synonym emission = "event_type \<times> nat \<times> string option \<times> timespec"

fun emit_all :: "events_ctx \<Rightarrow> emission list \<Rightarrow> events_ctx" where
  "emit_all ctx [] = ctx"
| "emit_all ctx ((ty, ino, path, ts) # es) = emit_all (events_emit ts ctx ty ino path) es"

fun event_lines :: "nat \<Rightarrow> emission list \<Rightarrow> string list" where
  "event_lines seq [] = []"
| "event_lines seq ((ty, ino, path, ts) # es) =
     event_line (u64 (seq + 1)) ty ino path ts # event_lines (u64 (seq + 1)) es"

text \<open>An emission with values in range; a plain path has no line feed in it.\<close>

fun wf_emission :: "emission \<Rightarrow> bool" where
  "wf_emission (ty, ino, path, ts) \<longleftrightarrow> ino < 18446744073709551616 \<and> wf_timespec ts"

fun plain_emission :: "emission \<Rightarrow> bool" where
  "plain_emission (ty, ino, path, ts) \<longleftrightarrow> (\<forall>p. path = Some p \<longrightarrow> newline \<notin> set p)"

lemma events_emit_seq:
  "ring_holds ctx S \<Longrightarrow> ev_seq (events_emit ts ctx ty ino path) = u64 (ev_seq ctx + 1)"
  by (auto simp: ring_holds_def events_emit_def Let_def split: option.splits prod.splits)

lemma event_line_length_le:
  "ino < 18446744073709551616 \<Longrightarrow> wf_timespec ts \<Longrightarrow> length (event_line (u64 q) ty ino path ts) \<le> 1024"
  using event_line_fits [of "u64 q" ino ts ty path] by simp

lemma length_event_lines:
  "\<forall>e \<in> set es. wf_emission e \<Longrightarrow> length (concat (event_lines q es)) \<le> 1024 * length es"
proof (induction es arbitrary: q)
  case Nil
  then show ?case by simp
next
  case (Cons e es)
  obtain ty ino path ts where e: "e = (ty, ino, path, ts)" by (cases e)
  have "length (concat (event_lines (u64 (q + 1)) es)) \<le> 1024 * length es"
    using Cons by simp
  with event_line_length_le [of ino ts "q + 1" ty path] Cons.prems show ?case by (simp add: e)
qed

lemma emit_all_holds:
  assumes "ring_holds ctx S" "\<forall>e \<in> set es. wf_emission e"
    and "length S + 1024 * length es < 18446744073709551616"
  shows "ring_holds (emit_all ctx es) (S @ concat (event_lines (ev_seq ctx) es))"
  using assms
proof (induction es arbitrary: ctx S)
  case Nil
  then show ?case by simp
next
  case (Cons e es)
  obtain ty ino path ts where e: "e = (ty, ino, path, ts)" by (cases e)
  let ?line = "event_line (u64 (ev_seq ctx + 1)) ty ino path ts"
  have wf: "ino < 18446744073709551616" "wf_timespec ts" using Cons.prems(2) e by simp_all
  have "ring_holds (events_emit ts ctx ty ino path) (S @ ?line)"
    using Cons.prems wf by (intro events_emit_holds) simp_all
  moreover have "length (S @ ?line) + 1024 * length es < 18446744073709551616"
    using Cons.prems(3) event_line_length_le [OF wf, of "ev_seq ctx + 1" ty path] by simp
  ultimately have "ring_holds (emit_all (events_emit ts ctx ty ino path) es)
      ((S @ ?line) @ concat (event_lines (ev_seq (events_emit ts ctx ty ino path)) es))"
    using Cons.prems(2) by (intro Cons.IH) simp_all
  then show ?case using events_emit_seq [OF Cons.prems(1)] by (simp add: e)
qed

text \<open>While everything fits the ring the tail does not move.\<close>

lemma ring_write_head:
  "h + length cs < 18446744073709551616 \<Longrightarrow> snd (ring_write r h cs) = h + length cs"
  by (induction cs arbitrary: r h) auto

lemma emit_tail_0:
  assumes "ring_holds ctx S" "ev_tail ctx = 0"
    and "length (S @ event_line (u64 (ev_seq ctx + 1)) ty ino path ts) \<le> EVENTS_RING_SIZE"
  shows "ev_tail (events_emit ts ctx ty ino path) = 0"
proof -
  obtain r where "ev_ring ctx = Some r" "ev_head ctx = length S" using assms(1)
    by (auto simp: ring_holds_def)
  with assms ring_write_head [of "length S" "event_line (u64 (ev_seq ctx + 1)) ty ino path ts" r]
  show ?thesis
    by (auto simp: events_emit_def Let_def EVENTS_RING_SIZE_def split: option.splits prod.splits)
qed

lemma emit_all_tail_0:
  assumes "ring_holds ctx S" "ev_tail ctx = 0" "\<forall>e \<in> set es. wf_emission e"
    and "length (S @ concat (event_lines (ev_seq ctx) es)) \<le> EVENTS_RING_SIZE"
  shows "ev_tail (emit_all ctx es) = 0"
  using assms
proof (induction es arbitrary: ctx S)
  case Nil
  then show ?case by simp
next
  case (Cons e es)
  obtain ty ino path ts where e: "e = (ty, ino, path, ts)" by (cases e)
  let ?line = "event_line (u64 (ev_seq ctx + 1)) ty ino path ts"
  let ?ctx = "events_emit ts ctx ty ino path"
  have "ring_holds ?ctx (S @ ?line)"
    using Cons.prems e by (intro events_emit_holds) (simp_all add: EVENTS_RING_SIZE_def)
  moreover have "length (S @ ?line) \<le> EVENTS_RING_SIZE" using Cons.prems(4) by (simp add: e)
  then have "ev_tail ?ctx = 0" using Cons.prems(1,2) by (intro emit_tail_0)
  moreover have "length ((S @ ?line) @ concat (event_lines (ev_seq ?ctx) es)) \<le> EVENTS_RING_SIZE"
    using Cons.prems(4) unfolding e events_emit_seq [OF Cons.prems(1)] by simp
  ultimately have "ev_tail (emit_all ?ctx es) = 0" using Cons.prems(3) by (intro Cons.IH) auto
  then show ?case by (simp add: e)
qed

text \<open>A line start of a stream of lines is a boundary between two of them.\<close>

definition is_line :: "string \<Rightarrow> bool" where
  "is_line l \<longleftrightarrow> l \<noteq> [] \<and> last l = newline \<and> newline \<notin> set (butlast l)"

lemma is_line_nth: "is_line l \<Longrightarrow> i < length l \<Longrightarrow> l ! i = newline \<Longrightarrow> i = length l - 1"
  unfolding is_line_def by (metis One_nat_def in_set_conv_nth length_butlast less_Suc_eq nth_butlast
      Suc_pred length_greater_0_conv)

lemma line_start_boundary:
  assumes "\<forall>l \<in> set ls. is_line l" "line_start (concat ls) t"
  shows "\<exists>k. drop t (concat ls) = concat (drop k ls)"
  using assms
proof (induction ls arbitrary: t)
  case Nil
  then show ?case by simp
next
  case (Cons l ls)
  show ?case
  proof (cases "t = 0")
    case True
    then show ?thesis by (intro exI [of _ 0]) simp
  next
    case t: False
    have "length l \<le> t"
    proof (rule ccontr)
      assume "\<not> length l \<le> t"
      then have "t - 1 < length l" by simp
      with t Cons.prems have "l ! (t - 1) = newline" by (simp add: line_start_def nth_append)
      with is_line_nth [of l "t - 1"] \<open>t - 1 < length l\<close> Cons.prems(1)
      have "t - 1 = length l - 1" by simp
      with t \<open>\<not> length l \<le> t\<close> show False by arith
    qed
    moreover have "line_start (concat ls) (t - length l)"
    proof (cases "t = length l")
      case False
      with \<open>length l \<le> t\<close> have "\<not> t - 1 < length l" "t - 1 - length l = t - length l - 1" by auto
      with Cons.prems(2) t show ?thesis by (auto simp: line_start_def nth_append)
    qed (simp add: line_start_def)
    ultimately obtain k where "drop (t - length l) (concat ls) = concat (drop k ls)"
      using Cons by auto
    with \<open>length l \<le> t\<close> show ?thesis by (intro exI [of _ "Suc k"]) simp
  qed
qed

lemma newline_notin_escape: "newline \<notin> set p \<Longrightarrow> newline \<notin> set (escape_path p ei)"
  by (induction p ei rule: escape_path.induct) (auto simp: char_consts)

lemma newline_notin_dec: "newline \<notin> set (dec n)"
  using dec_digits [of newline n] by (auto simp: is_digit_def newline_def)

lemma newline_notin_type: "newline \<notin> set (event_type_str ty)"
  by (cases ty) (simp_all add: newline_def)

lemma newline_neq: "newline \<noteq> dquote"
  by (simp add: char_consts)

lemma is_line_event_line:
  assumes "\<And>p. path = Some p \<Longrightarrow> newline \<notin> set p"
  shows "is_line (event_line q ty ino path ts)"
proof -
  have "newline \<notin> set (case path of None \<Rightarrow> [] | Some p \<Rightarrow> escape_path p 0)"
    using assms newline_notin_escape by (auto split: option.splits)
  then show ?thesis
    using newline_notin_type [of ty]
    by (simp add: is_line_def event_line_def butlast_append newline_notin_dec newline_neq)
      (simp add: newline_def)
qed

lemma is_line_event_lines:
  "\<forall>e \<in> set es. plain_emission e \<Longrightarrow> l \<in> set (event_lines q es) \<Longrightarrow> is_line l"
  by (induction q es rule: event_lines.induct) (auto intro: is_line_event_line)

text \<open>A read returns the next bytes of the stream.\<close>

lemma events_read_stream:
  assumes "ring_holds ctx S" "efh_read_pos efh \<le> length S"
  shows "events_read ctx efh sz =
    (take sz (drop (max (efh_read_pos efh) (ev_tail ctx)) S),
     efh\<lparr>efh_read_pos := max (efh_read_pos efh) (ev_tail ctx) +
        min sz (length S - max (efh_read_pos efh) (ev_tail ctx))\<rparr>)"
proof -
  let ?p = "max (efh_read_pos efh) (ev_tail ctx)"
  from assms obtain r where r: "ev_ring ctx = Some r" "window_ok r (ev_tail ctx) S"
    and hd: "ev_head ctx = length S" and tl: "ev_tail ctx \<le> length S"
    by (auto simp: ring_holds_def line_start_def)
  have "map (\<lambda>i. r ((?p + i) mod EVENTS_RING_SIZE)) [0..<min (length S - ?p) sz] =
      take sz (drop ?p S)"
  proof (intro nth_equalityI)
    fix i assume "i < length (map (\<lambda>i. r ((?p + i) mod EVENTS_RING_SIZE)) [0..<min (length S - ?p) sz])"
    then have "i < sz" "?p + i < length S" "ev_tail ctx \<le> ?p + i"
      "[0..<min (length S - ?p) sz] ! i = i" by (auto simp del: upt_Suc)
    then show "map (\<lambda>i. r ((?p + i) mod EVENTS_RING_SIZE)) [0..<min (length S - ?p) sz] ! i =
        take sz (drop ?p S) ! i"
      using r(2) unfolding window_ok_def by simp
  qed auto
  moreover have "(if efh_read_pos efh < ev_tail ctx then ev_tail ctx else efh_read_pos efh) = ?p"
    by simp
  moreover have "(if a < sz then a else sz) = min a sz" for a by simp
  ultimately show ?thesis
    using r(1) hd by (simp add: events_read_def Let_def min.commute)
qed

section \<open>Ownership of poll handles\<close>

text \<open>The handles the context is responsible for: those it has destroyed and the registered one.\<close>

definition destroyed :: "ph_call list \<Rightarrow> nat list" where
  "destroyed cs = List.map_filter (\<lambda>c. case c of DestroyPoll p \<Rightarrow> Some p | NotifyPoll p \<Rightarrow> None) cs"

definition accounted :: "events_ctx \<Rightarrow> nat multiset" where
  "accounted ctx = mset (destroyed (ev_calls ctx)) +
     (case ev_ph ctx of None \<Rightarrow> {#} | Some p \<Rightarrow> {#p#})"

lemma destroyed_simps [simp]:
  "destroyed [] = []" "destroyed (NotifyPoll p # cs) = destroyed cs"
  "destroyed (DestroyPoll p # cs) = p # destroyed cs"
  "destroyed (cs @ ds) = destroyed cs @ destroyed ds"
  by (simp_all add: destroyed_def map_filter_def)

section \<open>Properties\<close>

text \<open>
  No event is lost on the way into the ring: every emission appends exactly its own JSON
  line, numbered one higher than the last, to the stream whose end the ring holds; the 1024-byte
  line buffer never overflows and the tail stays on a line start within one ring size.
\<close>

theorem emit_appends_line:
  assumes "ring_holds ctx S" "length S + 1024 < 18446744073709551616"
    and "ino < 18446744073709551616" "wf_timespec ts"
  shows "ring_holds (events_emit ts ctx ty ino path)
      (S @ event_line (u64 (ev_seq ctx + 1)) ty ino path ts) \<and>
    ev_seq (events_emit ts ctx ty ino path) = u64 (ev_seq ctx + 1)"
  using events_emit_holds [OF assms] events_emit_seq [OF assms(1)] by blast

theorem emit_appends_line_witness:
  "ring_holds (events_emit timespec0 (events_init events_zero) EVT_MKDIR 2 (Some ''d''))
     (event_line 1 EVT_MKDIR 2 (Some ''d'') timespec0)"
  using emit_appends_line [OF ring_holds_init, of 2 timespec0 events_zero EVT_MKDIR "Some ''d''"]
  by (simp add: events_init_def timespec0_def wf_timespec_def)

text \<open>
  C32. What a reader can still get after any run of events is a run of whole lines: the lines of
  the most recent events, none cut in the middle, provided no name in them contains a line feed;
  and it is all of them while they fit the ring.
\<close>

theorem readable_whole_lines:
  assumes "\<forall>e \<in> set es. wf_emission e \<and> plain_emission e"
    and "1024 * length es < 18446744073709551616"
  shows "\<exists>k. fst (events_read (emit_all (events_init c) es)
        \<lparr>efh_start_seq = 0, efh_read_pos = 0\<rparr> EVENTS_RING_SIZE) =
      concat (drop k (event_lines 0 es)) \<and>
    (length (concat (event_lines 0 es)) \<le> EVENTS_RING_SIZE \<longrightarrow>
      concat (drop k (event_lines 0 es)) = concat (event_lines 0 es))"
proof -
  let ?ls = "event_lines 0 es" and ?ctx = "emit_all (events_init c) es"
  have "ev_seq (events_init c) = 0" by (simp add: events_init_def)
  then have holds: "ring_holds ?ctx (concat ?ls)"
    using emit_all_holds [OF ring_holds_init, of es c] assms by simp
  have "line_start (concat ?ls) (ev_tail ?ctx)" "length (concat ?ls) - ev_tail ?ctx \<le> EVENTS_RING_SIZE"
    using holds by (auto simp: ring_holds_def)
  moreover have "\<forall>l \<in> set ?ls. is_line l" using assms(1) by (auto intro: is_line_event_lines)
  ultimately obtain k where "drop (ev_tail ?ctx) (concat ?ls) = concat (drop k ?ls)"
    using line_start_boundary by blast
  moreover have "fst (events_read ?ctx \<lparr>efh_start_seq = 0, efh_read_pos = 0\<rparr> EVENTS_RING_SIZE) =
      drop (ev_tail ?ctx) (concat ?ls)"
    using events_read_stream [OF holds, of "\<lparr>efh_start_seq = 0, efh_read_pos = 0\<rparr>"]
      \<open>length (concat ?ls) - ev_tail ?ctx \<le> EVENTS_RING_SIZE\<close> by simp
  moreover have "ev_tail ?ctx = 0" if "length (concat ?ls) \<le> EVENTS_RING_SIZE"
    using that assms \<open>ev_seq (events_init c) = 0\<close>
    by (intro emit_all_tail_0 [OF ring_holds_init]) (simp_all add: events_init_def)
  ultimately show ?thesis by (intro exI [of _ k]) auto
qed

theorem readable_whole_lines_witness:
  "\<exists>k. fst (events_read
        (emit_all (events_init events_zero) [(EVT_MKDIR, 2, Some ''d'', timespec0)])
        \<lparr>efh_start_seq = 0, efh_read_pos = 0\<rparr> EVENTS_RING_SIZE) =
     concat (drop k (event_lines 0 [(EVT_MKDIR, 2, Some ''d'', timespec0)]))"
proof -
  have "\<forall>e \<in> set [(EVT_MKDIR, 2, Some ''d'', timespec0)]. wf_emission e \<and> plain_emission e"
    by (simp add: timespec0_def wf_timespec_def newline_def)
  from readable_whole_lines [OF this, of events_zero] show ?thesis by auto
qed

text \<open>
  C33. A reader that opens the stream and is not overtaken sees every later event exactly once:
  after any events that fit the ring it reads exactly their lines, and reading them in two
  portions gives the same bytes as reading them at once.
\<close>

theorem reader_sees_new_events:
  assumes "ring_holds ctx S" "\<forall>e \<in> set es. wf_emission e"
    and "length S + 1024 * length es < 18446744073709551616"
    and "ev_tail (emit_all ctx es) \<le> length S"
  shows "let fh = events_open ctx; ctx' = emit_all ctx es;
             (b1, fh1) = events_read ctx' fh m; (b2, fh2) = events_read ctx' fh1 n
         in b1 @ b2 = take (m + n) (concat (event_lines (ev_seq ctx) es))"
proof -
  let ?new = "concat (event_lines (ev_seq ctx) es)"
  have holds: "ring_holds (emit_all ctx es) (S @ ?new)" by (rule emit_all_holds [OF assms(1-3)])
  have "ev_head ctx = length S" using assms(1) by (simp add: ring_holds_def)
  then have r1: "events_read (emit_all ctx es) (events_open ctx) m =
      (take m ?new, (events_open ctx)\<lparr>efh_read_pos := length S + min m (length ?new)\<rparr>)"
    using events_read_stream [OF holds, of "events_open ctx" m] assms(4)
    by (simp add: events_open_def max_absorb1)
  have "take n (drop (min m (length ?new)) ?new) = take n (drop m ?new)"
    by (cases "m \<le> length ?new") (simp_all add: min_def)
  then have r2: "fst (events_read (emit_all ctx es)
      ((events_open ctx)\<lparr>efh_read_pos := length S + min m (length ?new)\<rparr>) n) = take n (drop m ?new)"
    using events_read_stream [OF holds, of "(events_open ctx)\<lparr>efh_read_pos :=
        length S + min m (length ?new)\<rparr>" n] assms(4) by (simp add: max_absorb1)
  show ?thesis using r1 r2 by (simp add: Let_def case_prod_beta take_add)
qed

theorem reader_sees_new_events_witness:
  "let ctx = events_init events_zero; es = [(EVT_MKDIR, 2, Some ''d'', timespec0)];
       fh = events_open ctx; ctx' = emit_all ctx es;
       (b1, fh1) = events_read ctx' fh 5; (b2, fh2) = events_read ctx' fh1 9
   in b1 @ b2 = take 14 (event_line 1 EVT_MKDIR 2 (Some ''d'') timespec0)"
proof -
  have len: "length (event_line 1 EVT_MKDIR 2 (Some ''d'') timespec0) < 1024"
    by (rule event_line_fits) (simp_all add: timespec0_def wf_timespec_def)
  have "ev_tail (emit_all (events_init events_zero) [(EVT_MKDIR, 2, Some ''d'', timespec0)]) \<le>
      length ([] :: string)"
    using emit_tail_0 [OF ring_holds_init, of events_zero EVT_MKDIR 2 "Some ''d''" timespec0] len
    by (simp add: events_init_def EVENTS_RING_SIZE_def)
  from reader_sees_new_events [OF ring_holds_init _ _ this, of 5 9] show ?thesis
    by (simp add: events_init_def timespec0_def wf_timespec_def)
qed

text \<open>
  No poll handle is leaked or destroyed twice: a poll adds exactly the handle it is given to
  those the context has destroyed or holds, an emission and the final tear-down change nothing in
  that account, and after the tear-down no handle is held.
\<close>

theorem poll_handles_destroyed_once:
  "accounted (snd (events_poll ctx efh ph)) =
     accounted ctx + (case ph of None \<Rightarrow> {#} | Some p \<Rightarrow> {#p#}) \<and>
   accounted (events_emit ts ctx ty ino path) = accounted ctx \<and>
   accounted (events_destroy ctx) = accounted ctx \<and> ev_ph (events_destroy ctx) = None"
  by (auto simp: accounted_def events_poll_def events_emit_def events_destroy_def Let_def
      split: option.splits prod.splits)

end
