(* ===== verification/Context.thy ===== *)
theory Context
  imports KvMem Structs VTree Events
begin

text \<open>
  The state of the file system (\<^verbatim>\<open>struct kvbfs_ctx\<close> of \<^verbatim>\<open>src/kvbfs.h\<close> with the structures of
  \<^verbatim>\<open>src/mem.h\<close> and \<^verbatim>\<open>src/llm.h\<close> it holds), the superblock (\<^verbatim>\<open>src/super.c\<close>) and the inode
  cache (\<^verbatim>\<open>src/inode.c\<close>). A C function that returns 0 or -1 is a Boolean here, true for 0; a
  function that may return a null pointer gives an option. Allocation never fails. The cache is
  an association list in insertion order, which is the order \<^verbatim>\<open>HASH_ITER\<close> follows; a pointer to a
  cache item is the inode number it is found under. The locks are not part of the state: each
  operation is the sequence of the critical sections it runs.
\<close>

section \<open>State\<close>

record icentry =
  ic_inode :: kvbfs_inode
  ic_refcount :: nat
  ic_dirty :: bool
  ic_deleted :: bool

type_synonym icache = "(nat, icentry) alist"

record mem_task =
  mt_ino :: nat
  mt_seq :: nat
  mt_text :: string
  mt_role :: "string option"

record mem_ctx =
  mem_running :: bool
  mem_shutdown :: bool
  mem_queue :: "mem_task list"

record llm_gen_state =
  gs_generating :: bool
  gs_waiters :: "nat list"

record llm_ctx =
  llm_running :: bool
  llm_shutdown :: bool
  llm_queue :: "nat list"
  llm_gen_states :: "(nat, llm_gen_state) alist"
  llm_calls :: "ph_call list"

text \<open>
  The session set is a list: \<^verbatim>\<open>HASH_ADD\<close> does not look for an equal key, so an inode may be in
  it twice, and \<^verbatim>\<open>HASH_DEL\<close> removes the one entry that was found.
\<close>

record 's kvbfs_ctx =
  db :: 's
  icache :: icache
  super :: kvbfs_super
  vtree :: vtree_ctx
  sessions_ino :: nat
  session_set :: "nat list"
  events :: events_ctx
  mem :: mem_ctx
  llm :: llm_ctx

definition super0 :: kvbfs_super where
  "super0 = \<lparr>s_magic = 0, s_version = 0, s_next_ino = 0\<rparr>"

definition mem_zero :: mem_ctx where
  "mem_zero = \<lparr>mem_running = False, mem_shutdown = False, mem_queue = []\<rparr>"

definition llm_zero :: llm_ctx where
  "llm_zero = \<lparr>llm_running = False, llm_shutdown = False, llm_queue = [],
     llm_gen_states = DAList.empty, llm_calls = []\<rparr>"

text \<open>The context as \<^verbatim>\<open>calloc\<close> leaves it, with an open store.\<close>

definition ctx_zero :: "'s \<Rightarrow> 's kvbfs_ctx" where
  "ctx_zero s = \<lparr>db = s, icache = DAList.empty, super = super0, vtree = vtree_init,
     sessions_ino = 0, session_set = [], events = events_zero, mem = mem_zero, llm = llm_zero\<rparr>"

section \<open>The superblock\<close>

definition super_save :: "'s kv_ops \<Rightarrow> 's kvbfs_ctx \<Rightarrow> bool \<times> 's kvbfs_ctx" where
  "super_save K c =
     (let (ok, s) = kv_put K (db c) KVBFS_KEY_SUPER (super_bytes (super c)) in (ok, c\<lparr>db := s\<rparr>))"

definition root_inode :: "timespec \<Rightarrow> kvbfs_inode" where
  "root_inode now = \<lparr>i_ino = KVBFS_ROOT_INO, i_mode = S_IFDIR OR 493, i_nlink = 2, i_size = 0,
     i_blocks = 0, i_atime = now, i_mtime = now, i_ctime = now\<rparr>"

definition super_create_root :: "'s kv_ops \<Rightarrow> timespec \<Rightarrow> 's kvbfs_ctx \<Rightarrow> bool \<times> 's kvbfs_ctx" where
  "super_create_root K now c =
     (let (ok, s) = kv_put K (db c) (kvbfs_key_inode KVBFS_ROOT_INO) (inode_bytes (root_inode now))
      in (ok, c\<lparr>db := s\<rparr>))"

definition super_load :: "'s kv_ops \<Rightarrow> timespec \<Rightarrow> 's kvbfs_ctx \<Rightarrow> bool \<times> 's kvbfs_ctx" where
  "super_load K now c =
     (let fresh =
        (let c1 = c\<lparr>super := \<lparr>s_magic = KVBFS_MAGIC, s_version = KVBFS_VERSION,
                            s_next_ino = KVBFS_ROOT_INO + 1\<rparr>\<rparr>;
             (ok, c2) = super_save K c1
         in if \<not> ok then (False, c2) else super_create_root K now c2)
      in case kv_get K (db c) KVBFS_KEY_SUPER of
           Some v \<Rightarrow>
             if length v = SIZEOF_SUPER then
               (let c1 = c\<lparr>super := super_of_bytes v\<rparr>
                in (s_magic (super c1) = KVBFS_MAGIC, c1))
             else fresh
         | None \<Rightarrow> fresh)"

section \<open>The inode cache\<close>

text \<open>
  Allocation is two steps, the increment under the lock and the write of the superblock outside
  it; the write saves the superblock as it is at that time.
\<close>

definition inode_alloc_bump :: "'s kvbfs_ctx \<Rightarrow> nat \<times> 's kvbfs_ctx" where
  "inode_alloc_bump c =
     (s_next_ino (super c), c\<lparr>super := (super c)\<lparr>s_next_ino := u64 (s_next_ino (super c) + 1)\<rparr>\<rparr>)"

definition inode_alloc :: "'s kv_ops \<Rightarrow> 's kvbfs_ctx \<Rightarrow> nat \<times> 's kvbfs_ctx" where
  "inode_alloc K c =
     (let (ino, c1) = inode_alloc_bump c; (ok, c2) = super_save K c1 in (ino, c2))"

definition inode_load :: "'s kv_ops \<Rightarrow> 's \<Rightarrow> nat \<Rightarrow> kvbfs_inode option" where
  "inode_load K s ino =
     (case kv_get K s (kvbfs_key_inode ino) of
        Some v \<Rightarrow> if length v = SIZEOF_INODE then Some (inode_of_bytes v) else None
      | None \<Rightarrow> None)"

definition inode_save :: "'s kv_ops \<Rightarrow> 's \<Rightarrow> kvbfs_inode \<Rightarrow> bool \<times> 's" where
  "inode_save K s i = kv_put K s (kvbfs_key_inode (i_ino i)) (inode_bytes i)"

text \<open>
  A hit counts one more reference, unless the item is marked deleted. A miss loads the image and
  then looks again under the lock, because another thread may have been faster. The item is
  added under the number its image holds.
\<close>

definition ic_ref :: "icache \<Rightarrow> nat \<Rightarrow> icentry \<Rightarrow> icache option" where
  "ic_ref ic ino e =
     (if ic_deleted e then None
      else Some (DAList.update ino (e\<lparr>ic_refcount := ic_refcount e + 1\<rparr>) ic))"

definition inode_get_insert :: "icache \<Rightarrow> nat \<Rightarrow> kvbfs_inode \<Rightarrow> icache option" where
  "inode_get_insert ic ino i =
     (case DAList.lookup ic ino of
        Some e \<Rightarrow> ic_ref ic ino e
      | None \<Rightarrow> Some (DAList.update (i_ino i)
          \<lparr>ic_inode = i, ic_refcount = 1, ic_dirty = False, ic_deleted = False\<rparr> ic))"

definition inode_get :: "'s kv_ops \<Rightarrow> 's kvbfs_ctx \<Rightarrow> nat \<Rightarrow> 's kvbfs_ctx option" where
  "inode_get K c ino =
     (case (case DAList.lookup (icache c) ino of
              Some e \<Rightarrow> ic_ref (icache c) ino e
            | None \<Rightarrow>
                (case inode_load K (db c) ino of
                   None \<Rightarrow> None
                 | Some i \<Rightarrow> inode_get_insert (icache c) ino i)) of
        None \<Rightarrow> None
      | Some ic \<Rightarrow> Some (c\<lparr>icache := ic\<rparr>))"

definition ic_put :: "icache \<Rightarrow> nat \<Rightarrow> icache" where
  "ic_put ic ino =
     (case DAList.lookup ic ino of
        None \<Rightarrow> ic
      | Some e \<Rightarrow>
          let e' = (if 0 < ic_refcount e then e\<lparr>ic_refcount := ic_refcount e - 1\<rparr> else e)
          in if ic_refcount e' = 0 \<and> ic_deleted e' then DAList.delete ino ic
             else DAList.update ino e' ic)"

definition inode_put :: "'s kvbfs_ctx \<Rightarrow> nat \<Rightarrow> 's kvbfs_ctx" where
  "inode_put c ino = c\<lparr>icache := ic_put (icache c) ino\<rparr>"

text \<open>\<open>ic->inode\<close> for an item the caller holds, and an assignment to its fields.\<close>

definition ic_get :: "'s kvbfs_ctx \<Rightarrow> nat \<Rightarrow> kvbfs_inode" where
  "ic_get c ino = ic_inode (the (DAList.lookup (icache c) ino))"

definition ic_modify :: "'s kvbfs_ctx \<Rightarrow> nat \<Rightarrow> (kvbfs_inode \<Rightarrow> kvbfs_inode) \<Rightarrow> 's kvbfs_ctx" where
  "ic_modify c ino f =
     (case DAList.lookup (icache c) ino of
        None \<Rightarrow> c
      | Some e \<Rightarrow> c\<lparr>icache := DAList.update ino (e\<lparr>ic_inode := f (ic_inode e)\<rparr>) (icache c)\<rparr>)"

text \<open>The new item is saved, marked clean, and added; on a failed save it is dropped.\<close>

definition inode_create ::
  "'s kv_ops \<Rightarrow> timespec \<Rightarrow> 's kvbfs_ctx \<Rightarrow> nat \<Rightarrow> nat option \<times> 's kvbfs_ctx" where
  "inode_create K now c mode =
     (let (ino, c1) = inode_alloc K c;
          i = \<lparr>i_ino = ino, i_mode = mode, i_nlink = 1, i_size = 0, i_blocks = 0,
               i_atime = now, i_mtime = now, i_ctime = now\<rparr>;
          (ok, s) = inode_save K (db c1) i;
          c2 = c1\<lparr>db := s\<rparr>
      in if \<not> ok then (None, c2)
         else (Some ino,
           c2\<lparr>icache := DAList.update ino
                \<lparr>ic_inode = i, ic_refcount = 1, ic_dirty = False, ic_deleted = False\<rparr>
                (icache c2)\<rparr>))"

definition ic_mark_deleted :: "icache \<Rightarrow> nat \<Rightarrow> icache" where
  "ic_mark_deleted ic ino =
     (case DAList.lookup ic ino of
        None \<Rightarrow> ic
      | Some e \<Rightarrow>
          if ic_refcount e = 0 then DAList.delete ino ic
          else DAList.update ino (e\<lparr>ic_deleted := True\<rparr>) ic)"

definition inode_delete :: "'s kv_ops \<Rightarrow> 's kvbfs_ctx \<Rightarrow> nat \<Rightarrow> bool \<times> 's kvbfs_ctx" where
  "inode_delete K c ino =
     (let (ok, s) = kv_delete K (db c) (kvbfs_key_inode ino)
      in (ok, c\<lparr>icache := ic_mark_deleted (icache c) ino, db := s\<rparr>))"

definition inode_mark_dirty :: "'s kvbfs_ctx \<Rightarrow> nat \<Rightarrow> 's kvbfs_ctx" where
  "inode_mark_dirty c ino =
     (case DAList.lookup (icache c) ino of
        None \<Rightarrow> c
      | Some e \<Rightarrow> c\<lparr>icache := DAList.update ino (e\<lparr>ic_dirty := True\<rparr>) (icache c)\<rparr>)"

definition inode_sync :: "'s kv_ops \<Rightarrow> 's kvbfs_ctx \<Rightarrow> nat \<Rightarrow> bool \<times> 's kvbfs_ctx" where
  "inode_sync K c ino =
     (case DAList.lookup (icache c) ino of
        None \<Rightarrow> (True, c)
      | Some e \<Rightarrow>
          if \<not> ic_dirty e then (True, c)
          else
            let (ok, s) = inode_save K (db c) (ic_inode e);
                c1 = c\<lparr>db := s\<rparr>
            in if ok then
                 (True, c1\<lparr>icache := DAList.update ino (e\<lparr>ic_dirty := False\<rparr>) (icache c1)\<rparr>)
               else (False, c1))"

text \<open>The dirty items are collected, and referenced, before the first one is written.\<close>

definition dirty_list :: "icache \<Rightarrow> nat list" where
  "dirty_list ic =
     map fst (filter (\<lambda>(n, e). ic_dirty e \<and> \<not> ic_deleted e) (DAList.impl_of ic))"

definition ic_hold :: "icache \<Rightarrow> nat \<Rightarrow> icache" where
  "ic_hold ic ino = DAList.map_entry ino (\<lambda>e. e\<lparr>ic_refcount := ic_refcount e + 1\<rparr>) ic"

fun sync_list :: "'s kv_ops \<Rightarrow> 's kvbfs_ctx \<Rightarrow> nat list \<Rightarrow> bool \<times> 's kvbfs_ctx" where
  "sync_list K c [] = (True, c)"
| "sync_list K c (n # ns) =
     (let (ok, c1) = inode_sync K c n;
          (oks, c2) = sync_list K (inode_put c1 n) ns
      in (ok \<and> oks, c2))"

definition inode_sync_all :: "'s kv_ops \<Rightarrow> 's kvbfs_ctx \<Rightarrow> bool \<times> 's kvbfs_ctx" where
  "inode_sync_all K c =
     (let ns = dirty_list (icache c)
      in sync_list K (c\<lparr>icache := fold (\<lambda>n ic. ic_hold ic n) ns (icache c)\<rparr>) ns)"

definition inode_cache_clear :: "'s kvbfs_ctx \<Rightarrow> 's kvbfs_ctx" where
  "inode_cache_clear c = c\<lparr>icache := DAList.empty\<rparr>"

end
