(* ===== verification/Inode.thy ===== *)
theory Inode
  imports Context
begin

text \<open>
  What the inode cache and the store mean together. An inode number has a \<open>view\<close>: the cached
  inode, or the stored image when nothing is cached, or nothing when the item is marked deleted.
  \<open>refs\<close> counts the references that are held, and \<open>ok\<close> is the invariant of cache and images.
  For every primitive of \<^verbatim>\<open>src/inode.c\<close> there is one equation per observation, so that the
  proofs about the handlers are rewriting.
\<close>

declare encode.simps [simp del]

section \<open>Observations\<close>

definition view :: "'s kv_ops \<Rightarrow> 's kvbfs_ctx \<Rightarrow> nat \<Rightarrow> kvbfs_inode option" where
  "view K c n =
     (case DAList.lookup (icache c) n of
        Some e \<Rightarrow> if ic_deleted e then None else Some (ic_inode e)
      | None \<Rightarrow> inode_load K (db c) n)"

definition refs :: "'s kvbfs_ctx \<Rightarrow> nat \<Rightarrow> nat" where
  "refs c n = (case DAList.lookup (icache c) n of None \<Rightarrow> 0 | Some e \<Rightarrow> ic_refcount e)"

text \<open>
  Items sit under their own number, a deleted item is still referenced and has no image, every
  image holds its own number, and no item is dirty.
\<close>

definition ok_entry :: "'s kv_ops \<Rightarrow> 's \<Rightarrow> nat \<Rightarrow> icentry \<Rightarrow> bool" where
  "ok_entry K s n e \<longleftrightarrow> i_ino (ic_inode e) = n \<and> \<not> ic_dirty e \<and>
     (ic_deleted e \<longrightarrow> 0 < ic_refcount e \<and> inode_load K s n = None)"

definition images_ok :: "'s kv_ops \<Rightarrow> 's \<Rightarrow> bool" where
  "images_ok K s \<longleftrightarrow> (\<forall>n i. inode_load K s n = Some i \<longrightarrow> i_ino i = n)"

definition ok :: "'s kv_ops \<Rightarrow> 's kvbfs_ctx \<Rightarrow> bool" where
  "ok K c \<longleftrightarrow> (\<forall>n e. DAList.lookup (icache c) n = Some e \<longrightarrow> ok_entry K (db c) n e) \<and>
     images_ok K (db c)"

definition quiet :: "'s kvbfs_ctx \<Rightarrow> bool" where
  "quiet c \<longleftrightarrow> refs c = (\<lambda>_. 0)"

definition get_c :: "'s kv_ops \<Rightarrow> 's kvbfs_ctx \<Rightarrow> nat \<Rightarrow> 's kvbfs_ctx" where
  "get_c K c n = the (inode_get K c n)"

lemma ok_lookup: "ok K c \<Longrightarrow> DAList.lookup (icache c) n = Some e \<Longrightarrow> ok_entry K (db c) n e"
  by (simp add: ok_def)

lemma ok_images: "ok K c \<Longrightarrow> images_ok K (db c)"
  by (simp add: ok_def)

lemma okI:
  "\<lbrakk>\<And>n e. DAList.lookup (icache c) n = Some e \<Longrightarrow> ok_entry K (db c) n e; images_ok K (db c)\<rbrakk>
   \<Longrightarrow> ok K c"
  by (simp add: ok_def)

section \<open>References\<close>

lemma inode_get_view [fs_simps]:
  "inode_get K c n = (if view K c n = None then None else Some (get_c K c n))"
  by (simp add: get_c_def inode_get_def view_def ic_ref_def inode_get_insert_def split: option.splits)

lemma get_c_cases:
  assumes "ok K c" "view K c n \<noteq> None"
  obtains e where "get_c K c n = c\<lparr>icache := DAList.update n e (icache c)\<rparr>"
    "ic_inode e = the (view K c n)" "ic_refcount e = refs c n + 1" "\<not> ic_deleted e" "\<not> ic_dirty e"
    "i_ino (ic_inode e) = n"
proof (cases "DAList.lookup (icache c) n")
  case None
  with assms obtain i where i: "inode_load K (db c) n = Some i" by (auto simp: view_def)
  then have "i_ino i = n" using assms(1) by (simp add: ok_def images_ok_def)
  with None i show thesis
    by (intro that [of "\<lparr>ic_inode = i, ic_refcount = 1, ic_dirty = False, ic_deleted = False\<rparr>"])
      (simp_all add: get_c_def inode_get_def inode_get_insert_def view_def refs_def)
next
  case (Some e)
  with assms have "\<not> ic_deleted e" "ok_entry K (db c) n e"
    using ok_lookup [of K c n e] by (auto simp: view_def split: if_splits)
  with Some show thesis
    by (intro that [of "e\<lparr>ic_refcount := ic_refcount e + 1\<rparr>"])
      (simp_all add: get_c_def inode_get_def ic_ref_def view_def refs_def ok_entry_def)
qed

lemma view_update_icache:
  "view K (c\<lparr>icache := DAList.update n e (icache c)\<rparr>) =
     (view K c)(n := (if ic_deleted e then None else Some (ic_inode e)))"
  by (rule ext) (simp add: view_def DAList.lookup_update split: option.splits)

lemma refs_update_icache:
  "refs (c\<lparr>icache := DAList.update n e (icache c)\<rparr>) = (refs c)(n := ic_refcount e)"
  by (rule ext) (simp add: refs_def DAList.lookup_update)

lemma ok_update_icache:
  assumes "ok K c" "ok_entry K (db c) n e"
  shows "ok K (c\<lparr>icache := DAList.update n e (icache c)\<rparr>)"
  using assms by (auto simp: ok_def DAList.lookup_update split: if_splits)

lemma get_c_obs [fs_simps]:
  assumes "ok K c" "view K c n \<noteq> None"
  shows "view K (get_c K c n) = view K c"
    and "refs (get_c K c n) = (refs c)(n := refs c n + 1)"
    and "ok K (get_c K c n)"
    and "db (get_c K c n) = db c" "super (get_c K c n) = super c" "vtree (get_c K c n) = vtree c"
    and "sessions_ino (get_c K c n) = sessions_ino c" "session_set (get_c K c n) = session_set c"
    and "events (get_c K c n) = events c" "mem (get_c K c n) = mem c" "llm (get_c K c n) = llm c"
proof -
  obtain e where e: "get_c K c n = c\<lparr>icache := DAList.update n e (icache c)\<rparr>"
    "ic_inode e = the (view K c n)" "ic_refcount e = refs c n + 1" "\<not> ic_deleted e" "\<not> ic_dirty e"
    "i_ino (ic_inode e) = n"
    using get_c_cases [OF assms] .
  show "view K (get_c K c n) = view K c"
    using e assms(2) by (auto simp: view_update_icache fun_upd_idem_iff)
  show "refs (get_c K c n) = (refs c)(n := refs c n + 1)"
    using e by (simp add: refs_update_icache)
  show "ok K (get_c K c n)"
    unfolding e(1) using e assms by (intro ok_update_icache) (simp_all add: ok_entry_def)
  show "db (get_c K c n) = db c" "super (get_c K c n) = super c" "vtree (get_c K c n) = vtree c"
    "sessions_ino (get_c K c n) = sessions_ino c" "session_set (get_c K c n) = session_set c"
    "events (get_c K c n) = events c" "mem (get_c K c n) = mem c" "llm (get_c K c n) = llm c"
    using e(1) by simp_all
qed

lemma inode_put_fields [simp]:
  "db (inode_put c n) = db c" "super (inode_put c n) = super c" "vtree (inode_put c n) = vtree c"
  "sessions_ino (inode_put c n) = sessions_ino c" "session_set (inode_put c n) = session_set c"
  "events (inode_put c n) = events c" "mem (inode_put c n) = mem c" "llm (inode_put c n) = llm c"
  by (simp_all add: inode_put_def)

lemma refs_inode_put [fs_simps]:
  "refs (inode_put c n) = (refs c)(n := refs c n - 1)"
  by (rule ext)
    (auto simp: refs_def inode_put_def ic_put_def Let_def DAList.lookup_update DAList.lookup_delete
      split: option.splits)

lemma view_inode_put [fs_simps]:
  assumes "ok K c"
  shows "view K (inode_put c n) = view K c"
proof
  fix m
  have "inode_load K (db c) n = None" if "DAList.lookup (icache c) n = Some e" "ic_deleted e" for e
    using assms that by (auto simp: ok_def ok_entry_def)
  then show "view K (inode_put c n) m = view K c m"
    by (auto simp: view_def inode_put_def ic_put_def Let_def DAList.lookup_update
        DAList.lookup_delete split: option.splits if_splits)
qed

lemma ok_inode_put [fs_simps]:
  assumes "ok K c"
  shows "ok K (inode_put c n)"
proof (rule okI)
  show "images_ok K (db (inode_put c n))" using assms by (simp add: ok_def)
  fix m e assume "DAList.lookup (icache (inode_put c n)) m = Some e"
  with assms show "ok_entry K (db (inode_put c n)) m e"
    by (auto simp: inode_put_def ic_put_def ok_def Let_def DAList.lookup_update
        DAList.lookup_delete ok_entry_def split: option.splits if_splits)
qed

section \<open>Reading and changing a referenced inode\<close>

lemma ic_get_view:
  "0 < refs c n \<Longrightarrow> view K c n \<noteq> None \<Longrightarrow> ic_get c n = the (view K c n)"
  by (auto simp: ic_get_def refs_def view_def split: option.splits if_splits)

lemma ic_modify_fields [simp]:
  "db (ic_modify c n f) = db c" "super (ic_modify c n f) = super c"
  "vtree (ic_modify c n f) = vtree c" "sessions_ino (ic_modify c n f) = sessions_ino c"
  "session_set (ic_modify c n f) = session_set c" "events (ic_modify c n f) = events c"
  "mem (ic_modify c n f) = mem c" "llm (ic_modify c n f) = llm c"
  by (simp_all add: ic_modify_def split: option.splits)

lemma refs_ic_modify [simp]: "refs (ic_modify c n f) = refs c"
  by (rule ext) (simp add: refs_def ic_modify_def DAList.lookup_update split: option.splits)

lemma view_ic_modify [fs_simps]:
  "0 < refs c n \<Longrightarrow> view K c n \<noteq> None \<Longrightarrow>
   view K (ic_modify c n f) = (view K c)(n := Some (f (the (view K c n))))"
  by (rule ext)
    (auto simp: refs_def view_def ic_modify_def DAList.lookup_update split: option.splits if_splits)

lemma ok_ic_modify [fs_simps]:
  assumes "ok K c" "\<And>i. i_ino i = n \<Longrightarrow> i_ino (f i) = n"
  shows "ok K (ic_modify c n f)"
proof (cases "DAList.lookup (icache c) n")
  case None
  with assms show ?thesis by (simp add: ic_modify_def)
next
  case (Some e)
  then have "ok_entry K (db c) n e" using assms(1) ok_lookup by blast
  with Some assms show ?thesis
    by (auto simp: ic_modify_def ok_entry_def intro!: ok_update_icache)
qed

text \<open>No item is ever dirty, so a sync writes nothing.\<close>

lemma inode_sync_clean [fs_simps]: "ok K c \<Longrightarrow> inode_sync K c n = (True, c)"
  by (auto simp: inode_sync_def ok_def ok_entry_def split: option.splits)

lemma dirty_list_clean: "ok K c \<Longrightarrow> dirty_list (icache c) = []"
proof -
  assume "ok K c"
  then have "\<not> ic_dirty e" if "(n, e) \<in> set (DAList.impl_of (icache c))" for n e
    using that impl_of [of "icache c"] by (auto simp: ok_def ok_entry_def DAList.lookup.rep_eq)
  then show ?thesis by (auto simp: dirty_list_def filter_empty_conv)
qed

lemma inode_sync_all_clean [fs_simps]: "ok K c \<Longrightarrow> inode_sync_all K c = (True, c)"
  by (simp add: inode_sync_all_def dirty_list_clean)

section \<open>The store underneath\<close>

lemma inode_key_encode: "kvbfs_key_inode n = encode (KInode n)"
  by (simp add: encode.simps)

lemma super_key_encode: "KVBFS_KEY_SUPER = encode KSuper"
  by (simp add: encode.simps)

context kv_store
begin

lemma inode_load_contents:
  "inode_load K s n =
     (case contents s (encode (KInode n)) of
        Some v \<Rightarrow> if length v = SIZEOF_INODE then Some (inode_of_bytes v) else None
      | None \<Rightarrow> None)"
  by (simp add: inode_load_def get inode_key_encode)

lemma inode_load_cong:
  "contents s (encode (KInode n)) = contents t (encode (KInode n)) \<Longrightarrow>
   inode_load K s n = inode_load K t n"
  by (simp add: inode_load_contents)

lemma ic_get_eq [fs_simps]:
  "0 < refs c n \<Longrightarrow> view K c n \<noteq> None \<Longrightarrow> ic_get c n = the (view K c n)"
  by (rule ic_get_view)

text \<open>A change of the store that keeps the inode images is not visible in the views.\<close>

lemma view_db:
  assumes "\<And>n. contents s (encode (KInode n)) = contents (db c) (encode (KInode n))"
  shows "view K (c\<lparr>db := s\<rparr>) = view K c" "ok K (c\<lparr>db := s\<rparr>) = ok K c"
proof -
  have "inode_load K s n = inode_load K (db c) n" for n using assms inode_load_cong by blast
  then show "view K (c\<lparr>db := s\<rparr>) = view K c" "ok K (c\<lparr>db := s\<rparr>) = ok K c"
    by (auto simp: view_def ok_def ok_entry_def images_ok_def fun_eq_iff split: option.splits)
qed

end

lemma refs_db [simp]: "refs (c\<lparr>db := s\<rparr>) = refs c"
  by (rule ext) (simp add: refs_def)

lemma view_rest [simp]:
  "view K (c\<lparr>super := a\<rparr>) = view K c" "view K (c\<lparr>vtree := b\<rparr>) = view K c"
  "view K (c\<lparr>session_set := d\<rparr>) = view K c" "view K (c\<lparr>events := e\<rparr>) = view K c"
  "view K (c\<lparr>mem := f\<rparr>) = view K c" "view K (c\<lparr>llm := g\<rparr>) = view K c"
  "view K (c\<lparr>sessions_ino := h\<rparr>) = view K c"
  by (rule ext, simp add: view_def split: option.splits)+

lemma refs_rest [simp]:
  "refs (c\<lparr>super := a\<rparr>) = refs c" "refs (c\<lparr>vtree := b\<rparr>) = refs c"
  "refs (c\<lparr>session_set := d\<rparr>) = refs c" "refs (c\<lparr>events := e\<rparr>) = refs c"
  "refs (c\<lparr>mem := f\<rparr>) = refs c" "refs (c\<lparr>llm := g\<rparr>) = refs c"
  "refs (c\<lparr>sessions_ino := h\<rparr>) = refs c"
  by (rule ext, simp add: refs_def)+

lemma ok_rest [simp]:
  "ok K (c\<lparr>super := a\<rparr>) = ok K c" "ok K (c\<lparr>vtree := b\<rparr>) = ok K c"
  "ok K (c\<lparr>session_set := d\<rparr>) = ok K c" "ok K (c\<lparr>events := e\<rparr>) = ok K c"
  "ok K (c\<lparr>mem := f\<rparr>) = ok K c" "ok K (c\<lparr>llm := g\<rparr>) = ok K c"
  "ok K (c\<lparr>sessions_ino := h\<rparr>) = ok K c"
  by (simp_all add: ok_def)

section \<open>Creation and deletion\<close>

definition new_inode :: "timespec \<Rightarrow> nat \<Rightarrow> nat \<Rightarrow> kvbfs_inode" where
  "new_inode now ino mode = \<lparr>i_ino = ino, i_mode = mode, i_nlink = 1, i_size = 0, i_blocks = 0,
     i_atime = now, i_mtime = now, i_ctime = now\<rparr>"

lemma new_inode_simps [simp]:
  "i_ino (new_inode now ino mode) = ino" "i_mode (new_inode now ino mode) = mode"
  "i_nlink (new_inode now ino mode) = 1" "i_size (new_inode now ino mode) = 0"
  "i_blocks (new_inode now ino mode) = 0"
  by (simp_all add: new_inode_def)

lemma i_ino_image: "i_ino (inode_of_bytes (inode_bytes i)) = u64 (i_ino i)"
  by (simp add: inode_of_bytes_def inode_bytes_def field_def)

lemma ic_mark_deleted_lookup:
  "DAList.lookup (ic_mark_deleted ic n) m =
     (if m = n then
        (case DAList.lookup ic n of
           Some e \<Rightarrow> if ic_refcount e = 0 then None else Some (e\<lparr>ic_deleted := True\<rparr>)
         | None \<Rightarrow> None)
      else DAList.lookup ic m)"
  by (simp add: ic_mark_deleted_def DAList.lookup_update DAList.lookup_delete split: option.splits)

lemma refs_inode_delete [fs_simps]: "refs (snd (inode_delete K c n)) = refs c"
  by (rule ext)
    (simp add: inode_delete_def refs_def ic_mark_deleted_lookup split_def Let_def split: option.splits)

lemma inode_delete_fields [simp]:
  "super (snd (inode_delete K c n)) = super c" "vtree (snd (inode_delete K c n)) = vtree c"
  "sessions_ino (snd (inode_delete K c n)) = sessions_ino c"
  "session_set (snd (inode_delete K c n)) = session_set c"
  "events (snd (inode_delete K c n)) = events c" "mem (snd (inode_delete K c n)) = mem c"
  "llm (snd (inode_delete K c n)) = llm c"
  by (simp_all add: inode_delete_def split_def Let_def)

lemma inode_create_fields [simp]:
  "super (snd (inode_create K now c mode)) = (super c)\<lparr>s_next_ino := u64 (s_next_ino (super c) + 1)\<rparr>"
  "vtree (snd (inode_create K now c mode)) = vtree c"
  "sessions_ino (snd (inode_create K now c mode)) = sessions_ino c"
  "session_set (snd (inode_create K now c mode)) = session_set c"
  "events (snd (inode_create K now c mode)) = events c"
  "mem (snd (inode_create K now c mode)) = mem c" "llm (snd (inode_create K now c mode)) = llm c"
  by (simp_all add: inode_create_def inode_alloc_def inode_alloc_bump_def super_save_def split_def
      Let_def)

context kv_store_live
begin

lemma contents_inode_delete [fs_simps]:
  "contents (db (snd (inode_delete K c n))) = (contents (db c))(encode (KInode n) := None)"
  by (simp add: inode_delete_def split_def Let_def inode_key_encode)

lemma inode_delete_load:
  "inode_load K (db (snd (inode_delete K c n))) m = (if m = n then None else inode_load K (db c) m)"
  by (simp add: inode_load_contents contents_inode_delete)

lemma view_inode_delete [fs_simps]: "view K (snd (inode_delete K c n)) = (view K c)(n := None)"
proof
  fix m
  have "icache (snd (inode_delete K c n)) = ic_mark_deleted (icache c) n"
    by (simp add: inode_delete_def split_def Let_def)
  then show "view K (snd (inode_delete K c n)) m = ((view K c)(n := None)) m"
    by (simp add: view_def ic_mark_deleted_lookup inode_delete_load split: option.splits)
qed

lemma ok_inode_delete [fs_simps]:
  assumes "ok K c"
  shows "ok K (snd (inode_delete K c n))"
proof (rule okI)
  show "images_ok K (db (snd (inode_delete K c n)))"
    using ok_images [OF assms] by (simp add: images_ok_def inode_delete_load)
  fix m e assume e: "DAList.lookup (icache (snd (inode_delete K c n))) m = Some e"
  have "icache (snd (inode_delete K c n)) = ic_mark_deleted (icache c) n"
    by (simp add: inode_delete_def split_def Let_def)
  with e show "ok_entry K (db (snd (inode_delete K c n))) m e"
    using ok_lookup [OF assms, of m]
    by (auto simp: ic_mark_deleted_lookup ok_entry_def inode_delete_load split: option.splits if_splits)
qed

lemma inode_create_eq:
  "fst (inode_create K now c mode) = Some (s_next_ino (super c))"
  "icache (snd (inode_create K now c mode)) =
     DAList.update (s_next_ino (super c))
       \<lparr>ic_inode = new_inode now (s_next_ino (super c)) mode, ic_refcount = 1, ic_dirty = False,
        ic_deleted = False\<rparr> (icache c)"
  "contents (db (snd (inode_create K now c mode))) =
     (contents (db c))
       (encode KSuper \<mapsto>
          super_bytes ((super c)\<lparr>s_next_ino := u64 (s_next_ino (super c) + 1)\<rparr>),
        encode (KInode (s_next_ino (super c))) \<mapsto>
          inode_bytes (new_inode now (s_next_ino (super c)) mode))"
  using put_live
  by (simp_all add: inode_create_def inode_alloc_def inode_alloc_bump_def super_save_def inode_save_def
      split_def Let_def new_inode_def inode_key_encode super_key_encode)

lemma inode_create_load:
  "inode_load K (db (snd (inode_create K now c mode))) m =
     (if m = s_next_ino (super c)
      then Some (inode_of_bytes (inode_bytes (new_inode now (s_next_ino (super c)) mode)))
      else inode_load K (db c) m)"
  by (simp add: inode_load_contents inode_create_eq(3))

lemma inode_create_obs [fs_simps]:
  "view K (snd (inode_create K now c mode)) =
     (view K c)(s_next_ino (super c) \<mapsto> new_inode now (s_next_ino (super c)) mode)"
  "refs (snd (inode_create K now c mode)) = (refs c)(s_next_ino (super c) := 1)"
  by (rule ext, simp add: view_def refs_def inode_create_eq(2) inode_create_load DAList.lookup_update
      split: option.splits)+

lemma ok_inode_create [fs_simps]:
  assumes "ok K c" "s_next_ino (super c) < 18446744073709551616"
  shows "ok K (snd (inode_create K now c mode))"
proof (rule okI)
  show "images_ok K (db (snd (inode_create K now c mode)))"
    using ok_images [OF assms(1)] assms(2)
    by (simp add: images_ok_def inode_create_load i_ino_image)
  fix m e assume e: "DAList.lookup (icache (snd (inode_create K now c mode))) m = Some e"
  then show "ok_entry K (db (snd (inode_create K now c mode))) m e"
    using ok_lookup [OF assms(1), of m]
    by (auto simp: inode_create_eq(2) DAList.lookup_update ok_entry_def inode_create_load
        split: if_splits)
qed

end

end
