(* ===== verification/Samples.thy ===== *)
theory Samples
  imports Inode
begin

text \<open>
  A small file system on the in-memory store, with which the witnesses of the properties
  evaluate: the root directory, a file \<^verbatim>\<open>/a\<close> (inode 5, one block), an empty directory \<^verbatim>\<open>/d\<close>
  (inode 2) and nothing cached.
\<close>

definition store_of :: "(key \<times> bytes) list \<Rightarrow> (string, bytes) alist" where
  "store_of es = foldr (\<lambda>(k, v) s. DAList.update (encode k) v s) es DAList.empty"

lemma lookup_store_of: "DAList.lookup (store_of es) (encode k) = map_of es k"
  by (induction es) (auto simp: store_of_def DAList.lookup_update)

lemma lookup_store_of_raw:
  "DAList.lookup (store_of es) x \<noteq> None \<Longrightarrow> \<exists>k. x = encode k \<and> k \<in> fst ` set es"
  by (induction es) (force simp: store_of_def DAList.lookup_update split: if_splits)+

definition t0 :: timespec where "t0 = \<lparr>tv_sec = 100, tv_nsec = 5\<rparr>"
definition t1 :: timespec where "t1 = \<lparr>tv_sec = 200, tv_nsec = 6\<rparr>"

definition file_inode :: kvbfs_inode where
  "file_inode = \<lparr>i_ino = 5, i_mode = S_IFREG OR 420, i_nlink = 1, i_size = 6, i_blocks = 1,
     i_atime = t0, i_mtime = t0, i_ctime = t0\<rparr>"

definition dir_inode :: kvbfs_inode where
  "dir_inode = \<lparr>i_ino = 2, i_mode = S_IFDIR OR 493, i_nlink = 2, i_size = 0, i_blocks = 0,
     i_atime = t0, i_mtime = t0, i_ctime = t0\<rparr>"

text \<open>The root counts the directory \<^verbatim>\<open>/d\<close> beside itself and its own entry.\<close>

definition sample_root :: kvbfs_inode where
  "sample_root = (root_inode t0)\<lparr>i_nlink := 3\<rparr>"

definition sample_super :: kvbfs_super where
  "sample_super = \<lparr>s_magic = KVBFS_MAGIC, s_version = KVBFS_VERSION, s_next_ino = 6\<rparr>"

definition sample_entries :: "(key \<times> bytes) list" where
  "sample_entries =
     [(KSuper, super_bytes sample_super),
      (KInode 1, inode_bytes sample_root),
      (KInode 2, inode_bytes dir_inode),
      (KInode 5, inode_bytes file_inode),
      (KDirent 1 ''a'', le_bytes 8 5),
      (KDirent 1 ''d'', le_bytes 8 2),
      (KXattr 5 ''user.k'', ''v''),
      (KBlock 5 0, ''hello!'' @ zeros 4090)]"

definition sample :: "(string, bytes) alist kvbfs_ctx" where
  "sample = (ctx_zero (store_of sample_entries))\<lparr>super := sample_super, events := events_init events_zero\<rparr>"

lemma sample_simps [simp]:
  "icache sample = DAList.empty" "db sample = store_of sample_entries" "super sample = sample_super"
  "vtree sample = vtree_init" "sessions_ino sample = 0" "session_set sample = []"
  "events sample = events_init events_zero" "mem sample = mem_zero" "llm sample = llm_zero"
  by (simp_all add: sample_def ctx_zero_def)

lemma wf_t [simp]: "wf_timespec t0" "wf_timespec t1"
  by (simp_all add: t0_def t1_def wf_timespec_def)

lemma perm_OR_less: "S_IFDIR OR 493 = 16877" "S_IFREG OR 420 = 33188"
  by (simp_all add: mode_defs)

lemma wf_sample [simp]: "wf_inode file_inode" "wf_inode dir_inode" "wf_inode sample_root"
  "wf_super sample_super"
  using wf_t by (simp_all add: wf_inode_def wf_super_def file_inode_def dir_inode_def sample_root_def root_inode_def
      sample_super_def perm_OR_less KVBFS_MAGIC_def KVBFS_VERSION_def KVBFS_ROOT_INO_def
      del: wf_t)

lemma sample_inode_fields [simp]:
  "i_ino file_inode = 5" "i_mode file_inode = S_IFREG OR 420" "i_nlink file_inode = 1"
  "i_size file_inode = 6" "i_blocks file_inode = 1" "i_mtime file_inode = t0"
  "i_ino dir_inode = 2" "i_mode dir_inode = S_IFDIR OR 493" "i_nlink dir_inode = 2"
  "i_ino (root_inode t) = 1" "i_mode (root_inode t) = S_IFDIR OR 493" "i_nlink (root_inode t) = 2"
  "i_ino sample_root = 1" "i_mode sample_root = S_IFDIR OR 493" "i_nlink sample_root = 3"
  "s_next_ino sample_super = 6"
  by (simp_all add: file_inode_def dir_inode_def sample_root_def root_inode_def KVBFS_ROOT_INO_def sample_super_def)

lemma sample_modes [simp]:
  "S_ISDIR (S_IFDIR OR 493)" "S_ISREG (S_IFREG OR 420)" "\<not> S_ISDIR (S_IFREG OR 420)"
  "\<not> S_ISREG (S_IFDIR OR 493)" "\<not> S_ISLNK (S_IFREG OR 420)" "\<not> S_ISLNK (S_IFDIR OR 493)"
  by (simp_all add: mode_defs)

lemma sample_contents:
  "DAList.lookup (store_of sample_entries) (encode k) = map_of sample_entries k"
  by (rule lookup_store_of)

lemma sample_block [simp]:
  "DAList.lookup (store_of sample_entries) (encode (KBlock 5 0)) = Some (''hello!'' @ zeros 4090)"
  unfolding sample_contents by (simp add: sample_entries_def)

lemma sample_load:
  "inode_load mem_ops (store_of sample_entries) n =
     map_of [(1, sample_root), (2, dir_inode), (5, file_inode)] n"
  by (simp add: mem.inode_load_contents lookup_store_of sample_entries_def)

lemma sample_view [simp]:
  "view mem_ops sample n = map_of [(1, sample_root), (2, dir_inode), (5, file_inode)] n"
  by (simp add: view_def sample_load)

lemma sample_refs [simp]: "refs sample = (\<lambda>_. 0)"
  by (rule ext) (simp add: refs_def)

lemma sample_quiet [simp]: "quiet sample"
  by (simp add: quiet_def)

lemma sample_ok [simp]: "ok mem_ops sample"
  by (auto simp: ok_def images_ok_def sample_load sample_root_def root_inode_def dir_inode_def file_inode_def
      KVBFS_ROOT_INO_def split: if_splits)

end
