(* ===== verification/Dirent.thy ===== *)
theory Dirent
  imports Samples
begin

text \<open>
  Directory entries, and the clean-up helpers of \<^verbatim>\<open>src/fuse_ops.c\<close> and \<^verbatim>\<open>src/mem.c\<close> that the
  handlers call when an inode goes away. A directory entry is the key \<^verbatim>\<open>d:<parent>:<name>\<close> with
  the child's inode number as its eight bytes; \<open>dlook\<close> is that reading on the contents of the
  store, so that the effect of any write on any entry is one rewriting step.
\<close>

section \<open>Operations\<close>

text \<open>0 stands for "no such entry"; a name too long for the key buffer has none.\<close>

definition dirent_lookup :: "'s kv_ops \<Rightarrow> 's \<Rightarrow> nat \<Rightarrow> string \<Rightarrow> nat" where
  "dirent_lookup K s parent name =
     (case kvbfs_key_dirent KVBFS_KEY_MAX parent name of
        None \<Rightarrow> 0
      | Some key \<Rightarrow>
          (case kv_get K s key of
             Some v \<Rightarrow> if length v = SIZEOF_U64 then le_val v else 0
           | None \<Rightarrow> 0))"

definition dirent_add ::
  "'s kv_ops \<Rightarrow> 's kvbfs_ctx \<Rightarrow> nat \<Rightarrow> string \<Rightarrow> nat \<Rightarrow> bool \<times> 's kvbfs_ctx" where
  "dirent_add K c parent name child =
     (case kvbfs_key_dirent KVBFS_KEY_MAX parent name of
        None \<Rightarrow> (False, c)
      | Some key \<Rightarrow> let (okay, s) = kv_put K (db c) key (le_bytes 8 child) in (okay, c\<lparr>db := s\<rparr>))"

definition dirent_remove ::
  "'s kv_ops \<Rightarrow> 's kvbfs_ctx \<Rightarrow> nat \<Rightarrow> string \<Rightarrow> bool \<times> 's kvbfs_ctx" where
  "dirent_remove K c parent name =
     (case kvbfs_key_dirent KVBFS_KEY_MAX parent name of
        None \<Rightarrow> (False, c)
      | Some key \<Rightarrow> let (okay, s) = kv_delete K (db c) key in (okay, c\<lparr>db := s\<rparr>))"

definition dirent_is_empty :: "'s kv_ops \<Rightarrow> 's \<Rightarrow> nat \<Rightarrow> bool" where
  "dirent_is_empty K s ino \<longleftrightarrow> kv_iter K s (kvbfs_key_dirent_prefix ino) = []"

definition delete_file_blocks :: "'s kv_ops \<Rightarrow> 's \<Rightarrow> nat \<Rightarrow> nat \<Rightarrow> 's" where
  "delete_file_blocks K s ino blocks = kv_delete_keys K s (map (kvbfs_key_block ino) [0..<blocks])"

definition xattr_delete_all :: "'s kv_ops \<Rightarrow> 's \<Rightarrow> nat \<Rightarrow> 's" where
  "xattr_delete_all K s ino = kv_delete_prefix K s (kvbfs_key_xattr_prefix ino)"

definition mem_delete_embeddings :: "'s kv_ops \<Rightarrow> 's \<Rightarrow> nat \<Rightarrow> 's" where
  "mem_delete_embeddings K s ino =
     (let s1 = kv_delete_prefix K s (mem_prefix_vec ino);
          s2 = kv_delete_prefix K s1 (mem_prefix_text ino);
          s3 = kv_delete_prefix K s2 (mem_prefix_header ino)
      in snd (kv_delete K s3 (mem_key_seq ino)))"

section \<open>Entries of the store's contents\<close>

definition name_fits :: "nat \<Rightarrow> string \<Rightarrow> bool" where
  "name_fits p name \<longleftrightarrow> length (encode (KDirent p name)) < KVBFS_KEY_MAX"

definition dlook :: "(string \<Rightarrow> bytes option) \<Rightarrow> nat \<Rightarrow> string \<Rightarrow> nat" where
  "dlook M p name =
     (if name_fits p name then
        (case M (encode (KDirent p name)) of
           Some v \<Rightarrow> if length v = SIZEOF_U64 then le_val v else 0
         | None \<Rightarrow> 0)
      else 0)"

lemma key_dirent_encode:
  "kvbfs_key_dirent KVBFS_KEY_MAX p name =
     (if name_fits p name then Some (encode (KDirent p name)) else None)"
  by (simp add: kvbfs_key_dirent_def name_fits_def encode.simps not_less Let_def)

lemma dlook_upd_other [fs_simps]: "(\<And>p n. k \<noteq> KDirent p n) \<Longrightarrow> dlook (M(encode k := v)) = dlook M"
  by (intro ext) (auto simp: dlook_def)

lemma dlook_upd [fs_simps]:
  "dlook (M(encode (KDirent p name) := v)) =
     (dlook M)(p := (dlook M p)(name :=
        (if name_fits p name then
           (case v of Some b \<Rightarrow> if length b = SIZEOF_U64 then le_val b else 0 | None \<Rightarrow> 0)
         else 0)))"
  by (intro ext) (auto simp: dlook_def)

lemma dlook_cong:
  "(\<And>p n. M (encode (KDirent p n)) = M' (encode (KDirent p n))) \<Longrightarrow> dlook M = dlook M'"
  by (intro ext) (simp add: dlook_def)

lemma length_le_bytes_u64 [simp]: "length (le_bytes 8 x) = SIZEOF_U64"
  by (simp add: SIZEOF_U64_def)

lemma dirent_op_fields [simp]:
  "icache (snd (dirent_add K c p n x)) = icache c" "super (snd (dirent_add K c p n x)) = super c"
  "vtree (snd (dirent_add K c p n x)) = vtree c"
  "sessions_ino (snd (dirent_add K c p n x)) = sessions_ino c"
  "session_set (snd (dirent_add K c p n x)) = session_set c"
  "events (snd (dirent_add K c p n x)) = events c" "mem (snd (dirent_add K c p n x)) = mem c"
  "llm (snd (dirent_add K c p n x)) = llm c"
  "icache (snd (dirent_remove K c p n)) = icache c" "super (snd (dirent_remove K c p n)) = super c"
  "vtree (snd (dirent_remove K c p n)) = vtree c"
  "sessions_ino (snd (dirent_remove K c p n)) = sessions_ino c"
  "session_set (snd (dirent_remove K c p n)) = session_set c"
  "events (snd (dirent_remove K c p n)) = events c" "mem (snd (dirent_remove K c p n)) = mem c"
  "llm (snd (dirent_remove K c p n)) = llm c"
  by (simp_all add: dirent_add_def dirent_remove_def split_def Let_def split: option.splits)

lemma refs_dirent_op [simp]:
  "refs (snd (dirent_add K c p n x)) = refs c" "refs (snd (dirent_remove K c p n)) = refs c"
  by (rule ext, simp add: refs_def)+

context kv_store
begin

lemma dirent_lookup_dlook [fs_simps]: "dirent_lookup K s = dlook (contents s)"
  by (intro ext) (simp add: dirent_lookup_def dlook_def key_dirent_encode get)

lemma dirent_is_empty_iff:
  "dirent_is_empty K s p \<longleftrightarrow>
     (\<forall>k. prefix (kvbfs_key_dirent_prefix p) k \<longrightarrow> contents s k = None)"
  by (simp add: dirent_is_empty_def iter_Nil)

lemma dirent_is_empty_dlook: "dirent_is_empty K s p \<Longrightarrow> dlook (contents s) p name = 0"
  using dirent_prefix_iff [of p "KDirent p name"] by (simp add: dirent_is_empty_iff dlook_def)

end

context kv_store_live
begin

lemma dirent_add_live [fs_simps]:
  "fst (dirent_add K c p name x) \<longleftrightarrow> name_fits p name"
  "contents (db (snd (dirent_add K c p name x))) =
     (if name_fits p name then (contents (db c))(encode (KDirent p name) \<mapsto> le_bytes 8 x)
      else contents (db c))"
  using put_live by (simp_all add: dirent_add_def key_dirent_encode split_def Let_def)

lemma dirent_remove_live [fs_simps]:
  "fst (dirent_remove K c p name) \<longleftrightarrow> name_fits p name"
  "contents (db (snd (dirent_remove K c p name))) =
     (if name_fits p name then (contents (db c))(encode (KDirent p name) := None)
      else contents (db c))"
  using delete_live by (simp_all add: dirent_remove_def key_dirent_encode split_def Let_def)

lemma delete_file_blocks_live [fs_simps]:
  "contents (delete_file_blocks K s ino n) =
     (\<lambda>k. if k \<in> (\<lambda>b. encode (KBlock ino b)) ` {0..<n} then None else contents s k)"
  by (simp add: delete_file_blocks_def delete_keys encode.simps)

lemma xattr_delete_all_live [fs_simps]:
  "contents (xattr_delete_all K s ino) =
     (\<lambda>k. if prefix (kvbfs_key_xattr_prefix ino) k then None else contents s k)"
  by (simp add: xattr_delete_all_def delete_prefix)

lemma mem_delete_embeddings_live:
  "contents (mem_delete_embeddings K s ino) (encode k) =
     (if k = KMemSeq ino \<or> (\<exists>q. k = KMemVec ino q \<or> k = KMemText ino q \<or> k = KMemHeader ino q)
      then None else contents s (encode k))"
  by (auto simp: mem_delete_embeddings_def delete_prefix Let_def prefix_iffs
      encode.simps(9) [symmetric])

end

end
