(* ===== verification/Version.thy ===== *)
theory Version
  imports Dirent
begin

text \<open>
  File versions (\<^verbatim>\<open>src/version.c\<close>): a snapshot copies the blocks of a file to versioned keys,
  stores the metadata, counts the version and drops the version that leaves the window of
  \<^verbatim>\<open>KVBFS_MAX_VERSIONS\<close>. The lemmas say what a snapshot holds, that the stored versions are
  exactly the last 64, and that deleting all versions leaves nothing behind.
\<close>

section \<open>Operations\<close>

definition KVBFS_MAX_VERSIONS :: nat where "KVBFS_MAX_VERSIONS = 64"

definition version_get_current :: "'s kv_ops \<Rightarrow> 's \<Rightarrow> nat \<Rightarrow> nat" where
  "version_get_current K s ino =
     (case kv_get K s (kvbfs_key_version_counter ino) of
        Some v \<Rightarrow> if length v = SIZEOF_U64 then le_val v else 0
      | None \<Rightarrow> 0)"

definition version_set_counter :: "'s kv_ops \<Rightarrow> 's \<Rightarrow> nat \<Rightarrow> nat \<Rightarrow> bool \<times> 's" where
  "version_set_counter K s ino ver = kv_put K s (kvbfs_key_version_counter ino) (le_bytes 8 ver)"

definition version_get_meta :: "'s kv_ops \<Rightarrow> 's \<Rightarrow> nat \<Rightarrow> nat \<Rightarrow> kvbfs_version_meta option" where
  "version_get_meta K s ino ver =
     (case kv_get K s (kvbfs_key_version_meta ino ver) of
        Some v \<Rightarrow> if length v = SIZEOF_VERSION_META then Some (version_meta_of_bytes v) else None
      | None \<Rightarrow> None)"

definition version_read_block :: "'s kv_ops \<Rightarrow> 's \<Rightarrow> nat \<Rightarrow> nat \<Rightarrow> nat \<Rightarrow> bytes option" where
  "version_read_block K s ino ver b = kv_get K s (kvbfs_key_version_block ino ver b)"

definition version_delete_one :: "'s kv_ops \<Rightarrow> 's \<Rightarrow> nat \<Rightarrow> nat \<Rightarrow> 's" where
  "version_delete_one K s ino ver =
     kv_delete_prefix K (snd (kv_delete K s (kvbfs_key_version_meta ino ver)))
       (kvbfs_key_version_block_prefix ino ver)"

text \<open>The copying loop: a block that cannot be read is skipped, the result of the write ignored.\<close>

fun version_copy :: "'s kv_ops \<Rightarrow> 's \<Rightarrow> nat \<Rightarrow> nat \<Rightarrow> nat list \<Rightarrow> 's" where
  "version_copy K s ino ver [] = s"
| "version_copy K s ino ver (i # is) =
     (case kv_get K s (kvbfs_key_block ino i) of
        None \<Rightarrow> version_copy K s ino ver is
      | Some d \<Rightarrow>
          version_copy K (snd (kv_put K s (kvbfs_key_version_block ino ver i) d)) ino ver is)"

definition version_snapshot :: "'s kv_ops \<Rightarrow> 's kvbfs_ctx \<Rightarrow> nat \<Rightarrow> bool \<times> 's kvbfs_ctx" where
  "version_snapshot K c ino =
     (case inode_get K c ino of
        None \<Rightarrow> (False, c)
      | Some c1 \<Rightarrow>
          let file_size = i_size (ic_get c1 ino);
              file_blocks = i_blocks (ic_get c1 ino);
              file_mtime = i_mtime (ic_get c1 ino);
              c2 = inode_put c1 ino
          in if file_size = 0 then (True, c2)
             else
               let ver = version_get_current K (db c2) ino;
                   s1 = version_copy K (db c2) ino ver [0..<file_blocks];
                   meta = \<lparr>m_size = file_size, m_blocks = file_blocks, m_mtime = file_mtime\<rparr>;
                   s2 = snd (kv_put K s1 (kvbfs_key_version_meta ino ver) (version_meta_bytes meta));
                   s3 = snd (version_set_counter K s2 ino (u64 (ver + 1)));
                   s4 = (if KVBFS_MAX_VERSIONS < u64 (ver + 1)
                         then version_delete_one K s3 ino (ver + 1 - KVBFS_MAX_VERSIONS - 1)
                         else s3)
               in (True, c2\<lparr>db := s4\<rparr>))"

definition version_delete_all :: "'s kv_ops \<Rightarrow> 's \<Rightarrow> nat \<Rightarrow> 's" where
  "version_delete_all K s ino =
     (let ver = version_get_current K s ino
      in if ver = 0 then s
         else
           let s1 = snd (kv_delete K s (kvbfs_key_version_counter ino));
               start = (if KVBFS_MAX_VERSIONS < ver then ver - KVBFS_MAX_VERSIONS else 0)
           in fold (\<lambda>v s. version_delete_one K s ino v) [start..<ver] s1)"

section \<open>The stored versions\<close>

definition vcount :: "(string \<Rightarrow> bytes option) \<Rightarrow> nat \<Rightarrow> nat" where
  "vcount M ino =
     (case M (encode (KVerCounter ino)) of
        Some v \<Rightarrow> if length v = SIZEOF_U64 then le_val v else 0 | None \<Rightarrow> 0)"

text \<open>Metadata is stored for exactly the last 64 numbers below the counter, blocks for no other.\<close>

definition in_window :: "nat \<Rightarrow> nat \<Rightarrow> bool" where
  "in_window n v \<longleftrightarrow> v < n \<and> n \<le> v + KVBFS_MAX_VERSIONS"

definition version_window :: "(string \<Rightarrow> bytes option) \<Rightarrow> nat \<Rightarrow> bool" where
  "version_window M ino \<longleftrightarrow>
     (\<forall>v. (M (encode (KVerMeta ino v)) \<noteq> None) = in_window (vcount M ino) v) \<and>
     (\<forall>v b. M (encode (KVerBlock ino v b)) \<noteq> None \<longrightarrow> in_window (vcount M ino) v)"

text \<open>The keys that belong to one version, and to the versions of one inode.\<close>

definition version_key :: "nat \<Rightarrow> nat \<Rightarrow> key \<Rightarrow> bool" where
  "version_key ino v k \<longleftrightarrow> k = KVerMeta ino v \<or> (\<exists>b. k = KVerBlock ino v b)"

lemma version_key_simps [simp]:
  "version_key ino v (KVerMeta i w) \<longleftrightarrow> i = ino \<and> w = v"
  "version_key ino v (KVerBlock i w b) \<longleftrightarrow> i = ino \<and> w = v"
  "\<not> version_key ino v (KVerCounter i)" "\<not> version_key ino v (KInode i)"
  "\<not> version_key ino v KSuper" "\<not> version_key ino v (KBlock i b)"
  "\<not> version_key ino v (KDirent i n)" "\<not> version_key ino v (KXattr i n)"
  by (auto simp: version_key_def)

lemma version_keys_encode:
  "kvbfs_key_version_counter i = encode (KVerCounter i)"
  "kvbfs_key_version_meta i v = encode (KVerMeta i v)"
  "kvbfs_key_version_block i v b = encode (KVerBlock i v b)"
  "kvbfs_key_block i b = encode (KBlock i b)"
  by (simp_all add: encode.simps)

lemma vcount_upd [simp]:
  "vcount (M(encode (KVerCounter ino) \<mapsto> le_bytes 8 n)) i = (if i = ino then u64 n else vcount M i)"
  by (simp add: vcount_def SIZEOF_U64_def)

context kv_store
begin

lemma version_get_current_vcount: "version_get_current K s ino = vcount (contents s) ino"
  by (simp add: version_get_current_def vcount_def get version_keys_encode)

lemma version_get_meta_contents:
  "version_get_meta K s ino v =
     (case contents s (encode (KVerMeta ino v)) of
        Some b \<Rightarrow> if length b = SIZEOF_VERSION_META then Some (version_meta_of_bytes b) else None
      | None \<Rightarrow> None)"
  by (simp add: version_get_meta_def get version_keys_encode)

lemma version_read_block_contents:
  "version_read_block K s ino v b = contents s (encode (KVerBlock ino v b))"
  by (simp add: version_read_block_def get version_keys_encode)

end

context kv_store_live
begin

lemma version_delete_one_live:
  "contents (version_delete_one K s ino v) (encode k) =
     (if version_key ino v k then None else contents s (encode k))"
  by (auto simp: version_delete_one_def delete_prefix version_keys_encode version_block_prefix_iff
      version_key_def)

lemma fold_delete_one_live:
  "contents (fold (\<lambda>v s. version_delete_one K s ino v) vs s) (encode k) =
     (if \<exists>v\<in>set vs. version_key ino v k then None else contents s (encode k))"
  by (induction vs arbitrary: s) (auto simp: version_delete_one_live)

lemma version_copy_live:
  "contents (version_copy K s ino ver bs) (encode k) =
     (case k of
        KVerBlock i v b \<Rightarrow>
          if i = ino \<and> v = ver \<and> b \<in> set bs \<and> contents s (encode (KBlock ino b)) \<noteq> None
          then contents s (encode (KBlock ino b)) else contents s (encode k)
      | _ \<Rightarrow> contents s (encode k))"
proof (induction bs arbitrary: s)
  case Nil
  then show ?case by (simp split: key.split)
next
  case (Cons a bs)
  show ?case
    by (cases "contents s (encode (KBlock ino a))")
      (auto simp: get version_keys_encode Cons.IH split: key.split)
qed

lemma version_delete_all_live:
  "contents (version_delete_all K s ino) (encode k) =
     (if vcount (contents s) ino \<noteq> 0 \<and>
        (k = KVerCounter ino \<or> (\<exists>v. in_window (vcount (contents s) ino) v \<and> version_key ino v k))
      then None else contents s (encode k))"
proof -
  let ?n = "vcount (contents s) ino"
  have "v \<in> set [(if KVBFS_MAX_VERSIONS < ?n then ?n - KVBFS_MAX_VERSIONS else 0)..<?n] \<longleftrightarrow>
      in_window ?n v" for v
    by (auto simp: in_window_def)
  then show ?thesis
    by (auto simp: version_delete_all_def version_get_current_vcount fold_delete_one_live Let_def
        version_keys_encode)
qed

text \<open>Deleting all versions of an inode leaves no counter, no metadata and no block of it.\<close>

lemma version_delete_all_clean:
  assumes "version_window (contents s) ino"
  shows "vcount (contents (version_delete_all K s ino)) ino = 0"
    and "version_key ino v k \<Longrightarrow> contents (version_delete_all K s ino) (encode k) = None"
proof -
  show "vcount (contents (version_delete_all K s ino)) ino = 0"
    by (simp add: vcount_def [of "contents (version_delete_all K s ino)"] version_delete_all_live)
      (simp add: vcount_def)
  assume k: "version_key ino v k"
  show "contents (version_delete_all K s ino) (encode k) = None"
  proof (cases "contents s (encode k) = None")
    case True
    then show ?thesis by (simp add: version_delete_all_live)
  next
    case False
    with k assms have "in_window (vcount (contents s) ino) v"
      unfolding version_window_def version_key_def by blast
    with k show ?thesis by (auto simp: version_delete_all_live in_window_def)
  qed
qed

section \<open>A snapshot\<close>

definition snap_contents ::
  "(string \<Rightarrow> bytes option) \<Rightarrow> nat \<Rightarrow> kvbfs_inode \<Rightarrow> nat \<Rightarrow> key \<Rightarrow> bytes option" where
  "snap_contents M ino i n k =
     (if KVBFS_MAX_VERSIONS < n + 1 \<and> version_key ino (n - KVBFS_MAX_VERSIONS) k then None
      else if k = KVerCounter ino then Some (le_bytes 8 (n + 1))
      else if k = KVerMeta ino n then
        Some (version_meta_bytes \<lparr>m_size = i_size i, m_blocks = i_blocks i, m_mtime = i_mtime i\<rparr>)
      else (case k of
              KVerBlock j v b \<Rightarrow>
                if j = ino \<and> v = n \<and> b < i_blocks i \<and> M (encode (KBlock ino b)) \<noteq> None
                then M (encode (KBlock ino b)) else M (encode k)
            | _ \<Rightarrow> M (encode k)))"

lemma version_snapshot_live:
  assumes "ok K c" "view K c ino = Some i" "i_size i \<noteq> 0"
    "vcount (contents (db c)) ino + 1 < 18446744073709551616"
  shows "fst (version_snapshot K c ino)"
    and "contents (db (snd (version_snapshot K c ino))) (encode k) =
      snap_contents (contents (db c)) ino i (vcount (contents (db c)) ino) k"
    and "view K (snd (version_snapshot K c ino)) = view K c"
    and "refs (snd (version_snapshot K c ino)) = refs c"
    and "ok K (snd (version_snapshot K c ino))"
proof -
  let ?n = "vcount (contents (db c)) ino"
  let ?c = "inode_put (get_c K c ino) ino"
  have ig: "ic_get (get_c K c ino) ino = i"
    using assms by (simp add: fs_simps)
  have get: "inode_get K c ino = Some (get_c K c ino)" using assms by (simp add: fs_simps)
  define meta where
    "meta = version_meta_bytes \<lparr>m_size = i_size i, m_blocks = i_blocks i, m_mtime = i_mtime i\<rparr>"
  define s1 where "s1 = version_copy K (db c) ino ?n [0..<i_blocks i]"
  define s3 where
    "s3 = snd (version_set_counter K (snd (kv_put K s1 (kvbfs_key_version_meta ino ?n) meta)) ino (?n + 1))"
  define s where "s = (if KVBFS_MAX_VERSIONS < ?n + 1
    then version_delete_one K s3 ino (?n - KVBFS_MAX_VERSIONS) else s3)"
  have s1: "version_snapshot K c ino = (True, ?c\<lparr>db := s\<rparr>)"
    using assms unfolding version_snapshot_def get s_def s3_def s1_def meta_def
    by (simp add: Let_def ig fs_simps version_get_current_vcount)
  have "contents s3 (encode k) = (if k = KVerCounter ino then Some (le_bytes 8 (?n + 1))
      else if k = KVerMeta ino ?n then Some meta else contents s1 (encode k))" for k
    by (simp add: s3_def version_set_counter_def version_keys_encode)
  then have s2: "contents s (encode k) = snap_contents (contents (db c)) ino i ?n k" for k
    by (auto simp: s_def snap_contents_def version_delete_one_live meta_def s1_def version_copy_live
        split: key.split)
  note s = s1 s2
  show "fst (version_snapshot K c ino)" using s by simp
  show "contents (db (snd (version_snapshot K c ino))) (encode k) =
      snap_contents (contents (db c)) ino i ?n k" using s by simp
  have "contents s (encode (KInode m)) = contents (db ?c) (encode (KInode m))" for m
    using assms by (simp add: s(2) snap_contents_def fs_simps)
  then show "view K (snd (version_snapshot K c ino)) = view K c"
    "refs (snd (version_snapshot K c ino)) = refs c" "ok K (snd (version_snapshot K c ino))"
    using assms by (simp_all add: s(1) view_db fs_simps)
qed

lemma snap_contents_window:
  assumes "version_window M ino" "vcount M ino + 1 < 18446744073709551616"
    and "\<And>k. M' (encode k) = snap_contents M ino i (vcount M ino) k"
  shows "version_window M' ino" "vcount M' ino = vcount M ino + 1"
proof -
  let ?n = "vcount M ino"
  show n: "vcount M' ino = ?n + 1"
    using assms(2) by (simp add: vcount_def [of M'] assms(3) snap_contents_def SIZEOF_U64_def)
  have "M' (encode (KVerMeta ino v)) \<noteq> None \<longleftrightarrow> in_window (?n + 1) v" for v
    using assms(1) by (auto simp: assms(3) snap_contents_def version_window_def in_window_def)
  moreover have "in_window (?n + 1) v" if "M' (encode (KVerBlock ino v b)) \<noteq> None" for v b
  proof (cases "v = ?n")
    case True
    then show ?thesis by (simp add: in_window_def KVBFS_MAX_VERSIONS_def)
  next
    case False
    with that have "M (encode (KVerBlock ino v b)) \<noteq> None"
      "\<not> (KVBFS_MAX_VERSIONS < ?n + 1 \<and> v = ?n - KVBFS_MAX_VERSIONS)"
      by (auto simp: assms(3) snap_contents_def split: if_splits)
    moreover from this have "in_window ?n v" using assms(1) unfolding version_window_def by blast
    ultimately show ?thesis by (auto simp: in_window_def)
  qed
  ultimately show "version_window M' ino" unfolding version_window_def n by blast
qed

lemma snapshot_captures:
  assumes "ok K c" "view K c ino = Some i" "wf_inode i" "i_size i \<noteq> 0"
    and "version_window (contents (db c)) ino" "vcount (contents (db c)) ino + 1 < 18446744073709551616"
    and "n = vcount (contents (db c)) ino" "c' = snd (version_snapshot K c ino)"
  shows "version_get_current K (db c') ino = n + 1"
    and "version_get_meta K (db c') ino n =
      Some \<lparr>m_size = i_size i, m_blocks = i_blocks i, m_mtime = i_mtime i\<rparr>"
    and "b < i_blocks i \<Longrightarrow>
      version_read_block K (db c') ino n b = kv_get K (db c) (kvbfs_key_block ino b)"
    and "kv_get K (db c') (kvbfs_key_block m b) = kv_get K (db c) (kvbfs_key_block m b)"
    and "view K c' = view K c"
proof -
  note live = version_snapshot_live [OF assms(1,2,4,6)]
  note snap = snap_contents_window [OF assms(5,6) live(2)]
  have "wf_version_meta \<lparr>m_size = i_size i, m_blocks = i_blocks i, m_mtime = i_mtime i\<rparr>"
    using assms(3) by (simp add: wf_version_meta_def wf_inode_def)
  then show "version_get_meta K (db c') ino n =
      Some \<lparr>m_size = i_size i, m_blocks = i_blocks i, m_mtime = i_mtime i\<rparr>"
    using assms(7,8) by (simp add: version_get_meta_contents live(2) snap_contents_def
        KVBFS_MAX_VERSIONS_def) arith
  show "version_get_current K (db c') ino = n + 1"
    using snap assms(7,8) by (simp add: version_get_current_vcount)
  have "contents (db c) (encode (KVerBlock ino n b)) = None" for b
    using assms(5,7) unfolding version_window_def in_window_def by blast
  then show "version_read_block K (db c') ino n b = kv_get K (db c) (kvbfs_key_block ino b)"
    if "b < i_blocks i"
    using assms(7,8) that by (simp add: version_read_block_contents live(2) snap_contents_def
        KVBFS_MAX_VERSIONS_def get version_keys_encode) arith
  show "kv_get K (db c') (kvbfs_key_block m b) = kv_get K (db c) (kvbfs_key_block m b)"
    using assms(8) by (simp add: get version_keys_encode live(2) snap_contents_def)
  show "view K c' = view K c" using assms(8) live(3) by simp
qed

lemma snapshot_window:
  assumes "ok K c" "view K c ino = Some i" "i_size i \<noteq> 0"
    and "version_window (contents (db c)) ino" "vcount (contents (db c)) ino + 1 < 18446744073709551616"
    and "n = vcount (contents (db c)) ino" "c' = snd (version_snapshot K c ino)"
  shows "version_window (contents (db c')) ino"
    and "in_window n v \<Longrightarrow> in_window (n + 1) v \<Longrightarrow>
      version_get_meta K (db c') ino v = version_get_meta K (db c) ino v \<and>
      version_read_block K (db c') ino v b = version_read_block K (db c) ino v b"
proof -
  note live = version_snapshot_live [OF assms(1-3,5)]
  show "version_window (contents (db c')) ino"
    using snap_contents_window(1) [OF assms(4,5) live(2)] assms(7) by simp
  assume v: "in_window n v" "in_window (n + 1) v"
  then have "v \<noteq> n" "\<not> (KVBFS_MAX_VERSIONS < n + 1 \<and> v = n - KVBFS_MAX_VERSIONS)"
    by (auto simp: in_window_def)
  then have "contents (db c') (encode (KVerMeta ino v)) = contents (db c) (encode (KVerMeta ino v))"
    "contents (db c') (encode (KVerBlock ino v b)) = contents (db c) (encode (KVerBlock ino v b))"
    using assms(6,7) by (auto simp: live(2) snap_contents_def)
  then show "version_get_meta K (db c') ino v = version_get_meta K (db c) ino v \<and>
      version_read_block K (db c') ino v b = version_read_block K (db c) ino v b"
    by (simp add: version_get_meta_contents version_read_block_contents)
qed

end

section \<open>Properties\<close>

text \<open>
  A snapshot captures the file: the new version carries the size, block count and
  modification time of the file, each of its blocks reads back as the file's block (a hole stays a
  hole), the counter advances by one, and no file block and no inode is touched.
\<close>

theorem snapshot_captures_file:
  assumes "kv_store_live K contents" "ok K c" "view K c ino = Some i" "wf_inode i" "i_size i \<noteq> 0"
    and "version_window (contents (db c)) ino" "vcount (contents (db c)) ino + 1 < 18446744073709551616"
    and "n = vcount (contents (db c)) ino" "c' = snd (version_snapshot K c ino)"
  shows "version_get_current K (db c') ino = n + 1 \<and>
    version_get_meta K (db c') ino n =
      Some \<lparr>m_size = i_size i, m_blocks = i_blocks i, m_mtime = i_mtime i\<rparr> \<and>
    (\<forall>b<i_blocks i. version_read_block K (db c') ino n b = kv_get K (db c) (kvbfs_key_block ino b)) \<and>
    (\<forall>m b. kv_get K (db c') (kvbfs_key_block m b) = kv_get K (db c) (kvbfs_key_block m b)) \<and>
    view K c' = view K c"
  using kv_store_live.snapshot_captures [OF assms(1-7) refl refl] assms(8,9) by simp

lemma sample_window: "version_window (DAList.lookup (store_of sample_entries)) 5"
  "vcount (DAList.lookup (store_of sample_entries)) 5 = 0"
  by (simp_all add: version_window_def vcount_def lookup_store_of sample_entries_def in_window_def)

theorem snapshot_captures_file_witness:
  "version_read_block mem_ops (db (snd (version_snapshot mem_ops sample 5))) 5 0 0 =
     Some (''hello!'' @ zeros 4090)"
  using snapshot_captures_file [OF mem.kv_store_live_axioms sample_ok, of 5 file_inode 0
      "snd (version_snapshot mem_ops sample 5)"]
  by (simp add: sample_window version_keys_encode kv_mem_retrieve_def)

text \<open>
  C31. The store holds exactly the last 64 versions of a file: if the metadata present are those
  of the window below the counter, they still are after a snapshot, no block outlives its
  version, and every version that stays in the window reads back unchanged.
\<close>

theorem snapshot_keeps_window:
  assumes "kv_store_live K contents" "ok K c" "view K c ino = Some i" "i_size i \<noteq> 0"
    and "version_window (contents (db c)) ino" "vcount (contents (db c)) ino + 1 < 18446744073709551616"
    and "n = vcount (contents (db c)) ino" "c' = snd (version_snapshot K c ino)"
  shows "version_window (contents (db c')) ino \<and>
    (\<forall>v b. in_window n v \<longrightarrow> in_window (n + 1) v \<longrightarrow>
      version_get_meta K (db c') ino v = version_get_meta K (db c) ino v \<and>
      version_read_block K (db c') ino v b = version_read_block K (db c) ino v b)"
  using kv_store_live.snapshot_window [OF assms] by blast

theorem snapshot_keeps_window_witness:
  "version_window (DAList.lookup (db (snd (version_snapshot mem_ops sample 5)))) 5"
  using snapshot_keeps_window [OF mem.kv_store_live_axioms sample_ok, of 5 file_inode 0
      "snd (version_snapshot mem_ops sample 5)"]
  by (simp add: sample_window)

text \<open>
  Deleting the versions of a file that keeps the window removes its counter, all metadata
  and all version blocks, so a later file with the same number starts at version 0, and leaves
  every key that is not a version key of this inode alone.
\<close>

theorem delete_all_versions_complete:
  assumes "kv_store_live K contents" "version_window (contents s) ino"
    and "s' = version_delete_all K s ino"
  shows "version_get_current K s' ino = 0 \<and>
    (\<forall>v. version_get_meta K s' ino v = None) \<and>
    (\<forall>v b. version_read_block K s' ino v b = None) \<and>
    (\<forall>k. k \<noteq> KVerCounter ino \<longrightarrow> (\<forall>v. \<not> version_key ino v k) \<longrightarrow>
      kv_get K s' (encode k) = kv_get K s (encode k))"
proof -
  note base = kv_store_live.axioms(1) [OF assms(1)]
  have gone: "contents s' (encode (KVerMeta ino v)) = None"
    "contents s' (encode (KVerBlock ino v b)) = None" for v b
    using kv_store_live.version_delete_all_clean(2) [OF assms(1,2), of v] by (simp_all add: assms(3))
  have other: "contents s' (encode k) = contents s (encode k)"
    if "k \<noteq> KVerCounter ino" "\<forall>v. \<not> version_key ino v k" for k
    using that by (simp add: assms(3) kv_store_live.version_delete_all_live [OF assms(1)])
  show ?thesis
    using kv_store_live.version_delete_all_clean(1) [OF assms(1,2)] gone other
    by (simp add: assms(3) [symmetric] kv_store.version_get_current_vcount [OF base]
        kv_store.version_get_meta_contents [OF base] kv_store.version_read_block_contents [OF base]
        kv_store.get [OF base])
qed

theorem delete_all_versions_complete_witness:
  "version_get_current mem_ops
     (version_delete_all mem_ops (db (snd (version_snapshot mem_ops sample 5))) 5) 5 = 0"
proof -
  have "version_window (DAList.lookup (db (snd (version_snapshot mem_ops sample 5)))) 5"
    using mem.snapshot_window(1) [OF sample_ok, of 5 file_inode]
    by (simp add: sample_window)
  from delete_all_versions_complete [OF mem.kv_store_live_axioms this refl] show ?thesis by simp
qed

end
