(* ===== verification/FileData.thy ===== *)
theory FileData
  imports Dirent
begin

text \<open>
  The contents of a file: the block loops of \<^verbatim>\<open>kvbfs_read\<close>, \<^verbatim>\<open>kvbfs_write\<close> (also
  \<^verbatim>\<open>file_append\<close> of \<^verbatim>\<open>src/llm.c\<close>) and of the truncation in \<^verbatim>\<open>kvbfs_setattr\<close>. The specification is
  a flat list of bytes with \<open>abs_read\<close>, \<open>abs_write\<close> and \<open>abs_truncate\<close>; \<open>byte_at\<close> relates the
  blocks to it. The invariant is that blocks are whole and hold zeros beyond the end of the file.
\<close>

section \<open>The block loops\<close>

definition blocks_of :: "nat \<Rightarrow> nat" where
  "blocks_of sz = u64 (sz + KVBFS_BLOCK_SIZE - 1) div KVBFS_BLOCK_SIZE"

text \<open>
  The loops run while bytes are left. The offset into the block is below the block size in every
  iteration (\<^verbatim>\<open>off % KVBFS_BLOCK_SIZE\<close>, then 0); the guard says so to the termination proof.
\<close>

function read_blocks :: "'s kv_ops \<Rightarrow> 's \<Rightarrow> nat \<Rightarrow> nat \<Rightarrow> nat \<Rightarrow> nat \<Rightarrow> bytes" where
  "read_blocks K s ino blk boff n =
     (if n = 0 \<or> KVBFS_BLOCK_SIZE \<le> boff then []
      else
        let d = (case kv_get K s (kvbfs_key_block ino blk) of Some d \<Rightarrow> d | None \<Rightarrow> [])
        in if length d \<le> boff then
             (let m = min (KVBFS_BLOCK_SIZE - boff) n
              in zeros m @ read_blocks K s ino (blk + 1) 0 (n - m))
           else
             (let m = min (length d - boff) n
              in take m (drop boff d) @ read_blocks K s ino (blk + 1) 0 (n - m)))"
  by pat_completeness auto
termination
  by (relation "measure (\<lambda>(K, s, ino, blk, boff, n). n)") (auto simp: KVBFS_BLOCK_SIZE_def)

declare read_blocks.simps [simp del]

definition write_block :: "bytes option \<Rightarrow> nat \<Rightarrow> bytes \<Rightarrow> bytes" where
  "write_block existing boff chunk =
     (let block = (case existing of
            Some e \<Rightarrow> take KVBFS_BLOCK_SIZE e @ zeros (KVBFS_BLOCK_SIZE - length e)
          | None \<Rightarrow> zeros KVBFS_BLOCK_SIZE)
      in take boff block @ chunk @ drop (boff + length chunk) block)"

function write_blocks ::
  "'s kv_ops \<Rightarrow> 's \<Rightarrow> nat \<Rightarrow> nat \<Rightarrow> nat \<Rightarrow> bytes \<Rightarrow> bool \<times> 's" where
  "write_blocks K s ino blk boff data =
     (if data = [] \<or> KVBFS_BLOCK_SIZE \<le> boff then (True, s)
      else
        let key = kvbfs_key_block ino blk;
            m = min (KVBFS_BLOCK_SIZE - boff) (length data);
            (okay, s1) = kv_put K s key (write_block (kv_get K s key) boff (take m data))
        in if \<not> okay then (False, s1) else write_blocks K s1 ino (blk + 1) 0 (drop m data))"
  by pat_completeness auto
termination
  by (relation "measure (\<lambda>(K, s, ino, blk, boff, data). length data)")
    (auto simp: KVBFS_BLOCK_SIZE_def)

declare write_blocks.simps [simp del]

text \<open>Truncation: delete the blocks past the end, then clear the tail of the last one kept.\<close>

definition zero_tail :: "'s kv_ops \<Rightarrow> 's \<Rightarrow> nat \<Rightarrow> nat \<Rightarrow> 's" where
  "zero_tail K s ino new_size =
     (let tail_off = new_size mod KVBFS_BLOCK_SIZE;
          new_blocks = blocks_of new_size
      in if 0 < tail_off \<and> 0 < new_blocks then
           (let key = kvbfs_key_block ino (new_blocks - 1)
            in case kv_get K s key of
                 None \<Rightarrow> s
               | Some d \<Rightarrow>
                   if tail_off < length d
                   then snd (kv_put K s key (take tail_off d @ zeros (length d - tail_off)))
                   else s)
         else s)"

definition truncate_blocks :: "'s kv_ops \<Rightarrow> 's \<Rightarrow> nat \<Rightarrow> nat \<Rightarrow> nat \<Rightarrow> 's" where
  "truncate_blocks K s ino old_size new_size =
     (if new_size < old_size then
        zero_tail K
          (kv_delete_keys K s (map (kvbfs_key_block ino) [blocks_of new_size..<blocks_of old_size]))
          ino new_size
      else s)"

section \<open>The abstract file\<close>

definition abs_read :: "bytes \<Rightarrow> nat \<Rightarrow> nat \<Rightarrow> bytes" where
  "abs_read f off n = take n (drop off f)"

definition abs_write :: "bytes \<Rightarrow> nat \<Rightarrow> bytes \<Rightarrow> bytes" where
  "abs_write f off data =
     (let g = f @ zeros (off - length f) in take off g @ data @ drop (off + length data) g)"

definition abs_truncate :: "bytes \<Rightarrow> nat \<Rightarrow> bytes" where
  "abs_truncate f n = take n f @ zeros (n - length f)"

section \<open>Bytes of a file\<close>

definition byte_at :: "(string \<Rightarrow> bytes option) \<Rightarrow> nat \<Rightarrow> nat \<Rightarrow> char" where
  "byte_at M ino i =
     (case M (encode (KBlock ino (i div KVBFS_BLOCK_SIZE))) of
        Some d \<Rightarrow> if i mod KVBFS_BLOCK_SIZE < length d then d ! (i mod KVBFS_BLOCK_SIZE) else NUL
      | None \<Rightarrow> NUL)"

definition file_bytes :: "(string \<Rightarrow> bytes option) \<Rightarrow> nat \<Rightarrow> nat \<Rightarrow> bytes" where
  "file_bytes M ino n = map (byte_at M ino) [0..<n]"

definition full_blocks :: "(string \<Rightarrow> bytes option) \<Rightarrow> nat \<Rightarrow> bool" where
  "full_blocks M ino \<longleftrightarrow> (\<forall>b d. M (encode (KBlock ino b)) = Some d \<longrightarrow> length d = KVBFS_BLOCK_SIZE)"

definition zero_beyond :: "(string \<Rightarrow> bytes option) \<Rightarrow> nat \<Rightarrow> nat \<Rightarrow> bool" where
  "zero_beyond M ino n \<longleftrightarrow> (\<forall>i\<ge>n. byte_at M ino i = NUL)"

lemma block_size_pos [simp]: "0 < KVBFS_BLOCK_SIZE"
  by (simp add: KVBFS_BLOCK_SIZE_def)

lemma block_key_encode: "kvbfs_key_block ino b = encode (KBlock ino b)"
  by (simp add: encode.simps)

lemma block_addr:
  "j < KVBFS_BLOCK_SIZE \<Longrightarrow> (b * KVBFS_BLOCK_SIZE + j) div KVBFS_BLOCK_SIZE = b"
  "j < KVBFS_BLOCK_SIZE \<Longrightarrow> (b * KVBFS_BLOCK_SIZE + j) mod KVBFS_BLOCK_SIZE = j"
  by simp_all

lemma byte_at_block:
  "j < KVBFS_BLOCK_SIZE \<Longrightarrow> byte_at M ino (b * KVBFS_BLOCK_SIZE + j) =
     (case M (encode (KBlock ino b)) of Some d \<Rightarrow> if j < length d then d ! j else NUL | None \<Rightarrow> NUL)"
  by (simp add: byte_at_def block_addr split: option.split)

lemma length_file_bytes [simp]: "length (file_bytes M ino n) = n"
  by (simp add: file_bytes_def)

lemma byte_at_cong:
  "(\<And>b. M (encode (KBlock ino b)) = M' (encode (KBlock ino b))) \<Longrightarrow> byte_at M ino = byte_at M' ino"
  by (rule ext) (simp add: byte_at_def)

text \<open>A list is a run of bytes of the file: the shape of the induction over the loops.\<close>

lemma map_byte_at_split:
  assumes "m \<le> n"
  shows "map (byte_at M ino) [p..<p + n] =
    map (byte_at M ino) [p..<p + m] @ map (byte_at M ino) [p + m..<p + n]"
  using assms by (metis le_add_diff_inverse map_append add.assoc upt_add_eq_append le_add1)

lemma map_byte_at_block:
  assumes "boff + m \<le> KVBFS_BLOCK_SIZE" "M (encode (KBlock ino b)) = Some d" "boff + m \<le> length d"
  shows "map (byte_at M ino) [b * KVBFS_BLOCK_SIZE + boff..<b * KVBFS_BLOCK_SIZE + boff + m] =
    take m (drop boff d)"
proof (rule nth_equalityI)
  fix i assume "i < length (map (byte_at M ino)
    [b * KVBFS_BLOCK_SIZE + boff..<b * KVBFS_BLOCK_SIZE + boff + m])"
  then have i: "i < m" by simp
  then have "byte_at M ino (b * KVBFS_BLOCK_SIZE + (boff + i)) = d ! (boff + i)"
    using assms by (subst byte_at_block) auto
  then show "map (byte_at M ino)
      [b * KVBFS_BLOCK_SIZE + boff..<b * KVBFS_BLOCK_SIZE + boff + m] ! i = take m (drop boff d) ! i"
    using i assms by (simp add: add.assoc)
qed (use assms in simp)

lemma map_byte_at_hole:
  assumes "boff + m \<le> KVBFS_BLOCK_SIZE" "M (encode (KBlock ino b)) = None"
  shows "map (byte_at M ino) [b * KVBFS_BLOCK_SIZE + boff..<b * KVBFS_BLOCK_SIZE + boff + m] = zeros m"
proof (rule nth_equalityI)
  fix i assume "i < length (map (byte_at M ino)
    [b * KVBFS_BLOCK_SIZE + boff..<b * KVBFS_BLOCK_SIZE + boff + m])"
  then have i: "i < m" by simp
  then have "byte_at M ino (b * KVBFS_BLOCK_SIZE + (boff + i)) = NUL"
    using assms by (subst byte_at_block) auto
  then show "map (byte_at M ino)
      [b * KVBFS_BLOCK_SIZE + boff..<b * KVBFS_BLOCK_SIZE + boff + m] ! i = zeros m ! i"
    using i by (simp add: add.assoc)
qed simp

section \<open>The loops read and write the file\<close>

context kv_store
begin

lemma read_blocks_bytes:
  assumes "full_blocks (contents s) ino" "boff < KVBFS_BLOCK_SIZE"
  shows "read_blocks K s ino blk boff n =
    map (byte_at (contents s) ino)
      [blk * KVBFS_BLOCK_SIZE + boff..<blk * KVBFS_BLOCK_SIZE + boff + n]"
  using assms(2)
proof (induction n arbitrary: blk boff rule: less_induct)
  case (less n)
  let ?M = "contents s" and ?p = "blk * KVBFS_BLOCK_SIZE + boff"
  define m where "m = min (KVBFS_BLOCK_SIZE - boff) n"
  show ?case
  proof (cases "n = 0")
    case True
    then show ?thesis by (simp add: read_blocks.simps)
  next
    case False
    then have m: "0 < m" "m \<le> n" "boff + m \<le> KVBFS_BLOCK_SIZE" using less.prems by (auto simp: m_def)
    have rest: "read_blocks K s ino (blk + 1) 0 (n - m) = map (byte_at ?M ino) [?p + m..<?p + n]"
    proof (cases "n - m = 0")
      case True
      then show ?thesis using m by (simp add: read_blocks.simps)
    next
      case False
      then have p: "?p + m = (blk + 1) * KVBFS_BLOCK_SIZE + 0" using less.prems by (auto simp: m_def)
      with m have "?p + n = (blk + 1) * KVBFS_BLOCK_SIZE + 0 + (n - m)" by linarith
      with less.IH [of "n - m" 0 "blk + 1"] p m show ?thesis by (simp only: block_size_pos)
    qed
    have first: "(case ?M (encode (KBlock ino blk)) of
        Some d \<Rightarrow> take m (drop boff d) | None \<Rightarrow> zeros m) = map (byte_at ?M ino) [?p..<?p + m]"
      using map_byte_at_block [OF m(3)] map_byte_at_hole [OF m(3)] assms(1) m(3)
      by (auto simp: full_blocks_def split: option.split)
    have "read_blocks K s ino blk boff n =
        (case ?M (encode (KBlock ino blk)) of Some d \<Rightarrow> take m (drop boff d) | None \<Rightarrow> zeros m) @
        read_blocks K s ino (blk + 1) 0 (n - m)"
      using False less.prems assms(1)
      by (subst read_blocks.simps)
        (auto simp: Let_def get block_key_encode m_def full_blocks_def split: option.split)
    also have "\<dots> = map (byte_at ?M ino) [?p..<?p + n]"
      unfolding first rest by (rule map_byte_at_split [OF m(2), symmetric])
    finally show ?thesis .
  qed
qed

end

lemma length_write_block:
  "boff + length chunk \<le> KVBFS_BLOCK_SIZE \<Longrightarrow> length (write_block ex boff chunk) = KVBFS_BLOCK_SIZE"
  by (auto simp: write_block_def Let_def split: option.split)

lemma nth_write_block:
  assumes "boff + length chunk \<le> KVBFS_BLOCK_SIZE" "j < KVBFS_BLOCK_SIZE"
  shows "write_block ex boff chunk ! j =
    (if boff \<le> j \<and> j < boff + length chunk then chunk ! (j - boff)
     else case ex of Some d \<Rightarrow> if j < length d then d ! j else NUL | None \<Rightarrow> NUL)"
  using assms by (auto simp: write_block_def Let_def nth_append split: option.split)

lemma byte_at_write:
  assumes "boff + length chunk \<le> KVBFS_BLOCK_SIZE"
    and "M' = M(encode (KBlock ino b) \<mapsto> write_block (M (encode (KBlock ino b))) boff chunk)"
  shows "byte_at M' ino i =
    (if b * KVBFS_BLOCK_SIZE + boff \<le> i \<and> i < b * KVBFS_BLOCK_SIZE + boff + length chunk
     then chunk ! (i - (b * KVBFS_BLOCK_SIZE + boff)) else byte_at M ino i)"
proof -
  define q j where "q = i div KVBFS_BLOCK_SIZE" and "j = i mod KVBFS_BLOCK_SIZE"
  have j: "j < KVBFS_BLOCK_SIZE" and i: "i = q * KVBFS_BLOCK_SIZE + j"
    by (simp_all add: q_def j_def)
  show ?thesis
  proof (cases "q = b")
    case True
    then show ?thesis
      using j assms nth_write_block [OF assms(1) j, of "M (encode (KBlock ino b))"]
      by (simp add: i byte_at_block length_write_block)
  next
    case False
    have "\<not> (b * KVBFS_BLOCK_SIZE + boff \<le> i \<and> i < b * KVBFS_BLOCK_SIZE + boff + length chunk)"
    proof
      assume "b * KVBFS_BLOCK_SIZE + boff \<le> i \<and> i < b * KVBFS_BLOCK_SIZE + boff + length chunk"
      then have "b * KVBFS_BLOCK_SIZE \<le> i" "i < (b + 1) * KVBFS_BLOCK_SIZE"
        using assms(1) by auto
      then have "i div KVBFS_BLOCK_SIZE = b"
        by (intro div_nat_eqI) (simp_all add: mult.commute)
      with False show False by (simp add: q_def)
    qed
    with False j assms(2) show ?thesis by (auto simp: i byte_at_block)
  qed
qed

context kv_store_live
begin

lemma write_blocks_live:
  assumes "full_blocks (contents s) ino" "boff < KVBFS_BLOCK_SIZE"
  shows "\<exists>s'. write_blocks K s ino blk boff data = (True, s') \<and> full_blocks (contents s') ino \<and>
    (\<forall>i. byte_at (contents s') ino i =
      (if blk * KVBFS_BLOCK_SIZE + boff \<le> i \<and> i < blk * KVBFS_BLOCK_SIZE + boff + length data
       then data ! (i - (blk * KVBFS_BLOCK_SIZE + boff)) else byte_at (contents s) ino i)) \<and>
    (\<forall>k. (\<forall>b. k \<noteq> KBlock ino b) \<longrightarrow> contents s' (encode k) = contents s (encode k))"
  using assms
proof (induction data arbitrary: s blk boff rule: measure_induct_rule [of length])
  case (less data)
  let ?p = "blk * KVBFS_BLOCK_SIZE + boff" and ?key = "encode (KBlock ino blk)"
  define m where "m = min (KVBFS_BLOCK_SIZE - boff) (length data)"
  show ?case
  proof (cases "data = []")
    case True
    then show ?thesis using less.prems by (auto simp: write_blocks.simps)
  next
    case False
    then have m: "0 < m" "m \<le> length data" "boff + m \<le> KVBFS_BLOCK_SIZE"
      "length (take m data) = m" using less.prems by (auto simp: m_def)
    define s1 where
      "s1 = snd (kv_put K s ?key (write_block (kv_get K s ?key) boff (take m data)))"
    have c1: "contents s1 =
        (contents s)(?key \<mapsto> write_block (contents s ?key) boff (take m data))"
      by (simp add: s1_def get)
    have step: "write_blocks K s ino blk boff data = write_blocks K s1 ino (blk + 1) 0 (drop m data)"
      using False less.prems put_live
      by (subst write_blocks.simps) (simp add: Let_def split_def block_key_encode m_def s1_def)
    have full: "full_blocks (contents s1) ino"
      using less.prems m by (simp add: c1 full_blocks_def length_write_block)
    have b1: "byte_at (contents s1) ino i =
        (if ?p \<le> i \<and> i < ?p + m then data ! (i - ?p) else byte_at (contents s) ino i)" for i
      using byte_at_write [of boff "take m data" "contents s1" "contents s" ino blk i] m c1 by auto
    have "length (drop m data) < length data" using m by simp
    from less.IH [OF this full block_size_pos, of "blk + 1"]
    obtain s' where s': "write_blocks K s1 ino (blk + 1) 0 (drop m data) = (True, s')"
      "full_blocks (contents s') ino"
      "\<And>i. byte_at (contents s') ino i =
        (if (blk + 1) * KVBFS_BLOCK_SIZE + 0 \<le> i \<and>
            i < (blk + 1) * KVBFS_BLOCK_SIZE + 0 + length (drop m data)
         then drop m data ! (i - ((blk + 1) * KVBFS_BLOCK_SIZE + 0)) else byte_at (contents s1) ino i)"
      "\<And>k. (\<forall>b. k \<noteq> KBlock ino b) \<Longrightarrow> contents s' (encode k) = contents s1 (encode k)"
      by blast
    have "byte_at (contents s') ino i =
        (if ?p \<le> i \<and> i < ?p + length data then data ! (i - ?p) else byte_at (contents s) ino i)" for i
    proof (cases "m = length data")
      case True
      then show ?thesis by (auto simp: s'(3) b1)
    next
      case False
      then have p: "(blk + 1) * KVBFS_BLOCK_SIZE = ?p + m" using less.prems by (auto simp: m_def)
      show ?thesis using m unfolding s'(3) b1 p by (auto simp: nth_drop)
    qed
    with s' show ?thesis unfolding step by (auto simp: c1)
  qed
qed

lemma contents_block_deletes:
  "contents (kv_delete_keys K s (map (kvbfs_key_block ino) bs)) (encode k) =
     (if \<exists>b\<in>set bs. k = KBlock ino b then None else contents s (encode k))"
  by (auto simp: delete_keys block_key_encode)

lemma byte_at_deletes:
  "byte_at (contents (kv_delete_keys K s (map (kvbfs_key_block ino) [a..<b]))) ino i =
     (if a \<le> i div KVBFS_BLOCK_SIZE \<and> i div KVBFS_BLOCK_SIZE < b then NUL
      else byte_at (contents s) ino i)"
  by (auto simp: byte_at_def contents_block_deletes)

lemma full_blocks_deletes:
  "full_blocks (contents s) ino \<Longrightarrow>
   full_blocks (contents (kv_delete_keys K s (map (kvbfs_key_block ino) bs))) ino"
  by (auto simp: full_blocks_def contents_block_deletes split: if_splits)

lemma ceil_div_4096: "(n + 4095) div 4096 = n div 4096 + (if 0 < n mod 4096 then 1 else (0::nat))"
proof -
  define q r where "q = n div 4096" and "r = n mod 4096"
  have r: "r < 4096" and n: "n = q * 4096 + r" by (simp_all add: q_def r_def)
  have "(r + 4095) div 4096 = (if 0 < r then 1 else 0)"
    using r by (auto intro!: div_nat_eqI)
  moreover have "(q * 4096 + r + 4095) div 4096 = q + (r + 4095) div 4096"
    using div_mult_self3 [of 4096 q "r + 4095"] by (simp add: add.assoc)
  ultimately show ?thesis using r by (simp add: n)
qed

lemma blocks_of_bounds:
  assumes "sz + KVBFS_BLOCK_SIZE \<le> 18446744073709551616"
  shows "sz \<le> blocks_of sz * KVBFS_BLOCK_SIZE" "blocks_of sz * KVBFS_BLOCK_SIZE < sz + KVBFS_BLOCK_SIZE"
    and "i < sz \<Longrightarrow> i div KVBFS_BLOCK_SIZE < blocks_of sz"
  using assms by (simp_all add: blocks_of_def KVBFS_BLOCK_SIZE_def)

lemma zero_tail_contents:
  "contents (zero_tail K s ino n) (encode k) =
     (if 0 < n mod KVBFS_BLOCK_SIZE \<and> 0 < blocks_of n \<and> k = KBlock ino (blocks_of n - 1) then
        (case contents s (encode k) of
           Some d \<Rightarrow> Some (take (n mod KVBFS_BLOCK_SIZE) d @ zeros (length d - n mod KVBFS_BLOCK_SIZE))
         | None \<Rightarrow> None)
      else contents s (encode k))"
  by (auto simp: zero_tail_def Let_def get block_key_encode split: option.splits)

lemma zero_tail_full:
  "full_blocks (contents s) ino \<Longrightarrow> full_blocks (contents (zero_tail K s ino n)) ino"
  by (auto simp: full_blocks_def zero_tail_contents KVBFS_BLOCK_SIZE_def split: option.splits if_splits)

text \<open>Clearing the tail: the bytes of the last block from the new end on are zero.\<close>

lemma byte_at_zero_tail:
  assumes "full_blocks (contents s) ino" "n + KVBFS_BLOCK_SIZE \<le> 18446744073709551616"
  shows "byte_at (contents (zero_tail K s ino n)) ino i =
    (if n \<le> i \<and> i < blocks_of n * KVBFS_BLOCK_SIZE then NUL else byte_at (contents s) ino i)"
proof -
  define q j where "q = i div KVBFS_BLOCK_SIZE" and "j = i mod KVBFS_BLOCK_SIZE"
  have j: "j < KVBFS_BLOCK_SIZE" and i: "i = q * KVBFS_BLOCK_SIZE + j"
    by (simp_all add: q_def j_def)
  define t where "t = n mod KVBFS_BLOCK_SIZE"
  have n: "n = (n div KVBFS_BLOCK_SIZE) * KVBFS_BLOCK_SIZE + t" "t < KVBFS_BLOCK_SIZE"
    by (simp_all add: t_def)
  have nb: "blocks_of n = n div KVBFS_BLOCK_SIZE + (if 0 < t then 1 else 0)"
    using assms(2) ceil_div_4096 [of n] by (simp add: blocks_of_def t_def KVBFS_BLOCK_SIZE_def)
  show ?thesis
  proof (cases "0 < t \<and> q = n div KVBFS_BLOCK_SIZE")
    case True
    then have "n \<le> i \<longleftrightarrow> t \<le> j" "i < blocks_of n * KVBFS_BLOCK_SIZE"
      using n j by (auto simp: nb i)
    with True j assms(1) n(2) show ?thesis
      by (auto simp: i byte_at_block zero_tail_contents nb t_def [symmetric] nth_append full_blocks_def
          split: option.splits)
  next
    case False
    have "\<not> (n \<le> i \<and> i < blocks_of n * KVBFS_BLOCK_SIZE)"
    proof
      assume a: "n \<le> i \<and> i < blocks_of n * KVBFS_BLOCK_SIZE"
      then have t: "0 < t" using n by (cases "t = 0") (auto simp: nb)
      have "n div KVBFS_BLOCK_SIZE \<le> q" using a by (simp add: q_def div_le_mono)
      moreover have "q < n div KVBFS_BLOCK_SIZE + 1"
        using a t by (simp add: q_def nb div_less_iff_less_mult del: mult_Suc)
      ultimately show False using False t by simp
    qed
    moreover have "contents (zero_tail K s ino n) (encode (KBlock ino q)) = contents s (encode (KBlock ino q))"
      using False by (auto simp: zero_tail_contents nb t_def)
    ultimately show ?thesis using j by (auto simp: i byte_at_block)
  qed
qed

lemma truncate_blocks_live:
  assumes "full_blocks (contents s) ino" "zero_beyond (contents s) ino old_size"
    and "old_size + KVBFS_BLOCK_SIZE \<le> 18446744073709551616"
    and "new_size + KVBFS_BLOCK_SIZE \<le> 18446744073709551616"
  shows "byte_at (contents (truncate_blocks K s ino old_size new_size)) ino i =
      (if i < new_size then byte_at (contents s) ino i else NUL)"
    and "full_blocks (contents (truncate_blocks K s ino old_size new_size)) ino"
    and "(\<forall>b. k \<noteq> KBlock ino b) \<Longrightarrow>
      contents (truncate_blocks K s ino old_size new_size) (encode k) = contents s (encode k)"
proof -
  let ?s1 = "kv_delete_keys K s (map (kvbfs_key_block ino) [blocks_of new_size..<blocks_of old_size])"
  have full1: "full_blocks (contents ?s1) ino" by (rule full_blocks_deletes [OF assms(1)])
  show "full_blocks (contents (truncate_blocks K s ino old_size new_size)) ino"
    using assms(1) zero_tail_full [OF full1] by (simp add: truncate_blocks_def)
  show "contents (truncate_blocks K s ino old_size new_size) (encode k) = contents s (encode k)"
    if "\<forall>b. k \<noteq> KBlock ino b"
    using that by (auto simp: truncate_blocks_def zero_tail_contents contents_block_deletes)
  show "byte_at (contents (truncate_blocks K s ino old_size new_size)) ino i =
      (if i < new_size then byte_at (contents s) ino i else NUL)"
  proof (cases "new_size < old_size")
    case False
    then show ?thesis using assms(2) by (auto simp: truncate_blocks_def zero_beyond_def)
  next
    case True
    have dv: "i div KVBFS_BLOCK_SIZE < blocks_of n \<longleftrightarrow> i < blocks_of n * KVBFS_BLOCK_SIZE" for n
      by (rule div_less_iff_less_mult) simp
    have lo: "new_size \<le> blocks_of new_size * KVBFS_BLOCK_SIZE"
      "old_size \<le> blocks_of old_size * KVBFS_BLOCK_SIZE"
      using blocks_of_bounds(1) assms(3,4) by blast+
    have "byte_at (contents s) ino i = NUL" if "blocks_of old_size * KVBFS_BLOCK_SIZE \<le> i"
      using that lo assms(2) by (auto simp: zero_beyond_def)
    with True lo dv [of new_size] dv [of old_size] show ?thesis
      by (auto simp: truncate_blocks_def byte_at_zero_tail [OF full1 assms(4)] byte_at_deletes
          not_le [symmetric])
  qed
qed

end

section \<open>The bytes as a list\<close>

lemma file_bytes_eqI:
  assumes "length f = n" "\<And>i. i < n \<Longrightarrow> byte_at M ino i = f ! i"
  shows "file_bytes M ino n = f"
  using assms by (auto simp: file_bytes_def intro: nth_equalityI)

lemma nth_overlay:
  assumes "off \<le> length g" "i < max (length g) (off + length d)"
  shows "(take off g @ d @ drop (off + length d) g) ! i =
    (if off \<le> i \<and> i < off + length d then d ! (i - off) else g ! i)"
proof -
  have "length (take off g) = off" using assms(1) by simp
  then show ?thesis using assms(2) by (auto simp: nth_append)
qed

lemma file_bytes_write:
  assumes "\<And>i. byte_at M' ino i =
      (if off \<le> i \<and> i < off + length data then data ! (i - off) else byte_at M ino i)"
    and "zero_beyond M ino sz"
  shows "file_bytes M' ino (max sz (off + length data)) = abs_write (file_bytes M ino sz) off data"
    and "zero_beyond M' ino (max sz (off + length data))"
proof -
  show "zero_beyond M' ino (max sz (off + length data))"
    using assms by (auto simp: zero_beyond_def)
  let ?g = "file_bytes M ino sz @ zeros (off - sz)"
  have g: "?g ! i = byte_at M ino i" if "i < length ?g" for i
    using that assms(2) by (auto simp: nth_append zero_beyond_def file_bytes_def)
  show "file_bytes M' ino (max sz (off + length data)) = abs_write (file_bytes M ino sz) off data"
  proof (rule file_bytes_eqI)
    show "length (abs_write (file_bytes M ino sz) off data) = max sz (off + length data)"
      by (simp add: abs_write_def Let_def)
    fix i assume i: "i < max sz (off + length data)"
    have "abs_write (file_bytes M ino sz) off data ! i =
        (if off \<le> i \<and> i < off + length data then data ! (i - off) else ?g ! i)"
      using i nth_overlay [of off ?g i data] by (auto simp: abs_write_def Let_def)
    with i show "byte_at M' ino i = abs_write (file_bytes M ino sz) off data ! i"
      using g [of i] by (auto simp: assms(1))
  qed
qed

lemma file_bytes_truncate:
  assumes "\<And>i. byte_at M' ino i = (if i < n then byte_at M ino i else NUL)" "zero_beyond M ino sz"
  shows "file_bytes M' ino n = abs_truncate (file_bytes M ino sz) n" "zero_beyond M' ino n"
proof -
  show "zero_beyond M' ino n" using assms(1) by (simp add: zero_beyond_def)
  show "file_bytes M' ino n = abs_truncate (file_bytes M ino sz) n"
    using assms by (intro file_bytes_eqI)
      (auto simp: abs_truncate_def nth_append file_bytes_def zero_beyond_def)
qed

lemma file_bytes_read:
  assumes "off + n \<le> sz"
  shows "map (byte_at M ino) [off..<off + n] = abs_read (file_bytes M ino sz) off n"
  using assms by (auto simp: abs_read_def file_bytes_def take_map drop_map intro!: nth_equalityI)

end
