(* ===== verification/Memory.thy ===== *)
theory Memory
  imports Dirent Complex_Main
begin

text \<open>
  The memory subsystem of \<^verbatim>\<open>src/mem.c\<close>: sequence numbers, the queue of texts to embed, the
  chunking of a file's text, and the search over stored vectors. The embedding model is a
  parameter, the function from a text to the pooled vector \<^verbatim>\<open>llama_encode\<close> gives; floats are
  real numbers. The lemmas bound the chunks, so that chunking ends; \<^verbatim>\<open>Search\<close> shows that
  the search returns the best matches and \<^verbatim>\<open>Workers\<close> that the queue is emptied.
\<close>

section \<open>The outside\<close>

text \<open>
  What one call of the file system takes from outside the program: the clock, the user and group,
  the size libfuse needs for a directory entry, the embedding model, the reading of a float array
  from memory and the printing of a score.
\<close>

record fs_env =
  e_now :: timespec
  e_uid :: nat
  e_gid :: nat
  e_dirent_size :: "string \<Rightarrow> nat"
  e_encode :: "string \<Rightarrow> real list option"
  e_n_embd :: nat
  e_floats :: "bytes \<Rightarrow> real list"
  e_float_bytes :: "real list \<Rightarrow> bytes"
  e_fmt_score :: "real \<Rightarrow> string"

text \<open>The part of a buffer that a C string function sees.\<close>

definition cstr :: "bytes \<Rightarrow> string" where
  "cstr bs = takeWhile (\<lambda>c. c \<noteq> NUL) bs"

section \<open>Embedding\<close>

definition l2_norm :: "real list \<Rightarrow> real" where
  "l2_norm v = sqrt (sum_list (map (\<lambda>x. x * x) v))"

definition mem_embed_text :: "fs_env \<Rightarrow> string \<Rightarrow> real list option" where
  "mem_embed_text env text =
     (if text = [] then None
      else case e_encode env text of
             None \<Rightarrow> None
           | Some v \<Rightarrow>
               let n = l2_norm v in Some (if 0 < n then map (\<lambda>x. x / n) v else v))"

definition cosine_sim :: "real list \<Rightarrow> real list \<Rightarrow> real" where
  "cosine_sim a b = sum_list (map2 (*) a b)"

section \<open>Counters and the queue\<close>

definition read_u32 :: "'s kv_ops \<Rightarrow> 's \<Rightarrow> string \<Rightarrow> nat" where
  "read_u32 K s key =
     (case kv_get K s key of
        Some v \<Rightarrow> if length v = SIZEOF_U32 then le_val v else 0
      | None \<Rightarrow> 0)"

definition mem_next_seq :: "'s kv_ops \<Rightarrow> 's \<Rightarrow> nat \<Rightarrow> nat \<times> 's" where
  "mem_next_seq K s ino =
     (let seq = read_u32 K s (mem_key_seq ino)
      in (seq, snd (kv_put K s (mem_key_seq ino) (le_bytes 4 (u32 (seq + 1))))))"

definition mem_next_gen :: "'s kv_ops \<Rightarrow> 's \<Rightarrow> nat \<Rightarrow> nat \<times> 's" where
  "mem_next_gen K s ino =
     (let gen = read_u32 K s (mem_key_gen ino)
      in (gen, snd (kv_put K s (mem_key_gen ino) (le_bytes 4 (u32 (gen + 1))))))"

definition mem_memorize ::
  "'s kv_ops \<Rightarrow> 's kvbfs_ctx \<Rightarrow> nat \<Rightarrow> string \<Rightarrow> string option \<Rightarrow> bool \<times> 's kvbfs_ctx" where
  "mem_memorize K c ino text role =
     (if \<not> mem_running (mem c) then (False, c)
      else
        let (seq, s) = mem_next_seq K (db c) ino;
            task = \<lparr>mt_ino = ino, mt_seq = seq, mt_text = cstr text, mt_role = role\<rparr>
        in (True, c\<lparr>db := s, mem := (mem c)\<lparr>mem_queue := mem_queue (mem c) @ [task]\<rparr>\<rparr>))"

section \<open>The worker\<close>

text \<open>The header \<^verbatim>\<open>struct mem_header\<close> with its padding, as \<^verbatim>\<open>memcpy\<close> stores it.\<close>

definition FLOAT_ONE :: bytes where "FLOAT_ONE = le_bytes 4 0x3F800000"

definition mem_header_bytes :: "mem_task \<Rightarrow> timespec \<Rightarrow> bytes" where
  "mem_header_bytes t now =
     (let role = take 15 (case mt_role t of Some r \<Rightarrow> r | None \<Rightarrow> [])
      in le_bytes 8 (mt_ino t) @ le_bytes 4 (mt_seq t) @ zeros 4 @ le_bytes 8 (tv_sec now) @
         FLOAT_ONE @ le_bytes 4 0 @ role @ zeros (16 - length role))"

definition mem_store_embedding ::
  "'s kv_ops \<Rightarrow> fs_env \<Rightarrow> 's \<Rightarrow> mem_task \<Rightarrow> bool \<times> 's" where
  "mem_store_embedding K env s t =
     (case mem_embed_text env (mt_text t) of
        None \<Rightarrow> (False, s)
      | Some vec \<Rightarrow>
          let s1 = snd (kv_put K s (mem_key_vec (mt_ino t) (mt_seq t)) (e_float_bytes env vec));
              s2 = snd (kv_put K s1 (mem_key_text (mt_ino t) (mt_seq t)) (mt_text t));
              s3 = snd (kv_put K s2 (mem_key_header (mt_ino t) (mt_seq t))
                          (mem_header_bytes t (e_now env)))
          in (True, s3))"

text \<open>
  One turn of the worker: it waits (no step) while the queue is empty and no shutdown is asked
  for, ends on a shutdown with an empty queue, and otherwise takes the first task.
\<close>

definition mem_worker_step :: "'s kv_ops \<Rightarrow> fs_env \<Rightarrow> 's kvbfs_ctx \<Rightarrow> 's kvbfs_ctx option" where
  "mem_worker_step K env c =
     (case mem_queue (mem c) of
        [] \<Rightarrow> None
      | t # ts \<Rightarrow>
          Some (c\<lparr>mem := (mem c)\<lparr>mem_queue := ts\<rparr>,
                  db := snd (mem_store_embedding K env (db c) t)\<rparr>))"

section \<open>Indexing a file\<close>

definition MEM_CHUNK_SIZE :: nat where "MEM_CHUNK_SIZE = 1600"
definition MEM_CHUNK_OVERLAP :: nat where "MEM_CHUNK_OVERLAP = 200"
definition MEM_TEXT_PROBE :: nat where "MEM_TEXT_PROBE = 512"

lemmas mem_consts = MEM_CHUNK_SIZE_def MEM_CHUNK_OVERLAP_def MEM_TEXT_PROBE_def

definition mem_is_text :: "bytes \<Rightarrow> bool" where
  "mem_is_text data \<longleftrightarrow> NUL \<notin> set (take MEM_TEXT_PROBE data)"

text \<open>The content is assembled block by block up to the first block that is missing.\<close>

fun mem_assemble :: "'s kv_ops \<Rightarrow> 's \<Rightarrow> nat \<Rightarrow> nat \<Rightarrow> nat list \<Rightarrow> bytes \<Rightarrow> bytes" where
  "mem_assemble K s ino sz [] content = content"
| "mem_assemble K s ino sz (b # bs) content =
     (if sz \<le> length content then content
      else case kv_get K s (kvbfs_key_block ino b) of
             None \<Rightarrow> content
           | Some d \<Rightarrow> mem_assemble K s ino sz bs (content @ take (sz - length content) d))"

text \<open>The backward scan for a newline, from \<open>scan\<close> down to \<open>lo\<close>.\<close>

fun scan_back :: "bytes \<Rightarrow> nat \<Rightarrow> nat \<Rightarrow> nat" where
  "scan_back content lo 0 = 0"
| "scan_back content lo (Suc k) =
     (if lo < Suc k \<and> content ! Suc k \<noteq> newline then scan_back content lo k else Suc k)"

definition chunk_end :: "bytes \<Rightarrow> nat \<Rightarrow> nat" where
  "chunk_end content pos =
     (let e = min (pos + MEM_CHUNK_SIZE) (length content)
      in if e < length content then
           (let scan = scan_back content (pos + MEM_CHUNK_SIZE div 2) e
            in if content ! scan = newline then scan + 1 else e)
         else e)"

lemma scan_back_bounds: "lo \<le> e \<Longrightarrow> lo \<le> scan_back content lo e \<and> scan_back content lo e \<le> e"
  by (induction e) auto

lemma chunk_end_le:
  assumes "pos < length content"
  shows "chunk_end content pos \<le> length content \<and> chunk_end content pos \<le> pos + MEM_CHUNK_SIZE + 1"
  using scan_back_bounds [of "pos + MEM_CHUNK_SIZE div 2" "pos + MEM_CHUNK_SIZE" content] assms
  by (auto simp: chunk_end_def Let_def)

lemma chunk_end_gt:
  assumes "chunk_end content pos < length content"
  shows "pos + MEM_CHUNK_SIZE div 2 < chunk_end content pos"
  using scan_back_bounds [of "pos + MEM_CHUNK_SIZE div 2" "pos + MEM_CHUNK_SIZE" content] assms
  by (auto simp: chunk_end_def Let_def mem_consts split: if_splits)

function mem_chunks :: "bytes \<Rightarrow> nat \<Rightarrow> (nat \<times> nat) list" where
  "mem_chunks content pos =
     (if pos < length content then
        (let e = chunk_end content pos
         in (pos, e) #
            (if length content \<le> e then []
             else mem_chunks content (if MEM_CHUNK_OVERLAP < e then e - MEM_CHUNK_OVERLAP else 0)))
      else [])"
  by pat_completeness auto
termination
proof (relation "measure (\<lambda>(content, pos). length content - pos)")
  fix content :: bytes and pos e
  assume a: "pos < length content" "e = chunk_end content pos" "\<not> length content \<le> e"
  then have "pos + 800 < e" using chunk_end_gt [of content pos] by (simp add: mem_consts)
  with a show "((content, if MEM_CHUNK_OVERLAP < e then e - MEM_CHUNK_OVERLAP else 0), content, pos)
      \<in> measure (\<lambda>(content, pos). length content - pos)"
    by (simp add: mem_consts)
qed simp

declare mem_chunks.simps [simp del]

definition slice :: "bytes \<Rightarrow> nat \<times> nat \<Rightarrow> bytes" where
  "slice content r = take (snd r - fst r) (drop (fst r) content)"

definition memorize_all :: "'s kv_ops \<Rightarrow> 's kvbfs_ctx \<Rightarrow> nat \<Rightarrow> string list \<Rightarrow> 's kvbfs_ctx" where
  "memorize_all K c ino chunks =
     fold (\<lambda>t c. snd (mem_memorize K c ino t (Some ''content''))) chunks c"

definition mem_index_file :: "'s kv_ops \<Rightarrow> 's kvbfs_ctx \<Rightarrow> nat \<Rightarrow> bool \<times> 's kvbfs_ctx" where
  "mem_index_file K c ino =
     (if \<not> mem_running (mem c) then (False, c)
      else if (case kvbfs_key_xattr KVBFS_KEY_MAX ino ''agentfs.noindex'' of
                 None \<Rightarrow> False | Some key \<Rightarrow> kv_get K (db c) key \<noteq> None) then (True, c)
      else
        case inode_get K c ino of
          None \<Rightarrow> (False, c)
        | Some c1 \<Rightarrow>
            let file_size = i_size (ic_get c1 ino);
                file_blocks = i_blocks (ic_get c1 ino);
                c2 = inode_put c1 ino
            in if file_size = 0 then (True, c2)
               else
                 let content = mem_assemble K (db c2) ino file_size [0..<file_blocks] []
                 in if \<not> mem_is_text content then (True, c2)
                    else
                      (True, memorize_all K (c2\<lparr>db := mem_delete_embeddings K (db c2) ino\<rparr>) ino
                               (map (slice content) (mem_chunks content 0))))"

section \<open>Search\<close>

definition CFS_MEM_MAX_RESULTS :: nat where "CFS_MEM_MAX_RESULTS = 16"
definition CFS_MEM_SUMMARY_LEN :: nat where "CFS_MEM_SUMMARY_LEN = 512"
definition CFS_MEM_PATH_LEN :: nat where "CFS_MEM_PATH_LEN = 256"

record cfs_mem_result =
  r_ino :: nat
  r_seq :: nat
  r_score :: real
  r_summary :: string

record cfs_mem_query =
  query_text :: string
  q_top_k :: int
  q_n_results :: nat
  q_results :: "cfs_mem_result list"

definition clamp_top_k :: "int \<Rightarrow> nat" where
  "clamp_top_k k = (let k1 = (if k \<le> 0 then 5 else k) in min CFS_MEM_MAX_RESULTS (nat k1))"

text \<open>
  The place of a new score: the first result it beats, or the end (or the last slot when the
  table is full). The results from there on move down, the last one of a full table drops out.
\<close>

fun insert_pos :: "real \<Rightarrow> real list \<Rightarrow> nat" where
  "insert_pos sim [] = 0"
| "insert_pos sim (x # xs) = (if x < sim then 0 else Suc (insert_pos sim xs))"

definition shift_down :: "'a list \<Rightarrow> nat \<Rightarrow> nat \<Rightarrow> 'a list" where
  "shift_down xs i j = take (i + 1) xs @ drop i (take j xs) @ drop (j + 1) xs"

text \<open>
  The text of a hit goes to the summary; when it is missing, the slot keeps what it held.
\<close>

definition load_summary :: "'s kv_ops \<Rightarrow> 's \<Rightarrow> nat \<Rightarrow> nat \<Rightarrow> string \<Rightarrow> string" where
  "load_summary K s ino seq old =
     (case kv_get K s (mem_key_text ino seq) of
        None \<Rightarrow> old
      | Some t \<Rightarrow> cstr (take (CFS_MEM_SUMMARY_LEN - 1) t))"

definition parse_hit :: "string \<Rightarrow> nat \<times> nat" where
  "parse_hit rest =
     (let (ino, r1) = strtoull rest
      in if r1 = rest then (0, 0)
         else if r1 \<noteq> [] \<and> hd r1 = CHR '':'' then (ino, u32 (fst (strtoull (tl r1)))) else (ino, 0))"

definition search_insert ::
  "'s kv_ops \<Rightarrow> 's \<Rightarrow> nat \<Rightarrow> string \<Rightarrow> real \<Rightarrow> cfs_mem_query \<Rightarrow> cfs_mem_query" where
  "search_insert K s top_k rest sim q =
     (let rs = q_results q; n = q_n_results q
      in if r_score (rs ! (top_k - 1)) < sim \<or> n < top_k then
           (let p0 = (if n < top_k then n else top_k - 1);
                p = insert_pos sim (map r_score (take p0 rs));
                rs1 = (if p < p0 then shift_down rs p p0 else rs);
                (ino, seq) = parse_hit rest;
                old = rs1 ! p;
                new = old\<lparr>r_score := sim, r_ino := ino, r_seq := seq,
                          r_summary := load_summary K s ino seq (r_summary old)\<rparr>
            in q\<lparr>q_results := rs1[p := new], q_n_results := (if n < top_k then n + 1 else n)\<rparr>)
         else q)"

fun search_scan ::
  "'s kv_ops \<Rightarrow> fs_env \<Rightarrow> 's \<Rightarrow> nat \<Rightarrow> real list \<Rightarrow> (string \<times> bytes) list \<Rightarrow> cfs_mem_query \<Rightarrow>
   cfs_mem_query" where
  "search_scan K env s top_k qvec [] q = q"
| "search_scan K env s top_k qvec ((key, val) # es) q =
     (if 6 < length key \<and> take 2 (drop 4 key) = ''s:'' then search_scan K env s top_k qvec es q
      else if length val \<noteq> e_n_embd env * 4 then search_scan K env s top_k qvec es q
      else search_scan K env s top_k qvec es
             (search_insert K s top_k (drop 4 key) (cosine_sim qvec (e_floats env val)) q))"

definition mem_search ::
  "'s kv_ops \<Rightarrow> fs_env \<Rightarrow> 's kvbfs_ctx \<Rightarrow> cfs_mem_query \<Rightarrow> bool \<times> cfs_mem_query" where
  "mem_search K env c q =
     (if \<not> mem_running (mem c) then (False, q)
      else case mem_embed_text env (query_text q) of
             None \<Rightarrow> (False, q)
           | Some qvec \<Rightarrow>
               let top_k = clamp_top_k (q_top_k q);
                   init = map (\<lambda>r. r\<lparr>r_score := -1, r_summary := []\<rparr>) (take top_k (q_results q)) @
                          drop top_k (q_results q)
               in (True, search_scan K env (db c) top_k qvec (kv_iter K (db c) ''m:v:'')
                           (q\<lparr>q_results := init, q_n_results := 0\<rparr>)))"

end
