(* ===== verification/Llm.thy ===== *)
theory Llm
  imports FileData Memory
begin

text \<open>
  The parts of \<^verbatim>\<open>src/llm.c\<close> that the file system calls: the task queue with its duplicate check,
  the per-file generation state with the poll handles that wait for it, the whole-file helpers,
  and the conversation format. The generation itself (llama.cpp) is outside. Calls on poll handles
  are recorded in order in \<open>llm_calls\<close>.
\<close>

section \<open>The task queue\<close>

definition llm_submit :: "llm_ctx \<Rightarrow> nat \<Rightarrow> llm_ctx" where
  "llm_submit l ino =
     (if ino \<in> set (llm_queue l) then l else l\<lparr>llm_queue := llm_queue l @ [ino]\<rparr>)"

section \<open>Generation states\<close>

definition LLM_MAX_POLL_WAITERS :: nat where "LLM_MAX_POLL_WAITERS = 16"

definition gen_state_find :: "llm_ctx \<Rightarrow> nat \<Rightarrow> llm_gen_state option" where
  "gen_state_find l ino = DAList.lookup (llm_gen_states l) ino"

definition gen_state_set :: "llm_ctx \<Rightarrow> nat \<Rightarrow> llm_gen_state \<Rightarrow> llm_ctx" where
  "gen_state_set l ino gs = l\<lparr>llm_gen_states := DAList.update ino gs (llm_gen_states l)\<rparr>"

definition llm_gen_start :: "llm_ctx \<Rightarrow> nat \<Rightarrow> llm_ctx" where
  "llm_gen_start l ino =
     (let gs = (case gen_state_find l ino of
                  Some gs \<Rightarrow> gs
                | None \<Rightarrow> \<lparr>gs_generating = False, gs_waiters = []\<rparr>)
      in gen_state_set l ino (gs\<lparr>gs_generating := True\<rparr>))"

definition llm_gen_finish :: "llm_ctx \<Rightarrow> nat \<Rightarrow> llm_ctx" where
  "llm_gen_finish l ino =
     (case gen_state_find l ino of
        None \<Rightarrow> l
      | Some gs \<Rightarrow>
          (gen_state_set l ino (gs\<lparr>gs_generating := False, gs_waiters := []\<rparr>))
            \<lparr>llm_calls := llm_calls l @
               concat (map (\<lambda>ph. [NotifyPoll ph, DestroyPoll ph]) (gs_waiters gs))\<rparr>)"

definition llm_gen_is_active :: "llm_ctx \<Rightarrow> nat \<Rightarrow> bool" where
  "llm_gen_is_active l ino =
     (case gen_state_find l ino of None \<Rightarrow> False | Some gs \<Rightarrow> gs_generating gs)"

definition llm_gen_add_waiter :: "llm_ctx \<Rightarrow> nat \<Rightarrow> nat \<Rightarrow> llm_ctx" where
  "llm_gen_add_waiter l ino ph =
     (case gen_state_find l ino of
        Some gs \<Rightarrow>
          if length (gs_waiters gs) < LLM_MAX_POLL_WAITERS
          then gen_state_set l ino (gs\<lparr>gs_waiters := gs_waiters gs @ [ph]\<rparr>)
          else l\<lparr>llm_calls := llm_calls l @ [DestroyPoll ph]\<rparr>
      | None \<Rightarrow> l\<lparr>llm_calls := llm_calls l @ [DestroyPoll ph]\<rparr>)"

definition llm_gen_destroy :: "llm_ctx \<Rightarrow> llm_ctx" where
  "llm_gen_destroy l =
     l\<lparr>llm_gen_states := DAList.empty,
       llm_calls := llm_calls l @
         concat (map (\<lambda>(ino, gs). map DestroyPoll (gs_waiters gs)) (DAList.impl_of (llm_gen_states l)))\<rparr>"

section \<open>Whole files\<close>

text \<open>A missing block counts as a block of zeros; a present one as many bytes as it has.\<close>

fun read_all :: "'s kv_ops \<Rightarrow> 's \<Rightarrow> nat \<Rightarrow> nat \<Rightarrow> nat list \<Rightarrow> bytes \<Rightarrow> bytes" where
  "read_all K s ino sz [] buf = buf"
| "read_all K s ino sz (b # bs) buf =
     (if sz \<le> length buf then buf
      else
        let d = (case kv_get K s (kvbfs_key_block ino b) of
                   Some d \<Rightarrow> d | None \<Rightarrow> zeros KVBFS_BLOCK_SIZE)
        in read_all K s ino sz bs (buf @ take (sz - length buf) d))"

definition file_read_all :: "'s kv_ops \<Rightarrow> 's kvbfs_ctx \<Rightarrow> nat \<Rightarrow> bytes option \<times> 's kvbfs_ctx" where
  "file_read_all K c ino =
     (case inode_get K c ino of
        None \<Rightarrow> (None, c)
      | Some c1 \<Rightarrow>
          let file_size = i_size (ic_get c1 ino);
              blocks = i_blocks (ic_get c1 ino);
              c2 = inode_put c1 ino
          in if file_size = 0 then (None, c2)
             else (Some (read_all K (db c2) ino file_size [0..<blocks] []), c2))"

definition file_append ::
  "'s kv_ops \<Rightarrow> timespec \<Rightarrow> 's kvbfs_ctx \<Rightarrow> nat \<Rightarrow> bytes \<Rightarrow> bool \<times> 's kvbfs_ctx" where
  "file_append K now c ino data =
     (case inode_get K c ino of
        None \<Rightarrow> (False, c)
      | Some c1 \<Rightarrow>
          let off = i_size (ic_get c1 ino);
              (okay, s) = write_blocks K (db c1) ino (off div KVBFS_BLOCK_SIZE)
                            (off mod KVBFS_BLOCK_SIZE) data;
              c2 = c1\<lparr>db := s\<rparr>
          in if \<not> okay then (False, inode_put c2 ino)
             else
               let sz = u64 (off + length data);
                   c3 = ic_modify c2 ino (\<lambda>i. i\<lparr>i_size := sz, i_blocks := blocks_of sz,
                                              i_mtime := now, i_ctime := now\<rparr>);
                   (r, c4) = inode_sync K c3 ino
               in (True, inode_put c4 ino))"

definition file_overwrite ::
  "'s kv_ops \<Rightarrow> timespec \<Rightarrow> 's kvbfs_ctx \<Rightarrow> nat \<Rightarrow> bytes \<Rightarrow> bool \<times> 's kvbfs_ctx" where
  "file_overwrite K now c ino data =
     (case inode_get K c ino of
        None \<Rightarrow> (False, c)
      | Some c1 \<Rightarrow>
          let old_blocks = i_blocks (ic_get c1 ino);
              c2 = c1\<lparr>db := delete_file_blocks K (db c1) ino old_blocks\<rparr>;
              c3 = ic_modify c2 ino (\<lambda>i. i\<lparr>i_size := 0, i_blocks := 0\<rparr>);
              (r, c4) = inode_sync K c3 ino;
              c5 = inode_put c4 ino
          in if data \<noteq> [] then file_append K now c5 ino data else (True, c5))"

section \<open>Conversations\<close>

definition is_eol :: "char \<Rightarrow> bool" where
  "is_eol c \<longleftrightarrow> c = newline \<or> c = CHR 0x0D"

text \<open>\<^verbatim>\<open>needs_response\<close>: the last line that is not empty starts with \<^verbatim>\<open>User:\<close>.\<close>

definition last_line :: "bytes \<Rightarrow> bytes" where
  "last_line content =
     rev (takeWhile (\<lambda>c. c \<noteq> newline) (dropWhile is_eol (rev content)))"

definition needs_response :: "bytes \<Rightarrow> bool" where
  "needs_response content \<longleftrightarrow> prefix ''User:'' (last_line content)"

record chat_msg =
  cm_role :: string
  cm_content :: string

definition at_turn :: "string \<Rightarrow> bool" where
  "at_turn p \<longleftrightarrow> prefix ''User:'' p \<or> prefix ''Assistant:'' p"

text \<open>The text of a turn runs to the newline before the next turn, or to the end.\<close>

fun turn_text :: "string \<Rightarrow> string" where
  "turn_text [] = []"
| "turn_text (c # cs) = (if c = newline \<and> at_turn cs then [] else c # turn_text cs)"

definition trim_end :: "string \<Rightarrow> string" where
  "trim_end s = rev (dropWhile (\<lambda>c. is_eol c \<or> c = CHR '' '') (rev s))"

lemma length_turn_text: "length (turn_text s) \<le> length s"
  by (induction s) auto

text \<open>The text is a C string: the parse ends at its NUL, which \<open>cstr\<close> cuts off beforehand.\<close>

function parse_turns :: "string \<Rightarrow> chat_msg list" where
  "parse_turns s =
     (let p = dropWhile is_eol s
      in if p = [] then []
         else if at_turn p then
           (let user = prefix ''User:'' p;
                start = dropWhile (\<lambda>c. c = CHR '' '') (drop (if user then 5 else 10) p);
                body = turn_text start
            in \<lparr>cm_role = (if user then ''user'' else ''assistant''), cm_content = trim_end body\<rparr> #
               parse_turns (drop (length body) start))
         else parse_turns (dropWhile (\<lambda>c. c \<noteq> newline) p))"
  by pat_completeness auto
termination
proof (relation "measure length")
  fix s p :: string and user start body
  assume p: "p = dropWhile is_eol s" "p \<noteq> []"
  then have len: "length p \<le> length s" "0 < length p" by (simp_all add: length_dropWhile_le)
  show "(dropWhile (\<lambda>c. c \<noteq> newline) p, s) \<in> measure length"
  proof (cases p)
    case (Cons a q)
    with p have "\<not> is_eol a" by (metis hd_dropWhile list.sel(1))
    then have "a \<noteq> newline" by (auto simp: is_eol_def)
    then show ?thesis using len Cons length_dropWhile_le [of "\<lambda>c. c \<noteq> newline" q] by simp
  qed (use p in simp)
  assume "start = dropWhile (\<lambda>c. c = CHR '' '') (drop (if user then 5 else 10) p)"
  then have "length start \<le> length p - (if user then 5 else 10)"
    using length_dropWhile_le [of _ "drop (if user then 5 else 10) p"] by (metis length_drop)
  then have "length start < length p" using p(2) by (cases p) (auto split: if_splits)
  with len show "(drop (length body) start, s) \<in> measure length" by simp
qed simp

declare parse_turns.simps [simp del]

definition parse_conversation :: "bytes \<Rightarrow> chat_msg list" where
  "parse_conversation text = parse_turns (cstr text)"

end
