(* ===== verification/Fuse.thy ===== *)
theory Fuse
  imports Version Llm
begin

text \<open>
  What the FUSE handlers of \<^verbatim>\<open>src/fuse_ops.c\<close> share: the replies and error numbers, file
  attributes (\<^verbatim>\<open>struct stat\<close>), the per-open handles, the virtual entries and the session set. A
  handler is a function from the context (and its arguments) to the reply and the new context; it
  runs as one step. The reply is the last thing that is observed: events a handler emits after
  its reply are part of its step.
\<close>

section \<open>Replies\<close>

datatype errno =
    ENOENT | ENOTDIR | EISDIR | EEXIST | ENOTEMPTY | EIO | EPERM | EACCES | EINVAL
  | ENOMEM | ENOTSUP | ERANGE | ENODATA | ENOSYS | ENOTTY

record stat =
  st_ino :: nat
  st_mode :: nat
  st_nlink :: nat
  st_size :: nat
  st_blocks :: nat
  st_blksize :: nat
  st_uid :: nat
  st_gid :: nat
  st_atim :: timespec
  st_mtim :: timespec
  st_ctim :: timespec

record kvbfs_fh =
  fh_ino :: nat
  fh_written :: bool

record agentfs_ctl_fh =
  ctl_query :: bytes
  ctl_result :: "bytes option"

record version_fh =
  vfh_real_ino :: nat
  vfh_version :: nat

text \<open>\<^verbatim>\<open>fi->fh\<close>: the object behind the handle. A handler meets the kind its inode was opened as.\<close>

datatype fhandle =
    FhNull
  | FhFile kvbfs_fh
  | FhCtl agentfs_ctl_fh
  | FhEvents events_fh
  | FhVersion version_fh

fun the_file_fh :: "fhandle \<Rightarrow> kvbfs_fh option" where
  "the_file_fh (FhFile f) = Some f"
| "the_file_fh _ = None"

fun the_ctl_fh :: "fhandle \<Rightarrow> agentfs_ctl_fh option" where
  "the_ctl_fh (FhCtl f) = Some f"
| "the_ctl_fh _ = None"

fun the_events_fh :: "fhandle \<Rightarrow> events_fh option" where
  "the_events_fh (FhEvents f) = Some f"
| "the_events_fh _ = None"

fun the_version_fh :: "fhandle \<Rightarrow> version_fh option" where
  "the_version_fh (FhVersion f) = Some f"
| "the_version_fh _ = None"

record direntry =
  de_name :: string
  de_ino :: nat
  de_mode :: nat
  de_off :: nat

datatype reply =
    ReplyOk
  | ReplyErr errno
  | ReplyEntry nat stat nat
  | ReplyAttr stat nat
  | ReplyBuf bytes
  | ReplyDir "direntry list"
  | ReplyOpen fhandle bool
  | ReplyCreate nat stat fhandle
  | ReplyWrite nat
  | ReplyReadlink string
  | ReplyXattr nat
  | ReplyPoll bool bool
  | ReplyStatus bool
  | ReplySearch cfs_mem_query
  | ReplyIoctlRetry nat nat

text \<open>The number of an inode, its attributes, and the seconds the kernel may cache them.\<close>

section \<open>Attributes\<close>

definition AGENTFS_CTL_INO :: nat where "AGENTFS_CTL_INO = 0xFFFFFFFFFFFFFF"
definition AGENTFS_CTL_NAME :: string where "AGENTFS_CTL_NAME = ''.agentfs''"

lemmas virtual_inos = AGENTFS_CTL_INO_def AGENTFS_EVENTS_INO_def AGENTFS_VERSIONS_INO_def
  AGENTFS_VDIR_BASE_def VDIR_END_def

definition stat0 :: stat where
  "stat0 = \<lparr>st_ino = 0, st_mode = 0, st_nlink = 0, st_size = 0, st_blocks = 0, st_blksize = 0,
     st_uid = 0, st_gid = 0, st_atim = timespec0, st_mtim = timespec0, st_ctim = timespec0\<rparr>"

definition inode_to_stat :: "fs_env \<Rightarrow> kvbfs_inode \<Rightarrow> stat" where
  "inode_to_stat env i =
     \<lparr>st_ino = i_ino i, st_mode = i_mode i, st_nlink = i_nlink i, st_size = i_size i,
      st_blocks = u64 (i_blocks i * (KVBFS_BLOCK_SIZE div 512)), st_blksize = KVBFS_BLOCK_SIZE,
      st_uid = e_uid env, st_gid = e_gid env,
      st_atim = i_atime i, st_mtim = i_mtime i, st_ctim = i_ctime i\<rparr>"

definition agentfs_ctl_stat :: "fs_env \<Rightarrow> stat" where
  "agentfs_ctl_stat env = stat0\<lparr>st_ino := AGENTFS_CTL_INO, st_mode := S_IFREG OR 432, st_nlink := 1,
     st_uid := e_uid env, st_gid := e_gid env,
     st_atim := e_now env, st_mtim := e_now env, st_ctim := e_now env\<rparr>"

definition agentfs_events_stat :: "fs_env \<Rightarrow> stat" where
  "agentfs_events_stat env = stat0\<lparr>st_ino := AGENTFS_EVENTS_INO, st_mode := S_IFREG OR 288,
     st_nlink := 1, st_uid := e_uid env, st_gid := e_gid env,
     st_atim := e_now env, st_mtim := e_now env, st_ctim := e_now env\<rparr>"

definition versions_root_stat :: "fs_env \<Rightarrow> stat" where
  "versions_root_stat env = stat0\<lparr>st_ino := AGENTFS_VERSIONS_INO, st_mode := S_IFDIR OR 365,
     st_nlink := 2, st_uid := e_uid env, st_gid := e_gid env,
     st_atim := e_now env, st_mtim := e_now env, st_ctim := e_now env\<rparr>"

definition vnode_stat :: "'s kv_ops \<Rightarrow> fs_env \<Rightarrow> 's \<Rightarrow> vtree_node \<Rightarrow> stat" where
  "vnode_stat K env s vn =
     (let st = stat0\<lparr>st_ino := vn_vino vn, st_uid := e_uid env, st_gid := e_gid env,
                    st_atim := e_now env, st_ctim := e_now env\<rparr>
      in if \<not> vn_is_version_file vn then
           st\<lparr>st_mode := S_IFDIR OR 365, st_nlink := 2, st_mtim := e_now env\<rparr>
         else
           let st1 = st\<lparr>st_mode := S_IFREG OR 292, st_nlink := 1\<rparr>
           in case version_get_meta K s (vn_real_ino vn) (vn_version vn) of
                None \<Rightarrow> st1
              | Some m \<Rightarrow> st1\<lparr>st_size := m_size m, st_blocks := u64 (m_size m + 511) div 512,
                             st_mtim := m_mtime m\<rparr>)"

section \<open>Shared steps\<close>

definition emit :: "fs_env \<Rightarrow> 's kvbfs_ctx \<Rightarrow> event_type \<Rightarrow> nat \<Rightarrow> string option \<Rightarrow> 's kvbfs_ctx" where
  "emit env c ty ino path = c\<lparr>events := events_emit (e_now env) (events c) ty ino path\<rparr>"

definition session_add :: "'s kvbfs_ctx \<Rightarrow> nat \<Rightarrow> 's kvbfs_ctx" where
  "session_add c ino = c\<lparr>session_set := ino # session_set c\<rparr>"

definition session_del :: "'s kvbfs_ctx \<Rightarrow> nat \<Rightarrow> 's kvbfs_ctx" where
  "session_del c ino = c\<lparr>session_set := remove1 ino (session_set c)\<rparr>"

definition is_session_file :: "'s kvbfs_ctx \<Rightarrow> nat \<Rightarrow> bool" where
  "is_session_file c ino \<longleftrightarrow> sessions_ino c \<noteq> 0 \<and> ino \<in> set (session_set c)"

text \<open>What goes with an inode: its blocks (of a file), attributes, versions and embeddings.\<close>

definition purge_inode :: "'s kv_ops \<Rightarrow> 's kvbfs_ctx \<Rightarrow> nat \<Rightarrow> 's kvbfs_ctx" where
  "purge_inode K c ino =
     (let s1 = xattr_delete_all K (db c) ino;
          s2 = version_delete_all K s1 ino;
          s3 = mem_delete_embeddings K s2 ino
      in snd (inode_delete K (c\<lparr>db := s3\<rparr>) ino))"

lemma emit_fields [simp]:
  "db (emit env c ty ino p) = db c" "icache (emit env c ty ino p) = icache c"
  "super (emit env c ty ino p) = super c" "vtree (emit env c ty ino p) = vtree c"
  "sessions_ino (emit env c ty ino p) = sessions_ino c"
  "session_set (emit env c ty ino p) = session_set c" "mem (emit env c ty ino p) = mem c"
  "llm (emit env c ty ino p) = llm c"
  "events (emit env c ty ino p) = events_emit (e_now env) (events c) ty ino p"
  "view K (emit env c ty ino p) = view K c" "refs (emit env c ty ino p) = refs c"
  "ok K (emit env c ty ino p) = ok K c"
  by (simp_all add: emit_def)

lemma session_fields [simp]:
  "db (session_add c i) = db c" "icache (session_add c i) = icache c"
  "super (session_add c i) = super c" "vtree (session_add c i) = vtree c"
  "sessions_ino (session_add c i) = sessions_ino c" "events (session_add c i) = events c"
  "mem (session_add c i) = mem c" "llm (session_add c i) = llm c"
  "session_set (session_add c i) = i # session_set c"
  "view K (session_add c i) = view K c" "refs (session_add c i) = refs c"
  "ok K (session_add c i) = ok K c"
  "db (session_del c i) = db c" "icache (session_del c i) = icache c"
  "super (session_del c i) = super c" "vtree (session_del c i) = vtree c"
  "sessions_ino (session_del c i) = sessions_ino c" "events (session_del c i) = events c"
  "mem (session_del c i) = mem c" "llm (session_del c i) = llm c"
  "session_set (session_del c i) = remove1 i (session_set c)"
  "view K (session_del c i) = view K c" "refs (session_del c i) = refs c"
  "ok K (session_del c i) = ok K c"
  by (simp_all add: session_add_def session_del_def)

section \<open>Attribute handlers\<close>

text \<open>A child of the virtual tree: a directory mirrors, a file lists its versions from 1 on.\<close>

definition lookup_virtual ::
  "'s kv_ops \<Rightarrow> fs_env \<Rightarrow> 's kvbfs_ctx \<Rightarrow> nat \<Rightarrow> string \<Rightarrow> reply \<times> 's kvbfs_ctx" where
  "lookup_virtual K env c parent name =
     (case (if parent = AGENTFS_VERSIONS_INO then Some KVBFS_ROOT_INO
            else map_option vn_real_ino (vtree_get (vtree c) parent)) of
        None \<Rightarrow> (ReplyErr ENOENT, c)
      | Some parent_real \<Rightarrow>
          let parent_is_dir = (case inode_load K (db c) parent_real of
                Some i \<Rightarrow> S_ISDIR (i_mode i) | None \<Rightarrow> False)
          in if parent_is_dir then
               (let child = dirent_lookup K (db c) parent_real name
                in if child = 0 then (ReplyErr ENOENT, c)
                   else
                     let (vino, vt) = vtree_alloc_dir (vtree c) parent name child;
                         c1 = c\<lparr>vtree := vt\<rparr>
                     in if vino = 0 then (ReplyErr ENOMEM, c1)
                        else (ReplyEntry vino (vnode_stat K env (db c1) (the (vtree_get vt vino))) 0, c1))
             else
               (let (uver, rest) = strtoull name
                in if rest \<noteq> [] \<or> uver = 0 then (ReplyErr ENOENT, c)
                   else if version_get_meta K (db c) parent_real (uver - 1) = None
                   then (ReplyErr ENOENT, c)
                   else
                     let (vino, vt) = vtree_alloc_vfile (vtree c) parent name parent_real (uver - 1);
                         c1 = c\<lparr>vtree := vt\<rparr>
                     in if vino = 0 then (ReplyErr ENOMEM, c1)
                        else (ReplyEntry vino (vnode_stat K env (db c1) (the (vtree_get vt vino))) 0, c1)))"

definition kvbfs_lookup ::
  "'s kv_ops \<Rightarrow> fs_env \<Rightarrow> 's kvbfs_ctx \<Rightarrow> nat \<Rightarrow> string \<Rightarrow> reply \<times> 's kvbfs_ctx" where
  "kvbfs_lookup K env c parent name =
     (if parent = KVBFS_ROOT_INO \<and> name = AGENTFS_CTL_NAME then
        (ReplyEntry AGENTFS_CTL_INO (agentfs_ctl_stat env) 0, c)
      else if parent = KVBFS_ROOT_INO \<and> name = AGENTFS_EVENTS_NAME then
        (ReplyEntry AGENTFS_EVENTS_INO (agentfs_events_stat env) 0, c)
      else if parent = KVBFS_ROOT_INO \<and> name = AGENTFS_VERSIONS_NAME then
        (ReplyEntry AGENTFS_VERSIONS_INO (versions_root_stat env) 0, c)
      else if parent = AGENTFS_VERSIONS_INO \<or> vtree_is_vnode parent then
        lookup_virtual K env c parent name
      else
        let child = dirent_lookup K (db c) parent name
        in if child = 0 then (ReplyErr ENOENT, c)
           else case inode_get K c child of
                  None \<Rightarrow> (ReplyErr ENOENT, c)
                | Some c1 \<Rightarrow>
                    let st = inode_to_stat env (ic_get c1 child)
                    in (ReplyEntry child st 1, inode_put c1 child))"

text \<open>The attributes of the virtual inodes, which \<^verbatim>\<open>getattr\<close> and \<^verbatim>\<open>setattr\<close> answer alike.\<close>

definition virtual_attr ::
  "'s kv_ops \<Rightarrow> fs_env \<Rightarrow> 's kvbfs_ctx \<Rightarrow> nat \<Rightarrow> reply option" where
  "virtual_attr K env c ino =
     (if ino = AGENTFS_CTL_INO then Some (ReplyAttr (agentfs_ctl_stat env) 0)
      else if ino = AGENTFS_EVENTS_INO then Some (ReplyAttr (agentfs_events_stat env) 0)
      else if ino = AGENTFS_VERSIONS_INO then Some (ReplyAttr (versions_root_stat env) 0)
      else if vtree_is_vnode ino then
        (case vtree_get (vtree c) ino of
           None \<Rightarrow> Some (ReplyErr ENOENT)
         | Some vn \<Rightarrow> Some (ReplyAttr (vnode_stat K env (db c) vn) 0))
      else None)"

definition kvbfs_getattr ::
  "'s kv_ops \<Rightarrow> fs_env \<Rightarrow> 's kvbfs_ctx \<Rightarrow> nat \<Rightarrow> reply \<times> 's kvbfs_ctx" where
  "kvbfs_getattr K env c ino =
     (case virtual_attr K env c ino of
        Some r \<Rightarrow> (r, c)
      | None \<Rightarrow>
          (case inode_get K c ino of
             None \<Rightarrow> (ReplyErr ENOENT, c)
           | Some c1 \<Rightarrow>
               let st = inode_to_stat env (ic_get c1 ino) in (ReplyAttr st 1, inode_put c1 ino)))"

datatype set_attr =
    FUSE_SET_ATTR_MODE | FUSE_SET_ATTR_SIZE | FUSE_SET_ATTR_ATIME | FUSE_SET_ATTR_MTIME
  | FUSE_SET_ATTR_ATIME_NOW | FUSE_SET_ATTR_MTIME_NOW

definition set_size_step ::
  "'s kv_ops \<Rightarrow> 's kvbfs_ctx \<Rightarrow> nat \<Rightarrow> nat \<Rightarrow> 's kvbfs_ctx" where
  "set_size_step K c ino new_size =
     (let s = truncate_blocks K (db c) ino (i_size (ic_get c ino)) new_size
      in ic_modify (c\<lparr>db := s\<rparr>) ino (\<lambda>i. i\<lparr>i_size := new_size, i_blocks := blocks_of new_size\<rparr>))"

text \<open>An assignment under a flag of \<^verbatim>\<open>to_set\<close>.\<close>

definition ic_modify_if ::
  "bool \<Rightarrow> 's kvbfs_ctx \<Rightarrow> nat \<Rightarrow> (kvbfs_inode \<Rightarrow> kvbfs_inode) \<Rightarrow> 's kvbfs_ctx" where
  "ic_modify_if b c ino f = (if b then ic_modify c ino f else c)"

definition kvbfs_setattr ::
  "'s kv_ops \<Rightarrow> fs_env \<Rightarrow> 's kvbfs_ctx \<Rightarrow> nat \<Rightarrow> stat \<Rightarrow> set_attr list \<Rightarrow> reply \<times> 's kvbfs_ctx" where
  "kvbfs_setattr K env c ino attr to_set =
     (case virtual_attr K env c ino of
        Some r \<Rightarrow> (r, c)
      | None \<Rightarrow>
          (case inode_get K c ino of
             None \<Rightarrow> (ReplyErr ENOENT, c)
           | Some c1 \<Rightarrow>
               let c2 = ic_modify_if (FUSE_SET_ATTR_MODE \<in> set to_set) c1 ino
                          (\<lambda>i. i\<lparr>i_mode := (i_mode i AND S_IFMT) OR (st_mode attr AND 511)\<rparr>);
                   c3 = (if FUSE_SET_ATTR_SIZE \<in> set to_set
                         then set_size_step K c2 ino (st_size attr) else c2);
                   c4 = ic_modify_if (FUSE_SET_ATTR_ATIME \<in> set to_set) c3 ino
                          (\<lambda>i. i\<lparr>i_atime := st_atim attr\<rparr>);
                   c5 = ic_modify_if (FUSE_SET_ATTR_MTIME \<in> set to_set) c4 ino
                          (\<lambda>i. i\<lparr>i_mtime := st_mtim attr\<rparr>);
                   c6 = ic_modify_if (FUSE_SET_ATTR_ATIME_NOW \<in> set to_set) c5 ino
                          (\<lambda>i. i\<lparr>i_atime := e_now env\<rparr>);
                   c7 = ic_modify_if (FUSE_SET_ATTR_MTIME_NOW \<in> set to_set) c6 ino
                          (\<lambda>i. i\<lparr>i_mtime := e_now env\<rparr>);
                   c8 = ic_modify c7 ino (\<lambda>i. i\<lparr>i_ctime := e_now env\<rparr>);
                   st = inode_to_stat env (ic_get c8 ino);
                   (r, c9) = inode_sync K c8 ino;
                   c10 = inode_put c9 ino
               in (ReplyAttr st 1, emit env c10 EVT_SETATTR ino None)))"

end
