(* ===== verification/FuseIo.thy ===== *)
theory FuseIo
  imports Fuse
begin

text \<open>
  The handlers of \<^verbatim>\<open>src/fuse_ops.c\<close> on open files: open, release, read, write, fsync, poll and
  ioctl, with the control file \<^verbatim>\<open>.agentfs\<close> that answers searches in JSON. A handler takes the
  object behind \<^verbatim>\<open>fi->fh\<close> and returns it as it leaves it.
\<close>

section \<open>Open and release\<close>

definition O_RDONLY :: nat where "O_RDONLY = 0"
definition O_ACCMODE :: nat where "O_ACCMODE = 3"
definition O_TRUNC :: nat where "O_TRUNC = 0x200"

definition kvbfs_open ::
  "'s kv_ops \<Rightarrow> fs_env \<Rightarrow> 's kvbfs_ctx \<Rightarrow> nat \<Rightarrow> nat \<Rightarrow> reply \<times> 's kvbfs_ctx" where
  "kvbfs_open K env c ino flags =
     (if ino = AGENTFS_CTL_INO then
        (ReplyOpen (FhCtl \<lparr>ctl_query = [], ctl_result = None\<rparr>) True, c)
      else if ino = AGENTFS_EVENTS_INO then
        (if flags AND O_ACCMODE \<noteq> O_RDONLY then (ReplyErr EACCES, c)
         else (ReplyOpen (FhEvents (events_open (events c))) True, c))
      else if ino = AGENTFS_VERSIONS_INO then (ReplyErr EISDIR, c)
      else if vtree_is_vnode ino then
        (case vtree_get (vtree c) ino of
           None \<Rightarrow> (ReplyErr ENOENT, c)
         | Some vn \<Rightarrow>
             if \<not> vn_is_version_file vn then (ReplyErr EISDIR, c)
             else if flags AND O_ACCMODE \<noteq> O_RDONLY then (ReplyErr EACCES, c)
             else (ReplyOpen (FhVersion \<lparr>vfh_real_ino = vn_real_ino vn, vfh_version = vn_version vn\<rparr>)
                     True, c))
      else
        case inode_get K c ino of
          None \<Rightarrow> (ReplyErr ENOENT, c)
        | Some c1 \<Rightarrow>
            if \<not> S_ISREG (i_mode (ic_get c1 ino)) then (ReplyErr EISDIR, inode_put c1 ino)
            else
              let trunc = (flags AND O_TRUNC \<noteq> 0);
                  c2 = (if trunc then
                          (let old_blocks = i_blocks (ic_get c1 ino);
                               s = (if 0 < old_blocks then delete_file_blocks K (db c1) ino old_blocks
                                    else db c1);
                               c' = ic_modify (c1\<lparr>db := s\<rparr>) ino
                                      (\<lambda>i. i\<lparr>i_size := 0, i_blocks := 0, i_mtime := e_now env,
                                            i_ctime := e_now env\<rparr>)
                           in snd (inode_sync K c' ino))
                        else c1);
                  c3 = inode_put c2 ino
              in (ReplyOpen (FhFile \<lparr>fh_ino = ino, fh_written = trunc\<rparr>) False, c3))"

definition kvbfs_release ::
  "'s kv_ops \<Rightarrow> fs_env \<Rightarrow> 's kvbfs_ctx \<Rightarrow> nat \<Rightarrow> nat \<Rightarrow> fhandle \<Rightarrow> reply \<times> 's kvbfs_ctx" where
  "kvbfs_release K env c ino flags fh =
     (if ino = AGENTFS_CTL_INO \<or> ino = AGENTFS_EVENTS_INO \<or> vtree_is_vnode ino then (ReplyOk, c)
      else
        let c1 = (if flags \<noteq> O_RDONLY \<and> is_session_file c ino
                  then c\<lparr>llm := llm_submit (llm c) ino\<rparr> else c)
        in case the_file_fh fh of
             None \<Rightarrow> (ReplyOk, c1)
           | Some f \<Rightarrow>
               if fh_written f then
                 (let c2 = snd (version_snapshot K c1 (fh_ino f));
                      c3 = snd (mem_index_file K c2 (fh_ino f))
                  in (ReplyOk, emit env c3 EVT_WRITE (fh_ino f) None))
               else (ReplyOk, c1))"

section \<open>The control file\<close>

text \<open>
  The path of an inode: its entry and those of its parents are searched in all directory
  entries, at most 128 of them; the text is cut to the buffer.
\<close>

fun path_components :: "'s kv_ops \<Rightarrow> 's \<Rightarrow> nat \<Rightarrow> nat \<Rightarrow> string list" where
  "path_components K s 0 cur = []"
| "path_components K s (Suc depth) cur =
     (if cur = KVBFS_ROOT_INO then []
      else case find (\<lambda>(k, v). length v = SIZEOF_U64 \<and> le_val v = cur \<and> CHR '':'' \<in> set (drop 2 k))
                  (kv_iter K s ''d:'') of
             None \<Rightarrow> []
           | Some (k, v) \<Rightarrow>
               let p = takeWhile (\<lambda>c. c \<noteq> CHR '':'') (drop 2 k);
                   name = cstr (tl (dropWhile (\<lambda>c. c \<noteq> CHR '':'') (drop 2 k)))
               in name # path_components K s depth (fst (strtoull (take 31 p))))"

definition ino_to_path :: "'s kv_ops \<Rightarrow> 's \<Rightarrow> nat \<Rightarrow> nat \<Rightarrow> bool \<times> string" where
  "ino_to_path K s ino buflen =
     (if ino = KVBFS_ROOT_INO then (if buflen < 2 then (False, []) else (True, ''/''))
      else
        let comps = path_components K s 128 ino
        in if comps = [] then (False, take (buflen - 1) (''ino:'' @ dec ino))
           else (True, take (buflen - 1) (concat (map (\<lambda>n. CHR ''/'' # n) (rev comps)))))"

fun escape_summary :: "string \<Rightarrow> nat \<Rightarrow> string" where
  "escape_summary [] ei = []"
| "escape_summary (c # cs) ei =
     (if c = NUL \<or> 1022 \<le> ei then []
      else if c = dquote \<or> c = backslash then backslash # c # escape_summary cs (ei + 2)
      else if c = newline then backslash # CHR ''n'' # escape_summary cs (ei + 2)
      else if c = CHR 0x0D then backslash # CHR ''r'' # escape_summary cs (ei + 2)
      else if c = CHR 0x09 then backslash # CHR ''t'' # escape_summary cs (ei + 2)
      else if 32 \<le> (of_char c :: nat) then c # escape_summary cs (ei + 1)
      else escape_summary cs ei)"

definition jstring :: "string \<Rightarrow> string" where
  "jstring s = dquote # s @ [dquote]"

definition ctl_usage :: string where
  "ctl_usage = ''{'' @ jstring ''status'' @ '':'' @ jstring ''ready'' @ '','' @ jstring ''usage'' @ '':'' @
     jstring ''Write a search query, then read results.'' @ ''}'' @ [newline]"

definition ctl_error :: "string \<Rightarrow> string" where
  "ctl_error msg = ''{'' @ jstring ''status'' @ '':'' @ jstring ''error'' @ '','' @ jstring ''message'' @
     '':'' @ jstring msg @ ''}'' @ [newline]"

definition result_json :: "'s kv_ops \<Rightarrow> fs_env \<Rightarrow> 's \<Rightarrow> cfs_mem_result \<Rightarrow> string" where
  "result_json K env s r =
     ''{'' @ jstring ''score'' @ '':'' @ e_fmt_score env (r_score r) @
     '','' @ jstring ''ino'' @ '':'' @ dec (r_ino r) @
     '','' @ jstring ''seq'' @ '':'' @ dec (r_seq r) @
     '','' @ jstring ''path'' @ '':'' @ jstring (snd (ino_to_path K s (r_ino r) CFS_MEM_PATH_LEN)) @
     '','' @ jstring ''summary'' @ '':'' @ jstring (escape_summary (r_summary r) 0) @ ''}''"

fun join_comma :: "string list \<Rightarrow> string" where
  "join_comma [] = []"
| "join_comma (x # xs) = x @ concat (map (\<lambda>y. CHR '','' # y) xs)"

definition zero_result :: cfs_mem_result where
  "zero_result = \<lparr>r_ino = 0, r_seq = 0, r_score = 0, r_summary = []\<rparr>"

definition strip_query :: "bytes \<Rightarrow> bytes" where
  "strip_query q = rev (dropWhile (\<lambda>c. is_eol c \<or> c = CHR '' '') (rev q))"

definition agentfs_ctl_search :: "'s kv_ops \<Rightarrow> fs_env \<Rightarrow> 's kvbfs_ctx \<Rightarrow> bytes \<Rightarrow> bytes" where
  "agentfs_ctl_search K env c raw =
     (if raw = [] then ctl_usage
      else
        let q = strip_query raw
        in if q = [] then ctl_error ''empty query''
           else
             let query = \<lparr>query_text = take 511 (cstr q), q_top_k = 10, q_n_results = 0,
                          q_results = replicate CFS_MEM_MAX_RESULTS zero_result\<rparr>;
                 (okay, res) = mem_search K env c query
             in if \<not> okay then ctl_error ''search failed''
                else ''{'' @ jstring ''status'' @ '':'' @ jstring ''ok'' @ '','' @ jstring ''results'' @
                  '':['' @ join_comma (map (result_json K env (db c)) (take (q_n_results res) (q_results res))) @
                  '']}'' @ [newline])"

section \<open>Read and write\<close>

text \<open>A version file: the loop stops at the first block the version does not have.\<close>

fun version_read_loop ::
  "'s kv_ops \<Rightarrow> 's \<Rightarrow> version_fh \<Rightarrow> nat \<Rightarrow> nat \<Rightarrow> nat \<Rightarrow> nat list \<Rightarrow> bytes \<Rightarrow> bytes" where
  "version_read_loop K s vfh start boff sz [] out = out"
| "version_read_loop K s vfh start boff sz (b # bs) out =
     (if sz \<le> length out then out
      else case version_read_block K s (vfh_real_ino vfh) (vfh_version vfh) b of
             None \<Rightarrow> out
           | Some d \<Rightarrow>
               version_read_loop K s vfh start boff sz bs
                 (out @ take (sz - length out) (drop (if b = start then boff else 0) d)))"

definition version_read :: "'s kv_ops \<Rightarrow> 's \<Rightarrow> version_fh \<Rightarrow> nat \<Rightarrow> nat \<Rightarrow> bytes" where
  "version_read K s vfh sz off =
     (let start = off div KVBFS_BLOCK_SIZE;
          last = (off + sz - 1) div KVBFS_BLOCK_SIZE
      in version_read_loop K s vfh start (off mod KVBFS_BLOCK_SIZE) sz [start..<last + 1] [])"

definition kvbfs_read ::
  "'s kv_ops \<Rightarrow> fs_env \<Rightarrow> 's kvbfs_ctx \<Rightarrow> nat \<Rightarrow> nat \<Rightarrow> nat \<Rightarrow> fhandle \<Rightarrow>
   reply \<times> fhandle \<times> 's kvbfs_ctx" where
  "kvbfs_read K env c ino sz off fh =
     (if ino = AGENTFS_CTL_INO then
        (case the_ctl_fh fh of
           None \<Rightarrow> (ReplyErr EIO, fh, c)
         | Some ctl \<Rightarrow>
             let result = (case ctl_result ctl of
                   Some r \<Rightarrow> r | None \<Rightarrow> agentfs_ctl_search K env c (ctl_query ctl));
                 fh' = FhCtl (ctl\<lparr>ctl_result := Some result\<rparr>)
             in (ReplyBuf (take sz (drop off result)), fh', c))
      else if ino = AGENTFS_EVENTS_INO then
        (case the_events_fh fh of
           None \<Rightarrow> (ReplyErr EIO, fh, c)
         | Some efh \<Rightarrow>
             let (out, efh') = events_read (events c) efh sz in (ReplyBuf out, FhEvents efh', c))
      else if vtree_is_vnode ino then
        (case the_version_fh fh of
           None \<Rightarrow> (ReplyErr EIO, fh, c)
         | Some vfh \<Rightarrow> (ReplyBuf (version_read K (db c) vfh sz off), fh, c))
      else
        case inode_get K c ino of
          None \<Rightarrow> (ReplyErr ENOENT, fh, c)
        | Some c1 \<Rightarrow>
            let file_size = i_size (ic_get c1 ino);
                c2 = inode_put c1 ino
            in if file_size \<le> off then (ReplyBuf [], fh, c2)
               else
                 let n = (if file_size < u64 (off + sz) then file_size - off else sz)
                 in (ReplyBuf (read_blocks K (db c2) ino (off div KVBFS_BLOCK_SIZE)
                                 (off mod KVBFS_BLOCK_SIZE) n), fh, c2))"

definition mark_written :: "fhandle \<Rightarrow> fhandle" where
  "mark_written fh =
     (case the_file_fh fh of Some f \<Rightarrow> FhFile (f\<lparr>fh_written := True\<rparr>) | None \<Rightarrow> fh)"

definition kvbfs_write ::
  "'s kv_ops \<Rightarrow> fs_env \<Rightarrow> 's kvbfs_ctx \<Rightarrow> nat \<Rightarrow> bytes \<Rightarrow> nat \<Rightarrow> fhandle \<Rightarrow>
   reply \<times> fhandle \<times> 's kvbfs_ctx" where
  "kvbfs_write K env c ino buf off fh =
     (if ino = AGENTFS_EVENTS_INO then (ReplyErr EACCES, fh, c)
      else if ino = AGENTFS_CTL_INO then
        (case the_ctl_fh fh of
           None \<Rightarrow> (ReplyErr EIO, fh, c)
         | Some ctl \<Rightarrow>
             (ReplyWrite (length buf),
              FhCtl \<lparr>ctl_query = ctl_query ctl @ buf, ctl_result = None\<rparr>, c))
      else
        let fh' = mark_written fh
        in case inode_get K c ino of
             None \<Rightarrow> (ReplyErr ENOENT, fh', c)
           | Some c1 \<Rightarrow>
               let (okay, s) = write_blocks K (db c1) ino (off div KVBFS_BLOCK_SIZE)
                                 (off mod KVBFS_BLOCK_SIZE) buf;
                   c2 = c1\<lparr>db := s\<rparr>
               in if \<not> okay then (ReplyErr EIO, fh', inode_put c2 ino)
                  else
                    let c3 = ic_modify c2 ino (\<lambda>i.
                          let sz = (if i_size i < u64 (off + length buf) then u64 (off + length buf)
                                    else i_size i)
                          in i\<lparr>i_size := sz, i_blocks := blocks_of sz, i_mtime := e_now env,
                               i_ctime := e_now env\<rparr>);
                        (r4, c4) = inode_sync K c3 ino
                    in (ReplyWrite (length buf), fh', inode_put c4 ino))"

definition kvbfs_fsync :: "'s kv_ops \<Rightarrow> 's kvbfs_ctx \<Rightarrow> nat \<Rightarrow> reply \<times> 's kvbfs_ctx" where
  "kvbfs_fsync K c ino =
     (case inode_get K c ino of
        None \<Rightarrow> (ReplyErr ENOENT, c)
      | Some c1 \<Rightarrow>
          let (okay, c2) = inode_sync K c1 ino
          in (if okay then ReplyOk else ReplyErr EIO, inode_put c2 ino))"

section \<open>Poll and ioctl\<close>

text \<open>The reply of poll is readable and writable; \<open>None\<close> is a poll without a handle.\<close>

definition kvbfs_poll_op ::
  "'s kvbfs_ctx \<Rightarrow> nat \<Rightarrow> fhandle \<Rightarrow> nat option \<Rightarrow> reply \<times> 's kvbfs_ctx" where
  "kvbfs_poll_op c ino fh ph =
     (if ino = AGENTFS_EVENTS_INO then
        (let (ready, ev) = events_poll (events c) (the_events_fh fh) ph
         in (ReplyPoll ready False, c\<lparr>events := ev\<rparr>))
      else if is_session_file c ino \<and> llm_gen_is_active (llm c) ino then
        (ReplyPoll False False,
         case ph of None \<Rightarrow> c | Some p \<Rightarrow> c\<lparr>llm := llm_gen_add_waiter (llm c) ino p\<rparr>)
      else
        (ReplyPoll True True,
         case ph of None \<Rightarrow> c
           | Some p \<Rightarrow> c\<lparr>llm := (llm c)\<lparr>llm_calls := llm_calls (llm c) @ [DestroyPoll p]\<rparr>\<rparr>))"

definition SIZEOF_STATUS :: nat where "SIZEOF_STATUS = 8"
definition SIZEOF_MEM_QUERY :: nat where "SIZEOF_MEM_QUERY = 13064"

datatype ioctl_cmd = CFS_IOC_STATUS | CFS_IOC_CANCEL | CFS_IOC_MEM_SEARCH | CFS_IOC_OTHER

definition kvbfs_ioctl_op ::
  "'s kv_ops \<Rightarrow> fs_env \<Rightarrow> 's kvbfs_ctx \<Rightarrow> nat \<Rightarrow> ioctl_cmd \<Rightarrow> bool \<Rightarrow> cfs_mem_query \<Rightarrow> nat \<Rightarrow> nat \<Rightarrow>
   reply" where
  "kvbfs_ioctl_op K env c ino cmd compat32 in_buf in_bufsz out_bufsz =
     (if compat32 then ReplyErr ENOSYS
      else case cmd of
        CFS_IOC_STATUS \<Rightarrow>
          if out_bufsz < SIZEOF_STATUS then ReplyIoctlRetry 0 SIZEOF_STATUS
          else ReplyStatus (llm_gen_is_active (llm c) ino)
      | CFS_IOC_CANCEL \<Rightarrow> ReplyErr ENOSYS
      | CFS_IOC_MEM_SEARCH \<Rightarrow>
          if in_bufsz < SIZEOF_MEM_QUERY then ReplyIoctlRetry SIZEOF_MEM_QUERY SIZEOF_MEM_QUERY
          else if out_bufsz < SIZEOF_MEM_QUERY then ReplyIoctlRetry SIZEOF_MEM_QUERY SIZEOF_MEM_QUERY
          else
            let (okay, res) = mem_search K env c (in_buf\<lparr>query_text := cstr (take 511 (query_text in_buf))\<rparr>)
            in if \<not> okay then ReplyErr EIO else ReplySearch res
      | CFS_IOC_OTHER \<Rightarrow> ReplyErr ENOTTY)"

end
