(* ===== verification/FileProps.thy ===== *)
theory FileProps
  imports FuseIo
begin

text \<open>
  The data handlers implement a flat file: reading, writing, truncating and growing through
  \<^verbatim>\<open>kvbfs_read\<close>, \<^verbatim>\<open>kvbfs_write\<close>, \<^verbatim>\<open>kvbfs_setattr\<close> and \<^verbatim>\<open>kvbfs_open\<close> is reading, overwriting,
  truncating and zero-extending a list of bytes, for any live backend.
\<close>

text \<open>An inode number that the virtual files do not use.\<close>

definition real_ino :: "nat \<Rightarrow> bool" where
  "real_ino ino \<longleftrightarrow> ino \<noteq> AGENTFS_CTL_INO \<and> ino \<noteq> AGENTFS_EVENTS_INO \<and> ino \<noteq> AGENTFS_VERSIONS_INO \<and>
     \<not> vtree_is_vnode ino"

text \<open>The state of a file's data: whole blocks, zeros behind the end, a size far from \<open>2^64\<close>, and
  the block count that goes with it.\<close>

definition file_ok :: "(string \<Rightarrow> bytes option) \<Rightarrow> nat \<Rightarrow> kvbfs_inode \<Rightarrow> bool" where
  "file_ok M ino i \<longleftrightarrow> full_blocks M ino \<and> zero_beyond M ino (i_size i) \<and>
     i_size i + KVBFS_BLOCK_SIZE \<le> 18446744073709551616 \<and> i_blocks i = blocks_of (i_size i)"

definition file_of :: "(string \<Rightarrow> bytes option) \<Rightarrow> nat \<Rightarrow> kvbfs_inode \<Rightarrow> bytes" where
  "file_of M ino i = file_bytes M ino (i_size i)"

lemma file_ok_full: "file_ok M ino i \<Longrightarrow> full_blocks M ino"
  by (simp add: file_ok_def)

text \<open>What a write leaves in the inode.\<close>

definition written_inode :: "timespec \<Rightarrow> nat \<Rightarrow> kvbfs_inode \<Rightarrow> kvbfs_inode" where
  "written_inode now n i =
     i\<lparr>i_size := max (i_size i) n, i_blocks := blocks_of (max (i_size i) n), i_mtime := now, i_ctime := now\<rparr>"

lemma virtual_attr_real: "real_ino ino \<Longrightarrow> virtual_attr K env c ino = None"
  by (simp add: virtual_attr_def real_ino_def)

lemma block_split: "off div KVBFS_BLOCK_SIZE * KVBFS_BLOCK_SIZE + off mod KVBFS_BLOCK_SIZE = off"
  by simp

context kv_store
begin

lemma kvbfs_read_bytes:
  assumes "ok K c" "view K c ino = Some i" "real_ino ino" "full_blocks (contents (db c)) ino"
    and "off + sz < 18446744073709551616"
  shows "fst (kvbfs_read K env c ino sz off fh) = ReplyBuf (abs_read (file_of (contents (db c)) ino i) off sz)"
    and "view K (snd (snd (kvbfs_read K env c ino sz off fh))) = view K c"
    and "refs (snd (snd (kvbfs_read K env c ino sz off fh))) = refs c"
    and "ok K (snd (snd (kvbfs_read K env c ino sz off fh)))"
    and "db (snd (snd (kvbfs_read K env c ino sz off fh))) = db c"
proof -
  let ?n = "if i_size i < off + sz then i_size i - off else sz"
  note full = assms(4)
  have rd: "read_blocks K (db c) ino (off div KVBFS_BLOCK_SIZE) (off mod KVBFS_BLOCK_SIZE) ?n =
      abs_read (file_of (contents (db c)) ino i) off ?n" if "off < i_size i"
    using read_blocks_bytes [OF full, of "off mod KVBFS_BLOCK_SIZE" "off div KVBFS_BLOCK_SIZE" ?n]
      file_bytes_read [of off ?n "i_size i" "contents (db c)" ino] that
    by (simp add: file_of_def)
  have cut: "abs_read (file_of (contents (db c)) ino i) off sz =
      (if i_size i \<le> off then [] else abs_read (file_of (contents (db c)) ino i) off ?n)"
    by (auto simp: abs_read_def file_of_def)
  have eq: "kvbfs_read K env c ino sz off fh =
      (ReplyBuf (abs_read (file_of (contents (db c)) ino i) off sz), fh, inode_put (get_c K c ino) ino)"
    using assms rd unfolding cut
    by (auto simp: kvbfs_read_def real_ino_def fs_simps Let_def)
  show "fst (kvbfs_read K env c ino sz off fh) = ReplyBuf (abs_read (file_of (contents (db c)) ino i) off sz)"
    "view K (snd (snd (kvbfs_read K env c ino sz off fh))) = view K c"
    "refs (snd (snd (kvbfs_read K env c ino sz off fh))) = refs c"
    "ok K (snd (snd (kvbfs_read K env c ino sz off fh)))"
    "db (snd (snd (kvbfs_read K env c ino sz off fh))) = db c"
    using assms(1,2) by (simp_all add: eq fs_simps)
qed

lemmas kvbfs_read_file = kvbfs_read_bytes [OF _ _ _ file_ok_full]

end

context kv_store_live
begin

lemma kvbfs_write_file:
  assumes "ok K c" "view K c ino = Some i" "real_ino ino" "file_ok (contents (db c)) ino i"
    and "off + length buf + KVBFS_BLOCK_SIZE \<le> 18446744073709551616"
    and "i' = written_inode (e_now env) (off + length buf) i"
    and "c' = snd (snd (kvbfs_write K env c ino buf off fh))"
  shows "fst (kvbfs_write K env c ino buf off fh) = ReplyWrite (length buf)"
    and "fst (snd (kvbfs_write K env c ino buf off fh)) = mark_written fh"
    and "view K c' = (view K c)(ino \<mapsto> i')"
    and "file_of (contents (db c')) ino i' = abs_write (file_of (contents (db c)) ino i) off buf"
    and "file_ok (contents (db c')) ino i'"
    and "refs c' = refs c" "ok K c'"
    and "(\<forall>b. k \<noteq> KBlock ino b) \<Longrightarrow> contents (db c') (encode k) = contents (db c) (encode k)"
    and "super c' = super c"
proof -
  have full: "full_blocks (contents (db c)) ino" using assms(4) by (simp add: file_ok_def)
  obtain s where s: "write_blocks K (db c) ino (off div KVBFS_BLOCK_SIZE) (off mod KVBFS_BLOCK_SIZE) buf = (True, s)"
    "full_blocks (contents s) ino"
    "\<And>j. byte_at (contents s) ino j = (if off \<le> j \<and> j < off + length buf
      then buf ! (j - off) else byte_at (contents (db c)) ino j)"
    "\<And>k. (\<forall>b. k \<noteq> KBlock ino b) \<Longrightarrow> contents s (encode k) = contents (db c) (encode k)"
    using write_blocks_live [OF full, of "off mod KVBFS_BLOCK_SIZE" "off div KVBFS_BLOCK_SIZE" buf]
    unfolding block_split by auto
  let ?c2 = "(get_c K c ino)\<lparr>db := s\<rparr>"
  have db2: "view K ?c2 = view K c" "ok K ?c2" "refs ?c2 = (refs c)(ino := refs c ino + 1)"
    using assms(1,2) view_db [of s "get_c K c ino"] s(4) by (simp_all add: fs_simps)
  have u: "u64 (off + length buf) = off + length buf" using assms(5) by (simp add: KVBFS_BLOCK_SIZE_def)
  define f :: "kvbfs_inode \<Rightarrow> kvbfs_inode" where
    "f = (\<lambda>i. i\<lparr>i_size := if i_size i < u64 (off + length buf) then u64 (off + length buf) else i_size i,
      i_blocks := blocks_of (if i_size i < u64 (off + length buf) then u64 (off + length buf) else i_size i),
      i_mtime := e_now env, i_ctime := e_now env\<rparr>)"
  have f: "f i = i'" "\<And>i. i_ino (f i) = i_ino i"
    by (simp_all add: f_def u assms(6) written_inode_def max_def)
  have ok3: "ok K (ic_modify ?c2 ino f)" using db2(2) f(2) by (intro ok_ic_modify) auto
  have eq: "kvbfs_write K env c ino buf off fh =
      (ReplyWrite (length buf), mark_written fh, inode_put (ic_modify ?c2 ino f) ino)"
    using assms(1-3) ok3
    by (simp add: kvbfs_write_def real_ino_def fs_simps s(1) Let_def f_def [symmetric])
  have c': "c' = inode_put (ic_modify ?c2 ino f) ino" using eq assms(7) by simp
  show "fst (kvbfs_write K env c ino buf off fh) = ReplyWrite (length buf)"
    "fst (snd (kvbfs_write K env c ino buf off fh)) = mark_written fh"
    by (simp_all add: eq)
  show "super c' = super c" using assms(1,2) by (simp add: c' fs_simps)
  show "view K c' = (view K c)(ino \<mapsto> i')" "refs c' = refs c" "ok K c'"
    using assms(2) ok3 db2 f(1) by (simp_all add: c' fs_simps)
  have db': "db c' = s" by (simp add: c')
  show "contents (db c') (encode k) = contents (db c) (encode k)" if "\<forall>b. k \<noteq> KBlock ino b"
    using s(4) that by (simp add: db')
  have z: "zero_beyond (contents (db c)) ino (i_size i)" using assms(4) by (simp add: file_ok_def)
  note w = file_bytes_write [OF s(3) z]
  show "file_of (contents (db c')) ino i' = abs_write (file_of (contents (db c)) ino i) off buf"
    using w(1) by (simp add: file_of_def db' assms(6) written_inode_def)
  have "max (i_size i) (off + length buf) + KVBFS_BLOCK_SIZE \<le> 18446744073709551616"
    using assms(4,5) by (simp add: file_ok_def max_def)
  then show "file_ok (contents (db c')) ino i'"
    using w(2) s(2) by (simp add: file_ok_def db' assms(6) written_inode_def)
qed

end

section \<open>Attributes and truncation\<close>

text \<open>What \<^verbatim>\<open>kvbfs_setattr\<close> makes of an inode.\<close>

definition set_attrs :: "fs_env \<Rightarrow> stat \<Rightarrow> set_attr list \<Rightarrow> kvbfs_inode \<Rightarrow> kvbfs_inode" where
  "set_attrs env attr to_set i =
     (let i1 = (if FUSE_SET_ATTR_MODE \<in> set to_set
                then i\<lparr>i_mode := (i_mode i AND S_IFMT) OR (st_mode attr AND 511)\<rparr> else i);
          i2 = (if FUSE_SET_ATTR_SIZE \<in> set to_set
                then i1\<lparr>i_size := st_size attr, i_blocks := blocks_of (st_size attr)\<rparr> else i1);
          i3 = (if FUSE_SET_ATTR_ATIME \<in> set to_set then i2\<lparr>i_atime := st_atim attr\<rparr> else i2);
          i4 = (if FUSE_SET_ATTR_MTIME \<in> set to_set then i3\<lparr>i_mtime := st_mtim attr\<rparr> else i3);
          i5 = (if FUSE_SET_ATTR_ATIME_NOW \<in> set to_set then i4\<lparr>i_atime := e_now env\<rparr> else i4);
          i6 = (if FUSE_SET_ATTR_MTIME_NOW \<in> set to_set then i5\<lparr>i_mtime := e_now env\<rparr> else i5)
      in i6\<lparr>i_ctime := e_now env\<rparr>)"

lemma set_attrs_size:
  "i_size (set_attrs env attr to_set i) =
     (if FUSE_SET_ATTR_SIZE \<in> set to_set then st_size attr else i_size i)"
  "i_ino (set_attrs env attr to_set i) = i_ino i"
  by (simp_all add: set_attrs_def Let_def)

lemma set_attrs_blocks:
  "i_blocks i = blocks_of (i_size i) \<Longrightarrow>
   i_blocks (set_attrs env attr to_set i) = blocks_of (i_size (set_attrs env attr to_set i))"
  by (simp add: set_attrs_def Let_def)

lemma set_attrs_type: "i_mode (set_attrs env attr to_set i) AND S_IFMT = i_mode i AND S_IFMT"
  by (simp add: set_attrs_def Let_def and_fmt_chmod)

text \<open>A held inode: its value, one more reference than before, and the invariant.\<close>

definition held ::
  "'s kv_ops \<Rightarrow> 's kvbfs_ctx \<Rightarrow> (nat \<Rightarrow> kvbfs_inode option) \<Rightarrow> (nat \<Rightarrow> nat) \<Rightarrow> nat \<Rightarrow> kvbfs_inode \<Rightarrow> bool" where
  "held K c V R n i \<longleftrightarrow> view K c = V(n \<mapsto> i) \<and> refs c = R(n := R n + 1) \<and> ok K c"

lemma held_get:
  "ok K c \<Longrightarrow> view K c n = Some i \<Longrightarrow> held K (get_c K c n) (view K c) (refs c) n i"
  by (auto simp: held_def fs_simps)

lemma held_modify_if:
  "held K c V R n i \<Longrightarrow> (\<And>i. i_ino (f i) = i_ino i) \<Longrightarrow>
   held K (ic_modify_if b c n f) V R n (if b then f i else i)"
  by (auto simp: held_def ic_modify_if_def fs_simps)

lemma db_ic_modify_if [simp]: "db (ic_modify_if b c n f) = db c" "super (ic_modify_if b c n f) = super c"
  by (simp_all add: ic_modify_if_def)

lemma held_modify:
  "held K c V R n i \<Longrightarrow> (\<And>i. i_ino (f i) = i_ino i) \<Longrightarrow> held K (ic_modify c n f) V R n (f i)"
  by (auto simp: held_def fs_simps)

lemma held_ic_get: "held K c V R n i \<Longrightarrow> ic_get c n = i"
  by (simp add: held_def ic_get_view [where K = K])

lemma held_put:
  "held K c V R n i \<Longrightarrow> view K (inode_put c n) = V(n \<mapsto> i) \<and> refs (inode_put c n) = R \<and> ok K (inode_put c n)"
  by (simp add: held_def fs_simps)

lemma held_sync: "held K c V R n i \<Longrightarrow> inode_sync K c n = (True, c)"
  by (simp add: held_def fs_simps)

context kv_store
begin

lemma held_db:
  "held K c V R n i \<Longrightarrow>
   (\<And>m. contents s (encode (KInode m)) = contents (db c) (encode (KInode m))) \<Longrightarrow>
   held K (c\<lparr>db := s\<rparr>) V R n i"
  by (simp add: held_def view_db)

end

context kv_store_live
begin

lemma kvbfs_setattr_file:
  assumes "ok K c" "view K c ino = Some i" "real_ino ino" "file_ok (contents (db c)) ino i"
    and "st_size attr + KVBFS_BLOCK_SIZE \<le> 18446744073709551616"
    and "i' = set_attrs env attr to_set i" "c' = snd (kvbfs_setattr K env c ino attr to_set)"
  shows "fst (kvbfs_setattr K env c ino attr to_set) = ReplyAttr (inode_to_stat env i') 1"
    and "view K c' = (view K c)(ino \<mapsto> i')" "refs c' = refs c" "ok K c'"
    and "file_of (contents (db c')) ino i' =
      (if FUSE_SET_ATTR_SIZE \<in> set to_set
       then abs_truncate (file_of (contents (db c)) ino i) (st_size attr)
       else file_of (contents (db c)) ino i)"
    and "file_ok (contents (db c')) ino i'"
    and "(\<forall>b. k \<noteq> KBlock ino b) \<Longrightarrow> contents (db c') (encode k) = contents (db c) (encode k)"
    and "super c' = super c"
proof -
  let ?V = "view K c" and ?R = "refs c" and ?sz = "FUSE_SET_ATTR_SIZE \<in> set to_set"
  define i1 where "i1 = (if FUSE_SET_ATTR_MODE \<in> set to_set
    then i\<lparr>i_mode := (i_mode i AND S_IFMT) OR (st_mode attr AND 511)\<rparr> else i)"
  define c2 where "c2 = ic_modify_if (FUSE_SET_ATTR_MODE \<in> set to_set) (get_c K c ino) ino
    (\<lambda>i. i\<lparr>i_mode := (i_mode i AND S_IFMT) OR (st_mode attr AND 511)\<rparr>)"
  define s where "s = (if ?sz then truncate_blocks K (db c) ino (i_size i) (st_size attr) else db c)"
  have i1: "i_size i1 = i_size i" by (simp add: i1_def)
  have h2: "held K c2 ?V ?R ino i1"
    unfolding c2_def i1_def by (rule held_modify_if [OF held_get [OF assms(1,2)]]) simp
  have d2: "db c2 = db c" using assms(1,2) by (simp add: c2_def fs_simps)
  note fo = assms(4) [unfolded file_ok_def]
  note tb = truncate_blocks_live [of "db c" ino "i_size i" "st_size attr"]
  define c3 where "c3 = (if ?sz then set_size_step K c2 ino (st_size attr) else c2)"
  define i2 where "i2 = (if ?sz then i1\<lparr>i_size := st_size attr, i_blocks := blocks_of (st_size attr)\<rparr> else i1)"
  have keep: "contents s (encode k) = contents (db c) (encode k)" if "\<forall>b. k \<noteq> KBlock ino b" for k
    using that tb(3) fo assms(5) by (simp add: s_def)
  have c3_eq: "c3 = (if ?sz then ic_modify (c2\<lparr>db := s\<rparr>) ino
      (\<lambda>i. i\<lparr>i_size := st_size attr, i_blocks := blocks_of (st_size attr)\<rparr>) else c2)"
    by (simp add: c3_def set_size_step_def held_ic_get [OF h2] d2 i1 s_def Let_def)
  have "held K (c2\<lparr>db := s\<rparr>) ?V ?R ino i1" using keep d2 by (intro held_db [OF h2]) simp
  then have "held K (ic_modify (c2\<lparr>db := s\<rparr>) ino
      (\<lambda>i. i\<lparr>i_size := st_size attr, i_blocks := blocks_of (st_size attr)\<rparr>)) ?V ?R ino
      (i1\<lparr>i_size := st_size attr, i_blocks := blocks_of (st_size attr)\<rparr>)"
    by (rule held_modify) simp
  with h2 have h3: "held K c3 ?V ?R ino i2" by (simp add: c3_eq i2_def)
  have d3: "db c3 = s" by (simp add: c3_eq s_def d2)
  define c4 where "c4 = ic_modify_if (FUSE_SET_ATTR_ATIME \<in> set to_set) c3 ino
    (\<lambda>i. i\<lparr>i_atime := st_atim attr\<rparr>)"
  define c5 where "c5 = ic_modify_if (FUSE_SET_ATTR_MTIME \<in> set to_set) c4 ino
    (\<lambda>i. i\<lparr>i_mtime := st_mtim attr\<rparr>)"
  define c6 where "c6 = ic_modify_if (FUSE_SET_ATTR_ATIME_NOW \<in> set to_set) c5 ino
    (\<lambda>i. i\<lparr>i_atime := e_now env\<rparr>)"
  define c7 where "c7 = ic_modify_if (FUSE_SET_ATTR_MTIME_NOW \<in> set to_set) c6 ino
    (\<lambda>i. i\<lparr>i_mtime := e_now env\<rparr>)"
  define c8 where "c8 = ic_modify c7 ino (\<lambda>i. i\<lparr>i_ctime := e_now env\<rparr>)"
  define i3 where "i3 = (if FUSE_SET_ATTR_ATIME \<in> set to_set then i2\<lparr>i_atime := st_atim attr\<rparr> else i2)"
  define i4 where "i4 = (if FUSE_SET_ATTR_MTIME \<in> set to_set then i3\<lparr>i_mtime := st_mtim attr\<rparr> else i3)"
  define i5 where "i5 = (if FUSE_SET_ATTR_ATIME_NOW \<in> set to_set then i4\<lparr>i_atime := e_now env\<rparr> else i4)"
  define i6 where "i6 = (if FUSE_SET_ATTR_MTIME_NOW \<in> set to_set then i5\<lparr>i_mtime := e_now env\<rparr> else i5)"
  have i': "i' = i6\<lparr>i_ctime := e_now env\<rparr>"
    by (simp add: assms(6) set_attrs_def i1_def i2_def i3_def i4_def i5_def i6_def Let_def)
  have h4: "held K c4 ?V ?R ino i3" unfolding c4_def i3_def by (rule held_modify_if [OF h3]) simp
  have h5: "held K c5 ?V ?R ino i4" unfolding c5_def i4_def by (rule held_modify_if [OF h4]) simp
  have h6: "held K c6 ?V ?R ino i5" unfolding c6_def i5_def by (rule held_modify_if [OF h5]) simp
  have h7: "held K c7 ?V ?R ino i6" unfolding c7_def i6_def by (rule held_modify_if [OF h6]) simp
  have h8: "held K c8 ?V ?R ino i'" unfolding c8_def i' by (rule held_modify [OF h7]) simp
  have d8: "db c8 = s" by (simp add: c8_def c7_def c6_def c5_def c4_def d3)
  have eq: "kvbfs_setattr K env c ino attr to_set =
      (ReplyAttr (inode_to_stat env i') 1, emit env (inode_put c8 ino) EVT_SETATTR ino None)"
    using assms(1-3) held_sync [OF h8] held_ic_get [OF h8]
    by (simp add: kvbfs_setattr_def virtual_attr_real inode_get_view Let_def c2_def [symmetric]
        c3_def [symmetric] c4_def [symmetric] c5_def [symmetric] c6_def [symmetric]
        c7_def [symmetric] c8_def [symmetric])
  show "fst (kvbfs_setattr K env c ino attr to_set) = ReplyAttr (inode_to_stat env i') 1"
    by (simp add: eq)
  have c': "c' = emit env (inode_put c8 ino) EVT_SETATTR ino None" using eq assms(7) by simp
  show "view K c' = (view K c)(ino \<mapsto> i')" "refs c' = refs c" "ok K c'"
    using held_put [OF h8] by (simp_all add: c')
  show "super c' = super c"
    using assms(1,2) by (simp add: c' c8_def c7_def c6_def c5_def c4_def c3_eq c2_def fs_simps)
  have d': "db c' = s" by (simp add: c' d8)
  show "contents (db c') (encode k) = contents (db c) (encode k)" if "\<forall>b. k \<noteq> KBlock ino b"
    using keep that by (simp add: d')
  have sz: "i_size i' = (if ?sz then st_size attr else i_size i)"
    by (simp add: assms(6) set_attrs_size)
  show "file_of (contents (db c')) ino i' =
      (if ?sz then abs_truncate (file_of (contents (db c)) ino i) (st_size attr)
       else file_of (contents (db c)) ino i)"
    using file_bytes_truncate(1) [OF tb(1)] fo assms(5) by (simp add: file_of_def d' sz s_def)
  show "file_ok (contents (db c')) ino i'"
    using file_bytes_truncate(2) [OF tb(1), of "i_size i"] tb(2) fo assms(5)
      set_attrs_blocks [of i env attr to_set, folded assms(6)] by (simp add: file_ok_def d' sz s_def)
qed

text \<open>Opening with \<^verbatim>\<open>O_TRUNC\<close> drops every block of the file.\<close>

lemma kvbfs_open_file:
  assumes "ok K c" "view K c ino = Some i" "real_ino ino" "file_ok (contents (db c)) ino i"
    and "S_ISREG (i_mode i)"
    and "i' = (if flags AND O_TRUNC \<noteq> 0
      then i\<lparr>i_size := 0, i_blocks := 0, i_mtime := e_now env, i_ctime := e_now env\<rparr> else i)"
    and "c' = snd (kvbfs_open K env c ino flags)"
  shows "fst (kvbfs_open K env c ino flags) =
      ReplyOpen (FhFile \<lparr>fh_ino = ino, fh_written = (flags AND O_TRUNC \<noteq> 0)\<rparr>) False"
    and "view K c' = (view K c)(ino \<mapsto> i')" "refs c' = refs c" "ok K c'" "super c' = super c"
    and "file_of (contents (db c')) ino i' =
      (if flags AND O_TRUNC \<noteq> 0 then [] else file_of (contents (db c)) ino i)"
    and "file_ok (contents (db c')) ino i'"
    and "(\<forall>b. k \<noteq> KBlock ino b) \<Longrightarrow> contents (db c') (encode k) = contents (db c) (encode k)"
proof -
  let ?t = "flags AND O_TRUNC \<noteq> 0"
  define s where "s = (if 0 < i_blocks i then delete_file_blocks K (db c) ino (i_blocks i) else db c)"
  have s: "contents s k = (if k \<in> (\<lambda>b. encode (KBlock ino b)) ` {0..<i_blocks i} then None else contents (db c) k)" for k
    by (simp add: s_def delete_file_blocks_live)
  have keep: "contents s (encode k) = contents (db c) (encode k)" if "\<forall>b. k \<noteq> KBlock ino b" for k
    using that by (auto simp: s)
  define f :: "kvbfs_inode \<Rightarrow> kvbfs_inode" where
    "f = (\<lambda>i. i\<lparr>i_size := 0, i_blocks := 0, i_mtime := e_now env, i_ctime := e_now env\<rparr>)"
  define c2 where "c2 = (if ?t then ic_modify ((get_c K c ino)\<lparr>db := s\<rparr>) ino f else get_c K c ino)"
  have h1: "held K (get_c K c ino) (view K c) (refs c) ino i" by (rule held_get [OF assms(1,2)])
  have "held K ((get_c K c ino)\<lparr>db := s\<rparr>) (view K c) (refs c) ino i"
    using keep assms(1,2) by (intro held_db [OF h1]) (simp add: fs_simps)
  then have hm: "held K (ic_modify ((get_c K c ino)\<lparr>db := s\<rparr>) ino f) (view K c) (refs c) ino (f i)"
    by (rule held_modify) (simp add: f_def)
  from h1 hm have h2: "held K c2 (view K c) (refs c) ino i'" by (simp add: c2_def assms(6) f_def)
  have d2: "db c2 = (if ?t then s else db c)" "super c2 = super c"
    using assms(1,2) by (simp_all add: c2_def fs_simps)
  have eq: "kvbfs_open K env c ino flags =
      (ReplyOpen (FhFile \<lparr>fh_ino = ino, fh_written = ?t\<rparr>) False, inode_put c2 ino)"
    using assms(1-3,5) held_sync [OF hm] held_ic_get [OF h1]
    by (cases "0 < i_blocks i")
      (simp_all add: kvbfs_open_def real_ino_def inode_get_view Let_def c2_def get_c_obs s_def
        f_def [symmetric])
  show "fst (kvbfs_open K env c ino flags) = ReplyOpen (FhFile \<lparr>fh_ino = ino, fh_written = ?t\<rparr>) False"
    by (simp add: eq)
  have c': "c' = inode_put c2 ino" using eq assms(7) by simp
  show "view K c' = (view K c)(ino \<mapsto> i')" "refs c' = refs c" "ok K c'"
    using held_put [OF h2] by (simp_all add: c')
  show "super c' = super c" by (simp add: c' d2)
  show "contents (db c') (encode k) = contents (db c) (encode k)" if "\<forall>b. k \<noteq> KBlock ino b"
    using keep that by (simp add: c' d2)
  have d': "db c' = (if ?t then s else db c)" by (simp add: c' d2)
  show "file_of (contents (db c')) ino i' = (if ?t then [] else file_of (contents (db c)) ino i)"
    by (simp add: d' file_of_def assms(6) file_bytes_def)
  have "byte_at (contents s) ino j = NUL" for j
  proof (cases "j div KVBFS_BLOCK_SIZE < i_blocks i")
    case True
    then have "contents s (encode (KBlock ino (j div KVBFS_BLOCK_SIZE))) = None" by (auto simp: s)
    then show ?thesis by (simp add: byte_at_def)
  next
    case False
    then have same: "contents s (encode (KBlock ino (j div KVBFS_BLOCK_SIZE))) =
      contents (db c) (encode (KBlock ino (j div KVBFS_BLOCK_SIZE)))" by (auto simp: s)
    have "i_size i \<le> j"
      using False assms(4) blocks_of_bounds(3) [of "i_size i" j] by (force simp: file_ok_def)
    then have "byte_at (contents (db c)) ino j = NUL" using assms(4) by (simp add: file_ok_def zero_beyond_def)
    with same show ?thesis by (simp add: byte_at_def)
  qed
  moreover have "full_blocks (contents s) ino"
    using assms(4) by (auto simp: full_blocks_def s file_ok_def)
  ultimately show "file_ok (contents (db c')) ino i'"
    using assms(4) by (simp add: file_ok_def d' assms(6) zero_beyond_def KVBFS_BLOCK_SIZE_def blocks_of_def)
qed

end

end
