(* ===== verification/FuseDir.thy ===== *)
theory FuseDir
  imports Fuse
begin

text \<open>
  The directory handlers of \<^verbatim>\<open>src/fuse_ops.c\<close>: \<^verbatim>\<open>opendir\<close>, \<^verbatim>\<open>readdir\<close> and the operations that
  change the name space. Each follows its C function call by call.
\<close>

section \<open>Listing\<close>

definition kvbfs_opendir :: "'s kv_ops \<Rightarrow> 's kvbfs_ctx \<Rightarrow> nat \<Rightarrow> reply \<times> 's kvbfs_ctx" where
  "kvbfs_opendir K c ino =
     (if ino = AGENTFS_VERSIONS_INO \<or> vtree_is_vnode ino then (ReplyOpen FhNull False, c)
      else case inode_get K c ino of
             None \<Rightarrow> (ReplyErr ENOENT, c)
           | Some c1 \<Rightarrow>
               let is_dir = S_ISDIR (i_mode (ic_get c1 ino));
                   c2 = inode_put c1 ino
               in if \<not> is_dir then (ReplyErr ENOTDIR, c2) else (ReplyOpen FhNull False, c2))"

text \<open>
  The reply buffer: the entries added and the bytes they take. \<^verbatim>\<open>fuse_add_direntry\<close> writes an
  entry only when it fits into what is left.
\<close>

type_synonym dirbuf = "direntry list \<times> nat"

definition add_direntry ::
  "fs_env \<Rightarrow> nat \<Rightarrow> dirbuf \<Rightarrow> string \<Rightarrow> nat \<Rightarrow> nat \<Rightarrow> nat \<Rightarrow> dirbuf option" where
  "add_direntry env sz buf name ino mode off =
     (let es = e_dirent_size env name
      in if es \<le> sz - snd buf
         then Some (fst buf @ [\<lparr>de_name = name, de_ino = ino, de_mode = mode, de_off = off\<rparr>], snd buf + es)
         else None)"

definition try_direntry ::
  "fs_env \<Rightarrow> nat \<Rightarrow> dirbuf \<Rightarrow> string \<Rightarrow> nat \<Rightarrow> nat \<Rightarrow> nat \<Rightarrow> dirbuf" where
  "try_direntry env sz buf name ino mode off =
     (case add_direntry env sz buf name ino mode off of Some b \<Rightarrow> b | None \<Rightarrow> buf)"

text \<open>
  The loop of a real directory: the result says whether every entry was handled (a full buffer
  ends the listing at once), with the last index and the buffer.
\<close>

fun readdir_loop ::
  "'s kv_ops \<Rightarrow> fs_env \<Rightarrow> 's \<Rightarrow> nat \<Rightarrow> nat \<Rightarrow> nat \<Rightarrow> (string \<times> bytes) list \<Rightarrow> nat \<Rightarrow> dirbuf \<Rightarrow>
   bool \<times> nat \<times> dirbuf" where
  "readdir_loop K env s sz off plen [] idx buf = (True, idx, buf)"
| "readdir_loop K env s sz off plen ((key, val) # es) idx buf =
     (let idx = idx + 1
      in if idx \<le> off then readdir_loop K env s sz off plen es idx buf
         else
           let child = le_val (take 8 val);
               (ino, mode) = (case inode_load K s child of
                                Some i \<Rightarrow> (child, i_mode i) | None \<Rightarrow> (0, 0));
               name = take 255 (drop plen key)
           in case add_direntry env sz buf name ino mode (idx + 1) of
                None \<Rightarrow> (False, idx, buf)
              | Some buf' \<Rightarrow> readdir_loop K env s sz off plen es idx buf')"

definition readdir_virtual_entries ::
  "fs_env \<Rightarrow> nat \<Rightarrow> nat \<Rightarrow> nat \<Rightarrow> dirbuf \<Rightarrow> dirbuf" where
  "readdir_virtual_entries env sz off idx buf =
     (let b1 = (if off < idx + 1 then try_direntry env sz buf AGENTFS_CTL_NAME AGENTFS_CTL_INO
                  (S_IFREG OR 432) (idx + 2) else buf);
          b2 = (if off < idx + 2 then try_direntry env sz b1 AGENTFS_EVENTS_NAME AGENTFS_EVENTS_INO
                  (S_IFREG OR 288) (idx + 3) else b1)
      in if off < idx + 3 then try_direntry env sz b2 AGENTFS_VERSIONS_NAME AGENTFS_VERSIONS_INO
           (S_IFDIR OR 365) (idx + 4) else b2)"

definition readdir_real ::
  "'s kv_ops \<Rightarrow> fs_env \<Rightarrow> 's \<Rightarrow> nat \<Rightarrow> nat \<Rightarrow> nat \<Rightarrow> direntry list" where
  "readdir_real K env s ino sz off =
     (let idx0 = 0;
          dot = (if off \<le> 0 then add_direntry env sz ([], 0) ''.'' ino S_IFDIR (idx0 + 1)
                 else Some ([], 0));
          idx1 = (if off \<le> 0 then idx0 + 1 else idx0)
      in case dot of
           None \<Rightarrow> []
         | Some b1 \<Rightarrow>
             let dotdot = (if off \<le> 1 then add_direntry env sz b1 ''..'' ino S_IFDIR (idx1 + 1)
                           else Some b1);
                 idx2 = (if off \<le> 1 then idx1 + 1 else idx1)
             in case dotdot of
                  None \<Rightarrow> fst b1
                | Some b2 \<Rightarrow>
                    let prefix = kvbfs_key_dirent_prefix ino;
                        (all, idx, b3) =
                          readdir_loop K env s sz off (length prefix) (kv_iter K s prefix) idx2 b2
                    in fst (if all \<and> ino = KVBFS_ROOT_INO
                            then readdir_virtual_entries env sz off idx b3 else b3))"

text \<open>The loops of the virtual tree number the children they meet.\<close>

fun readdir_vdirs ::
  "fs_env \<Rightarrow> vtree_ctx \<Rightarrow> nat \<Rightarrow> nat \<Rightarrow> nat \<Rightarrow> nat \<Rightarrow> (string \<times> bytes) list \<Rightarrow> nat \<Rightarrow> dirbuf \<Rightarrow>
   vtree_ctx \<times> dirbuf" where
  "readdir_vdirs env vt parent sz off plen [] idx buf = (vt, buf)"
| "readdir_vdirs env vt parent sz off plen ((key, val) # es) idx buf =
     (let idx = idx + 1
      in if idx \<le> off then readdir_vdirs env vt parent sz off plen es idx buf
         else
           let child = (if length val = SIZEOF_U64 then le_val val else 0);
               name = take 255 (drop plen key);
               (vino, vt') = vtree_alloc_dir vt parent name child
           in case add_direntry env sz buf name vino (S_IFDIR OR 365) (idx + 1) of
                None \<Rightarrow> (vt', buf)
              | Some buf' \<Rightarrow> readdir_vdirs env vt' parent sz off plen es idx buf')"

fun readdir_vfiles ::
  "fs_env \<Rightarrow> vtree_ctx \<Rightarrow> nat \<Rightarrow> nat \<Rightarrow> nat \<Rightarrow> nat \<Rightarrow> nat \<Rightarrow> (string \<times> bytes) list \<Rightarrow> nat \<Rightarrow>
   dirbuf \<Rightarrow> vtree_ctx \<times> dirbuf" where
  "readdir_vfiles env vt parent rino sz off plen [] idx buf = (vt, buf)"
| "readdir_vfiles env vt parent rino sz off plen ((key, val) # es) idx buf =
     (let idx = idx + 1
      in if idx \<le> off then readdir_vfiles env vt parent rino sz off plen es idx buf
         else
           let ver = fst (strtoull (take 31 (drop plen key)));
               name = dec (u64 (ver + 1));
               (vino, vt') = vtree_alloc_vfile vt parent name rino ver
           in case add_direntry env sz buf name vino (S_IFREG OR 292) (idx + 1) of
                None \<Rightarrow> (vt', buf)
              | Some buf' \<Rightarrow> readdir_vfiles env vt' parent rino sz off plen es idx buf')"

text \<open>Unlike in a real directory, a dot entry that does not fit is left out and the loop goes on.\<close>

definition readdir_dots ::
  "fs_env \<Rightarrow> nat \<Rightarrow> nat \<Rightarrow> nat \<Rightarrow> nat \<Rightarrow> nat \<Rightarrow> nat \<times> dirbuf" where
  "readdir_dots env sz off dot_ino dot_mode up_ino =
     (let b1 = (if off \<le> 0 then try_direntry env sz ([], 0) ''.'' dot_ino dot_mode 1 else ([], 0));
          i1 = (if off \<le> 0 then 1 else 0);
          b2 = (if off \<le> 1 then try_direntry env sz b1 ''..'' up_ino S_IFDIR (i1 + 1) else b1);
          i2 = (if off \<le> 1 then i1 + 1 else i1)
      in (i2, b2))"

definition kvbfs_readdir ::
  "'s kv_ops \<Rightarrow> fs_env \<Rightarrow> 's kvbfs_ctx \<Rightarrow> nat \<Rightarrow> nat \<Rightarrow> nat \<Rightarrow> reply \<times> 's kvbfs_ctx" where
  "kvbfs_readdir K env c ino sz off =
     (if ino = AGENTFS_VERSIONS_INO then
        (let (idx, b) = readdir_dots env sz off AGENTFS_VERSIONS_INO (S_IFDIR OR 365) KVBFS_ROOT_INO;
             prefix = kvbfs_key_dirent_prefix KVBFS_ROOT_INO;
             (vt, b') = readdir_vdirs env (vtree c) AGENTFS_VERSIONS_INO sz off (length prefix)
                          (kv_iter K (db c) prefix) idx b
         in (ReplyDir (fst b'), c\<lparr>vtree := vt\<rparr>))
      else if vtree_is_vnode ino then
        (case vtree_get (vtree c) ino of
           None \<Rightarrow> (ReplyErr ENOTDIR, c)
         | Some vn \<Rightarrow>
             if vn_is_version_file vn then (ReplyErr ENOTDIR, c)
             else
               let st = vnode_stat K env (db c) vn;
                   (idx, b) = readdir_dots env sz off (st_ino st) (st_mode st) ino;
                   is_dir = (case inode_load K (db c) (vn_real_ino vn) of
                               Some i \<Rightarrow> S_ISDIR (i_mode i) | None \<Rightarrow> False);
                   prefix = (if is_dir then kvbfs_key_dirent_prefix (vn_real_ino vn)
                             else kvbfs_key_version_meta_prefix (vn_real_ino vn));
                   es = kv_iter K (db c) prefix;
                   (vt, b') = (if is_dir
                     then readdir_vdirs env (vtree c) ino sz off (length prefix) es idx b
                     else readdir_vfiles env (vtree c) ino (vn_real_ino vn) sz off (length prefix) es idx b)
               in (ReplyDir (fst b'), c\<lparr>vtree := vt\<rparr>))
      else
        case inode_get K c ino of
          None \<Rightarrow> (ReplyErr ENOENT, c)
        | Some c1 \<Rightarrow>
            let c2 = inode_put c1 ino in (ReplyDir (readdir_real K env (db c2) ino sz off), c2))"

section \<open>Creating\<close>

definition kvbfs_mkdir ::
  "'s kv_ops \<Rightarrow> fs_env \<Rightarrow> 's kvbfs_ctx \<Rightarrow> nat \<Rightarrow> string \<Rightarrow> nat \<Rightarrow> reply \<times> 's kvbfs_ctx" where
  "kvbfs_mkdir K env c parent name mode =
     (case inode_get K c parent of
        None \<Rightarrow> (ReplyErr ENOENT, c)
      | Some c1 \<Rightarrow>
          if \<not> S_ISDIR (i_mode (ic_get c1 parent)) then (ReplyErr ENOTDIR, inode_put c1 parent)
          else if dirent_lookup K (db c1) parent name \<noteq> 0 then (ReplyErr EEXIST, inode_put c1 parent)
          else
            let (child, c2) = inode_create K (e_now env) c1 (S_IFDIR OR (mode AND 511))
            in case child of
                 None \<Rightarrow> (ReplyErr EIO, inode_put c2 parent)
               | Some ino \<Rightarrow>
                   let c3 = ic_modify c2 ino (\<lambda>i. i\<lparr>i_nlink := 2\<rparr>);
                       (r4, c4) = inode_sync K c3 ino;
                       (added, c5) = dirent_add K c4 parent name ino
                   in if \<not> added then
                        (let (r6, c6) = inode_delete K c5 ino
                         in (ReplyErr EIO, inode_put (inode_put c6 ino) parent))
                      else
                        let c6 = ic_modify c5 parent (\<lambda>i. i\<lparr>i_nlink := u32 (i_nlink i + 1)\<rparr>);
                            (r7, c7) = inode_sync K c6 parent;
                            c8 = inode_put c7 parent;
                            st = inode_to_stat env (ic_get c8 ino);
                            c9 = inode_put c8 ino
                        in (ReplyEntry ino st 1, emit env c9 EVT_MKDIR ino (Some name)))"

definition kvbfs_create ::
  "'s kv_ops \<Rightarrow> fs_env \<Rightarrow> 's kvbfs_ctx \<Rightarrow> nat \<Rightarrow> string \<Rightarrow> nat \<Rightarrow> reply \<times> 's kvbfs_ctx" where
  "kvbfs_create K env c parent name mode =
     (case inode_get K c parent of
        None \<Rightarrow> (ReplyErr ENOENT, c)
      | Some c1 \<Rightarrow>
          let is_dir = S_ISDIR (i_mode (ic_get c1 parent));
              c2 = inode_put c1 parent
          in if \<not> is_dir then (ReplyErr ENOTDIR, c2)
             else if dirent_lookup K (db c2) parent name \<noteq> 0 then (ReplyErr EEXIST, c2)
             else
               let (child, c3) = inode_create K (e_now env) c2 (S_IFREG OR (mode AND 511))
               in case child of
                    None \<Rightarrow> (ReplyErr EIO, c3)
                  | Some ino \<Rightarrow>
                      let (added, c4) = dirent_add K c3 parent name ino
                      in if \<not> added then
                           (let (r5, c5) = inode_delete K c4 ino in (ReplyErr EIO, inode_put c5 ino))
                         else
                           let c5 = (if parent = sessions_ino c4 then session_add c4 ino else c4);
                               st = inode_to_stat env (ic_get c5 ino);
                               fh = FhFile \<lparr>fh_ino = ino, fh_written = False\<rparr>;
                               c6 = inode_put c5 ino
                           in (ReplyCreate ino st fh, emit env c6 EVT_CREATE ino (Some name)))"

definition kvbfs_symlink ::
  "'s kv_ops \<Rightarrow> fs_env \<Rightarrow> 's kvbfs_ctx \<Rightarrow> string \<Rightarrow> nat \<Rightarrow> string \<Rightarrow> reply \<times> 's kvbfs_ctx" where
  "kvbfs_symlink K env c target parent name =
     (case inode_get K c parent of
        None \<Rightarrow> (ReplyErr ENOENT, c)
      | Some c1 \<Rightarrow>
          let is_dir = S_ISDIR (i_mode (ic_get c1 parent));
              c2 = inode_put c1 parent
          in if \<not> is_dir then (ReplyErr ENOTDIR, c2)
             else if dirent_lookup K (db c2) parent name \<noteq> 0 then (ReplyErr EEXIST, c2)
             else
               let (child, c3) = inode_create K (e_now env) c2 (S_IFLNK OR 511)
               in case child of
                    None \<Rightarrow> (ReplyErr EIO, c3)
                  | Some ino \<Rightarrow>
                      let (stored, s) = kv_put K (db c3) (kvbfs_key_block ino 0) target;
                          c4 = c3\<lparr>db := s\<rparr>
                      in if \<not> stored then
                           (let (r5, c5) = inode_delete K c4 ino in (ReplyErr EIO, inode_put c5 ino))
                         else
                           let c5 = ic_modify c4 ino (\<lambda>i. i\<lparr>i_size := length target, i_blocks := 1\<rparr>);
                               (r6, c6) = inode_sync K c5 ino;
                               (added, c7) = dirent_add K c6 parent name ino
                           in if \<not> added then
                                (let (r8, s8) = kv_delete K (db c7) (kvbfs_key_block ino 0);
                                     (r9, c9) = inode_delete K (c7\<lparr>db := s8\<rparr>) ino
                                 in (ReplyErr EIO, inode_put c9 ino))
                              else
                                let st = inode_to_stat env (ic_get c7 ino)
                                in (ReplyEntry ino st 1, inode_put c7 ino))"

definition kvbfs_readlink :: "'s kv_ops \<Rightarrow> 's kvbfs_ctx \<Rightarrow> nat \<Rightarrow> reply \<times> 's kvbfs_ctx" where
  "kvbfs_readlink K c ino =
     (case inode_get K c ino of
        None \<Rightarrow> (ReplyErr ENOENT, c)
      | Some c1 \<Rightarrow>
          let is_link = S_ISLNK (i_mode (ic_get c1 ino));
              c2 = inode_put c1 ino
          in if \<not> is_link then (ReplyErr EINVAL, c2)
             else case kv_get K (db c2) (kvbfs_key_block ino 0) of
                    None \<Rightarrow> (ReplyErr EIO, c2)
                  | Some target \<Rightarrow> (ReplyReadlink (cstr target), c2))"

definition kvbfs_link ::
  "'s kv_ops \<Rightarrow> fs_env \<Rightarrow> 's kvbfs_ctx \<Rightarrow> nat \<Rightarrow> nat \<Rightarrow> string \<Rightarrow> reply \<times> 's kvbfs_ctx" where
  "kvbfs_link K env c ino newparent newname =
     (case inode_get K c ino of
        None \<Rightarrow> (ReplyErr ENOENT, c)
      | Some c1 \<Rightarrow>
          if S_ISDIR (i_mode (ic_get c1 ino)) then (ReplyErr EPERM, inode_put c1 ino)
          else
            case inode_get K c1 newparent of
              None \<Rightarrow> (ReplyErr ENOENT, inode_put c1 ino)
            | Some c2 \<Rightarrow>
                let parent_is_dir = S_ISDIR (i_mode (ic_get c2 newparent));
                    c3 = inode_put c2 newparent
                in if \<not> parent_is_dir then (ReplyErr ENOTDIR, inode_put c3 ino)
                   else if dirent_lookup K (db c3) newparent newname \<noteq> 0
                   then (ReplyErr EEXIST, inode_put c3 ino)
                   else
                     let (added, c4) = dirent_add K c3 newparent newname ino
                     in if \<not> added then (ReplyErr EIO, inode_put c4 ino)
                        else
                          let c5 = ic_modify c4 ino (\<lambda>i. i\<lparr>i_nlink := u32 (i_nlink i + 1),
                                                           i_ctime := e_now env\<rparr>);
                              st = inode_to_stat env (ic_get c5 ino);
                              (r6, c6) = inode_sync K c5 ino;
                              c7 = inode_put c6 ino
                          in (ReplyEntry ino st 1, emit env c7 EVT_LINK ino (Some newname)))"

section \<open>Removing and renaming\<close>

text \<open>A directory loses or gains a link, if its inode can be found.\<close>

definition dec_nlink :: "kvbfs_inode \<Rightarrow> kvbfs_inode" where
  "dec_nlink i = (if 0 < i_nlink i then i\<lparr>i_nlink := i_nlink i - 1\<rparr> else i)"

definition adjust_nlink ::
  "'s kv_ops \<Rightarrow> 's kvbfs_ctx \<Rightarrow> nat \<Rightarrow> (kvbfs_inode \<Rightarrow> kvbfs_inode) \<Rightarrow> 's kvbfs_ctx" where
  "adjust_nlink K c ino f =
     (case inode_get K c ino of
        None \<Rightarrow> c
      | Some c1 \<Rightarrow> let (r, c2) = inode_sync K (ic_modify c1 ino f) ino in inode_put c2 ino)"

definition kvbfs_rmdir ::
  "'s kv_ops \<Rightarrow> fs_env \<Rightarrow> 's kvbfs_ctx \<Rightarrow> nat \<Rightarrow> string \<Rightarrow> reply \<times> 's kvbfs_ctx" where
  "kvbfs_rmdir K env c parent name =
     (let child = dirent_lookup K (db c) parent name
      in if child = 0 then (ReplyErr ENOENT, c)
         else
           case inode_get K c child of
             None \<Rightarrow> (ReplyErr ENOENT, c)
           | Some c1 \<Rightarrow>
               if \<not> S_ISDIR (i_mode (ic_get c1 child)) then (ReplyErr ENOTDIR, inode_put c1 child)
               else if \<not> dirent_is_empty K (db c1) child then (ReplyErr ENOTEMPTY, inode_put c1 child)
               else
                 let (removed, c2) = dirent_remove K c1 parent name
                 in if \<not> removed then (ReplyErr EIO, inode_put c2 child)
                    else
                      let c3 = adjust_nlink K c2 parent dec_nlink;
                          c4 = inode_put c3 child;
                          c5 = purge_inode K c4 child
                      in (ReplyOk, emit env c5 EVT_RMDIR child (Some name)))"

definition kvbfs_unlink ::
  "'s kv_ops \<Rightarrow> fs_env \<Rightarrow> 's kvbfs_ctx \<Rightarrow> nat \<Rightarrow> string \<Rightarrow> reply \<times> 's kvbfs_ctx" where
  "kvbfs_unlink K env c parent name =
     (let child = dirent_lookup K (db c) parent name
      in if child = 0 then (ReplyErr ENOENT, c)
         else
           case inode_get K c child of
             None \<Rightarrow> (ReplyErr ENOENT, c)
           | Some c1 \<Rightarrow>
               let is_dir = S_ISDIR (i_mode (ic_get c1 child));
                   blocks = i_blocks (ic_get c1 child)
               in if is_dir then (ReplyErr EISDIR, inode_put c1 child)
                  else
                    let (removed, c2) = dirent_remove K c1 parent name
                    in if \<not> removed then (ReplyErr EIO, inode_put c2 child)
                       else
                         let c3 = ic_modify c2 child dec_nlink;
                             should_delete = (i_nlink (ic_get c3 child) = 0);
                             c4 = inode_put c3 child;
                             c5 = (if should_delete
                                   then purge_inode K
                                     (c4\<lparr>db := delete_file_blocks K (db c4) child blocks\<rparr>) child
                                   else c4);
                             c6 = (if parent = sessions_ino c5 then session_del c5 child else c5)
                         in (ReplyOk, emit env c6 EVT_UNLINK child (Some name)))"

text \<open>The target of a rename is removed first, whatever its link count.\<close>

definition rename_replace ::
  "'s kv_ops \<Rightarrow> 's kvbfs_ctx \<Rightarrow> nat \<Rightarrow> string \<Rightarrow> nat \<Rightarrow> bool \<times> 's kvbfs_ctx" where
  "rename_replace K c newparent newname dst =
     (case inode_get K c dst of
        None \<Rightarrow> (True, c)
      | Some c1 \<Rightarrow>
          let is_dir = S_ISDIR (i_mode (ic_get c1 dst));
              blocks = i_blocks (ic_get c1 dst);
              c2 = inode_put c1 dst
          in if is_dir \<and> \<not> dirent_is_empty K (db c2) dst then (False, c2)
             else
               let c3 = snd (dirent_remove K c2 newparent newname);
                   c4 = (if \<not> is_dir then c3\<lparr>db := delete_file_blocks K (db c3) dst blocks\<rparr>
                         else adjust_nlink K c3 newparent dec_nlink)
               in (True, purge_inode K c4 dst))"

text \<open>The second step of \<^verbatim>\<open>kvbfs_rename\<close>, with the room made.\<close>

definition rename_move ::
  "'s kv_ops \<Rightarrow> fs_env \<Rightarrow> 's kvbfs_ctx \<Rightarrow> nat \<Rightarrow> nat \<Rightarrow> string \<Rightarrow> nat \<Rightarrow> string \<Rightarrow> reply \<times> 's kvbfs_ctx" where
  "rename_move K env c1 src parent name newparent newname =
     (let (src_is_dir, c2) = (case inode_get K c1 src of
            None \<Rightarrow> (False, c1)
          | Some c' \<Rightarrow> (S_ISDIR (i_mode (ic_get c' src)), inode_put c' src));
          (removed, c3) = dirent_remove K c2 parent name
      in if \<not> removed then (ReplyErr EIO, c3)
         else
           let (added, c4) = dirent_add K c3 newparent newname src
           in if \<not> added then (ReplyErr EIO, snd (dirent_add K c4 parent name src))
              else
                let c5 = (if parent \<noteq> newparent \<and> parent = sessions_ino c4
                          then session_del c4 src else c4);
                    c6 = (if parent \<noteq> newparent \<and> newparent = sessions_ino c5
                          then session_add c5 src else c5);
                    c7 = (if src_is_dir \<and> parent \<noteq> newparent
                          then adjust_nlink K (adjust_nlink K c6 parent dec_nlink) newparent
                                 (\<lambda>i. i\<lparr>i_nlink := u32 (i_nlink i + 1)\<rparr>)
                          else c6)
                in (ReplyOk, emit env c7 EVT_RENAME src (Some newname)))"

definition kvbfs_rename ::
  "'s kv_ops \<Rightarrow> fs_env \<Rightarrow> 's kvbfs_ctx \<Rightarrow> nat \<Rightarrow> string \<Rightarrow> nat \<Rightarrow> string \<Rightarrow> reply \<times> 's kvbfs_ctx" where
  "kvbfs_rename K env c parent name newparent newname =
     (let src = dirent_lookup K (db c) parent name
      in if src = 0 then (ReplyErr ENOENT, c)
         else
           let dst = dirent_lookup K (db c) newparent newname;
               (clear, c1) = (if dst \<noteq> 0 then rename_replace K c newparent newname dst
                              else (True, c))
           in if \<not> clear then (ReplyErr ENOTEMPTY, c1)
              else rename_move K env c1 src parent name newparent newname)"

end
