(* ===== verification/Tree.thy ===== *)
theory Tree
  imports FuseDir
begin

text \<open>
  The abstract name space: a map from numbers to inodes, a map from directories and names to
  numbers, and the next number. Each directory operation has a specification on this tree, with
  every error; the theorems say that the handlers of \<^verbatim>\<open>src/fuse_ops.c\<close> compute exactly it, give
  back every inode reference they take and keep the invariant of cache, images and numbers.
\<close>

section \<open>The tree and its operations\<close>

record tree =
  t_inode :: "nat \<Rightarrow> kvbfs_inode option"
  t_entry :: "nat \<Rightarrow> string \<Rightarrow> nat"
  t_next :: nat

definition tree_of :: "'s kv_ops \<Rightarrow> 's kvbfs_ctx \<Rightarrow> tree" where
  "tree_of K c = \<lparr>t_inode = view K c, t_entry = dirent_lookup K (db c), t_next = s_next_ino (super c)\<rparr>"

definition set_inode :: "tree \<Rightarrow> nat \<Rightarrow> kvbfs_inode option \<Rightarrow> tree" where
  "set_inode t n i = t\<lparr>t_inode := (t_inode t)(n := i)\<rparr>"

definition set_entry :: "tree \<Rightarrow> nat \<Rightarrow> string \<Rightarrow> nat \<Rightarrow> tree" where
  "set_entry t p name n = t\<lparr>t_entry := (t_entry t)(p := (t_entry t p)(name := n))\<rparr>"

definition change_inode :: "tree \<Rightarrow> nat \<Rightarrow> (kvbfs_inode \<Rightarrow> kvbfs_inode) \<Rightarrow> tree" where
  "change_inode t n f = (case t_inode t n of None \<Rightarrow> t | Some i \<Rightarrow> set_inode t n (Some (f i)))"

definition is_dir :: "kvbfs_inode \<Rightarrow> bool" where
  "is_dir i \<longleftrightarrow> S_ISDIR (i_mode i)"

definition inc_nlink :: "kvbfs_inode \<Rightarrow> kvbfs_inode" where
  "inc_nlink i = i\<lparr>i_nlink := u32 (i_nlink i + 1)\<rparr>"

text \<open>A new inode takes the next number, whether or not it gets a name.\<close>

definition t_wasted :: "tree \<Rightarrow> tree" where
  "t_wasted t = t\<lparr>t_next := t_next t + 1\<rparr>"

definition t_new :: "tree \<Rightarrow> nat \<Rightarrow> string \<Rightarrow> kvbfs_inode \<Rightarrow> tree" where
  "t_new t p name i = set_entry (set_inode (t_wasted t) (t_next t) (Some i)) p name (t_next t)"

text \<open>The checks before a name is created in a directory.\<close>

definition t_check :: "tree \<Rightarrow> nat \<Rightarrow> string \<Rightarrow> errno option" where
  "t_check t p name =
     (case t_inode t p of
        None \<Rightarrow> Some ENOENT
      | Some d \<Rightarrow>
          if \<not> is_dir d then Some ENOTDIR else if t_entry t p name \<noteq> 0 then Some EEXIST else None)"

definition t_mkdir :: "fs_env \<Rightarrow> tree \<Rightarrow> nat \<Rightarrow> string \<Rightarrow> nat \<Rightarrow> reply \<times> tree" where
  "t_mkdir env t p name mode =
     (case t_check t p name of
        Some e \<Rightarrow> (ReplyErr e, t)
      | None \<Rightarrow>
          let i = (new_inode (e_now env) (t_next t) (S_IFDIR OR (mode AND 511)))\<lparr>i_nlink := 2\<rparr>
          in if \<not> name_fits p name then (ReplyErr EIO, t_wasted t)
             else (ReplyEntry (t_next t) (inode_to_stat env i) 1,
                   change_inode (t_new t p name i) p inc_nlink))"

definition t_create :: "fs_env \<Rightarrow> tree \<Rightarrow> nat \<Rightarrow> string \<Rightarrow> nat \<Rightarrow> reply \<times> tree" where
  "t_create env t p name mode =
     (case t_check t p name of
        Some e \<Rightarrow> (ReplyErr e, t)
      | None \<Rightarrow>
          let i = new_inode (e_now env) (t_next t) (S_IFREG OR (mode AND 511))
          in if \<not> name_fits p name then (ReplyErr EIO, t_wasted t)
             else (ReplyCreate (t_next t) (inode_to_stat env i)
                     (FhFile \<lparr>fh_ino = t_next t, fh_written = False\<rparr>), t_new t p name i))"

definition t_symlink :: "fs_env \<Rightarrow> tree \<Rightarrow> string \<Rightarrow> nat \<Rightarrow> string \<Rightarrow> reply \<times> tree" where
  "t_symlink env t target p name =
     (case t_check t p name of
        Some e \<Rightarrow> (ReplyErr e, t)
      | None \<Rightarrow>
          let i = (new_inode (e_now env) (t_next t) (S_IFLNK OR 511))
                    \<lparr>i_size := length target, i_blocks := 1\<rparr>
          in if \<not> name_fits p name then (ReplyErr EIO, t_wasted t)
             else (ReplyEntry (t_next t) (inode_to_stat env i) 1, t_new t p name i))"

definition t_link :: "fs_env \<Rightarrow> tree \<Rightarrow> nat \<Rightarrow> nat \<Rightarrow> string \<Rightarrow> reply \<times> tree" where
  "t_link env t ino p name =
     (case t_inode t ino of
        None \<Rightarrow> (ReplyErr ENOENT, t)
      | Some i \<Rightarrow>
          if is_dir i then (ReplyErr EPERM, t)
          else case t_check t p name of
                 Some e \<Rightarrow> (ReplyErr e, t)
               | None \<Rightarrow>
                   let i' = (inc_nlink i)\<lparr>i_ctime := e_now env\<rparr>
                   in if \<not> name_fits p name then (ReplyErr EIO, t)
                      else (ReplyEntry ino (inode_to_stat env i') 1,
                            set_inode (set_entry t p name ino) ino (Some i')))"

definition t_lookup :: "fs_env \<Rightarrow> tree \<Rightarrow> nat \<Rightarrow> string \<Rightarrow> reply \<times> tree" where
  "t_lookup env t p name =
     (let n = t_entry t p name
      in case (if n = 0 then None else t_inode t n) of
           None \<Rightarrow> (ReplyErr ENOENT, t)
         | Some i \<Rightarrow> (ReplyEntry n (inode_to_stat env i) 1, t))"

definition t_unlink :: "tree \<Rightarrow> nat \<Rightarrow> string \<Rightarrow> reply \<times> tree" where
  "t_unlink t p name =
     (let n = t_entry t p name
      in case (if n = 0 then None else t_inode t n) of
           None \<Rightarrow> (ReplyErr ENOENT, t)
         | Some i \<Rightarrow>
             if is_dir i then (ReplyErr EISDIR, t)
             else (ReplyOk, set_inode (set_entry t p name 0) n
                              (if i_nlink i \<le> 1 then None else Some (dec_nlink i))))"

definition t_empty :: "tree \<Rightarrow> nat \<Rightarrow> bool" where
  "t_empty t n \<longleftrightarrow> (\<forall>name. t_entry t n name = 0)"

definition t_rmdir :: "tree \<Rightarrow> nat \<Rightarrow> string \<Rightarrow> reply \<times> tree" where
  "t_rmdir t p name =
     (let n = t_entry t p name
      in case (if n = 0 then None else t_inode t n) of
           None \<Rightarrow> (ReplyErr ENOENT, t)
         | Some i \<Rightarrow>
             if \<not> is_dir i then (ReplyErr ENOTDIR, t)
             else if \<not> t_empty t n then (ReplyErr ENOTEMPTY, t)
             else (ReplyOk, set_inode (change_inode (set_entry t p name 0) p dec_nlink) n None))"

text \<open>
  A rename takes away what the new name stands for, inode and all, whatever its number of links;
  \<^verbatim>\<open>None\<close> is the refusal for a directory with entries.
\<close>

definition t_replace :: "tree \<Rightarrow> nat \<Rightarrow> string \<Rightarrow> tree option" where
  "t_replace t p name =
     (let n = t_entry t p name; t' = set_entry t p name 0
      in case (if n = 0 then None else t_inode t n) of
           None \<Rightarrow> Some t
         | Some i \<Rightarrow>
             if is_dir i \<and> \<not> t_empty t n then None
             else Some (set_inode (if is_dir i then change_inode t' p dec_nlink else t') n None))"

text \<open>The second step, with the room made.\<close>

definition t_move :: "tree \<Rightarrow> nat \<Rightarrow> nat \<Rightarrow> string \<Rightarrow> nat \<Rightarrow> string \<Rightarrow> tree" where
  "t_move u n p name p' name' =
     (let u' = set_entry (set_entry u p name 0) p' name' n;
          moved_dir = (case t_inode u n of Some i \<Rightarrow> is_dir i | None \<Rightarrow> False)
      in if moved_dir \<and> p \<noteq> p' then change_inode (change_inode u' p dec_nlink) p' inc_nlink else u')"

definition t_rename :: "tree \<Rightarrow> nat \<Rightarrow> string \<Rightarrow> nat \<Rightarrow> string \<Rightarrow> reply \<times> tree" where
  "t_rename t p name p' name' =
     (let n = t_entry t p name
      in if n = 0 then (ReplyErr ENOENT, t)
         else case t_replace t p' name' of
                None \<Rightarrow> (ReplyErr ENOTEMPTY, t)
              | Some u \<Rightarrow>
                  if name_fits p' name' then (ReplyOk, t_move u n p name p' name') else (ReplyErr EIO, t))"

section \<open>The invariant\<close>

text \<open>Numbers below a bound.\<close>

definition below :: "(nat \<Rightarrow> 'b option) \<Rightarrow> nat \<Rightarrow> bool" where
  "below f m \<longleftrightarrow> f 0 = None \<and> (\<forall>n. f n \<noteq> None \<longrightarrow> n < m)"

lemma below_upd [simp]:
  "\<lbrakk>below f m; 0 < n; n < m\<rbrakk> \<Longrightarrow> below (f(n := x)) m" "below f m \<Longrightarrow> below (f(n := None)) m"
  "\<lbrakk>below f m; f n = y\<rbrakk> \<Longrightarrow> below (f(n := map_option h y)) m"
  "below f m \<Longrightarrow> below f (Suc m)"
  by (auto simp: below_def less_Suc_eq)

text \<open>Every stored entry has a name that fits and holds the number of an inode.\<close>

definition entries_ok :: "(string \<Rightarrow> bytes option) \<Rightarrow> bool" where
  "entries_ok M \<longleftrightarrow> (\<forall>p name v. M (encode (KDirent p name)) = Some v \<longrightarrow>
     name_fits p name \<and> length v = SIZEOF_U64 \<and> le_val v \<noteq> 0)"

lemma entries_ok_cong:
  "(\<And>p name. M (encode (KDirent p name)) = M' (encode (KDirent p name))) \<Longrightarrow> entries_ok M = entries_ok M'"
  by (simp add: entries_ok_def)

lemma entries_ok_upd [fs_simps]:
  "(\<And>p n. k \<noteq> KDirent p n) \<Longrightarrow> entries_ok (M(encode k := v)) = entries_ok M"
  by (rule entries_ok_cong) (metis encode_inject fun_upd_other)

lemma entries_ok_dirent [fs_simps]:
  "\<lbrakk>entries_ok M; name_fits p name; x \<noteq> 0; x < 18446744073709551616\<rbrakk> \<Longrightarrow>
   entries_ok (M(encode (KDirent p name) \<mapsto> le_bytes 8 x))"
  "entries_ok M \<Longrightarrow> entries_ok (M(encode (KDirent p name) := None))"
  by (auto simp: entries_ok_def SIZEOF_U64_def)

lemma entries_ok_block [fs_simps]: "entries_ok (M(kvbfs_key_block n b := v)) = entries_ok M"
  using entries_ok_upd [of "KBlock n b"] by (simp add: encode.simps)

lemma dlook_block [fs_simps]: "dlook (M(kvbfs_key_block n b := v)) = dlook M"
  using dlook_upd_other [of "KBlock n b"] by (simp add: encode.simps)

lemma encode_in_blocks [fs_simps]:
  "encode k \<in> (\<lambda>b. encode (KBlock n b)) ` S \<longleftrightarrow> (\<exists>b\<in>S. k = KBlock n b)"
  by auto

lemma dirent_not_block [fs_simps]:
  "dlook (\<lambda>k. if k \<in> (\<lambda>b. encode (KBlock n b)) ` S then None else M k) = dlook M"
  "entries_ok (\<lambda>k. if k \<in> (\<lambda>b. encode (KBlock n b)) ` S then None else M k) = entries_ok M"
  by (auto intro!: dlook_cong entries_ok_cong simp: encode_in_blocks)

lemma dirent_dropped [fs_simps]:
  "dlook (\<lambda>k. if k = encode (KDirent p name) then None else M k) =
     (dlook M)(p := (dlook M p)(name := 0))"
  "entries_ok M \<Longrightarrow> entries_ok (\<lambda>k. if k = encode (KDirent p name) then None else M k)"
proof -
  have M: "(\<lambda>k. if k = encode (KDirent p name) then None else M k) = M(encode (KDirent p name) := None)"
    by auto
  show "dlook (\<lambda>k. if k = encode (KDirent p name) then None else M k) =
     (dlook M)(p := (dlook M p)(name := 0))" unfolding M dlook_upd by simp
  show "entries_ok M \<Longrightarrow> entries_ok (\<lambda>k. if k = encode (KDirent p name) then None else M k)"
    unfolding M by (rule entries_ok_dirent)
qed

lemma dlook_less: "dlook M p name < 18446744073709551616"
  using le_val_bound [of "the (M (encode (KDirent p name)))"]
  by (auto simp: dlook_def SIZEOF_U64_def split: option.split)

text \<open>
  Between two handlers: cache and images are consistent, no reference is held, the stored entries
  are well formed, every inode has a number below the next one, and the next number is in range.
\<close>

definition fs_inv :: "'s kv_ops \<Rightarrow> 's kvbfs_ctx \<Rightarrow> bool" where
  "fs_inv K c \<longleftrightarrow> ok K c \<and> quiet c \<and> entries_ok (kv_get K (db c)) \<and>
     0 < s_next_ino (super c) \<and> s_next_ino (super c) < 18446744073709551616 \<and>
     below (view K c) (s_next_ino (super c))"

lemma fs_invD:
  assumes "fs_inv K c"
  shows "ok K c" "refs c = (\<lambda>_. 0)" "s_next_ino (super c) < 18446744073709551616"
    "view K c (s_next_ino (super c)) = None" "below (view K c) (s_next_ino (super c))"
    "0 < s_next_ino (super c)"
  using assms by (auto simp: fs_inv_def quiet_def below_def)

lemma fs_inv_lt:
  assumes "fs_inv K c" "view K c n = Some i"
  shows "0 < n" "n < s_next_ino (super c)" "n < Suc (s_next_ino (super c))"
    "n \<noteq> s_next_ino (super c)" "s_next_ino (super c) \<noteq> n"
  using fs_invD(5) [OF assms(1)] assms(2) by (auto simp: below_def less_Suc_eq intro: gr0I)

lemma tree_of_sel [simp]:
  "t_inode (tree_of K c) = view K c" "t_entry (tree_of K c) = dirent_lookup K (db c)"
  "t_next (tree_of K c) = s_next_ino (super c)"
  by (simp_all add: tree_of_def)

lemma tree_eqI:
  "\<lbrakk>t_inode s = t_inode (t :: tree); t_entry s = t_entry t; t_next s = t_next t\<rbrakk> \<Longrightarrow> s = t"
  by simp

lemma tree_upd_sel [simp]:
  "t_inode (set_inode t n i) = (t_inode t)(n := i)" "t_entry (set_inode t n i) = t_entry t"
  "t_next (set_inode t n i) = t_next t"
  "t_inode (set_entry t p name m) = t_inode t" "t_next (set_entry t p name m) = t_next t"
  "t_entry (set_entry t p name m) = (t_entry t)(p := (t_entry t p)(name := m))"
  "t_inode (t_wasted t) = t_inode t" "t_entry (t_wasted t) = t_entry t"
  "t_next (t_wasted t) = t_next t + 1"
  by (simp_all add: set_inode_def set_entry_def t_wasted_def)

lemma change_inode_sel [simp]:
  "t_inode (change_inode t n f) = (t_inode t)(n := map_option f (t_inode t n))"
  "t_entry (change_inode t n f) = t_entry t" "t_next (change_inode t n f) = t_next t"
  by (auto simp: change_inode_def split: option.split)

lemma t_new_sel [simp]:
  "t_inode (t_new t p name i) = (t_inode t)(t_next t \<mapsto> i)"
  "t_entry (t_new t p name i) = (t_entry t)(p := (t_entry t p)(name := t_next t))"
  "t_next (t_new t p name i) = t_next t + 1"
  by (simp_all add: t_new_def)

section \<open>More observations\<close>

lemma session_if_fields [simp]:
  "db (if P then session_add c n else c) = db c" "super (if P then session_add c n else c) = super c"
    "view K (if P then session_add c n else c) = view K c"
    "refs (if P then session_add c n else c) = refs c" "ok K (if P then session_add c n else c) = ok K c"
    "db (if P then session_del c n else c) = db c" "super (if P then session_del c n else c) = super c"
    "view K (if P then session_del c n else c) = view K c"
    "refs (if P then session_del c n else c) = refs c" "ok K (if P then session_del c n else c) = ok K c"
  by simp_all

context kv_store_live
begin

lemmas inode_create_fst [fs_simps] = inode_create_eq(1)
lemmas inode_create_contents [fs_simps] = inode_create_eq(3)

lemma db_upd_obs [fs_simps]:
  assumes "\<And>n. contents s (encode (KInode n)) = contents (db c) (encode (KInode n))"
  shows "view K (c\<lparr>db := s\<rparr>) = view K c" "ok K (c\<lparr>db := s\<rparr>) = ok K c"
  using assms view_db by blast+

lemma dirent_op_obs [fs_simps]:
  "view K (snd (dirent_add K c p n x)) = view K c" "ok K (snd (dirent_add K c p n x)) = ok K c"
  "view K (snd (dirent_remove K c p n)) = view K c" "ok K (snd (dirent_remove K c p n)) = ok K c"
  by (auto simp: dirent_add_def dirent_remove_def split_def Let_def key_dirent_encode view_db)

lemma dirent_lookup_add [fs_simps]:
  "dirent_lookup K (db (snd (dirent_add K c p name x))) =
     (if name_fits p name
      then (dirent_lookup K (db c))(p := (dirent_lookup K (db c) p)(name := u64 x))
      else dirent_lookup K (db c))"
  by (simp add: dirent_lookup_dlook dirent_add_live dlook_upd SIZEOF_U64_def)

lemma dirent_lookup_fits: "dirent_lookup K s p name \<noteq> 0 \<Longrightarrow> name_fits p name"
  by (simp add: dirent_lookup_dlook dlook_def split: if_splits)

lemma dirent_lookup_remove [fs_simps]:
  "dirent_lookup K (db (snd (dirent_remove K c p name))) =
     (dirent_lookup K (db c))(p := (dirent_lookup K (db c) p)(name := 0))"
proof (cases "name_fits p name")
  case True
  then show ?thesis by (simp add: dirent_lookup_dlook dirent_remove_live dlook_upd)
next
  case False
  then have "dlook (contents (db c)) p name = 0" by (simp add: dlook_def)
  with False show ?thesis by (auto simp: dirent_lookup_dlook dirent_remove_live fun_eq_iff)
qed

lemma dirent_lookup_create [fs_simps]:
  "dirent_lookup K (db (snd (inode_create K now c mode))) = dirent_lookup K (db c)"
  by (simp add: dirent_lookup_dlook inode_create_eq(3) dlook_upd_other)

lemma dirent_lookup_delete [fs_simps]:
  "dirent_lookup K (db (snd (inode_delete K c n))) = dirent_lookup K (db c)"
  by (simp add: dirent_lookup_dlook contents_inode_delete dlook_upd_other)

lemma dirent_lookup_cong:
  "(\<And>p n. contents s (encode (KDirent p n)) = contents t (encode (KDirent p n))) \<Longrightarrow>
   dirent_lookup K s = dirent_lookup K t"
  unfolding dirent_lookup_dlook by (rule dlook_cong)

text \<open>What goes with an inode touches no other inode and no entry.\<close>

lemma purge_keys:
  "contents (mem_delete_embeddings K (version_delete_all K (xattr_delete_all K s n) n) n) (encode (KInode m)) =
     contents s (encode (KInode m))"
  "contents (mem_delete_embeddings K (version_delete_all K (xattr_delete_all K s n) n) n) (encode (KDirent p name)) =
     contents s (encode (KDirent p name))"
  by (simp_all add: mem_delete_embeddings_live version_delete_all_live xattr_delete_all_live xattr_prefix_iff)

lemma purge_inode_obs [fs_simps]:
  "view K (purge_inode K c n) = (view K c)(n := None)"
  "refs (purge_inode K c n) = refs c"
  "ok K c \<Longrightarrow> ok K (purge_inode K c n)"
  "dirent_lookup K (db (purge_inode K c n)) = dirent_lookup K (db c)"
  "super (purge_inode K c n) = super c" "vtree (purge_inode K c n) = vtree c"
  "sessions_ino (purge_inode K c n) = sessions_ino c" "session_set (purge_inode K c n) = session_set c"
  "events (purge_inode K c n) = events c" "mem (purge_inode K c n) = mem c" "llm (purge_inode K c n) = llm c"
  using dirent_lookup_cong [OF purge_keys(2)]
  by (simp_all add: purge_inode_def Let_def fs_simps purge_keys)

lemma delete_file_blocks_obs [fs_simps]:
  "view K (c\<lparr>db := delete_file_blocks K (db c) n b\<rparr>) = view K c"
  "ok K (c\<lparr>db := delete_file_blocks K (db c) n b\<rparr>) = ok K c"
  "dirent_lookup K (delete_file_blocks K s n b) = dirent_lookup K s"
proof -
  have "contents (delete_file_blocks K s n b) (encode (KInode m)) = contents s (encode (KInode m))" for m s
    by (auto simp: delete_file_blocks_live)
  then show "view K (c\<lparr>db := delete_file_blocks K (db c) n b\<rparr>) = view K c"
    "ok K (c\<lparr>db := delete_file_blocks K (db c) n b\<rparr>) = ok K c"
    using view_db by blast+
  show "dirent_lookup K (delete_file_blocks K s n b) = dirent_lookup K s"
    by (rule dirent_lookup_cong) (auto simp: delete_file_blocks_live)
qed

lemma adjust_nlink_obs [fs_simps]:
  assumes "ok K c" "\<And>i. i_ino (f i) = i_ino i"
  shows "view K (adjust_nlink K c n f) = (view K c)(n := map_option f (view K c n))"
    and "refs (adjust_nlink K c n f) = refs c" "ok K (adjust_nlink K c n f)"
    and "db (adjust_nlink K c n f) = db c" "super (adjust_nlink K c n f) = super c"
    and "vtree (adjust_nlink K c n f) = vtree c" "sessions_ino (adjust_nlink K c n f) = sessions_ino c"
    and "session_set (adjust_nlink K c n f) = session_set c"
    and "events (adjust_nlink K c n f) = events c" "mem (adjust_nlink K c n f) = mem c"
    and "llm (adjust_nlink K c n f) = llm c"
  using assms by (auto simp: adjust_nlink_def fs_simps split: option.split)

text \<open>A block write or delete is not visible in the tree.\<close>

lemma block_op_obs [fs_simps]:
  "fst (kv_put K s (kvbfs_key_block n b) v)" "fst (kv_delete K s (kvbfs_key_block n b))"
  "view K (c\<lparr>db := snd (kv_put K (db c) (kvbfs_key_block n b) v)\<rparr>) = view K c"
  "ok K (c\<lparr>db := snd (kv_put K (db c) (kvbfs_key_block n b) v)\<rparr>) = ok K c"
  "dirent_lookup K (snd (kv_put K s (kvbfs_key_block n b) v)) = dirent_lookup K s"
  "view K (c\<lparr>db := snd (kv_delete K (db c) (kvbfs_key_block n b))\<rparr>) = view K c"
  "ok K (c\<lparr>db := snd (kv_delete K (db c) (kvbfs_key_block n b))\<rparr>) = ok K c"
  "dirent_lookup K (snd (kv_delete K s (kvbfs_key_block n b))) = dirent_lookup K s"
proof -
  have k: "kvbfs_key_block n b = encode (KBlock n b)" by (simp add: encode.simps)
  show "fst (kv_put K s (kvbfs_key_block n b) v)" "fst (kv_delete K s (kvbfs_key_block n b))"
    by (simp_all add: put_live delete_live)
  show "view K (c\<lparr>db := snd (kv_put K (db c) (kvbfs_key_block n b) v)\<rparr>) = view K c"
    "ok K (c\<lparr>db := snd (kv_put K (db c) (kvbfs_key_block n b) v)\<rparr>) = ok K c"
    "view K (c\<lparr>db := snd (kv_delete K (db c) (kvbfs_key_block n b))\<rparr>) = view K c"
    "ok K (c\<lparr>db := snd (kv_delete K (db c) (kvbfs_key_block n b))\<rparr>) = ok K c"
    by (simp_all add: k view_db)
  show "dirent_lookup K (snd (kv_put K s (kvbfs_key_block n b) v)) = dirent_lookup K s"
    "dirent_lookup K (snd (kv_delete K s (kvbfs_key_block n b))) = dirent_lookup K s"
    by (rule dirent_lookup_cong, simp add: k)+
qed

lemma dlook_obs [fs_simps]:
  "dlook (contents (db (purge_inode K c n))) = dlook (contents (db c))"
  using purge_inode_obs(4) [of c n] by (simp add: dirent_lookup_dlook)

text \<open>What the handlers keep of the stored entries.\<close>

lemma entries_obs [fs_simps]:
  "entries_ok (contents (db (snd (inode_delete K c n)))) = entries_ok (contents (db c))"
  "entries_ok (contents (db (snd (inode_create K now c mode)))) = entries_ok (contents (db c))"
  "entries_ok (contents (delete_file_blocks K s n b)) = entries_ok (contents s)"
  "entries_ok (contents (db (purge_inode K c n))) = entries_ok (contents (db c))"
proof -
  show d: "entries_ok (contents (db (snd (inode_delete K c n)))) = entries_ok (contents (db c))" for c n
    by (simp add: contents_inode_delete entries_ok_upd)
  show "entries_ok (contents (db (snd (inode_create K now c mode)))) = entries_ok (contents (db c))"
    by (simp add: inode_create_eq(3) entries_ok_upd)
  show "entries_ok (contents (delete_file_blocks K s n b)) = entries_ok (contents s)"
    by (rule entries_ok_cong) (auto simp: delete_file_blocks_live)
  show "entries_ok (contents (db (purge_inode K c n))) = entries_ok (contents (db c))"
    unfolding purge_inode_def Let_def d by (rule entries_ok_cong) (simp add: purge_keys)
qed

end

end
