(* ===== verification/TreeOps.thy ===== *)
theory TreeOps
  imports Tree
begin

text \<open>
  The theorems of the name space: each directory handler computes its specification on the tree.
\<close>

section \<open>Refinement\<close>

text \<open>The relation each theorem states: same reply, same tree, invariant kept.\<close>

definition refines :: "'s kv_ops \<Rightarrow> reply \<times> 's kvbfs_ctx \<Rightarrow> reply \<times> tree \<Rightarrow> bool" where
  "refines K x y \<longleftrightarrow> fst x = fst y \<and> tree_of K (snd x) = snd y \<and> fs_inv K (snd x)"

lemma t_check_cases:
  obtains (err) e where "t_check t p name = Some e"
  | (ok) d where "t_check t p name = None" "t_inode t p = Some d" "is_dir d" "t_entry t p name = 0"
proof (cases "t_check t p name")
  case None
  then show ?thesis using ok by (auto simp: t_check_def split: option.splits if_splits)
qed (rule err)

lemma u64_next: "n + 1 < 18446744073709551616 \<Longrightarrow> u64 (n + 1) = n + 1"
  by simp

context kv_store_live
begin

lemma fs_invI:
  assumes "ok K c'" "refs c' = (\<lambda>_. 0)" "s_next_ino (super c') < 18446744073709551616"
    and "below (view K c') (s_next_ino (super c'))" "0 < s_next_ino (super c')"
    and "entries_ok (contents (db c'))"
  shows "fs_inv K c'"
proof -
  have "kv_get K (db c') = contents (db c')" by (rule ext) (simp add: get)
  with assms show ?thesis by (simp add: fs_inv_def quiet_def)
qed

lemma fs_inv_entries: "fs_inv K c \<Longrightarrow> entries_ok (contents (db c))"
proof -
  have "kv_get K (db c) = contents (db c)" by (rule ext) (simp add: get)
  then show "fs_inv K c \<Longrightarrow> entries_ok (contents (db c))" by (simp add: fs_inv_def)
qed

lemma peek_obs:
  assumes "fs_inv K c" "view K c n \<noteq> None"
  shows "tree_of K (inode_put (get_c K c n) n) = tree_of K c" "fs_inv K (inode_put (get_c K c n) n)"
  using assms by (auto simp: fs_inv_def quiet_def tree_of_def fs_simps fun_eq_iff)


lemmas tree_op_simps = is_dir_def inc_nlink_def [abs_def] u64_next SIZEOF_U64_def Let_def split_def

lemma mkdir_refines:
  assumes inv: "fs_inv K c" and nx: "s_next_ino (super c) + 1 < 18446744073709551616"
  shows "refines K (kvbfs_mkdir K env c p name mode) (t_mkdir env (tree_of K c) p name mode)"
proof (cases rule: t_check_cases [of "tree_of K c" p name])
  case (err e)
  then show ?thesis
    using inv peek_obs [OF inv, of p] fs_invD(1) [OF inv]
    by (auto simp: refines_def t_mkdir_def kvbfs_mkdir_def t_check_def fs_simps tree_op_simps
        split: option.splits if_splits)
next
  case (ok d)
  note i = fs_invD [OF inv] fs_inv_entries [OF inv] and lt = fs_inv_lt [OF inv]
  have [simp]: "p \<noteq> s_next_ino (super c)" "s_next_ino (super c) \<noteq> p" using ok i(4) by auto
  let ?x = "kvbfs_mkdir K env c p name mode" and ?t = "t_mkdir env (tree_of K c) p name mode"
  note defs = t_mkdir_def kvbfs_mkdir_def fs_simps tree_op_simps
  show ?thesis
    unfolding refines_def
  proof (intro conjI)
    show "fst ?x = fst ?t" using ok i nx by (auto simp: defs)
    show "tree_of K (snd ?x) = snd ?t" using ok i nx by (intro tree_eqI) (auto simp: defs)
    show "fs_inv K (snd ?x)"
      using ok i nx lt [of p] by (intro fs_invI) (auto simp: defs)
  qed
qed

lemma create_refines:
  assumes inv: "fs_inv K c" and nx: "s_next_ino (super c) + 1 < 18446744073709551616"
  shows "refines K (kvbfs_create K env c p name mode) (t_create env (tree_of K c) p name mode)"
proof (cases rule: t_check_cases [of "tree_of K c" p name])
  case (err e)
  then show ?thesis
    using inv peek_obs [OF inv, of p] fs_invD(1) [OF inv]
    by (auto simp: refines_def t_create_def kvbfs_create_def t_check_def fs_simps tree_op_simps
        split: option.splits if_splits)
next
  case (ok d)
  note i = fs_invD [OF inv] fs_inv_entries [OF inv] and lt = fs_inv_lt [OF inv]
  have [simp]: "p \<noteq> s_next_ino (super c)" "s_next_ino (super c) \<noteq> p" using ok i(4) by auto
  let ?x = "kvbfs_create K env c p name mode" and ?t = "t_create env (tree_of K c) p name mode"
  note defs = t_create_def kvbfs_create_def fs_simps tree_op_simps
  show ?thesis
    unfolding refines_def
  proof (intro conjI)
    show "fst ?x = fst ?t" using ok i nx by (auto simp: defs)
    show "tree_of K (snd ?x) = snd ?t" using ok i nx by (intro tree_eqI) (auto simp: defs)
    show "fs_inv K (snd ?x)"
      using ok i nx lt [of p] by (intro fs_invI) (auto simp: defs)
  qed
qed

lemma symlink_refines:
  assumes inv: "fs_inv K c" and nx: "s_next_ino (super c) + 1 < 18446744073709551616"
  shows "refines K (kvbfs_symlink K env c target p name) (t_symlink env (tree_of K c) target p name)"
proof (cases rule: t_check_cases [of "tree_of K c" p name])
  case (err e)
  then show ?thesis
    using inv peek_obs [OF inv, of p] fs_invD(1) [OF inv]
    by (auto simp: refines_def t_symlink_def kvbfs_symlink_def t_check_def fs_simps tree_op_simps
        split: option.splits if_splits)
next
  case (ok d)
  note i = fs_invD [OF inv] fs_inv_entries [OF inv] and lt = fs_inv_lt [OF inv]
  have [simp]: "p \<noteq> s_next_ino (super c)" "s_next_ino (super c) \<noteq> p" using ok i(4) by auto
  let ?x = "kvbfs_symlink K env c target p name" and ?t = "t_symlink env (tree_of K c) target p name"
  note defs = t_symlink_def kvbfs_symlink_def fs_simps tree_op_simps
  show ?thesis
    unfolding refines_def
  proof (intro conjI)
    show "fst ?x = fst ?t" using ok i nx by (auto simp: defs)
    show "tree_of K (snd ?x) = snd ?t" using ok i nx by (intro tree_eqI) (auto simp: defs)
    show "fs_inv K (snd ?x)"
      using ok i nx lt [of p] by (intro fs_invI) (auto simp: defs)
  qed
qed

lemma link_refines:
  assumes inv: "fs_inv K c" and u: "ino < 18446744073709551616"
  shows "refines K (kvbfs_link K env c ino p name) (t_link env (tree_of K c) ino p name)"
proof (cases "view K c ino = None \<or> is_dir (the (view K c ino))")
  case True
  then show ?thesis
    using inv peek_obs [OF inv, of ino] fs_invD(1) [OF inv]
    by (auto simp: refines_def t_link_def kvbfs_link_def t_check_def fs_simps tree_op_simps)
next
  case False
  then obtain i where v: "view K c ino = Some i" "\<not> is_dir i" by auto
  note d = fs_invD [OF inv] fs_inv_entries [OF inv] and lt = fs_inv_lt [OF inv v(1)]
  let ?x = "kvbfs_link K env c ino p name" and ?t = "t_link env (tree_of K c) ino p name"
  note defs = t_link_def kvbfs_link_def t_check_def fs_simps tree_op_simps
  show ?thesis
    unfolding refines_def
  proof (intro conjI)
    show "fst ?x = fst ?t" using v d u by (auto simp: defs split: option.splits)
    show "tree_of K (snd ?x) = snd ?t" using v d u by (intro tree_eqI) (auto simp: defs split: option.splits)
    show "fs_inv K (snd ?x)"
      using v d u lt by (intro fs_invI) (auto simp: defs split: option.splits)
  qed
qed

lemma raw_dirent_key: "prefix (kvbfs_key_dirent_prefix p) k \<Longrightarrow> \<exists>name. k = encode (KDirent p name)"
  by (auto simp: prefix_def kvbfs_key_dirent_prefix_def encode.simps)

lemma t_empty_iff:
  assumes "fs_inv K c"
  shows "t_empty (tree_of K c) n \<longleftrightarrow> dirent_is_empty K (db c) n"
proof
  assume "dirent_is_empty K (db c) n"
  then show "t_empty (tree_of K c) n"
    by (simp add: t_empty_def dirent_lookup_dlook dirent_is_empty_dlook)
next
  assume e: "t_empty (tree_of K c) n"
  show "dirent_is_empty K (db c) n"
    unfolding dirent_is_empty_iff
  proof (intro allI impI)
    fix k assume "prefix (kvbfs_key_dirent_prefix n) k"
    then obtain name where "k = encode (KDirent n name)" using raw_dirent_key by blast
    with e fs_inv_entries [OF assms] show "contents (db c) k = None"
      by (cases "contents (db c) k")
        (force simp: t_empty_def dirent_lookup_dlook dlook_def entries_ok_def split: if_splits)+
  qed
qed

lemma unlink_refines:
  assumes inv: "fs_inv K c"
  shows "refines K (kvbfs_unlink K env c p name) (t_unlink (tree_of K c) p name)"
proof -
  define n where "n = dlook (contents (db c)) p name"
  show ?thesis
  proof (cases "n = 0 \<or> view K c n = None \<or> is_dir (the (view K c n))")
    case True
    then show ?thesis
      using inv peek_obs [OF inv, of n] fs_invD(1) [OF inv] n_def
      by (auto simp: refines_def t_unlink_def kvbfs_unlink_def fs_simps tree_op_simps)
  next
    case False
    then obtain i where v: "n \<noteq> 0" "view K c n = Some i" "\<not> is_dir i" by auto
    have fits: "name_fits p name" using v(1) n_def dirent_lookup_fits [of "db c" p name] by (simp add: dirent_lookup_dlook)
    note d = fs_invD [OF inv] fs_inv_entries [OF inv] fs_inv_lt [OF inv v(2)]
    let ?x = "kvbfs_unlink K env c p name" and ?t = "t_unlink (tree_of K c) p name"
    have dec: "i_nlink (dec_nlink i) = 0 \<longleftrightarrow> i_nlink i \<le> 1" "i_ino (dec_nlink i) = i_ino i" for i
      by (auto simp: dec_nlink_def)
    note defs = t_unlink_def kvbfs_unlink_def fs_simps tree_op_simps n_def [symmetric] dec
    show ?thesis
      unfolding refines_def
    proof (intro conjI)
      show "fst ?x = fst ?t" using v d fits by (auto simp: defs)
      show "tree_of K (snd ?x) = snd ?t" using v d fits by (intro tree_eqI) (auto simp: defs)
      show "fs_inv K (snd ?x)" using v d fits by (intro fs_invI) (auto simp: defs)
    qed
  qed
qed

lemma rmdir_refines:
  assumes inv: "fs_inv K c"
  shows "refines K (kvbfs_rmdir K env c p name) (t_rmdir (tree_of K c) p name)"
proof -
  define n where "n = dlook (contents (db c)) p name"
  note empty = t_empty_iff [OF inv, symmetric]
  show ?thesis
  proof (cases "n = 0 \<or> view K c n = None \<or> \<not> is_dir (the (view K c n)) \<or> \<not> t_empty (tree_of K c) n")
    case True
    then show ?thesis
      using inv peek_obs [OF inv, of n] fs_invD(1) [OF inv]
      by (auto simp: refines_def t_rmdir_def kvbfs_rmdir_def fs_simps tree_op_simps n_def [symmetric] empty)
  next
    case False
    then obtain i where v: "n \<noteq> 0" "view K c n = Some i" "is_dir i" and e: "t_empty (tree_of K c) n" by auto
    have fits: "name_fits p name"
      using v(1) n_def dirent_lookup_fits [of "db c" p name] by (simp add: dirent_lookup_dlook)
    have [simp]: "p \<noteq> n" "n \<noteq> p" using v(1) n_def e by (auto simp: t_empty_def dirent_lookup_dlook)
    note d = fs_invD [OF inv] fs_inv_entries [OF inv] fs_inv_lt [OF inv v(2)]
    let ?x = "kvbfs_rmdir K env c p name" and ?t = "t_rmdir (tree_of K c) p name"
    have dec: "i_ino (dec_nlink i) = i_ino i" for i by (auto simp: dec_nlink_def)
    note defs = t_rmdir_def kvbfs_rmdir_def fs_simps tree_op_simps n_def [symmetric] dec empty
    show ?thesis
      unfolding refines_def
    proof (intro conjI)
      show "fst ?x = fst ?t" using v d e fits by (auto simp: defs)
      show "tree_of K (snd ?x) = snd ?t" using v d e fits by (intro tree_eqI) (auto simp: defs)
      show "fs_inv K (snd ?x)" using v d e fits by (intro fs_invI) (auto simp: defs)
    qed
  qed
qed

lemma lookup_refines:
  assumes inv: "fs_inv K c" and p: "\<not> vtree_is_vnode p" "p \<noteq> AGENTFS_VERSIONS_INO"
    and name: "p = KVBFS_ROOT_INO \<Longrightarrow>
      name \<notin> {AGENTFS_CTL_NAME, AGENTFS_EVENTS_NAME, AGENTFS_VERSIONS_NAME}"
  shows "refines K (kvbfs_lookup K env c p name) (t_lookup env (tree_of K c) p name)"
  using assms peek_obs [OF inv, of "dlook (contents (db c)) p name"] fs_invD(1) [OF inv]
  by (auto simp: refines_def t_lookup_def kvbfs_lookup_def fs_simps tree_op_simps)

text \<open>A rename in two steps: make room for the new name, then move the entry.\<close>

lemma rename_replace_refines:
  assumes inv: "fs_inv K c" and n: "n = dlook (contents (db c)) p name" "n \<noteq> 0"
  shows "case t_replace (tree_of K c) p name of
      None \<Rightarrow> \<not> fst (rename_replace K c p name n) \<and>
        tree_of K (snd (rename_replace K c p name n)) = tree_of K c \<and> fs_inv K (snd (rename_replace K c p name n))
    | Some u \<Rightarrow> fst (rename_replace K c p name n) \<and>
        tree_of K (snd (rename_replace K c p name n)) = u \<and> fs_inv K (snd (rename_replace K c p name n))"
proof -
  note empty = t_empty_iff [OF inv, symmetric]
  have fits: "name_fits p name"
    using n dirent_lookup_fits [of "db c" p name] by (simp add: dirent_lookup_dlook)
  note peek = peek_obs [OF inv, of n] fs_invD(1) [OF inv]
  have dec: "i_ino (dec_nlink i) = i_ino i" for i by (auto simp: dec_nlink_def)
  note defs = t_replace_def rename_replace_def fs_simps tree_op_simps n(1) [symmetric] dec empty
  show ?thesis
  proof (cases "view K c n")
    case None
    then show ?thesis using inv peek n(2) by (simp add: defs)
  next
    case (Some i)
    note d = fs_invD [OF inv] fs_inv_entries [OF inv] fs_inv_lt [OF inv Some]
    let ?x = "rename_replace K c p name n"
    show ?thesis
    proof (cases "is_dir i \<and> \<not> t_empty (tree_of K c) n")
      case True
      then show ?thesis using Some inv peek n(2) by (simp add: defs)
    next
      case False
      with Some n(2) obtain u where u: "t_replace (tree_of K c) p name = Some u"
        by (auto simp: defs)
      have "fst ?x" using Some False d n(2) fits by (auto simp: defs)
      moreover have "tree_of K (snd ?x) = the (t_replace (tree_of K c) p name)"
        using Some False d n(2) fits by (intro tree_eqI) (auto simp: defs)
      moreover have "fs_inv K (snd ?x)"
        using Some False d n(2) fits by (intro fs_invI) (auto simp: defs)
      ultimately show ?thesis by (simp add: u)
    qed
  qed
qed

lemma rename_move_refines:
  assumes inv: "fs_inv K c" and n: "n \<noteq> 0" "n < 18446744073709551616"
    and fits: "name_fits p name" "name_fits p' name'"
  shows "refines K (rename_move K env c n p name p' name') (ReplyOk, t_move (tree_of K c) n p name p' name')"
proof -
  have [simp]: "i_ino (dec_nlink i) = i_ino i" for i by (auto simp: dec_nlink_def)
  note d = fs_invD [OF inv] fs_inv_entries [OF inv]
  let ?x = "rename_move K env c n p name p' name'"
  note defs = t_move_def rename_move_def fs_simps tree_op_simps
  show ?thesis
    unfolding refines_def
  proof (intro conjI)
    show "fst ?x = fst (ReplyOk, t_move (tree_of K c) n p name p' name')"
      using d n fits by (cases "view K c n") (auto simp: defs)
    show "tree_of K (snd ?x) = snd (ReplyOk, t_move (tree_of K c) n p name p' name')"
      using d n fits by (cases "view K c n"; intro tree_eqI) (auto simp: defs)
    show "fs_inv K (snd ?x)"
      using d n fits by (cases "view K c n"; intro fs_invI) (auto simp: defs)
  qed
qed

lemma rename_move_unfit:
  assumes inv: "fs_inv K c" and n: "n \<noteq> 0" "n < 18446744073709551616"
    and fits: "name_fits p name" "\<not> name_fits p' name'" and e: "dlook (contents (db c)) p name = n"
  shows "refines K (rename_move K env c n p name p' name') (ReplyErr EIO, tree_of K c)"
proof -
  note d = fs_invD [OF inv] fs_inv_entries [OF inv]
  have triv: "(dlook (contents (db c)))(p := (dlook (contents (db c)) p)(name := n)) = dlook (contents (db c))"
    using e by (auto simp: fun_eq_iff)
  let ?x = "rename_move K env c n p name p' name'"
  note defs = rename_move_def fs_simps tree_op_simps
  show ?thesis
    unfolding refines_def
  proof (intro conjI)
    show "fst ?x = fst (ReplyErr EIO, tree_of K c)"
      using d n fits by (cases "view K c n") (auto simp: defs)
    show "tree_of K (snd ?x) = snd (ReplyErr EIO, tree_of K c)"
      using d n fits triv by (cases "view K c n"; intro tree_eqI) (auto simp: defs)
    show "fs_inv K (snd ?x)"
      using d n fits by (cases "view K c n"; intro fs_invI) (auto simp: defs)
  qed
qed

lemma rename_refines:
  assumes inv: "fs_inv K c"
  shows "refines K (kvbfs_rename K env c p name p' name') (t_rename (tree_of K c) p name p' name')"
proof -
  define n m where "n = dlook (contents (db c)) p name" and "m = dlook (contents (db c)) p' name'"
  have less: "n < 18446744073709551616" by (simp add: n_def dlook_less)
  have fits: "name_fits p name" if "n \<noteq> 0"
    using that n_def dirent_lookup_fits [of "db c" p name] by (simp add: dirent_lookup_dlook)
  have fits': "name_fits p' name'" if "m \<noteq> 0"
    using that m_def dirent_lookup_fits [of "db c" p' name'] by (simp add: dirent_lookup_dlook)
  have x: "kvbfs_rename K env c p name p' name' =
     (if n = 0 then (ReplyErr ENOENT, c)
      else if m = 0 then rename_move K env c n p name p' name'
      else if \<not> fst (rename_replace K c p' name' m) then (ReplyErr ENOTEMPTY, snd (rename_replace K c p' name' m))
      else rename_move K env (snd (rename_replace K c p' name' m)) n p name p' name')"
    by (simp add: kvbfs_rename_def dirent_lookup_dlook n_def m_def Let_def split_def)
  have t: "t_entry (tree_of K c) p name = n" "t_entry (tree_of K c) p' name' = m"
    by (simp_all add: dirent_lookup_dlook n_def m_def)
  have tr: "t_rename (tree_of K c) p name p' name' =
     (if n = 0 then (ReplyErr ENOENT, tree_of K c)
      else case t_replace (tree_of K c) p' name' of
             None \<Rightarrow> (ReplyErr ENOTEMPTY, tree_of K c)
           | Some u \<Rightarrow> if name_fits p' name' then (ReplyOk, t_move u n p name p' name')
                       else (ReplyErr EIO, tree_of K c))"
    unfolding t_rename_def Let_def t ..
  have tm: "m = 0 \<Longrightarrow> t_replace (tree_of K c) p' name' = Some (tree_of K c)"
    unfolding t_replace_def Let_def t by simp
  show ?thesis
  proof (cases "n = 0 \<or> m = 0")
    case True
    show ?thesis
    proof (cases "n = 0")
      case True
      then show ?thesis using inv by (simp add: x tr refines_def)
    next
      case False
      then have "m = 0" using True by simp
      with False show ?thesis
        using rename_move_refines [OF inv False less fits [OF False], of p' name' env]
          rename_move_unfit [OF inv False less fits [OF False], of p' name' env] n_def
        by (cases "name_fits p' name'") (simp_all add: x tr tm)
    qed
  next
    case False
    then have mv: "n \<noteq> 0" "m \<noteq> 0" by auto
    show ?thesis
    proof (cases "t_replace (tree_of K c) p' name'")
      case None
      then show ?thesis
        using rename_replace_refines [OF inv m_def mv(2)] mv by (simp add: x tr refines_def)
    next
      case (Some u)
      let ?c = "snd (rename_replace K c p' name' m)"
      from Some have r: "fst (rename_replace K c p' name' m)" "tree_of K ?c = u" "fs_inv K ?c"
        using rename_replace_refines [OF inv m_def mv(2)] by simp_all
      show ?thesis
        using rename_move_refines [OF r(3) mv(1) less fits [OF mv(1)] fits' [OF mv(2)], of env] mv r Some fits' [OF mv(2)]
        by (simp add: x tr refines_def)
    qed
  qed
qed

end

end
