(* ===== verification/TreeWf.thy ===== *)
theory TreeWf
  imports Tree
begin

text \<open>
  Consistency of the abstract name space: every name leads to a live inode and sits in a live
  directory, the link count of a file counts its names, and that of a directory itself, its own
  entry and its subdirectories. The operations of \<^verbatim>\<open>Tree\<close> keep it, a rename only when the name
  it replaces is the last one of its inode.
\<close>

section \<open>Consistency\<close>

definition links :: "tree \<Rightarrow> nat \<Rightarrow> (nat \<times> string) set" where
  "links t n = {(p, name). t_entry t p name = n}"

definition live_dir :: "tree \<Rightarrow> nat \<Rightarrow> bool" where
  "live_dir t p \<longleftrightarrow> (\<exists>d. t_inode t p = Some d \<and> is_dir d)"

text \<open>A file has as many links as names, a directory at most one name, the root none.\<close>

definition names_ok :: "kvbfs_inode \<Rightarrow> (nat \<times> string) set \<Rightarrow> bool" where
  "names_ok i L \<longleftrightarrow> finite L \<and> (if is_dir i then card L \<le> 1 else i_nlink i = card L)"

text \<open>The names and what they lead to, without the link counts of the directories.\<close>

definition t_shape :: "tree \<Rightarrow> bool" where
  "t_shape t \<longleftrightarrow> live_dir t KVBFS_ROOT_INO \<and> links t KVBFS_ROOT_INO = {} \<and>
     t_inode t 0 = None \<and> t_inode t (t_next t) = None \<and> (\<forall>n. t_next t < n \<longrightarrow> t_inode t n = None) \<and>
     (\<forall>p name. t_entry t p name \<noteq> 0 \<longrightarrow> live_dir t p \<and> t_inode t (t_entry t p name) \<noteq> None) \<and>
     (\<forall>n i. t_inode t n = Some i \<longrightarrow> names_ok i (links t n))"

lemma t_shapeD:
  assumes "t_shape t"
  shows "live_dir t KVBFS_ROOT_INO" "links t KVBFS_ROOT_INO = {}" "t_inode t 0 = None"
    "t_inode t (t_next t) = None" "t_next t < n \<Longrightarrow> t_inode t n = None"
    "t_entry t p name \<noteq> 0 \<Longrightarrow> live_dir t p" "t_entry t p name \<noteq> 0 \<Longrightarrow> t_inode t (t_entry t p name) \<noteq> None"
    "t_inode t n = Some i \<Longrightarrow> names_ok i (links t n)"
  using assms by (simp_all add: t_shape_def)

lemma links_set_entry [simp]:
  "n \<noteq> 0 \<Longrightarrow> links (set_entry t p name m) n =
     (if n = m then insert (p, name) (links t n) else links t n - {(p, name)})"
  by (auto simp: links_def split: if_splits)

lemma links_other [simp]:
  "links (set_inode t m i) n = links t n" "links (t_wasted t) n = links t n"
  "links (change_inode t m f) n = links t n"
  by (simp_all add: links_def)

lemma links_new:
  "n \<noteq> 0 \<Longrightarrow> links (t_new t p name i) n =
     (if n = t_next t then insert (p, name) (links t n) else links t n - {(p, name)})"
  by (simp add: t_new_def)

lemma links_mem [simp]: "(p, name) \<in> links t n \<longleftrightarrow> t_entry t p name = n"
  by (simp add: links_def)

lemma links_dead: "t_shape t \<Longrightarrow> n \<noteq> 0 \<Longrightarrow> t_inode t n = None \<Longrightarrow> links t n = {}"
  unfolding links_def using t_shapeD(7) by fastforce

lemma t_checkD:
  "t_check t p name = None \<Longrightarrow> live_dir t p \<and> t_entry t p name = 0"
  by (auto simp: t_check_def live_dir_def split: option.splits if_splits)

section \<open>Preservation\<close>

lemma t_shape_wasted: "t_shape t \<Longrightarrow> t_shape (t_wasted t)"
  by (auto simp: t_shape_def live_dir_def)

lemma t_shape_new:
  assumes "t_shape t" "t_check t p name = None" "is_dir i \<or> i_nlink i = 1" "t_next t \<noteq> 0"
  shows "t_shape (t_new t p name i)"
proof -
  note d = t_shapeD [OF assms(1)] and c = t_checkD [OF assms(2)]
  have root: "KVBFS_ROOT_INO \<noteq> t_next t" "KVBFS_ROOT_INO \<noteq> (0::nat)"
    using d(1,4) by (auto simp: live_dir_def KVBFS_ROOT_INO_def)
  have e: "links t (t_next t) = {}" using links_dead assms(1,4) d(4) by blast
  have same: "links (t_new t p name i) n = links t n" if "n \<noteq> 0" "n \<noteq> t_next t" for n
    using that c by (auto simp: links_new)
  have dir: "live_dir (t_new t p name i) q" if "live_dir t q" for q
    using that d(4) by (auto simp: live_dir_def)
  show ?thesis
    unfolding t_shape_def
  proof (intro conjI allI impI)
    fix n j assume j: "t_inode (t_new t p name i) n = Some j"
    show "names_ok j (links (t_new t p name i) n)"
    proof (cases "n = t_next t")
      case True
      with j e assms(3,4) show ?thesis by (auto simp: links_new names_ok_def)
    next
      case False
      with j d(3) have "t_inode t n = Some j" "n \<noteq> 0" by (auto intro: gr0I)
      with False d(8) show ?thesis by (simp add: same)
    qed
  next
    fix q nm assume "t_entry (t_new t p name i) q nm \<noteq> 0"
    then show "live_dir (t_new t p name i) q" and "t_inode (t_new t p name i) (t_entry (t_new t p name i) q nm) \<noteq> None"
      using c d(6,7) dir by (auto split: if_splits)
  qed (use d c root assms(4) dir same in auto)
qed

lemma live_dir_upd [simp]:
  "live_dir (set_entry t p name m) q = live_dir t q"
  "(\<And>i. is_dir (f i) = is_dir i) \<Longrightarrow> live_dir (change_inode t p f) q = live_dir t q"
  "q \<noteq> n \<Longrightarrow> live_dir (set_inode t n i) q = live_dir t q"
  by (auto simp: live_dir_def)

lemma t_shape_change:
  assumes "t_shape t" "\<And>i. is_dir (f i) = is_dir i" "live_dir t p"
  shows "t_shape (change_inode t p f)"
proof -
  note d = t_shapeD [OF assms(1)]
  have "names_ok j (links t n)" if "t_inode (change_inode t p f) n = Some j" for n j
    using that d(8) [of n] assms(2,3) by (auto simp: names_ok_def live_dir_def split: if_splits)
  moreover have "t_inode (change_inode t p f) n = None \<longleftrightarrow> t_inode t n = None" for n by simp
  ultimately show ?thesis
    using d assms(2) unfolding t_shape_def by simp
qed

lemma t_only_name:
  assumes "t_shape t" "t_entry t p name = n" "n \<noteq> 0" "t_inode t n = Some i" "is_dir i \<or> i_nlink i \<le> 1"
  shows "links t n = {(p, name)}"
proof -
  have "finite (links t n)" "card (links t n) \<le> 1" "(p, name) \<in> links t n"
    using t_shapeD(8) [OF assms(1,4)] assms(2,5) by (auto simp: names_ok_def split: if_splits)
  then show ?thesis by (metis card_le_Suc0_iff_eq One_nat_def is_singletonI' is_singleton_def singletonD empty_iff)
qed

text \<open>A name goes, and its inode with it when it was the last one.\<close>

lemma t_shape_drop:
  assumes "t_shape t" "t_entry t p name = n" "n \<noteq> 0" "t_inode t n = Some i"
    and "is_dir i \<longrightarrow> t_empty t n" "is_dir i \<or> i_nlink i \<le> 1"
  shows "t_shape (set_inode (set_entry t p name 0) n None)"
proof -
  note d = t_shapeD [OF assms(1)]
  have only: "links t n = {(p, name)}" using t_only_name assms(1-4,6) by blast
  have root: "n \<noteq> KVBFS_ROOT_INO" by (metis assms(2) d(2) empty_iff links_mem)
  have other: "t_entry t q nm \<noteq> n" if "(q, nm) \<noteq> (p, name)" for q nm
    using only that links_mem [of q nm t n] by blast
  have home: "q \<noteq> n" if "t_entry t q nm \<noteq> 0" for q nm
    using that d(6) [OF that] assms(4,5) by (auto simp: t_empty_def live_dir_def)
  have lnk: "links (set_inode (set_entry t p name 0) n None) m = links t m" if "m \<noteq> 0" "m \<noteq> n" for m
    using that only assms(2) by auto
  show ?thesis
    unfolding t_shape_def
  proof (intro conjI allI impI)
    fix m j assume j: "t_inode (set_inode (set_entry t p name 0) n None) m = Some j"
    then have "m \<noteq> n" "t_inode t m = Some j" by (auto split: if_splits)
    moreover from this d(3) have "m \<noteq> 0" by (cases m) auto
    ultimately show "names_ok j (links (set_inode (set_entry t p name 0) n None) m)"
      using d(8) lnk by metis
  next
    fix q nm assume "t_entry (set_inode (set_entry t p name 0) n None) q nm \<noteq> 0"
    then have e: "t_entry t q nm \<noteq> 0" "(q, nm) \<noteq> (p, name)" by (auto split: if_splits)
    show "live_dir (set_inode (set_entry t p name 0) n None) q"
      using d(6) [OF e(1)] home [OF e(1)] by simp
    show "t_inode (set_inode (set_entry t p name 0) n None)
      (t_entry (set_inode (set_entry t p name 0) n None) q nm) \<noteq> None"
      using d(7) [OF e(1)] other [OF e(2)] e(2) by auto
  next
    show "live_dir (set_inode (set_entry t p name 0) n None) KVBFS_ROOT_INO" using d(1) root by simp
    show "links (set_inode (set_entry t p name 0) n None) KVBFS_ROOT_INO = {}"
      using d(2) root by (subst lnk) (simp_all add: KVBFS_ROOT_INO_def)
  qed (use d in auto)
qed

lemma is_dir_upd [simp]: "is_dir (dec_nlink i) = is_dir i" "is_dir (inc_nlink i) = is_dir i"
  by (simp_all add: is_dir_def dec_nlink_def inc_nlink_def)

text \<open>A file gains a name.\<close>

lemma t_shape_link:
  assumes "t_shape t" "t_check t p name = None" "t_inode t n = Some i" "\<not> is_dir i"
    and "i_nlink i < 4294967295"
  shows "t_shape (set_inode (set_entry t p name n) n (Some ((inc_nlink i)\<lparr>i_ctime := now\<rparr>)))"
proof -
  note d = t_shapeD [OF assms(1)] and c = t_checkD [OF assms(2)]
  let ?j = "(inc_nlink i)\<lparr>i_ctime := now\<rparr>"
  let ?t = "set_inode (set_entry t p name n) n (Some ?j)"
  have n: "n \<noteq> 0" "n \<noteq> KVBFS_ROOT_INO" using d(1,3) assms(3,4) by (auto simp: live_dir_def intro!: gr0I)
  have j: "\<not> is_dir ?j" "i_nlink ?j = Suc (i_nlink i)"
    using assms(4,5) by (simp_all add: is_dir_def inc_nlink_def)
  have lnk: "links ?t m = (if m = n then insert (p, name) (links t m) else links t m)" if "m \<noteq> 0" for m
    using that c by auto
  have dir: "live_dir ?t q = live_dir t q" for q
    using assms(3,4) j(1) by (auto simp: live_dir_def)
  show ?thesis
    unfolding t_shape_def
  proof (intro conjI allI impI)
    fix m k assume k: "t_inode ?t m = Some k"
    show "names_ok k (links ?t m)"
    proof (cases "m = n")
      case True
      moreover have "(p, name) \<notin> links t n" using c n by simp
      ultimately show ?thesis
        using k d(8) [OF assms(3)] j assms(4) n(1) by (simp add: lnk names_ok_def)
    next
      case False
      with k d(3) have "t_inode t m = Some k" "m \<noteq> 0" by (cases m; auto)+
      with False d(8) lnk show ?thesis by metis
    qed
  next
    fix q nm assume e: "t_entry ?t q nm \<noteq> 0"
    show "live_dir ?t q" using e d(6) [of q nm] c by (auto simp: dir split: if_splits)
    show "t_inode ?t (t_entry ?t q nm) \<noteq> None" using e d(7) [of q nm] by auto
  next
    show "links ?t KVBFS_ROOT_INO = {}"
      using d(2) n by (subst lnk) (simp_all add: KVBFS_ROOT_INO_def)
  qed (use d n assms(3) in \<open>auto simp: dir\<close>)
qed

text \<open>One of several names of a file goes.\<close>

lemma t_shape_unlink:
  assumes "t_shape t" "t_entry t p name = n" "n \<noteq> 0" "t_inode t n = Some i" "\<not> is_dir i" "1 < i_nlink i"
  shows "t_shape (set_inode (set_entry t p name 0) n (Some (dec_nlink i)))"
proof -
  note d = t_shapeD [OF assms(1)]
  let ?t = "set_inode (set_entry t p name 0) n (Some (dec_nlink i))"
  have n: "n \<noteq> KVBFS_ROOT_INO" using d(1) assms(4,5) by (auto simp: live_dir_def)
  have lnk: "links ?t m = (if m = n then links t m - {(p, name)} else links t m)" if "m \<noteq> 0" for m
    using that assms(2) by auto
  have dir: "live_dir ?t q = live_dir t q" for q
    using assms(4,5) by (auto simp: live_dir_def)
  show ?thesis
    unfolding t_shape_def
  proof (intro conjI allI impI)
    fix m k assume k: "t_inode ?t m = Some k"
    show "names_ok k (links ?t m)"
    proof (cases "m = n")
      case True
      moreover have "(p, name) \<in> links t n" using assms(2) by simp
      moreover have "i_nlink (dec_nlink i) = i_nlink i - 1" using assms(6) by (simp add: dec_nlink_def)
      ultimately show ?thesis
        using k d(8) [OF assms(4)] assms(3,5) by (auto simp: lnk names_ok_def)
    next
      case False
      with k d(3) have "t_inode t m = Some k" "m \<noteq> 0" by (cases m; auto)+
      with False d(8) lnk show ?thesis by metis
    qed
  next
    fix q nm assume "t_entry ?t q nm \<noteq> 0"
    then have e: "t_entry t q nm \<noteq> 0" "(q, nm) \<noteq> (p, name)" by (auto split: if_splits)
    show "live_dir ?t q" using d(6) [OF e(1)] by (simp only: dir)
    show "t_inode ?t (t_entry ?t q nm) \<noteq> None" using d(7) [OF e(1)] e(2) by auto
  next
    show "links ?t KVBFS_ROOT_INO = {}"
      using d(2) n by (subst lnk) (simp_all add: KVBFS_ROOT_INO_def)
  qed (use d n assms(3,4) in \<open>auto simp: dir\<close>)
qed

text \<open>A name moves.\<close>

lemma t_shape_move:
  assumes "t_shape t" "t_entry t p name = n" "n \<noteq> 0" "t_entry t p' name' = 0 \<or> (p', name') = (p, name)"
    and "live_dir t p'"
  shows "t_shape (set_entry (set_entry t p name 0) p' name' n)"
proof -
  note d = t_shapeD [OF assms(1)]
  let ?t = "set_entry (set_entry t p name 0) p' name' n"
  have lnk: "links ?t m = (if m = n then insert (p', name') (links t m - {(p, name)}) else links t m)"
    if "m \<noteq> 0" for m
    using that assms(2,4) by auto
  have card: "card (links ?t n) = card (links t n)" if "finite (links t n)"
  proof -
    have "(p, name) \<in> links t n" "(p', name') \<notin> links t n - {(p, name)}"
      using assms(2-4) by auto
    with that show ?thesis using lnk [OF assms(3)] by (metis card.insert finite_Diff card_Suc_Diff1)
  qed
  show ?thesis
    unfolding t_shape_def
  proof (intro conjI allI impI)
    fix m k assume k: "t_inode ?t m = Some k"
    then have m: "t_inode t m = Some k" "m \<noteq> 0" using d(3) by (cases m; auto)+
    show "names_ok k (links ?t m)"
    proof (cases "m = n")
      case True
      with d(8) [OF m(1)] card lnk [OF m(2)] show ?thesis by (auto simp: names_ok_def)
    next
      case False
      with m d(8) lnk show ?thesis by metis
    qed
  next
    fix q nm assume e: "t_entry ?t q nm \<noteq> 0"
    show "live_dir ?t q" using e d(6) [of q nm] assms(5) by (auto split: if_splits)
    show "t_inode ?t (t_entry ?t q nm) \<noteq> None"
      using e d(7) [of q nm] d(7) [of p name] assms(2,3) by (auto split: if_splits)
  next
    have "n \<noteq> KVBFS_ROOT_INO" by (metis assms(2) d(2) empty_iff links_mem)
    then show "links ?t KVBFS_ROOT_INO = {}"
      using d(2) by (subst lnk) (simp_all add: KVBFS_ROOT_INO_def)
  qed (use d in auto)
qed

section \<open>Link counts of directories\<close>

definition subdirs :: "tree \<Rightarrow> nat \<Rightarrow> string set" where
  "subdirs t p = {name. t_entry t p name \<noteq> 0 \<and> live_dir t (t_entry t p name)}"

definition dir_nlink :: "tree \<Rightarrow> nat \<Rightarrow> nat option" where
  "dir_nlink t p = (case t_inode t p of None \<Rightarrow> None | Some d \<Rightarrow> if is_dir d then Some (i_nlink d) else None)"

text \<open>A directory counts itself, its own entry and each of its subdirectories.\<close>

definition counted :: "nat option \<Rightarrow> string set \<Rightarrow> bool" where
  "counted k S \<longleftrightarrow> (case k of None \<Rightarrow> True | Some j \<Rightarrow> finite S \<and> j = 2 + card S)"

definition t_counts :: "tree \<Rightarrow> bool" where
  "t_counts t \<longleftrightarrow> (\<forall>p. counted (dir_nlink t p) (subdirs t p))"

definition t_wf :: "tree \<Rightarrow> bool" where
  "t_wf t \<longleftrightarrow> t_shape t \<and> t_counts t"

lemma t_wf_shape: "t_wf t \<Longrightarrow> t_shape t" "t_wf t \<Longrightarrow> t_counts t"
  by (simp_all add: t_wf_def)

lemma t_countsD: "t_counts t \<Longrightarrow> counted (dir_nlink t p) (subdirs t p)"
  by (simp add: t_counts_def)

text \<open>How a count follows its subdirectories.\<close>

lemma counted_simps [simp]: "counted None S" "counted (Some 2) {}"
  by (simp_all add: counted_def)

lemma counted_gain: "counted (Some k) S \<Longrightarrow> x \<notin> S \<Longrightarrow> counted (Some (Suc k)) (insert x S)"
  by (simp add: counted_def)

lemma counted_lose: "counted (Some k) S \<Longrightarrow> x \<in> S \<Longrightarrow> counted (Some (k - 1)) (S - {x})"
  by (auto simp: counted_def card_Diff_singleton dest: card_gt_0_iff [THEN iffD2, OF conjI, rotated])

lemma counted_move: "counted (Some k) S \<Longrightarrow> x \<in> S \<Longrightarrow> y \<notin> S - {x} \<Longrightarrow> counted (Some k) (insert y (S - {x}))"
  by (auto simp: counted_def card_Diff_singleton dest: card_gt_0_iff [THEN iffD2, OF conjI, rotated])

lemma live_dir_nlink: "live_dir t p \<longleftrightarrow> dir_nlink t p \<noteq> None"
  by (auto simp: live_dir_def dir_nlink_def split: option.split)

lemma subdirs_mem: "name \<in> subdirs t p \<longleftrightarrow> t_entry t p name \<noteq> 0 \<and> dir_nlink t (t_entry t p name) \<noteq> None"
  by (simp add: subdirs_def live_dir_nlink)

lemma dir_nlink_upd [simp]:
  "dir_nlink (set_entry t p name m) = dir_nlink t"
  "dir_nlink (t_wasted t) = dir_nlink t"
  "dir_nlink (set_inode t n None) = (dir_nlink t)(n := None)"
  "dir_nlink (set_inode t n (Some i)) = (dir_nlink t)(n := if is_dir i then Some (i_nlink i) else None)"
  by (auto simp: dir_nlink_def fun_eq_iff)

lemma dir_nlink_inc [simp]:
  "dir_nlink (change_inode t p inc_nlink) = (dir_nlink t)(p := map_option (\<lambda>k. u32 (k + 1)) (dir_nlink t p))"
  "dir_nlink (change_inode t p dec_nlink) = (dir_nlink t)(p := map_option (\<lambda>k. k - 1) (dir_nlink t p))"
  by (auto simp: dir_nlink_def fun_eq_iff inc_nlink_def dec_nlink_def is_dir_def split: option.split)

text \<open>Only names of files come and go.\<close>

lemma t_counts_files:
  assumes "t_counts t" "dir_nlink u = dir_nlink t"
    and "\<And>q x. t_entry u q x \<noteq> t_entry t q x \<Longrightarrow> dir_nlink t (t_entry u q x) = None \<and> dir_nlink t (t_entry t q x) = None"
  shows "t_counts u"
proof -
  have "x \<in> subdirs u q \<longleftrightarrow> x \<in> subdirs t q" for q x
    using assms(3) [of q x] by (cases "t_entry u q x = t_entry t q x") (auto simp: subdirs_mem assms(2))
  then have "subdirs u q = subdirs t q" for q by blast
  with assms(1,2) show ?thesis by (simp add: t_counts_def)
qed

text \<open>A directory comes, with its parent's link.\<close>

lemma t_counts_mkdir:
  assumes "t_shape t" "t_counts t" "t_check t p name = None" "is_dir i" "i_nlink i = 2" "t_next t \<noteq> 0"
    and "\<And>d. t_inode t p = Some d \<Longrightarrow> i_nlink d < 4294967295"
  shows "t_counts (change_inode (t_new t p name i) p inc_nlink)"
proof -
  let ?n = "t_next t" and ?u = "change_inode (t_new t p name i) p inc_nlink"
  have c: "live_dir t p" "t_entry t p name = 0" using t_checkD [OF assms(3)] by blast+
  obtain k where k: "dir_nlink t p = Some k" "k < 4294967295"
    using c(1) assms(7) by (auto simp: dir_nlink_def live_dir_def)
  have n: "dir_nlink t ?n = None" "p \<noteq> ?n" using t_shapeD(4) [OF assms(1)] c(1) by (auto simp: dir_nlink_def live_dir_def)
  have free: "t_entry t q x \<noteq> ?n" "q = ?n \<Longrightarrow> t_entry t q x = 0" for q x
    using t_shapeD(4,6,7) [OF assms(1)] assms(6) by (metis, metis live_dir_def option.distinct(1))
  have dl: "dir_nlink ?u = (dir_nlink t)(?n := Some 2, p := Some (Suc k))"
    using k n assms(4,5) by (simp add: t_new_def)
  have sd: "subdirs ?u q = (if q = p then insert name (subdirs t p) else subdirs t q)" for q
    using free n(2) assms(6) k(1) unfolding set_eq_iff subdirs_mem dl by (auto simp: subdirs_mem split: if_splits)
  show ?thesis
    unfolding t_counts_def
  proof
    fix q
    consider "q = p" | "q = ?n" "q \<noteq> p" | "q \<noteq> p" "q \<noteq> ?n" by blast
    then show "counted (dir_nlink ?u q) (subdirs ?u q)"
    proof cases
      case 1
      have "name \<notin> subdirs t p" using c(2) by (simp add: subdirs_mem)
      with 1 counted_gain [of k "subdirs t p" name] t_countsD [OF assms(2), of p] show ?thesis
        unfolding dl sd by (simp add: k(1))
    next
      case 2
      then have "subdirs t q = {}" using free by (auto simp: subdirs_mem)
      with 2 show ?thesis unfolding dl sd by simp
    qed (use t_countsD [OF assms(2), of q] in \<open>unfold dl sd, simp\<close>)
  qed
qed

text \<open>A directory goes, with its parent's link.\<close>

lemma t_counts_rmdir:
  assumes "t_shape t" "t_counts t" "t_entry t p name = n" "n \<noteq> 0" "t_inode t n = Some i" "is_dir i" "p \<noteq> n"
  shows "t_counts (set_inode (change_inode (set_entry t p name 0) p dec_nlink) n None)"
proof -
  let ?u = "set_inode (change_inode (set_entry t p name 0) p dec_nlink) n None"
  have only: "links t n = {(p, name)}" using t_only_name assms(1,3-6) by blast
  have "live_dir t p" using t_shapeD(6) [OF assms(1)] assms(3,4) by blast
  then obtain k where k: "dir_nlink t p = Some k" by (auto simp: live_dir_nlink)
  have dl: "dir_nlink ?u = (dir_nlink t)(p := Some (k - 1), n := None)" by (simp add: k)
  have other: "t_entry t q x \<noteq> n" if "(q, x) \<noteq> (p, name)" for q x
    using only that links_mem [of q x t n] by blast
  have sd: "subdirs ?u q = (if q = p then subdirs t p - {name} else subdirs t q)" for q
    using other k unfolding set_eq_iff subdirs_mem dl by (auto simp: subdirs_mem split: if_splits)
  have "name \<in> subdirs t p" using assms(3-6) by (simp add: subdirs_mem dir_nlink_def)
  then have "counted (dir_nlink ?u q) (subdirs ?u q)" for q
    using counted_lose [of k "subdirs t p" name] t_countsD [OF assms(2), of q] assms(7) k
    unfolding dl sd by (cases "q = p") simp_all
  then show ?thesis by (simp add: t_counts_def)
qed

text \<open>A name moves, and with a directory the link of its parent.\<close>

lemma t_counts_move:
  assumes "t_shape t" "t_counts t" "t_entry t p name = n" "n \<noteq> 0"
    and "t_entry t p' name' = 0 \<or> (p', name') = (p, name)" "live_dir t p'"
    and "\<And>d. t_inode t p' = Some d \<Longrightarrow> i_nlink d < 4294967295"
  shows "t_counts (t_move t n p name p' name')"
proof (cases "dir_nlink t n")
  case None
  then have "t_move t n p name p' name' = set_entry (set_entry t p name 0) p' name' n"
    by (auto simp: t_move_def dir_nlink_def split: option.splits if_splits)
  moreover have "dir_nlink t 0 = None" using t_shapeD(3) [OF assms(1)] by (simp add: dir_nlink_def)
  then have "t_counts (set_entry (set_entry t p name 0) p' name' n)"
    using None assms(3,5) by (intro t_counts_files [OF assms(2)]) (auto split: if_splits)
  ultimately show ?thesis by simp
next
  case (Some h)
  let ?u = "t_move t n p name p' name'"
  obtain k where k: "dir_nlink t p = Some k" using t_shapeD(6) [OF assms(1)] assms(3,4) by (auto simp: live_dir_nlink)
  obtain k' where k': "dir_nlink t p' = Some k'" "k' < 4294967295"
    using assms(6,7) by (auto simp: dir_nlink_def live_dir_def)
  have e: "t_entry ?u = t_entry (set_entry (set_entry t p name 0) p' name' n)"
    by (simp add: t_move_def Let_def)
  have dl: "dir_nlink ?u = (if p = p' then dir_nlink t else (dir_nlink t)(p := Some (k - 1), p' := Some (Suc k')))"
    using Some k k' by (auto simp: t_move_def Let_def dir_nlink_def [of t n] split: option.splits if_splits)
  have "name \<in> subdirs t p" using Some assms(3,4) by (simp add: subdirs_mem)
  have new: "name' \<notin> subdirs t p'" if "p \<noteq> p'" using assms(5) that by (auto simp: subdirs_mem)
  have new': "name' \<notin> subdirs t p - {name}" if "p = p'" using assms(5) that by (auto simp: subdirs_mem)
  have sd: "subdirs ?u q = (if q = p' then insert name' (subdirs t p' - (if p = p' then {name} else {}))
      else if q = p then subdirs t p - {name} else subdirs t q)" for q
    using Some k k' assms(4) unfolding set_eq_iff subdirs_mem dl e by (auto simp: subdirs_mem split: if_splits)
  have "counted (dir_nlink ?u q) (subdirs ?u q)" for q
  proof (cases "p = p'")
    case True
    with counted_move [OF _ \<open>name \<in> subdirs t p\<close> new', of k] t_countsD [OF assms(2), of q] k show ?thesis
      unfolding dl sd by (cases "q = p") simp_all
  next
    case False
    consider "q = p" | "q = p'" | "q \<noteq> p" "q \<noteq> p'" by blast
    then show ?thesis
    proof cases
      case 1
      with counted_lose [of k _ name, OF _ \<open>name \<in> subdirs t p\<close>] t_countsD [OF assms(2), of p] k False show ?thesis
        unfolding dl sd by simp
    next
      case 2
      with counted_gain [of k' _ name', OF _ new] t_countsD [OF assms(2), of p'] k' False show ?thesis
        unfolding dl sd by simp
    qed (use t_countsD [OF assms(2), of q] in \<open>unfold dl sd, simp\<close>)
  qed
  then show ?thesis by (simp add: t_counts_def)
qed

end
