(* ===== verification/Namespace.thy ===== *)
theory Namespace
  imports TreeOps TreeWf
begin

text \<open>
  Sequences of directory requests: the handlers and the specifications run side by side, a
  relation of reachable file systems, and the theorems on the name space.
\<close>

section \<open>Requests\<close>

datatype ns_op =
    OpLookup nat string
  | OpMkdir nat string nat
  | OpCreate nat string nat
  | OpSymlink string nat string
  | OpLink nat nat string
  | OpUnlink nat string
  | OpRmdir nat string
  | OpRename nat string nat string

fun ns_run :: "'s kv_ops \<Rightarrow> fs_env \<Rightarrow> ns_op \<Rightarrow> 's kvbfs_ctx \<Rightarrow> reply \<times> 's kvbfs_ctx" where
  "ns_run K env (OpLookup p name) c = kvbfs_lookup K env c p name"
| "ns_run K env (OpMkdir p name mode) c = kvbfs_mkdir K env c p name mode"
| "ns_run K env (OpCreate p name mode) c = kvbfs_create K env c p name mode"
| "ns_run K env (OpSymlink target p name) c = kvbfs_symlink K env c target p name"
| "ns_run K env (OpLink n p name) c = kvbfs_link K env c n p name"
| "ns_run K env (OpUnlink p name) c = kvbfs_unlink K env c p name"
| "ns_run K env (OpRmdir p name) c = kvbfs_rmdir K env c p name"
| "ns_run K env (OpRename p name p' name') c = kvbfs_rename K env c p name p' name'"

fun ns_spec :: "fs_env \<Rightarrow> ns_op \<Rightarrow> tree \<Rightarrow> reply \<times> tree" where
  "ns_spec env (OpLookup p name) t = t_lookup env t p name"
| "ns_spec env (OpMkdir p name mode) t = t_mkdir env t p name mode"
| "ns_spec env (OpCreate p name mode) t = t_create env t p name mode"
| "ns_spec env (OpSymlink target p name) t = t_symlink env t target p name"
| "ns_spec env (OpLink n p name) t = t_link env t n p name"
| "ns_spec env (OpUnlink p name) t = t_unlink t p name"
| "ns_spec env (OpRmdir p name) t = t_rmdir t p name"
| "ns_spec env (OpRename p name p' name') t = t_rename t p name p' name'"

text \<open>Names in the real tree: the virtual files of the root have handlers of their own.\<close>

fun ns_real :: "ns_op \<Rightarrow> bool" where
  "ns_real (OpLookup p name) \<longleftrightarrow> \<not> vtree_is_vnode p \<and> p \<noteq> AGENTFS_VERSIONS_INO \<and>
     (p = KVBFS_ROOT_INO \<longrightarrow>
        name \<notin> {AGENTFS_CTL_NAME, AGENTFS_EVENTS_NAME, AGENTFS_VERSIONS_NAME})"
| "ns_real _ \<longleftrightarrow> True"

text \<open>Room in the 64-bit inode number, and the 64-bit number of an existing inode.\<close>

fun ns_bounded :: "tree \<Rightarrow> ns_op \<Rightarrow> bool" where
  "ns_bounded t (OpLink n p name) \<longleftrightarrow> n < 18446744073709551616 \<and> t_next t + 1 < 18446744073709551616"
| "ns_bounded t _ \<longleftrightarrow> t_next t + 1 < 18446744073709551616"

lemma refinesD:
  "refines K x y \<Longrightarrow> fst x = fst y" "refines K x y \<Longrightarrow> tree_of K (snd x) = snd y"
  "refines K x y \<Longrightarrow> fs_inv K (snd x)"
  by (simp_all add: refines_def)

context kv_store_live
begin

lemma ns_run_refines:
  assumes "fs_inv K c" "ns_real op" "ns_bounded (tree_of K c) op"
  shows "refines K (ns_run K env op c) (ns_spec env op (tree_of K c))"
  using assms
  by (cases op)
    (simp_all add: lookup_refines mkdir_refines create_refines symlink_refines link_refines
      unlink_refines rmdir_refines rename_refines)

end

section \<open>Consistency\<close>

text \<open>
  What the kernel checks before a rename (the new parent is a directory, and the names are not
  two links of one inode), that the name replaced is the last one of its inode, and that the
  32-bit link count that grows has room.
\<close>

definition nlink_room :: "tree \<Rightarrow> nat \<Rightarrow> bool" where
  "nlink_room t n \<longleftrightarrow> (case t_inode t n of Some i \<Rightarrow> i_nlink i < 4294967295 | None \<Rightarrow> True)"

fun ns_safe :: "tree \<Rightarrow> ns_op \<Rightarrow> bool" where
  "ns_safe t (OpRename p name p' name') \<longleftrightarrow>
     live_dir t p' \<and> nlink_room t p' \<and>
     (let m = t_entry t p' name'
      in m \<noteq> 0 \<longrightarrow> m \<noteq> t_entry t p name \<and> (case t_inode t m of
           Some i \<Rightarrow> is_dir i \<or> i_nlink i \<le> 1 | None \<Rightarrow> True))"
| "ns_safe t (OpLink n p name) \<longleftrightarrow> nlink_room t n"
| "ns_safe t (OpMkdir p name mode) \<longleftrightarrow> nlink_room t p"
| "ns_safe t _ \<longleftrightarrow> True"

lemma t_empty_ne: "t_empty t n \<Longrightarrow> t_entry t p name \<noteq> 0 \<Longrightarrow> p \<noteq> n"
  by (auto simp: t_empty_def)

lemma t_wf_wasted: "t_wf t \<Longrightarrow> t_wf (t_wasted t)"
  by (simp add: t_wf_def t_shape_wasted t_counts_def subdirs_mem set_eq_iff)
    (metis (no_types, lifting) Collect_cong dir_nlink_upd(2) live_dir_nlink subdirs_def tree_upd_sel(8))

text \<open>A new inode that is no directory.\<close>

lemma t_wf_new_file:
  assumes "t_wf t" "t_check t p name = None" "\<not> is_dir i" "i_nlink i = 1" "t_next t \<noteq> 0"
  shows "t_wf (t_new t p name i)"
proof -
  note sh = t_wf_shape [OF assms(1)]
  have n: "dir_nlink t (t_next t) = None" "dir_nlink t 0 = None"
    using t_shapeD(3,4) [OF sh(1)] by (simp_all add: dir_nlink_def)
  have "t_counts (t_new t p name i)"
  proof (rule t_counts_files [OF sh(2)])
    show "dir_nlink (t_new t p name i) = dir_nlink t" using assms(3) n(1) by (auto simp: t_new_def fun_eq_iff)
  qed (use n t_checkD [OF assms(2)] in \<open>auto split: if_splits\<close>)
  then show ?thesis using t_shape_new [OF sh(1) assms(2) _ assms(5)] assms(4) by (simp add: t_wf_def)
qed

lemma t_wf_mkdir:
  assumes "t_wf t" "t_next t \<noteq> 0" "ns_safe t (OpMkdir p name mode)"
  shows "t_wf (snd (t_mkdir env t p name mode))"
proof (cases rule: t_check_cases [of t p name])
  case (err e)
  then show ?thesis using assms by (simp add: t_mkdir_def)
next
  case (ok d)
  note sh = t_wf_shape [OF assms(1)]
  let ?i = "(new_inode (e_now env) (t_next t) (S_IFDIR OR (mode AND 511)))\<lparr>i_nlink := 2\<rparr>"
  have i: "is_dir ?i" by (simp add: is_dir_def)
  then have "t_shape (t_new t p name ?i)" using ok assms(2) by (intro t_shape_new [OF sh(1)]) simp_all
  moreover have "live_dir (t_new t p name ?i) p"
    using ok t_shapeD(4) [OF sh(1)] by (auto simp: live_dir_def)
  ultimately have "t_shape (change_inode (t_new t p name ?i) p inc_nlink)"
    by (intro t_shape_change) simp_all
  moreover have "t_counts (change_inode (t_new t p name ?i) p inc_nlink)"
    using ok assms(2,3) i by (intro t_counts_mkdir [OF sh]) (auto simp: nlink_room_def)
  ultimately have "t_wf (change_inode (t_new t p name ?i) p inc_nlink)" by (simp add: t_wf_def)
  with ok assms(1) show ?thesis by (simp add: t_mkdir_def t_wf_wasted Let_def)
qed

lemma t_wf_create:
  assumes "t_wf t" "t_next t \<noteq> 0"
  shows "t_wf (snd (t_create env t p name mode))"
proof (cases rule: t_check_cases [of t p name])
  case (err e)
  then show ?thesis using assms by (simp add: t_create_def)
next
  case (ok d)
  then have "t_wf (t_new t p name (new_inode (e_now env) (t_next t) (S_IFREG OR (mode AND 511))))"
    using assms by (intro t_wf_new_file) (simp_all add: new_inode_def is_dir_def)
  with ok assms show ?thesis by (simp add: t_create_def t_wf_wasted Let_def)
qed

lemma t_wf_symlink:
  assumes "t_wf t" "t_next t \<noteq> 0"
  shows "t_wf (snd (t_symlink env t target p name))"
proof (cases rule: t_check_cases [of t p name])
  case (err e)
  then show ?thesis using assms by (simp add: t_symlink_def)
next
  case (ok d)
  then have "t_wf (t_new t p name ((new_inode (e_now env) (t_next t) (S_IFLNK OR 511))
      \<lparr>i_size := length target, i_blocks := 1\<rparr>))"
    using assms by (intro t_wf_new_file) (simp_all add: new_inode_def is_dir_def mode_defs)
  with ok assms show ?thesis by (simp add: t_symlink_def t_wf_wasted Let_def)
qed

text \<open>Names of files that come, go or move.\<close>

lemma t_wf_link_op:
  assumes "t_wf t" "ns_safe t (OpLink n p name)"
  shows "t_wf (snd (t_link env t n p name))"
proof -
  note sh = t_wf_shape [OF assms(1)]
  let ?j = "\<lambda>i. (inc_nlink i)\<lparr>i_ctime := e_now env\<rparr>"
  have "t_wf (set_inode (set_entry t p name n) n (Some (?j i)))"
    if i: "t_inode t n = Some i" "\<not> is_dir i" and c: "t_check t p name = None" for i
  proof -
    have "dir_nlink t n = None" "dir_nlink t 0 = None" "\<not> is_dir (?j i)"
      using i t_shapeD(3) [OF sh(1)] by (simp_all add: dir_nlink_def is_dir_def inc_nlink_def)
    then have "t_counts (set_inode (set_entry t p name n) n (Some (?j i)))"
      using t_checkD [OF c] by (intro t_counts_files [OF sh(2)]) (auto simp: fun_eq_iff split: if_splits)
    moreover have "i_nlink i < 4294967295" using assms(2) i by (simp add: nlink_room_def)
    ultimately show ?thesis using t_shape_link [OF sh(1) c i] by (simp add: t_wf_def)
  qed
  with assms(1) show ?thesis by (auto simp: t_link_def Let_def split: option.split)
qed

lemma t_wf_unlink_op:
  assumes "t_wf t"
  shows "t_wf (snd (t_unlink t p name))"
proof -
  note sh = t_wf_shape [OF assms(1)]
  let ?n = "t_entry t p name"
  have "t_wf (set_inode (set_entry t p name 0) ?n (if i_nlink i \<le> 1 then None else Some (dec_nlink i)))"
    if i: "t_inode t ?n = Some i" "\<not> is_dir i" "?n \<noteq> 0" for i
  proof -
    have "dir_nlink t ?n = None" "dir_nlink t 0 = None"
      using i t_shapeD(3) [OF sh(1)] by (simp_all add: dir_nlink_def)
    then have "t_counts (set_inode (set_entry t p name 0) ?n (if i_nlink i \<le> 1 then None else Some (dec_nlink i)))"
      using i(2) by (intro t_counts_files [OF sh(2)]) (auto simp: fun_eq_iff split: if_splits)
    then show ?thesis
      using t_shape_drop [OF sh(1) refl i(3,1)] t_shape_unlink [OF sh(1) refl i(3,1,2)] i(2) by (auto simp: t_wf_def)
  qed
  with assms(1) show ?thesis by (auto simp: t_unlink_def Let_def split: option.split)
qed

lemma set_inode_change:
  "p \<noteq> n \<Longrightarrow> set_inode (change_inode t p f) n i = change_inode (set_inode t n i) p f"
  by (rule tree_eqI) auto

lemma t_wf_drop_dir:
  assumes "t_wf t" "t_entry t p name = n" "n \<noteq> 0" "t_inode t n = Some i" "is_dir i" "t_empty t n"
  shows "t_wf (set_inode (change_inode (set_entry t p name 0) p dec_nlink) n None)"
proof -
  note sh = t_wf_shape [OF assms(1)]
  have ne: "p \<noteq> n" using t_empty_ne assms(2,3,6) by metis
  moreover have "live_dir t p" using t_shapeD(6) sh(1) assms(2,3) by metis
  ultimately have "t_shape (set_inode (change_inode (set_entry t p name 0) p dec_nlink) n None)"
    using t_shape_drop [OF sh(1) assms(2-4)] assms(5,6)
    by (simp add: set_inode_change) (rule t_shape_change, simp_all)
  with t_counts_rmdir [OF sh assms(2-5) ne] show ?thesis by (simp add: t_wf_def)
qed

lemma t_wf_rmdir_op:
  assumes "t_wf t"
  shows "t_wf (snd (t_rmdir t p name))"
  using assms t_wf_drop_dir [OF assms refl]
  by (auto simp: t_rmdir_def Let_def split: option.split)

text \<open>Making room keeps the tree consistent when the name is the last one of its inode.\<close>

lemma t_replace_wf:
  assumes wf: "t_wf t" and u: "t_replace t p name = Some u" and dir: "live_dir t p"
    and last: "\<And>i. t_inode t (t_entry t p name) = Some i \<Longrightarrow> is_dir i \<or> i_nlink i \<le> 1"
  shows "t_wf u" and "t_entry u = (t_entry t)(p := (t_entry t p)(name := 0))" and "live_dir u p"
    and "nlink_room t p \<Longrightarrow> nlink_room u p"
proof -
  note sh = t_wf_shape [OF wf]
  let ?n = "t_entry t p name"
  have "t_wf u \<and> t_entry u = (t_entry t)(p := (t_entry t p)(name := 0)) \<and> live_dir u p \<and>
    (nlink_room t p \<longrightarrow> nlink_room u p)"
  proof (cases "?n = 0")
    case True
    with u wf dir show ?thesis by (auto simp: t_replace_def fun_eq_iff)
  next
    case False
    then obtain i where i: "t_inode t ?n = Some i" using t_shapeD(7) [OF sh(1)] by blast
    have ne: "p \<noteq> ?n" if "is_dir i" using u i that False t_empty_ne [of t ?n p name]
      by (auto simp: t_replace_def Let_def split: if_splits)
    have ne': "p \<noteq> ?n" if "\<not> is_dir i" using that i dir by (auto simp: live_dir_def)
    from u i False have e: "is_dir i \<Longrightarrow> t_empty t ?n"
      and x: "u = set_inode (if is_dir i then change_inode (set_entry t p name 0) p dec_nlink
                             else set_entry t p name 0) ?n None"
      by (auto simp: t_replace_def Let_def split: if_splits)
    have "t_wf u"
    proof (cases "is_dir i")
      case True
      with x e t_wf_drop_dir [OF wf refl False i] show ?thesis by simp
    next
      case notdir: False
      with i t_shapeD(3) [OF sh(1)] have "dir_nlink t ?n = None" "dir_nlink t 0 = None" by (simp_all add: dir_nlink_def)
      then have "t_counts u" unfolding x using notdir
        by (intro t_counts_files [OF sh(2)]) (auto simp: fun_eq_iff split: if_splits)
      with x notdir last [OF i] t_shape_drop [OF sh(1) refl False i] show ?thesis by (simp add: t_wf_def)
    qed
    moreover have "nlink_room u p" if "nlink_room t p"
      using that x by (auto simp: nlink_room_def dec_nlink_def split: option.splits)
    moreover have "live_dir u p" using x ne ne' dir by (cases "is_dir i") auto
    ultimately show ?thesis using x by auto
  qed
  then show "t_wf u" "t_entry u = (t_entry t)(p := (t_entry t p)(name := 0))" "live_dir u p"
    "nlink_room t p \<Longrightarrow> nlink_room u p"
    by blast+
qed

lemma t_wf_rename_op:
  assumes wf: "t_wf t" and safe: "ns_safe t (OpRename p name p' name')"
  shows "t_wf (snd (t_rename t p name p' name'))"
proof -
  let ?n = "t_entry t p name" and ?m = "t_entry t p' name'"
  show ?thesis
  proof (cases "?n = 0 \<or> t_replace t p' name' = None \<or> \<not> name_fits p' name'")
    case True
    then show ?thesis using wf by (auto simp: t_rename_def Let_def split: option.split)
  next
    case False
    then obtain u where u: "t_replace t p' name' = Some u" and n: "?n \<noteq> 0" "name_fits p' name'" by auto
    have dir: "live_dir t p'" and last: "t_inode t ?m = Some i \<Longrightarrow> is_dir i \<or> i_nlink i \<le> 1"
      and ne: "?m \<noteq> 0 \<Longrightarrow> ?m \<noteq> ?n" and room: "nlink_room t p'" for i
      using safe t_shapeD(3) [OF t_wf_shape(1) [OF wf]] by (auto simp: Let_def split: option.splits)
    note r = t_replace_wf(1-3) [OF wf u dir last]
    have room': "nlink_room u p'" by (rule t_replace_wf(4) [OF wf u dir _ room]) (rule last)
    note sh = t_wf_shape [OF r(1)]
    have src: "t_entry u p name = ?n" using r(2) ne n(1) by (auto simp: fun_eq_iff)
    have gone: "t_entry u p' name' = 0 \<or> (p', name') = (p, name)" using r(2) by simp
    have "live_dir u p" using t_shapeD(6) [OF sh(1)] src n(1) by metis
    moreover have "t_shape (set_entry (set_entry u p name 0) p' name' ?n)"
      using t_shape_move [OF sh(1) src n(1) gone] r(3) by simp
    ultimately have "t_shape (t_move u ?n p name p' name')"
      using r(3) by (auto simp: t_move_def Let_def intro!: t_shape_change)
    moreover have "t_counts (t_move u ?n p name p' name')"
      by (intro t_counts_move [OF sh src n(1) gone r(3)]) (use room' [unfolded nlink_room_def] in \<open>auto split: option.splits\<close>)
    ultimately show ?thesis using u n by (simp add: t_rename_def t_wf_def Let_def)
  qed
qed

lemma ns_spec_wf:
  assumes "t_wf t" "t_next t \<noteq> 0" "ns_safe t op"
  shows "t_wf (snd (ns_spec env op t))"
proof (cases op)
  case (OpLookup p name)
  then show ?thesis using assms by (auto simp: t_lookup_def Let_def split: option.split)
qed (use assms in \<open>simp_all add: t_wf_mkdir t_wf_create t_wf_symlink t_wf_link_op t_wf_unlink_op
      t_wf_rmdir_op t_wf_rename_op del: ns_safe.simps\<close>)

section \<open>Runs\<close>

text \<open>The file systems the directory requests lead to, at any times and in any order.\<close>

inductive ns_reach :: "'s kv_ops \<Rightarrow> 's kvbfs_ctx \<Rightarrow> 's kvbfs_ctx \<Rightarrow> bool" for K c0 where
  start: "ns_reach K c0 c0"
| step: "\<lbrakk>ns_reach K c0 c; ns_real op; ns_bounded (tree_of K c) op; ns_safe (tree_of K c) op\<rbrakk> \<Longrightarrow>
    ns_reach K c0 (snd (ns_run K env op c))"

fun ns_runs :: "'s kv_ops \<Rightarrow> (fs_env \<times> ns_op) list \<Rightarrow> 's kvbfs_ctx \<Rightarrow> reply list \<times> 's kvbfs_ctx" where
  "ns_runs K [] c = ([], c)"
| "ns_runs K ((env, op) # ops) c =
     (let (r, c') = ns_run K env op c; (rs, c'') = ns_runs K ops c' in (r # rs, c''))"

fun ns_specs :: "(fs_env \<times> ns_op) list \<Rightarrow> tree \<Rightarrow> reply list \<times> tree" where
  "ns_specs [] t = ([], t)"
| "ns_specs ((env, op) # ops) t =
     (let (r, t') = ns_spec env op t; (rs, t'') = ns_specs ops t' in (r # rs, t''))"

fun link_source :: "ns_op \<Rightarrow> nat" where
  "link_source (OpLink n p name) = n"
| "link_source _ = 0"

lemma t_replace_next: "t_replace t p name = Some u \<Longrightarrow> t_next u = t_next t"
  by (auto simp: t_replace_def Let_def split: option.splits if_splits)

lemma ns_spec_next: "t_next (snd (ns_spec env op t)) \<le> t_next t + 1"
  by (cases op)
    (auto simp: t_lookup_def t_mkdir_def t_create_def t_symlink_def t_link_def t_unlink_def t_rmdir_def
      t_rename_def t_move_def Let_def dest: t_replace_next split: option.splits)

lemma ns_boundedI:
  "t_next t + 1 < 18446744073709551616 \<Longrightarrow> link_source op < 18446744073709551616 \<Longrightarrow> ns_bounded t op"
  by (cases op) auto

context kv_store_live
begin

lemma ns_reach_inv:
  assumes "ns_reach K c0 c" "fs_inv K c0" "t_wf (tree_of K c0)"
  shows "fs_inv K c \<and> t_wf (tree_of K c)"
  using assms
proof induction
  case (step c op env)
  then have inv: "fs_inv K c" "t_wf (tree_of K c)" by auto
  note r = ns_run_refines [OF inv(1) step.hyps(2,3), of env]
  have "t_next (tree_of K c) \<noteq> 0" using fs_invD(6) [OF inv(1)] by simp
  with refinesD(2,3) [OF r] ns_spec_wf [OF inv(2) _ step.hyps(4), of env] show ?case by simp
qed simp

lemma ns_runs_refine:
  assumes "fs_inv K c" "\<forall>x\<in>set ops. ns_real (snd x) \<and> link_source (snd x) < 18446744073709551616"
    and "s_next_ino (super c) + length ops < 18446744073709551616"
  shows "fst (ns_runs K ops c) = fst (ns_specs ops (tree_of K c)) \<and>
    tree_of K (snd (ns_runs K ops c)) = snd (ns_specs ops (tree_of K c)) \<and> fs_inv K (snd (ns_runs K ops c))"
  using assms
proof (induction ops arbitrary: c)
  case (Cons x ops)
  obtain env op where x: "x = (env, op)" by (cases x)
  have "ns_bounded (tree_of K c) op" using Cons.prems x by (intro ns_boundedI) auto
  then have r: "refines K (ns_run K env op c) (ns_spec env op (tree_of K c))"
    using Cons.prems x ns_run_refines by auto
  have "s_next_ino (super (snd (ns_run K env op c))) + length ops < 18446744073709551616"
    using refinesD(2) [OF r] ns_spec_next [of env op "tree_of K c"] Cons.prems(3)
    by (metis (no_types, lifting) add.assoc add_le_mono1 le_less_trans length_Cons plus_1_eq_Suc tree_of_sel(3))
  with Cons.IH [of "snd (ns_run K env op c)"] Cons.prems refinesD [OF r] show ?case
    by (simp add: x split_def Let_def)
qed simp

end

text \<open>What a rename does to the other names of the file it replaces.\<close>

lemma t_rename_clobbers:
  assumes "t_entry t p name \<notin> {0, n}" "t_entry t p' name' = n" "n \<noteq> 0" "t_inode t n = Some i" "\<not> is_dir i"
    and "t_entry t q other = n" "(q, other) \<noteq> (p', name')" "name_fits p' name'"
  shows "fst (t_rename t p name p' name') = ReplyOk \<and>
    t_entry (snd (t_rename t p name p' name')) q other = n \<and>
    t_inode (snd (t_rename t p name p' name')) n = None"
  using assms by (auto simp: t_rename_def t_replace_def t_move_def Let_def split: option.split)

context kv_store_live
begin

lemma rename_clobbers:
  assumes inv: "fs_inv K c"
    and names: "dirent_lookup K (db c) p name \<notin> {0, n}" "dirent_lookup K (db c) p' name' = n" "n \<noteq> 0"
    and i: "view K c n = Some i" "\<not> is_dir i"
    and q: "dirent_lookup K (db c) q other = n" "(q, other) \<noteq> (p', name')" "ns_real (OpLookup q other)"
    and c': "c' = snd (kvbfs_rename K env c p name p' name')"
  shows "fst (kvbfs_rename K env c p name p' name') = ReplyOk \<and>
    dirent_lookup K (db c') q other = n \<and> fst (kvbfs_lookup K env c' q other) = ReplyErr ENOENT"
proof -
  note r = rename_refines [OF inv, of env p name p' name']
  have "name_fits p' name'" using names(2,3) dirent_lookup_fits by blast
  then have t: "fst (kvbfs_rename K env c p name p' name') = ReplyOk \<and>
    t_entry (tree_of K c') q other = n \<and> t_inode (tree_of K c') n = None"
    using t_rename_clobbers [of "tree_of K c" p name n p' name' i q other] names i q refinesD(1,2) [OF r]
    by (simp add: c')
  moreover have "fst (kvbfs_lookup K env c' q other) = fst (t_lookup env (tree_of K c') q other)"
    using refinesD(1) [OF lookup_refines] refinesD(3) [OF r] q(3) c' by simp
  ultimately show ?thesis by (simp add: t_lookup_def names(3))
qed

end

section \<open>The sample\<close>

text \<open>A closed environment: fixed time and user, entries of 32 bytes, no model behind the memory.\<close>

definition sample_env :: fs_env where
  "sample_env = \<lparr>e_now = t1, e_uid = 1000, e_gid = 1000, e_dirent_size = (\<lambda>_. 32),
     e_encode = (\<lambda>_. None), e_n_embd = 0, e_floats = (\<lambda>_. []), e_float_bytes = (\<lambda>_. []),
     e_fmt_score = (\<lambda>_. ''0'')\<rparr>"

definition sample_stat :: stat where
  "sample_stat = inode_to_stat sample_env file_inode"

lemma sample_fits [simp]:
  "name_fits (Suc 0) ''a''" "name_fits (Suc 0) ''b''" "name_fits (Suc 0) ''c''" "name_fits (Suc 0) ''d''"
  by (simp_all add: name_fits_def encode.simps KVBFS_KEY_MAX_def dec.simps [of "Suc 0"])

lemma sample_dlook:
  "dlook (DAList.lookup (store_of sample_entries)) =
     (\<lambda>p name. if p = 1 \<and> name = ''a'' then 5 else if p = 1 \<and> name = ''d'' then 2 else 0)"
  by (intro ext) (auto simp: dlook_def lookup_store_of sample_entries_def SIZEOF_U64_def)

lemma sample_entry [simp]:
  "dirent_lookup mem_ops (store_of sample_entries) p name =
     (if p = 1 \<and> name = ''a'' then 5 else if p = 1 \<and> name = ''d'' then 2 else 0)"
  by (simp add: mem.dirent_lookup_dlook sample_dlook)

lemma sample_view_fun: "view mem_ops sample = map_of [(1, sample_root), (2, dir_inode), (5, file_inode)]"
  by (rule ext) (rule sample_view)

lemma sample_fs_inv [simp]: "fs_inv mem_ops sample"
proof (rule mem.fs_invI)
  show "entries_ok (DAList.lookup (db sample))"
    by (auto simp: entries_ok_def lookup_store_of sample_entries_def SIZEOF_U64_def split: if_splits)
qed (auto simp: sample_view_fun below_def)

lemma sample_wf [simp]: "t_wf (tree_of mem_ops sample)"
proof -
  have "links (tree_of mem_ops sample) n = (if n = 5 then {(1, ''a'')} else if n = 2 then {(1, ''d'')} else {})"
    if "n \<noteq> 0" for n
    using that by (auto simp: links_def split: if_splits)
  then have "t_shape (tree_of mem_ops sample)"
    by (auto simp: t_shape_def live_dir_def is_dir_def names_ok_def KVBFS_ROOT_INO_def split: if_splits)
  moreover have "subdirs (tree_of mem_ops sample) p = (if p = 1 then {''d''} else {})" for p
    by (auto simp: subdirs_def live_dir_def is_dir_def split: if_splits)
  then have "t_counts (tree_of mem_ops sample)"
    by (auto simp: t_counts_def counted_def dir_nlink_def is_dir_def split: if_splits option.splits)
  ultimately show ?thesis by (simp add: t_wf_def)
qed

section \<open>Properties\<close>

text \<open>
  \<^verbatim>\<open>kvbfs_mkdir\<close>, \<^verbatim>\<open>kvbfs_create\<close> and \<^verbatim>\<open>kvbfs_symlink\<close> compute exactly their
  specifications on the tree, on every branch: a parent that is missing or no directory, a name
  that exists, a name too long for a key (the inode is deleted again and only its number is used
  up), and success, where the new inode has the mode, link count, size and time the code gives it,
  the directory has the name, and \<^verbatim>\<open>mkdir\<close> counts a link of the parent. Every inode reference is
  given back and the invariant of cache, images, entries and numbers holds afterwards.
\<close>
theorem creating_handlers_refine:
  assumes "kv_store_live K contents" "fs_inv K c"
    and "s_next_ino (super c) + 1 < 18446744073709551616"
  shows "refines K (kvbfs_mkdir K env c p name mode) (t_mkdir env (tree_of K c) p name mode) \<and>
    refines K (kvbfs_create K env c p name mode) (t_create env (tree_of K c) p name mode) \<and>
    refines K (kvbfs_symlink K env c target p name) (t_symlink env (tree_of K c) target p name)"
  using kv_store_live.mkdir_refines [OF assms(1-3)] kv_store_live.create_refines [OF assms(1-3)]
    kv_store_live.symlink_refines [OF assms(1-3)]
  by blast

lemma creating_handlers_refine_witness:
  "fs_inv mem_ops sample \<and>
   refines mem_ops (kvbfs_mkdir mem_ops sample_env sample 1 ''b'' 493) (t_mkdir sample_env (tree_of mem_ops sample) 1 ''b'' 493)"
  using creating_handlers_refine [OF mem.kv_store_live_axioms sample_fs_inv, of sample_env 1 "''b''" 493 "''x''"]
  by simp

text \<open>
  \<^verbatim>\<open>kvbfs_unlink\<close> and \<^verbatim>\<open>kvbfs_rmdir\<close> compute exactly their specifications on the tree: a name
  that is missing, is of the other kind, or is a directory with entries is refused without a
  change; otherwise the name goes, a file loses one link and its inode with the last one, and a
  directory goes with its inode and one link of the parent. All references are given back and the
  invariant is kept.
\<close>
theorem removing_handlers_refine:
  assumes "kv_store_live K contents" "fs_inv K c"
  shows "refines K (kvbfs_unlink K env c p name) (t_unlink (tree_of K c) p name) \<and>
    refines K (kvbfs_rmdir K env c p name) (t_rmdir (tree_of K c) p name)"
  using kv_store_live.unlink_refines [OF assms] kv_store_live.rmdir_refines [OF assms] by blast

lemma removing_handlers_refine_witness:
  "fs_inv mem_ops sample \<and>
   refines mem_ops (kvbfs_unlink mem_ops sample_env sample 1 ''a'') (t_unlink (tree_of mem_ops sample) 1 ''a'')"
  using removing_handlers_refine [OF mem.kv_store_live_axioms sample_fs_inv] by simp

text \<open>
  \<^verbatim>\<open>kvbfs_rename\<close> computes exactly its specification on the tree: a missing source and a
  target directory with entries are refused without a change, a target name too long for a key
  leaves the source where it was, and otherwise the target of the new name is destroyed, the entry
  moves, and a directory that changes its parent moves one link from the old to the new one.
\<close>
theorem rename_refines_tree:
  assumes "kv_store_live K contents" "fs_inv K c"
  shows "refines K (kvbfs_rename K env c p name p' name') (t_rename (tree_of K c) p name p' name')"
  using kv_store_live.rename_refines [OF assms] .

lemma rename_refines_tree_witness:
  "refines mem_ops (kvbfs_rename mem_ops sample_env sample 1 ''a'' 2 ''b'')
     (t_rename (tree_of mem_ops sample) 1 ''a'' 2 ''b'')"
  using rename_refines_tree [OF mem.kv_store_live_axioms sample_fs_inv] .

text \<open>
  \<^verbatim>\<open>kvbfs_link\<close> and, outside the virtual tree, \<^verbatim>\<open>kvbfs_lookup\<close> compute exactly their
  specifications: a link to a directory is refused with \<^verbatim>\<open>EPERM\<close>, otherwise the file has one more
  name, one more link and a new change time; a lookup finds the inode an entry names.
\<close>
theorem link_lookup_refine:
  assumes "kv_store_live K contents" "fs_inv K c" "ino < 18446744073709551616" "ns_real (OpLookup p name)"
  shows "refines K (kvbfs_link K env c ino q newname) (t_link env (tree_of K c) ino q newname) \<and>
    refines K (kvbfs_lookup K env c p name) (t_lookup env (tree_of K c) p name)"
  using kv_store_live.link_refines [OF assms(1-3)] kv_store_live.lookup_refines [OF assms(1,2)] assms(4)
  by auto

lemma link_lookup_refine_witness:
  "refines mem_ops (kvbfs_link mem_ops sample_env sample 5 1 ''b'') (t_link sample_env (tree_of mem_ops sample) 5 1 ''b'') \<and>
   ns_real (OpLookup 1 ''b'')"
proof -
  have r: "ns_real (OpLookup 1 ''b'')"
    by (simp add: vtree_is_vnode_def AGENTFS_VDIR_BASE_def AGENTFS_VERSIONS_INO_def AGENTFS_CTL_NAME_def
        AGENTFS_EVENTS_NAME_def AGENTFS_VERSIONS_NAME_def)
  with link_lookup_refine [OF mem.kv_store_live_axioms sample_fs_inv _ r, of 5 sample_env 1 "''b''"] show ?thesis
    by simp
qed

text \<open>
  C3. A sequence of directory requests: run one after the other, each at its own time, the handlers
  give the same replies, errors included, and the same tree as the specifications, as long as there
  are inode numbers left.
\<close>
theorem namespace_requests_refine:
  assumes "kv_store_live K contents" "fs_inv K c"
    and "\<forall>x\<in>set ops. ns_real (snd x) \<and> link_source (snd x) < 18446744073709551616"
    and "s_next_ino (super c) + length ops < 18446744073709551616"
  shows "fst (ns_runs K ops c) = fst (ns_specs ops (tree_of K c)) \<and>
    tree_of K (snd (ns_runs K ops c)) = snd (ns_specs ops (tree_of K c))"
  using kv_store_live.ns_runs_refine [OF assms] by blast

lemma namespace_requests_refine_witness:
  "fst (ns_runs mem_ops [(sample_env, OpLink 5 1 ''b''), (sample_env, OpUnlink 1 ''a'')] sample) =
   fst (ns_specs [(sample_env, OpLink 5 1 ''b''), (sample_env, OpUnlink 1 ''a'')] (tree_of mem_ops sample))"
  using namespace_requests_refine [OF mem.kv_store_live_axioms sample_fs_inv,
      of "[(sample_env, OpLink 5 1 ''b''), (sample_env, OpUnlink 1 ''a'')]"] by simp

text \<open>
  C4. Safety of the name space: from a consistent file system, every state that a run of safe
  directory requests leads to is consistent again. No inode reference is left over, every name
  leads to a live inode and sits in a live directory, the link count of a file is the number of its
  names, that of a directory is two and the number of its subdirectories, a directory has at most
  one name, and the root exists and has none. A request is safe when it is one the kernel lets
  through (the new parent of a rename is a directory, and the two names are not links of one inode),
  a rename replaces only the last name of an inode, and the 32-bit link count that a request
  increases has room.
\<close>
theorem namespace_consistent:
  assumes "kv_store_live K contents" "fs_inv K c0" "t_wf (tree_of K c0)" "ns_reach K c0 c"
  shows "fs_inv K c \<and> t_wf (tree_of K c)"
  using kv_store_live.ns_reach_inv [OF assms(1,4,2,3)] .

lemma namespace_consistent_witness:
  "fs_inv mem_ops (snd (kvbfs_rmdir mem_ops sample_env sample 1 ''d'')) \<and>
   t_wf (tree_of mem_ops (snd (kvbfs_rmdir mem_ops sample_env sample 1 ''d'')))"
proof -
  have "ns_reach mem_ops sample (snd (ns_run mem_ops sample_env (OpRmdir 1 ''d'') sample))"
    by (intro ns_reach.intros) simp_all
  from namespace_consistent [OF mem.kv_store_live_axioms sample_fs_inv sample_wf this] show ?thesis by simp
qed

text \<open>
  C22. Why that condition is needed: a rename onto one name of a file with other names destroys the
  inode and blocks of the file although the other names stay. The rename succeeds, the other name
  still holds the number, and a lookup of it fails with \<^verbatim>\<open>ENOENT\<close>.
\<close>
theorem rename_destroys_hard_links:
  assumes "kv_store_live K contents" "fs_inv K c"
    and "dirent_lookup K (db c) p name \<notin> {0, n}" "dirent_lookup K (db c) p' name' = n" "n \<noteq> 0"
    and "view K c n = Some i" "\<not> is_dir i"
    and "dirent_lookup K (db c) q other = n" "(q, other) \<noteq> (p', name')" "ns_real (OpLookup q other)"
    and "c' = snd (kvbfs_rename K env c p name p' name')"
  shows "fst (kvbfs_rename K env c p name p' name') = ReplyOk \<and>
    dirent_lookup K (db c') q other = n \<and> fst (kvbfs_lookup K env c' q other) = ReplyErr ENOENT"
  using kv_store_live.rename_clobbers [OF assms] .

lemma rename_destroys_hard_links_witness:
  "\<exists>c. fst (kvbfs_lookup mem_ops sample_env (snd (kvbfs_rename mem_ops sample_env c 1 ''d'' 1 ''a'')) 1 ''b'') = ReplyErr ENOENT"
proof -
  define c where "c = snd (kvbfs_link mem_ops sample_env sample 5 1 ''b'')"
  have r: "refines mem_ops (kvbfs_link mem_ops sample_env sample 5 1 ''b'') (t_link sample_env (tree_of mem_ops sample) 5 1 ''b'')"
    by (rule mem.link_refines) simp_all
  have inv: "fs_inv mem_ops c" using refinesD(3) [OF r] by (simp add: c_def)
  have "t_check (tree_of mem_ops sample) 1 ''b'' = None"
    by (simp add: t_check_def is_dir_def)
  then have t: "tree_of mem_ops c = set_inode (set_entry (tree_of mem_ops sample) 1 ''b'' 5) 5
      (Some ((inc_nlink file_inode)\<lparr>i_ctime := e_now sample_env\<rparr>))"
    using refinesD(2) [OF r] by (simp add: c_def t_link_def is_dir_def Let_def)
  have e: "dirent_lookup mem_ops (db c) (Suc 0) x = (if x = ''b'' then 5 else if x = ''a'' then 5 else if x = ''d'' then 2 else 0)" for x
    using arg_cong [OF t, of "\<lambda>t. t_entry t (Suc 0) x"] by auto
  have v: "view mem_ops c 5 = Some ((inc_nlink file_inode)\<lparr>i_ctime := e_now sample_env\<rparr>)"
    using arg_cong [OF t, of "\<lambda>t. t_inode t 5"] by simp
  have real: "ns_real (OpLookup 1 ''b'')"
    by (simp add: vtree_is_vnode_def AGENTFS_VDIR_BASE_def AGENTFS_VERSIONS_INO_def AGENTFS_CTL_NAME_def
        AGENTFS_EVENTS_NAME_def AGENTFS_VERSIONS_NAME_def)
  show ?thesis
    using rename_destroys_hard_links [OF mem.kv_store_live_axioms inv, of 1 "''d''" 5 1 "''a''" _ 1 "''b''"
        "snd (kvbfs_rename mem_ops sample_env c 1 ''d'' 1 ''a'')" sample_env, OF _ _ _ v _ _ _ real refl]
    by (auto simp: e inc_nlink_def is_dir_def)
qed

end
