(* ===== verification/Files.thy ===== *)
theory Files
  imports FileProps Namespace
begin

text \<open>
  The theorems on file data: the handlers are a flat file of bytes, one by one and in any sequence,
  and what they do to the rest of the file system.
\<close>

section \<open>Requests on one file\<close>

datatype file_op = FRead nat nat | FWrite nat bytes | FTruncate nat | FOpen nat

definition st_sized :: "stat \<Rightarrow> nat \<Rightarrow> stat" where
  "st_sized st n = st\<lparr>st_size := n\<rparr>"

fun file_run ::
  "'s kv_ops \<Rightarrow> fs_env \<Rightarrow> stat \<Rightarrow> nat \<Rightarrow> file_op \<Rightarrow> fhandle \<times> 's kvbfs_ctx \<Rightarrow> reply \<times> fhandle \<times> 's kvbfs_ctx" where
  "file_run K env st ino (FRead off sz) (fh, c) = kvbfs_read K env c ino sz off fh"
| "file_run K env st ino (FWrite off data) (fh, c) = kvbfs_write K env c ino data off fh"
| "file_run K env st ino (FTruncate n) (fh, c) =
     (let (r, c') = kvbfs_setattr K env c ino (st_sized st n) [FUSE_SET_ATTR_SIZE] in (r, fh, c'))"
| "file_run K env st ino (FOpen flags) (fh, c) =
     (let (r, c') = kvbfs_open K env c ino flags in (r, fh, c'))"

text \<open>The same on a list of bytes; only a read has data in its reply.\<close>

fun file_spec :: "file_op \<Rightarrow> bytes \<Rightarrow> bytes option \<times> bytes" where
  "file_spec (FRead off sz) f = (Some (abs_read f off sz), f)"
| "file_spec (FWrite off data) f = (None, abs_write f off data)"
| "file_spec (FTruncate n) f = (None, abs_truncate f n)"
| "file_spec (FOpen flags) f = (None, if flags AND O_TRUNC \<noteq> 0 then [] else f)"

fun reply_data :: "reply \<Rightarrow> bytes option" where
  "reply_data (ReplyBuf b) = Some b"
| "reply_data _ = None"

fun file_op_bounded :: "file_op \<Rightarrow> bool" where
  "file_op_bounded (FRead off sz) \<longleftrightarrow> off + sz < 18446744073709551616"
| "file_op_bounded (FWrite off data) \<longleftrightarrow> off + length data + KVBFS_BLOCK_SIZE \<le> 18446744073709551616"
| "file_op_bounded (FTruncate n) \<longleftrightarrow> n + KVBFS_BLOCK_SIZE \<le> 18446744073709551616"
| "file_op_bounded (FOpen flags) \<longleftrightarrow> True"

fun file_runs ::
  "'s kv_ops \<Rightarrow> nat \<Rightarrow> (fs_env \<times> stat \<times> file_op) list \<Rightarrow> fhandle \<times> 's kvbfs_ctx \<Rightarrow>
   bytes option list \<times> fhandle \<times> 's kvbfs_ctx" where
  "file_runs K ino [] x = ([], x)"
| "file_runs K ino ((env, st, op) # ops) x =
     (let (r, y) = file_run K env st ino op x; (rs, z) = file_runs K ino ops y in (reply_data r # rs, z))"

fun file_specs :: "file_op list \<Rightarrow> bytes \<Rightarrow> bytes option list \<times> bytes" where
  "file_specs [] f = ([], f)"
| "file_specs (op # ops) f =
     (let (r, g) = file_spec op f; (rs, h) = file_specs ops g in (r # rs, h))"

text \<open>What a data request leaves alone: entries, other inodes, other files, the next number.\<close>

definition rest_same :: "'s kv_ops \<Rightarrow> nat \<Rightarrow> 's kvbfs_ctx \<Rightarrow> 's kvbfs_ctx \<Rightarrow> bool" where
  "rest_same K ino c c' \<longleftrightarrow>
     dirent_lookup K (db c') = dirent_lookup K (db c) \<and> super c' = super c \<and>
     (\<forall>n. n \<noteq> ino \<longrightarrow> view K c' n = view K c n \<and>
        (\<forall>b. kv_get K (db c') (kvbfs_key_block n b) = kv_get K (db c) (kvbfs_key_block n b)))"

text \<open>The state of a regular file with data \<open>f\<close>.\<close>

definition is_file :: "'s kv_ops \<Rightarrow> (string \<Rightarrow> bytes option) \<Rightarrow> 's kvbfs_ctx \<Rightarrow> nat \<Rightarrow> bytes \<Rightarrow> bool" where
  "is_file K M c ino f \<longleftrightarrow> (\<exists>i. view K c ino = Some i \<and> S_ISREG (i_mode i) \<and> file_ok M ino i \<and>
     file_of M ino i = f \<and> i_size i = length f)"

lemma is_fileI:
  "\<lbrakk>view K c ino = Some i; S_ISREG (i_mode i); file_ok M ino i; file_of M ino i = f\<rbrakk> \<Longrightarrow> is_file K M c ino f"
  by (auto simp: is_file_def file_of_def file_bytes_def)

lemma S_ISREG_set_attrs: "S_ISREG (i_mode (set_attrs env attr to_set i)) = S_ISREG (i_mode i)"
  by (simp add: S_ISREG_def set_attrs_type)

lemma S_ISREG_written: "i_mode (written_inode now n i) = i_mode i"
  by (simp add: written_inode_def)

context kv_store_live
begin

lemma rest_sameI:
  assumes "view K c' = (view K c)(ino \<mapsto> i')" "super c' = super c"
    and "\<And>k. (\<forall>b. k \<noteq> KBlock ino b) \<Longrightarrow> contents (db c') (encode k) = contents (db c) (encode k)"
  shows "rest_same K ino c c'"
proof -
  have "dirent_lookup K (db c') = dirent_lookup K (db c)"
    using assms(3) by (intro dirent_lookup_cong) simp
  moreover have "kv_get K (db c') (kvbfs_key_block n b) = kv_get K (db c) (kvbfs_key_block n b)"
    if "n \<noteq> ino" for n b
    using assms(3) [of "KBlock n b"] that by (simp add: get encode.simps)
  ultimately show ?thesis using assms(1,2) by (simp add: rest_same_def)
qed

lemma fs_inv_data:
  assumes "fs_inv K c" "view K c ino = Some i" "view K c' = (view K c)(ino \<mapsto> i')" "super c' = super c"
    and "\<And>k. (\<forall>b. k \<noteq> KBlock ino b) \<Longrightarrow> contents (db c') (encode k) = contents (db c) (encode k)"
    and "ok K c'" "refs c' = refs c"
  shows "fs_inv K c'"
proof (rule fs_invI)
  note d = fs_invD [OF assms(1)] fs_inv_lt [OF assms(1,2)]
  show "below (view K c') (s_next_ino (super c'))" using d assms(3,4) by simp
  have "entries_ok (contents (db c')) = entries_ok (contents (db c))"
    using assms(5) by (intro entries_ok_cong) simp
  then show "entries_ok (contents (db c'))" using fs_inv_entries [OF assms(1)] by simp
qed (use assms fs_invD [OF assms(1)] in simp_all)

lemma file_run_refines:
  assumes "fs_inv K c" "is_file K (contents (db c)) c ino f" "real_ino ino" "file_op_bounded op"
    and run: "file_run K env st ino op (fh, c) = (r, fh', c')"
  shows "reply_data r = fst (file_spec op f)" and "is_file K (contents (db c')) c' ino (snd (file_spec op f))"
    and "fs_inv K c'" and "rest_same K ino c c'"
proof -
  obtain i where i: "view K c ino = Some i" "S_ISREG (i_mode i)" "file_ok (contents (db c)) ino i"
    "file_of (contents (db c)) ino i = f"
    using assms(2) by (auto simp: is_file_def)
  note ok = fs_invD(1) [OF assms(1)]
  have "reply_data r = fst (file_spec op f) \<and> is_file K (contents (db c')) c' ino (snd (file_spec op f)) \<and>
    fs_inv K c' \<and> rest_same K ino c c'"
  proof (cases op)
    case (FRead off sz)
    note w = kvbfs_read_file [OF ok i(1) assms(3) i(3), where off = off and sz = sz and env = env and fh = fh]
    have s: "super c' = super c"
      using run FRead i(1) assms(3) ok
      by (auto simp: kvbfs_read_def real_ino_def fs_simps Let_def split: if_splits)
    have v: "view K c' = (view K c)(ino \<mapsto> i)" using w run FRead assms(4) i(1) by (simp add: fun_upd_idem)
    have k: "contents (db c') (encode k) = contents (db c) (encode k)" for k
      using w run FRead assms(4) by simp
    show ?thesis
      using w run FRead assms(4) i fs_inv_data [OF assms(1) i(1) v s k] rest_sameI [OF v s k]
      by (auto intro: is_fileI)
  next
    case (FWrite off data)
    note w = kvbfs_write_file [OF ok i(1) assms(3) i(3) _ refl refl, where off = off and buf = data and env = env and fh = fh]
    have k: "contents (db c') (encode k) = contents (db c) (encode k)" if "\<forall>b. k \<noteq> KBlock ino b" for k
      using w(8) [OF _ that] run FWrite assms(4) by simp
    show ?thesis
      using w run FWrite assms(4) i fs_inv_data [OF assms(1) i(1) _ _ k] rest_sameI [OF _ _ k]
      by (auto intro!: is_fileI simp: S_ISREG_written)
  next
    case (FTruncate n)
    note w = kvbfs_setattr_file [OF ok i(1) assms(3) i(3) _ refl refl, where attr = "st_sized st n" and env = env and to_set = "[FUSE_SET_ATTR_SIZE]"]
    have k: "contents (db c') (encode k) = contents (db c) (encode k)" if "\<forall>b. k \<noteq> KBlock ino b" for k
      using w(7) [OF _ that] run FTruncate assms(4) by (auto simp: st_sized_def split_def Let_def)
    show ?thesis
      using w run FTruncate assms(4) i fs_inv_data [OF assms(1) i(1) _ _ k] rest_sameI [OF _ _ k]
      by (auto intro!: is_fileI simp: S_ISREG_set_attrs st_sized_def split_def Let_def)
  next
    case (FOpen flags)
    note w = kvbfs_open_file [OF ok i(1) assms(3) i(3,2) refl refl, where flags = flags and env = env]
    have k: "contents (db c') (encode k) = contents (db c) (encode k)" if "\<forall>b. k \<noteq> KBlock ino b" for k
      using w(8) [OF that] run FOpen by (auto simp: split_def Let_def)
    have rd: "reply_data r = None" using w(1) run FOpen by (auto simp: split_def Let_def dest!: sym [of "ReplyOpen _ _"])
    show ?thesis
      using w rd run FOpen i fs_inv_data [OF assms(1) i(1) _ _ k] rest_sameI [OF _ _ k]
      by (auto intro!: is_fileI simp: split_def Let_def split: if_splits)
  qed
  then show "reply_data r = fst (file_spec op f)" "is_file K (contents (db c')) c' ino (snd (file_spec op f))"
    "fs_inv K c'" "rest_same K ino c c'" by blast+
qed

lemma file_runs_refine:
  assumes "fs_inv K c" "is_file K (contents (db c)) c ino f" "real_ino ino"
    and "\<forall>x\<in>set ops. file_op_bounded (snd (snd x))" and "file_runs K ino ops (fh, c) = (rs, fh', c')"
  shows "rs = fst (file_specs (map (snd \<circ> snd) ops) f) \<and>
    is_file K (contents (db c')) c' ino (snd (file_specs (map (snd \<circ> snd) ops) f)) \<and>
    fs_inv K c' \<and> rest_same K ino c c'"
  using assms
proof (induction ops arbitrary: fh c f rs fh' c')
  case Nil
  then show ?case by (auto simp: rest_same_def)
next
  case (Cons x ops)
  obtain env st op where x: "x = (env, st, op)" by (cases x)
  obtain r fh1 c1 where r: "file_run K env st ino op (fh, c) = (r, fh1, c1)" by (cases "file_run K env st ino op (fh, c)") auto
  obtain rs2 where rs: "file_runs K ino ops (fh1, c1) = (rs2, fh', c')" "rs = reply_data r # rs2"
    using Cons.prems(5) by (cases "file_runs K ino ops (fh1, c1)") (auto simp: x r)
  have b: "file_op_bounded op" using Cons.prems(4) x by simp
  note s = file_run_refines [OF Cons.prems(1-3) b r]
  note ih = Cons.IH [OF s(3,2) Cons.prems(3) _ rs(1)]
  have "rest_same K ino c c'" using s(4) ih Cons.prems(4) by (auto simp: rest_same_def)
  with ih s Cons.prems(4) show ?case by (simp add: x rs split_def Let_def)
qed

end

text \<open>The single requests, with everything they keep.\<close>

context kv_store_live
begin

lemma write_all:
  assumes "fs_inv K c" "view K c ino = Some i" "real_ino ino" "file_ok (contents (db c)) ino i"
    and "off + length buf + KVBFS_BLOCK_SIZE \<le> 18446744073709551616"
    and run: "kvbfs_write K env c ino buf off fh = (r, fh', c')"
  shows "r = ReplyWrite (length buf) \<and> fh' = mark_written fh \<and>
    view K c' = (view K c)(ino \<mapsto> written_inode (e_now env) (off + length buf) i) \<and>
    file_of (contents (db c')) ino (written_inode (e_now env) (off + length buf) i) =
      abs_write (file_of (contents (db c)) ino i) off buf \<and>
    file_ok (contents (db c')) ino (written_inode (e_now env) (off + length buf) i) \<and>
    fs_inv K c' \<and> rest_same K ino c c'"
proof -
  note w = kvbfs_write_file [OF fs_invD(1) [OF assms(1)] assms(2-5) refl refl, where env = env and fh = fh, unfolded run snd_conv fst_conv]
  show ?thesis
    using w fs_inv_data [OF assms(1,2) w(3) w(9) w(8)] rest_sameI [OF w(3) w(9) w(8)] by simp
qed

lemma read_all:
  assumes "fs_inv K c" "view K c ino = Some i" "real_ino ino" "file_ok (contents (db c)) ino i"
    and "off + sz < 18446744073709551616" and run: "kvbfs_read K env c ino sz off fh = (r, fh', c')"
  shows "r = ReplyBuf (abs_read (file_of (contents (db c)) ino i) off sz) \<and>
    view K c' = view K c \<and> refs c' = refs c \<and> db c' = db c"
  using kvbfs_read_file [OF fs_invD(1) [OF assms(1)] assms(2-5), where env = env and fh = fh] run by simp

lemma setattr_all:
  assumes "fs_inv K c" "view K c ino = Some i" "real_ino ino" "file_ok (contents (db c)) ino i"
    and "st_size attr + KVBFS_BLOCK_SIZE \<le> 18446744073709551616"
    and run: "kvbfs_setattr K env c ino attr to_set = (r, c')"
  shows "r = ReplyAttr (inode_to_stat env (set_attrs env attr to_set i)) 1 \<and>
    view K c' = (view K c)(ino \<mapsto> set_attrs env attr to_set i) \<and>
    file_of (contents (db c')) ino (set_attrs env attr to_set i) =
      (if FUSE_SET_ATTR_SIZE \<in> set to_set
       then abs_truncate (file_of (contents (db c)) ino i) (st_size attr)
       else file_of (contents (db c)) ino i) \<and>
    file_ok (contents (db c')) ino (set_attrs env attr to_set i) \<and> fs_inv K c' \<and> rest_same K ino c c'"
proof -
  note w = kvbfs_setattr_file [OF fs_invD(1) [OF assms(1)] assms(2-5) refl refl, where env = env and to_set = to_set, unfolded run snd_conv fst_conv]
  show ?thesis
    using w(1-6) fs_inv_data [OF assms(1,2) w(2) w(8) w(7) w(4,3)] rest_sameI [OF w(2) w(8) w(7)] by simp
qed

end

section \<open>The sample\<close>

lemma sample_file_ok: "file_ok (DAList.lookup (store_of sample_entries)) 5 file_inode"
proof -
  have "byte_at (DAList.lookup (store_of sample_entries)) 5 i = NUL" if "6 \<le> i" for i
  proof (cases "i div KVBFS_BLOCK_SIZE = 0")
    case True
    then have "i mod KVBFS_BLOCK_SIZE = i" by (simp add: KVBFS_BLOCK_SIZE_def)
    with that True show ?thesis by (simp add: byte_at_def nth_append)
  next
    case False
    then show ?thesis by (simp add: byte_at_def lookup_store_of sample_entries_def)
  qed
  moreover have "full_blocks (DAList.lookup (store_of sample_entries)) 5"
    by (simp add: full_blocks_def lookup_store_of sample_entries_def KVBFS_BLOCK_SIZE_def)
  ultimately show ?thesis
    by (simp add: file_ok_def zero_beyond_def KVBFS_BLOCK_SIZE_def blocks_of_def)
qed

lemma sample_file_of: "file_of (DAList.lookup (store_of sample_entries)) 5 file_inode = ''hello!''"
  by (simp add: file_of_def file_bytes_def byte_at_def KVBFS_BLOCK_SIZE_def upt_rec)

lemma sample_is_file: "is_file mem_ops (DAList.lookup (db sample)) sample 5 ''hello!''"
  using sample_file_ok sample_file_of by (intro is_fileI [where i = file_inode]) simp_all

lemma sample_real [simp]: "real_ino 5"
  by (simp add: real_ino_def vtree_is_vnode_def AGENTFS_VDIR_BASE_def AGENTFS_VERSIONS_INO_def
      AGENTFS_CTL_INO_def AGENTFS_EVENTS_INO_def)

section \<open>Properties\<close>

text \<open>
  \<^verbatim>\<open>kvbfs_write\<close> at any offset and of any length, aligned to blocks or not, over the end and
  past it: the reply is the number of bytes, the file is the old file with the bytes laid over it
  (a gap is filled with zeros), the inode has the larger size, the blocks for it and the time, and
  entries, other inodes and the data of other files are untouched. No reference is left over.
\<close>
theorem write_refines_file:
  assumes "kv_store_live K contents" "fs_inv K c" "view K c ino = Some i" "real_ino ino"
    and "file_ok (contents (db c)) ino i" "off + length buf + KVBFS_BLOCK_SIZE \<le> 18446744073709551616"
    and "kvbfs_write K env c ino buf off fh = (r, fh', c')"
  shows "r = ReplyWrite (length buf) \<and> fh' = mark_written fh \<and>
    view K c' = (view K c)(ino \<mapsto> written_inode (e_now env) (off + length buf) i) \<and>
    file_of (contents (db c')) ino (written_inode (e_now env) (off + length buf) i) =
      abs_write (file_of (contents (db c)) ino i) off buf \<and>
    file_ok (contents (db c')) ino (written_inode (e_now env) (off + length buf) i) \<and>
    fs_inv K c' \<and> rest_same K ino c c'"
  using kv_store_live.write_all [OF assms] .

lemma write_refines_file_witness:
  "file_of (DAList.lookup (db (snd (snd (kvbfs_write mem_ops sample_env sample 5 ''ab'' 8 FhNull))))) 5
     (written_inode (e_now sample_env) 10 file_inode) = ''hello!'' @ [NUL, NUL] @ ''ab''"
proof -
  obtain r fh' c' where w: "kvbfs_write mem_ops sample_env sample 5 ''ab'' 8 FhNull = (r, fh', c')"
    by (cases "kvbfs_write mem_ops sample_env sample 5 ''ab'' 8 FhNull") auto
  have "file_of (DAList.lookup (db c')) 5 (written_inode (e_now sample_env) 10 file_inode) = abs_write ''hello!'' 8 ''ab''"
    using write_refines_file [OF mem.kv_store_live_axioms sample_fs_inv _ sample_real _ _ w, of file_inode]
      sample_file_ok sample_file_of
    by (simp add: KVBFS_BLOCK_SIZE_def)
  moreover have "abs_write ''hello!'' 8 ''ab'' = ''hello!'' @ [NUL, NUL] @ ''ab''"
    by (simp add: abs_write_def zeros_def numeral_eq_Suc)
  ultimately show ?thesis by (simp only: w snd_conv)
qed

text \<open>
  \<^verbatim>\<open>kvbfs_read\<close> returns exactly the bytes of the file in the asked range, cut at its end (nothing
  behind it), with holes as zeros, and changes nothing that can be observed.
\<close>
theorem read_refines_file:
  assumes "kv_store_live K contents" "fs_inv K c" "view K c ino = Some i" "real_ino ino"
    and "file_ok (contents (db c)) ino i" "off + sz < 18446744073709551616"
    and "kvbfs_read K env c ino sz off fh = (r, fh', c')"
  shows "r = ReplyBuf (abs_read (file_of (contents (db c)) ino i) off sz) \<and>
    view K c' = view K c \<and> refs c' = refs c \<and> db c' = db c"
  using kv_store_live.read_all [OF assms] .

lemma read_refines_file_witness:
  "fst (kvbfs_read mem_ops sample_env sample 5 100 2 FhNull) = ReplyBuf ''llo!''"
proof -
  obtain r fh' c' where w: "kvbfs_read mem_ops sample_env sample 5 100 2 FhNull = (r, fh', c')"
    by (cases "kvbfs_read mem_ops sample_env sample 5 100 2 FhNull") auto
  show ?thesis
    using read_refines_file [OF mem.kv_store_live_axioms sample_fs_inv _ sample_real _ _ w, of file_inode]
      sample_file_ok sample_file_of
    by (simp add: w abs_read_def)
qed

text \<open>
  \<^verbatim>\<open>kvbfs_setattr\<close>: the reply has the new attributes, the mode keeps its file type, a new size
  truncates the file or extends it with zeros (shrinking and growing again never shows old data),
  the other attributes are set as the flags say, the change time is now, and nothing else changes.
\<close>
theorem setattr_refines_file:
  assumes "kv_store_live K contents" "fs_inv K c" "view K c ino = Some i" "real_ino ino"
    and "file_ok (contents (db c)) ino i" "st_size attr + KVBFS_BLOCK_SIZE \<le> 18446744073709551616"
    and "kvbfs_setattr K env c ino attr to_set = (r, c')"
  shows "r = ReplyAttr (inode_to_stat env (set_attrs env attr to_set i)) 1 \<and>
    view K c' = (view K c)(ino \<mapsto> set_attrs env attr to_set i) \<and>
    file_of (contents (db c')) ino (set_attrs env attr to_set i) =
      (if FUSE_SET_ATTR_SIZE \<in> set to_set
       then abs_truncate (file_of (contents (db c)) ino i) (st_size attr)
       else file_of (contents (db c)) ino i) \<and>
    file_ok (contents (db c')) ino (set_attrs env attr to_set i) \<and> fs_inv K c' \<and> rest_same K ino c c'"
  using kv_store_live.setattr_all [OF assms] .

lemma setattr_refines_file_witness:
  "\<exists>c' i. file_of (DAList.lookup (db c')) 5 i = ''hel'' \<and>
     c' = snd (kvbfs_setattr mem_ops sample_env sample 5 (st_sized sample_stat 3) [FUSE_SET_ATTR_SIZE])"
proof -
  obtain r c' where w: "kvbfs_setattr mem_ops sample_env sample 5 (st_sized sample_stat 3) [FUSE_SET_ATTR_SIZE] = (r, c')"
    by (cases "kvbfs_setattr mem_ops sample_env sample 5 (st_sized sample_stat 3) [FUSE_SET_ATTR_SIZE]")
  have "file_of (DAList.lookup (db c')) 5 (set_attrs sample_env (st_sized sample_stat 3) [FUSE_SET_ATTR_SIZE] file_inode) =
    abs_truncate ''hello!'' 3"
    using setattr_refines_file [OF mem.kv_store_live_axioms sample_fs_inv _ sample_real _ _ w, of file_inode]
      sample_file_ok sample_file_of
    by (simp add: KVBFS_BLOCK_SIZE_def st_sized_def)
  moreover have "abs_truncate ''hello!'' 3 = ''hel''"
    by (simp add: abs_truncate_def zeros_def numeral_eq_Suc)
  ultimately show ?thesis by (metis w snd_conv)
qed

text \<open>
  C1. Any sequence of opens (truncating or not), reads, writes and truncations of a file behaves as
  the same sequence on a list of bytes: every read returns exactly the bytes that list has in its
  range at that time, at the end the file is the list, and entries, other inodes and other files are
  as they were.
\<close>
theorem file_requests_refine:
  assumes "kv_store_live K contents" "fs_inv K c" "is_file K (contents (db c)) c ino f" "real_ino ino"
    and "\<forall>x\<in>set ops. file_op_bounded (snd (snd x))"
    and "file_runs K ino ops (fh, c) = (rs, fh', c')"
  shows "rs = fst (file_specs (map (snd \<circ> snd) ops) f) \<and>
    is_file K (contents (db c')) c' ino (snd (file_specs (map (snd \<circ> snd) ops) f)) \<and>
    fs_inv K c' \<and> rest_same K ino c c'"
  using kv_store_live.file_runs_refine [OF assms] .

lemma file_requests_refine_witness:
  "fst (file_runs mem_ops 5 [(sample_env, sample_stat, FTruncate 3), (sample_env, sample_stat, FWrite 4 ''x''), (sample_env, sample_stat, FRead 0 9)] (FhNull, sample)) =
     [None, None, Some (''hel'' @ [NUL] @ ''x'')]"
proof -
  let ?ops = "[(sample_env, sample_stat, FTruncate 3), (sample_env, sample_stat, FWrite 4 ''x''), (sample_env, sample_stat, FRead 0 9)]"
  obtain rs fh' c' where w: "file_runs mem_ops 5 ?ops (FhNull, sample) = (rs, fh', c')"
    by (metis prod.exhaust)
  have "rs = fst (file_specs (map (snd \<circ> snd) ?ops) ''hello!'')"
    using file_requests_refine [OF mem.kv_store_live_axioms sample_fs_inv sample_is_file sample_real _ w]
    by (simp add: KVBFS_BLOCK_SIZE_def)
  moreover have "fst (file_specs (map (snd \<circ> snd) ?ops) ''hello!'') = [None, None, Some (''hel'' @ [NUL] @ ''x'')]"
    by (simp add: abs_truncate_def abs_write_def abs_read_def zeros_def numeral_eq_Suc)
  ultimately show ?thesis by (metis w fst_conv)
qed

end
