(* ===== verification/Mount.thy ===== *)
theory Mount
  imports FuseDir FuseIo FuseXattr
begin

text \<open>
  Mounting and unmounting (\<^verbatim>\<open>src/context.c\<close>, and the \<^verbatim>\<open>destroy\<close> callback of
  \<^verbatim>\<open>src/fuse_ops.c\<close>): opening the store, loading or creating the superblock, finding or creating
  \<^verbatim>\<open>/sessions\<close>, filling the session set, and the shutdown sequence. Whether loading a
  model and starting its thread succeed is a parameter.
\<close>

definition ctx_init :: "'s kv_ops \<Rightarrow> timespec \<Rightarrow> 's \<Rightarrow> 's kvbfs_ctx option" where
  "ctx_init K now s =
     (let (okay, c) = super_load K now (ctx_zero s) in if okay then Some c else None)"

definition ensure_sessions_dir :: "'s kv_ops \<Rightarrow> timespec \<Rightarrow> 's kvbfs_ctx \<Rightarrow> nat \<times> 's kvbfs_ctx" where
  "ensure_sessions_dir K now c =
     (case kvbfs_key_dirent KVBFS_KEY_MAX KVBFS_ROOT_INO ''sessions'' of
        None \<Rightarrow> (0, c)
      | Some key \<Rightarrow>
          (case (case kv_get K (db c) key of
                   Some v \<Rightarrow> if length v = SIZEOF_U64 then Some (le_val v) else None
                 | None \<Rightarrow> None) of
             Some ino \<Rightarrow> (ino, c)
           | None \<Rightarrow>
               (case inode_create K now c (S_IFDIR OR 493) of
                  (None, c1) \<Rightarrow> (0, c1)
                | (Some h, c1) \<Rightarrow>
                    let c2 = ic_modify c1 h (\<lambda>i. i\<lparr>i_nlink := 2\<rparr>);
                        (r3, c3) = inode_sync K c2 h;
                        ino = i_ino (ic_get c3 h);
                        c4 = inode_put c3 h;
                        (added, s) = kv_put K (db c4) key (le_bytes 8 ino);
                        c5 = c4\<lparr>db := s\<rparr>
                    in if \<not> added then (0, snd (inode_delete K c5 ino))
                       else (ino, adjust_nlink K c5 KVBFS_ROOT_INO
                                    (\<lambda>i. i\<lparr>i_nlink := u32 (i_nlink i + 1)\<rparr>)))))"

definition session_children :: "'s kv_ops \<Rightarrow> 's \<Rightarrow> nat \<Rightarrow> nat list" where
  "session_children K s dir =
     map (\<lambda>(k, v). le_val v)
       (filter (\<lambda>(k, v). length v = SIZEOF_U64) (kv_iter K s (kvbfs_key_dirent_prefix dir)))"

text \<open>
  Starting a subsystem: loading the model, making the context and creating the thread are calls
  outside the program. When the thread cannot be created the mark that it runs stays set.
\<close>

record llama_start =
  ls_model :: bool
  ls_context :: bool
  ls_thread :: bool

definition llm_init :: "llama_start \<Rightarrow> bool \<times> llm_ctx" where
  "llm_init st =
     (if \<not> ls_model st then (False, llm_zero)
      else if \<not> ls_context st then (False, llm_zero)
      else let l = llm_zero\<lparr>llm_running := True\<rparr>
           in if \<not> ls_thread st then (False, l) else (True, l))"

definition mem_init :: "llama_start \<Rightarrow> bool \<times> mem_ctx" where
  "mem_init st =
     (if \<not> ls_model st then (False, mem_zero)
      else if \<not> ls_context st then (False, mem_zero)
      else let m = mem_zero\<lparr>mem_running := True\<rparr>
           in if \<not> ls_thread st then (False, m) else (True, m))"

definition ctx_init_llm ::
  "'s kv_ops \<Rightarrow> timespec \<Rightarrow> llama_start \<Rightarrow> 's kvbfs_ctx \<Rightarrow> bool \<times> 's kvbfs_ctx" where
  "ctx_init_llm K now st c =
     (let (dir, c1) = ensure_sessions_dir K now c;
          c2 = c1\<lparr>sessions_ino := dir\<rparr>
      in if dir = 0 then (False, c2)
         else
           let c3 = c2\<lparr>session_set := fold (#) (session_children K (db c2) dir) []\<rparr>
           in let (okay, l) = llm_init st in (okay, c3\<lparr>llm := l\<rparr>))"

definition ctx_init_mem :: "llama_start \<Rightarrow> 's kvbfs_ctx \<Rightarrow> bool \<times> 's kvbfs_ctx" where
  "ctx_init_mem st c =
     (let c1 = c\<lparr>events := events_init (events c)\<rparr>; (okay, m) = mem_init st
      in (okay, c1\<lparr>mem := m\<rparr>))"

text \<open>The FUSE callback at unmount, and the destruction of the context after it.\<close>

definition kvbfs_destroy :: "'s kv_ops \<Rightarrow> 's kvbfs_ctx \<Rightarrow> 's kvbfs_ctx" where
  "kvbfs_destroy K c = inode_cache_clear (snd (inode_sync_all K c))"

text \<open>
  \<^verbatim>\<open>ctx_destroy\<close>: \<open>ctx_close\<close> is what follows the end of the workers, \<open>ctx_destroy\<close> the whole
  function when no worker runs; what it leaves behind is the store.
\<close>

definition ctx_close :: "'s kv_ops \<Rightarrow> 's kvbfs_ctx \<Rightarrow> 's" where
  "ctx_close K c =
     (let c1 = c\<lparr>session_set := [], vtree := vtree_destroy (vtree c)\<rparr>;
          c2 = snd (inode_sync_all K c1);
          c3 = inode_cache_clear c2
      in db (snd (super_save K c3)))"

definition ctx_destroy :: "'s kv_ops \<Rightarrow> 's kvbfs_ctx \<Rightarrow> 's" where
  "ctx_destroy K c = ctx_close K (c\<lparr>events := events_destroy (events c)\<rparr>)"

end
