(* ===== verification/Remount.thy ===== *)
theory Remount
  imports Files Mount
begin

text \<open>
  Mounting: what a mount of an empty store and of a store left behind by an unmount gives, and what
  an unmount loses.
\<close>

text \<open>Unmounting in the order of \<^verbatim>\<open>main.c\<close>, and mounting the store again.\<close>

definition remount :: "'s kv_ops \<Rightarrow> timespec \<Rightarrow> 's kvbfs_ctx \<Rightarrow> 's kvbfs_ctx option" where
  "remount K now c = ctx_init K now (ctx_destroy K (kvbfs_destroy K c))"

definition empty_tree :: "timespec \<Rightarrow> tree" where
  "empty_tree now = \<lparr>t_inode = [KVBFS_ROOT_INO \<mapsto> root_inode now], t_entry = (\<lambda>p name. 0), t_next = 2\<rparr>"

lemma empty_tree_wf: "t_wf (empty_tree now)"
  by (auto simp: t_wf_def t_shape_def t_counts_def counted_def dir_nlink_def subdirs_def live_dir_def links_def names_ok_def
      empty_tree_def is_dir_def KVBFS_ROOT_INO_def
      root_inode_def mode_defs)

lemma ctx_zero_simps [simp]:
  "db (ctx_zero s) = s" "icache (ctx_zero s) = DAList.empty" "super (ctx_zero s) = super0"
  by (simp_all add: ctx_zero_def)

lemma refs_uncached: "icache c = DAList.empty \<Longrightarrow> refs c = (\<lambda>_. 0)"
  by (rule ext) (simp add: refs_def)

lemma view_uncached: "icache c = DAList.empty \<Longrightarrow> view K c = inode_load K (db c)"
  by (rule ext) (simp add: view_def)

context kv_store_live
begin

lemma ctx_init_fresh:
  assumes "\<And>k. contents s k = None" "wf_timespec now"
  shows "\<exists>c. ctx_init K now s = Some c \<and> tree_of K c = empty_tree now \<and> fs_inv K c"
proof -
  define sb where "sb = \<lparr>s_magic = KVBFS_MAGIC, s_version = KVBFS_VERSION, s_next_ino = KVBFS_ROOT_INO + 1\<rparr>"
  define s1 where "s1 = snd (kv_put K s KVBFS_KEY_SUPER (super_bytes sb))"
  define s2 where "s2 = snd (kv_put K s1 (kvbfs_key_inode KVBFS_ROOT_INO) (inode_bytes (root_inode now)))"
  define c where "c = (ctx_zero s)\<lparr>super := sb, db := s2\<rparr>"
  have c: "ctx_init K now s = Some c"
    using put_live assms(1)
    by (simp add: ctx_init_def super_load_def super_save_def super_create_root_def get Let_def split_def
        sb_def s1_def s2_def c_def)
  have s2: "contents s2 = [encode KSuper \<mapsto> super_bytes sb, encode (KInode KVBFS_ROOT_INO) \<mapsto> inode_bytes (root_inode now)]"
    using assms(1) by (auto simp: s2_def s1_def fun_eq_iff encode.simps)
  have rt: "wf_inode (root_inode now)"
    using assms(2) by (simp add: wf_inode_def root_inode_def KVBFS_ROOT_INO_def mode_defs)
  have load: "inode_load K s2 = [KVBFS_ROOT_INO \<mapsto> root_inode now]"
    using rt by (auto simp: fun_eq_iff inode_load_contents s2 inode_roundtrip)
  have look: "dirent_lookup K s2 p name = 0" for p name
    by (simp add: dirent_lookup_dlook dlook_def s2)
  have t: "tree_of K c = empty_tree now"
    by (simp add: tree_of_def empty_tree_def view_uncached c_def load look sb_def KVBFS_ROOT_INO_def fun_eq_iff)
  have "fs_inv K c"
  proof (rule fs_invI)
    show "ok K c" by (simp add: ok_def images_ok_def c_def load root_inode_def)
    show "entries_ok (contents (db c))" by (simp add: entries_ok_def c_def s2)
  qed (auto simp: c_def sb_def below_def view_uncached load KVBFS_ROOT_INO_def refs_uncached)
  with c t show ?thesis by blast
qed

text \<open>The store an unmount leaves: everything as it was, and the superblock.\<close>

lemma ok_uncached: "ok K c \<Longrightarrow> icache c' = DAList.empty \<Longrightarrow> db c' = db c \<Longrightarrow> ok K c'"
  by (simp add: ok_def)

lemma remount_state:
  assumes inv: "fs_inv K c" and sup: "wf_super (super c)" "s_magic (super c) = KVBFS_MAGIC"
  obtains c' where "remount K now c = Some c'" "icache c' = DAList.empty" "super c' = super c"
    "contents (db c') = (contents (db c))(encode KSuper \<mapsto> super_bytes (super c))"
proof -
  define s where "s = snd (kv_put K (db c) KVBFS_KEY_SUPER (super_bytes (super c)))"
  define c' where "c' = (ctx_zero s)\<lparr>super := super c\<rparr>"
  have d: "kvbfs_destroy K c = c\<lparr>icache := DAList.empty\<rparr>"
    using fs_invD(1) [OF inv] by (simp add: kvbfs_destroy_def inode_cache_clear_def fs_simps)
  have "ok K ((c\<lparr>icache := DAList.empty\<rparr>)\<lparr>events := events_destroy (events c), session_set := [],
      vtree := vtree_destroy (vtree c)\<rparr>)"
    using fs_invD(1) [OF inv] by (rule ok_uncached) simp_all
  then have x: "ctx_destroy K (kvbfs_destroy K c) = s"
    by (simp add: d ctx_destroy_def ctx_close_def inode_cache_clear_def inode_sync_all_clean super_save_def s_def Let_def split_def)
  have "contents s = (contents (db c))(encode KSuper \<mapsto> super_bytes (super c))"
    by (simp add: s_def super_key_encode)
  moreover from this have "remount K now c = Some c'"
    using sup by (simp add: remount_def x ctx_init_def super_load_def get super_key_encode super_roundtrip c'_def)
  ultimately show thesis
    using that [of c'] by (simp add: c'_def)
qed

text \<open>Names, numbers and blocks survive; every inode is again what its stored image says.\<close>

lemma remount_keeps:
  assumes "fs_inv K c" "wf_super (super c)" "s_magic (super c) = KVBFS_MAGIC"
  shows "\<exists>c'. remount K now c = Some c' \<and> dirent_lookup K (db c') = dirent_lookup K (db c) \<and>
    super c' = super c \<and> view K c' = inode_load K (db c) \<and>
    (\<forall>n b. kv_get K (db c') (kvbfs_key_block n b) = kv_get K (db c) (kvbfs_key_block n b))"
proof -
  obtain c' where c': "remount K now c = Some c'" "icache c' = DAList.empty" "super c' = super c"
    "contents (db c') = (contents (db c))(encode KSuper \<mapsto> super_bytes (super c))"
    using remount_state [OF assms] .
  have "inode_load K (db c') n = inode_load K (db c) n" for n
    by (rule inode_load_cong) (simp add: c')
  moreover have "kv_get K (db c') (kvbfs_key_block n b) = kv_get K (db c) (kvbfs_key_block n b)" for n b
    using c'(4) by (simp add: get encode.simps(4) [symmetric])
  moreover have "dirent_lookup K (db c') = dirent_lookup K (db c)"
    by (rule dirent_lookup_cong) (simp add: c')
  ultimately show ?thesis using c'(1-3) by (auto simp: view_uncached fun_eq_iff)
qed

text \<open>No data request and no \<^verbatim>\<open>fsync\<close> writes an inode image.\<close>

lemma fsync_clean:
  assumes "fs_inv K c" "view K c ino \<noteq> None"
  shows "fst (kvbfs_fsync K c ino) = ReplyOk" "db (snd (kvbfs_fsync K c ino)) = db c"
    "super (snd (kvbfs_fsync K c ino)) = super c" "fs_inv K (snd (kvbfs_fsync K c ino))"
proof -
  have eq: "kvbfs_fsync K c ino = (ReplyOk, inode_put (get_c K c ino) ino)"
    using assms fs_invD(1) [OF assms(1)] by (simp add: kvbfs_fsync_def fs_simps Let_def)
  show "fst (kvbfs_fsync K c ino) = ReplyOk" "db (snd (kvbfs_fsync K c ino)) = db c"
    "super (snd (kvbfs_fsync K c ino)) = super c" "fs_inv K (snd (kvbfs_fsync K c ino))"
    using assms fs_invD(1) [OF assms(1)] peek_obs [OF assms] by (simp_all add: eq fs_simps)
qed

lemma write_keeps_images:
  assumes "fs_inv K c" "view K c ino = Some i" "real_ino ino" "file_ok (contents (db c)) ino i"
    and "off + length buf + KVBFS_BLOCK_SIZE \<le> 18446744073709551616"
    and run: "kvbfs_write K env c ino buf off fh = (r, fh', c')"
  shows "inode_load K (db c') n = inode_load K (db c) n" "full_blocks (contents (db c')) ino" "super c' = super c"
proof -
  note w = kvbfs_write_file [OF fs_invD(1) [OF assms(1)] assms(2-5) refl refl, where env = env and fh = fh,
      unfolded run snd_conv fst_conv]
  show "inode_load K (db c') n = inode_load K (db c) n" by (rule inode_load_cong) (simp add: w(8))
  show "full_blocks (contents (db c')) ino" using w(5) by (simp add: file_ok_def)
  show "super c' = super c" by (rule w(9))
qed

lemma write_lost:
  assumes inv: "fs_inv K c" and sup: "wf_super (super c)" "s_magic (super c) = KVBFS_MAGIC"
    and i: "view K c ino = Some i" "real_ino ino" "file_ok (contents (db c)) ino i"
    and i0: "inode_load K (db c) ino = Some i0"
    and len: "off + length buf + KVBFS_BLOCK_SIZE \<le> 18446744073709551616"
    and run: "kvbfs_write K env c ino buf off fh = (r, fh', c1)"
    and sync: "kvbfs_fsync K c1 ino = (r2, c2)" and re: "remount K now c2 = Some c3"
    and rd: "pos + sz < 18446744073709551616"
  shows "r = ReplyWrite (length buf) \<and> r2 = ReplyOk \<and> view K c3 ino = Some i0 \<and>
    fst (kvbfs_read K env' c3 ino sz pos fh2) = ReplyBuf (abs_read (file_of (contents (db c1)) ino i0) pos sz)"
proof -
  note w = write_all [OF inv i len run] and im = write_keeps_images [OF inv i len run]
  have inv1: "fs_inv K c1" and v1: "view K c1 ino \<noteq> None" using w by auto
  note f = fsync_clean [OF inv1 v1, unfolded sync fst_conv snd_conv]
  obtain c' where c': "remount K now c2 = Some c'" "icache c' = DAList.empty" "super c' = super c2"
    "contents (db c') = (contents (db c2))(encode KSuper \<mapsto> super_bytes (super c2))"
    using remount_state [OF f(4), of now] sup f(3) im(3) by auto
  then have c3: "c' = c3" using re by simp
  have ld: "inode_load K (db c3) n = inode_load K (db c) n" for n
    using im(1) [of n] c'(4) f(2) inode_load_cong [of "db c3" n "db c1"] by (simp add: c3)
  have v3: "view K c3 ino = Some i0" using i0 c'(2) by (simp add: c3 view_uncached ld)
  have "images_ok K (db c)" using ok_images fs_invD(1) [OF inv] by blast
  then have ok3: "ok K c3" using c'(2) ld by (simp add: c3 ok_def images_ok_def)
  have full: "full_blocks (contents (db c3)) ino"
    using im(2) c'(4) f(2) by (simp add: c3 full_blocks_def)
  have same: "file_of (contents (db c3)) ino i0 = file_of (contents (db c1)) ino i0"
    using c'(4) f(2) by (simp add: c3 file_of_def file_bytes_def byte_at_def)
  show ?thesis
    using kvbfs_read_bytes(1) [OF ok3 v3 i(2) full rd, of env' fh2] w f(1) v3 same by simp
qed

end

section \<open>The sample\<close>

lemma sample_magic [simp]: "s_magic sample_super = KVBFS_MAGIC"
  by (simp add: sample_super_def)

section \<open>Properties\<close>

text \<open>
  Mounting an empty store gives the empty file system: a root directory with no entries, two as
  the next number, the invariant, and with it a consistent name space.
\<close>
theorem fresh_mount:
  assumes "kv_store_live K contents" "\<forall>k. contents s k = None" "wf_timespec now"
  shows "\<exists>c. ctx_init K now s = Some c \<and> tree_of K c = empty_tree now \<and> fs_inv K c \<and> t_wf (tree_of K c)"
proof -
  obtain c where "ctx_init K now s = Some c" "tree_of K c = empty_tree now" "fs_inv K c"
    using kv_store_live.ctx_init_fresh [OF assms(1) _ assms(3), of s] assms(2) by auto
  then show ?thesis using empty_tree_wf [of now] by auto
qed

lemma fresh_mount_witness: "\<exists>c. ctx_init mem_ops t0 DAList.empty = Some c \<and> fs_inv mem_ops c"
  using fresh_mount [OF mem.kv_store_live_axioms _ wf_t(1), of DAList.empty] by auto

text \<open>
  C23. What survives an unmount and mount: the entries, the next number and all blocks are as they
  were, but every inode is again what its stored image says, whatever the cache held.
\<close>
theorem remount_keeps_names_and_blocks:
  assumes "kv_store_live K contents" "fs_inv K c" "wf_super (super c)" "s_magic (super c) = KVBFS_MAGIC"
  shows "\<exists>c'. remount K now c = Some c' \<and> dirent_lookup K (db c') = dirent_lookup K (db c) \<and>
    super c' = super c \<and> view K c' = inode_load K (db c) \<and>
    (\<forall>n b. kv_get K (db c') (kvbfs_key_block n b) = kv_get K (db c) (kvbfs_key_block n b))"
  using kv_store_live.remount_keeps [OF assms] .

lemma remount_keeps_names_and_blocks_witness: "\<exists>c'. remount mem_ops t1 sample = Some c' \<and> super c' = sample_super"
  using remount_keeps_names_and_blocks [OF mem.kv_store_live_axioms sample_fs_inv, of t1] by auto

text \<open>
  C24. Data written to a file is lost at the next unmount as far as it reaches behind the size the
  file had when its image was stored (zero, for a file that was created): the write reports success,
  so does \<^verbatim>\<open>fsync\<close>, but nothing marks the inode as modified, no image is written, and after
  a mount the file has the inode of its image and a read stops at the old size.
\<close>
theorem written_size_is_lost:
  assumes "kv_store_live K contents" "fs_inv K c" "wf_super (super c)" "s_magic (super c) = KVBFS_MAGIC"
    and "view K c ino = Some i" "real_ino ino" "file_ok (contents (db c)) ino i"
    and "inode_load K (db c) ino = Some i0"
    and "off + length buf + KVBFS_BLOCK_SIZE \<le> 18446744073709551616"
    and "kvbfs_write K env c ino buf off fh = (r, fh', c1)" "kvbfs_fsync K c1 ino = (r2, c2)"
    and "remount K now c2 = Some c3" "pos + sz < 18446744073709551616"
  shows "r = ReplyWrite (length buf) \<and> r2 = ReplyOk \<and> view K c3 ino = Some i0 \<and>
    fst (kvbfs_read K env' c3 ino sz pos fh2) = ReplyBuf (abs_read (file_of (contents (db c1)) ino i0) pos sz)"
  using kv_store_live.write_lost [OF assms] .

lemma written_size_is_lost_witness:
  "\<exists>c3. remount mem_ops t1 (snd (kvbfs_fsync mem_ops
       (snd (snd (kvbfs_write mem_ops sample_env sample 5 ''more'' 6 FhNull))) 5)) = Some c3 \<and>
     fst (kvbfs_read mem_ops sample_env c3 5 100 6 FhNull) = ReplyBuf []"
proof -
  obtain r fh' c1 where w: "kvbfs_write mem_ops sample_env sample 5 ''more'' 6 FhNull = (r, fh', c1)"
    by (metis prod.exhaust)
  obtain r2 c2' where f: "kvbfs_fsync mem_ops c1 5 = (r2, c2')" by fastforce
  note x = mem.write_all [OF sample_fs_inv _ sample_real _ _ w, of file_inode]
  have inv1: "fs_inv mem_ops c1" "view mem_ops c1 5 \<noteq> None" "super c1 = sample_super"
    using x sample_file_ok by (simp_all add: KVBFS_BLOCK_SIZE_def rest_same_def)
  note y = mem.fsync_clean [OF inv1(1,2), unfolded f fst_conv snd_conv]
  obtain c3 where r: "remount mem_ops t1 c2' = Some c3"
    using mem.remount_state [OF y(4), of t1] inv1(3) y(3) by (metis sample_magic wf_sample(4))
  have l: "inode_load mem_ops (db sample) 5 = Some file_inode" by (simp add: sample_load)
  have "fst (kvbfs_read mem_ops sample_env c3 5 100 6 FhNull) = ReplyBuf (abs_read (file_of (DAList.lookup (db c1)) 5 file_inode) 6 100)"
    using written_size_is_lost [OF mem.kv_store_live_axioms sample_fs_inv _ _ _ sample_real _ l _ w f r, of file_inode 6 100]
      sample_file_ok by (simp add: KVBFS_BLOCK_SIZE_def)
  then show ?thesis
    using r by (auto simp: w f abs_read_def file_of_def file_bytes_def)
qed

end
