(* ===== verification/Readdir.thy ===== *)
theory Readdir
  imports Namespace
begin

text \<open>
  The theorems on listings: what a listing from the start holds, and what is missing when it is
  continued at an offset the handler itself gave out.
\<close>

section \<open>The loop\<close>

definition dir_entry :: "'s kv_ops \<Rightarrow> 's \<Rightarrow> nat \<Rightarrow> string \<times> bytes \<Rightarrow> nat \<Rightarrow> direntry" where
  "dir_entry K s plen e off =
     (let child = le_val (take 8 (snd e)) in
      case inode_load K s child of
        Some i \<Rightarrow> \<lparr>de_name = take 255 (drop plen (fst e)), de_ino = child, de_mode = i_mode i, de_off = off\<rparr>
      | None \<Rightarrow> \<lparr>de_name = take 255 (drop plen (fst e)), de_ino = 0, de_mode = 0, de_off = off\<rparr>)"

text \<open>The entries after the first \<open>off - idx\<close>, numbered from \<open>idx\<close>.\<close>

fun listed :: "'s kv_ops \<Rightarrow> 's \<Rightarrow> nat \<Rightarrow> nat \<Rightarrow> (string \<times> bytes) list \<Rightarrow> nat \<Rightarrow> direntry list" where
  "listed K s off plen [] idx = []"
| "listed K s off plen (e # es) idx =
     (if idx + 1 \<le> off then listed K s off plen es (idx + 1)
      else dir_entry K s plen e (idx + 2) # listed K s off plen es (idx + 1))"

lemma readdir_loop_fits:
  assumes "\<And>name. e_dirent_size env name \<le> B" "snd buf + B * length es \<le> sz"
  shows "\<exists>n. readdir_loop K env s sz off plen es idx buf =
      (True, idx + length es, (fst buf @ listed K s off plen es idx, n)) \<and> n \<le> snd buf + B * length es"
  using assms(2)
proof (induction es arbitrary: idx buf)
  case Nil
  show ?case by (cases buf) simp
next
  case (Cons e es)
  obtain k v where e: "e = (k, v)" by (cases e)
  show ?case
  proof (cases "idx + 1 \<le> off")
    case True
    have "snd buf + B * length es \<le> sz" using Cons.prems by simp
    from Cons.IH [OF this, of "idx + 1"] obtain n where
      "readdir_loop K env s sz off plen es (idx + 1) buf =
        (True, idx + 1 + length es, (fst buf @ listed K s off plen es (idx + 1), n))"
      "n \<le> snd buf + B * length es" by blast
    with True show ?thesis by (auto simp: e Let_def)
  next
    case False
    let ?d = "dir_entry K s plen (k, v) (idx + 2)"
    let ?b = "(fst buf @ [?d], snd buf + e_dirent_size env (take 255 (drop plen k)))"
    have sz: "e_dirent_size env (take 255 (drop plen k)) \<le> B" by (rule assms(1))
    then have fit: "e_dirent_size env (take 255 (drop plen k)) \<le> sz - snd buf"
      using Cons.prems by simp
    have "snd ?b + B * length es \<le> sz" using Cons.prems sz by simp
    from Cons.IH [OF this, of "idx + 1"] obtain n where
      n: "readdir_loop K env s sz off plen es (idx + 1) ?b =
        (True, idx + 1 + length es, (fst ?b @ listed K s off plen es (idx + 1), n))"
      "n \<le> snd ?b + B * length es" by blast
    have "readdir_loop K env s sz off plen (e # es) idx buf = readdir_loop K env s sz off plen es (idx + 1) ?b"
      using False fit by (simp add: e Let_def add_direntry_def dir_entry_def split: option.splits)
    moreover have "n \<le> snd buf + B * length (e # es)" using n(2) sz by simp
    ultimately show ?thesis using False n(1) by (auto simp: e)
  qed
qed

lemma listed_drop:
  "listed K s off plen es idx =
     map (\<lambda>j. dir_entry K s plen (es ! j) (idx + j + 2)) [off - idx..<length es]"
proof (induction es arbitrary: idx)
  case (Cons e es)
  have sh: "map (\<lambda>j. f (Suc j)) [a..<b] = map f [Suc a..<Suc b]" for f :: "nat \<Rightarrow> direntry" and a b
    by (simp add: map_Suc_upt [symmetric] del: map_Suc_upt upt_Suc)
  have t: "listed K s off plen es (idx + 1) =
      map (\<lambda>j. dir_entry K s plen ((e # es) ! j) (idx + j + 2)) [Suc (off - (idx + 1))..<Suc (length es)]"
    using sh [of "\<lambda>j. dir_entry K s plen ((e # es) ! j) (idx + j + 2)" "off - (idx + 1)" "length es"]
    by (simp add: Cons.IH)
  show ?case
  proof (cases "idx + 1 \<le> off")
    case True
    then have "Suc (off - (idx + 1)) = off - idx" by simp
    with True t show ?thesis by simp
  next
    case False
    then have o: "off - idx = 0" "off - (idx + 1) = 0" by simp_all
    have "[0..<Suc (length es)] = 0 # [Suc 0..<Suc (length es)]" by (simp add: upt_conv_Cons del: upt_Suc)
    with False t o show ?thesis by (simp del: upt_Suc)
  qed
qed simp

section \<open>A whole listing\<close>

definition dots :: "nat \<Rightarrow> direntry list" where
  "dots p = [\<lparr>de_name = ''.'', de_ino = p, de_mode = S_IFDIR, de_off = 1\<rparr>,
     \<lparr>de_name = ''..'', de_ino = p, de_mode = S_IFDIR, de_off = 2\<rparr>]"

text \<open>The virtual files of the root come last.\<close>

definition virtual_entries :: "nat \<Rightarrow> nat \<Rightarrow> nat \<Rightarrow> direntry list" where
  "virtual_entries p off idx =
     (if p = KVBFS_ROOT_INO then
        (if off < idx + 1 then [\<lparr>de_name = AGENTFS_CTL_NAME, de_ino = AGENTFS_CTL_INO,
           de_mode = S_IFREG OR 432, de_off = idx + 2\<rparr>] else []) @
        (if off < idx + 2 then [\<lparr>de_name = AGENTFS_EVENTS_NAME, de_ino = AGENTFS_EVENTS_INO,
           de_mode = S_IFREG OR 288, de_off = idx + 3\<rparr>] else []) @
        (if off < idx + 3 then [\<lparr>de_name = AGENTFS_VERSIONS_NAME, de_ino = AGENTFS_VERSIONS_INO,
           de_mode = S_IFDIR OR 365, de_off = idx + 4\<rparr>] else [])
      else [])"

lemma try_fits:
  "snd b + B \<le> sz \<Longrightarrow> e_dirent_size env name \<le> B \<Longrightarrow>
   try_direntry env sz b name ino mode off =
     (fst b @ [\<lparr>de_name = name, de_ino = ino, de_mode = mode, de_off = off\<rparr>], snd b + e_dirent_size env name)"
  by (auto simp: try_direntry_def add_direntry_def Let_def)

lemma virtual_entries_fit:
  assumes B: "\<And>name. e_dirent_size env name \<le> B" and sz: "snd b + 3 * B \<le> sz"
  shows "fst (readdir_virtual_entries env sz off idx b) = fst b @ virtual_entries KVBFS_ROOT_INO off idx"
proof -
  have one: "try_direntry env sz x name ino mode o' =
      (fst x @ [\<lparr>de_name = name, de_ino = ino, de_mode = mode, de_off = o'\<rparr>], snd x + e_dirent_size env name)"
    if "snd x \<le> snd b + 2 * B" for x name ino mode o'
    using that sz by (intro try_fits [OF _ B]) simp
  have b1: "snd b + e_dirent_size env n \<le> snd b + 2 * B" "snd b + e_dirent_size env n + e_dirent_size env m \<le> snd b + 2 * B"
    for n m using B [of n] B [of m] by simp_all
  show ?thesis
    using b1 by (simp add: readdir_virtual_entries_def virtual_entries_def Let_def one)
qed

lemma readdir_real_start:
  assumes B: "\<And>name. e_dirent_size env name \<le> B"
    and sz: "B * (length (kv_iter K s (kvbfs_key_dirent_prefix p)) + 5) \<le> sz"
  shows "readdir_real K env s p sz 0 = dots p @
      listed K s 0 (length (kvbfs_key_dirent_prefix p)) (kv_iter K s (kvbfs_key_dirent_prefix p)) 2 @
      virtual_entries p 0 (2 + length (kv_iter K s (kvbfs_key_dirent_prefix p)))"
proof -
  let ?pre = "kvbfs_key_dirent_prefix p"
  let ?es = "kv_iter K s ?pre"
  have d: "e_dirent_size env ''.'' \<le> B" "e_dirent_size env ''..'' \<le> B" by (rule B)+
  have d': "e_dirent_size env ''.'' \<le> sz" "e_dirent_size env ''..'' \<le> sz - e_dirent_size env ''.''"
    using d sz by (simp_all add: algebra_simps)
  let ?b = "(dots p, e_dirent_size env ''.'' + e_dirent_size env ''..'')"
  have "snd ?b + B * length ?es \<le> sz" using d sz by (simp add: algebra_simps)
  from readdir_loop_fits [OF B this, where K = K and s = s and off = 0 and plen = "length ?pre" and idx = 2] obtain n where
    n: "readdir_loop K env s sz 0 (length ?pre) ?es 2 ?b =
      (True, 2 + length ?es, (fst ?b @ listed K s 0 (length ?pre) ?es 2, n))"
    "n \<le> snd ?b + B * length ?es" by blast
  have "snd (fst ?b @ listed K s 0 (length ?pre) ?es 2, n) + 3 * B \<le> sz"
    using n(2) d sz by (simp add: algebra_simps)
  from virtual_entries_fit [OF B this, of 0 "2 + length ?es"] show ?thesis
    using d' n(1)
    by (cases "p = KVBFS_ROOT_INO")
      (simp_all add: readdir_real_def add_direntry_def dots_def Let_def virtual_entries_def [of p] numeral_2_eq_2)
qed

lemma readdir_real_resume:
  assumes B: "\<And>name. e_dirent_size env name \<le> B"
    and sz: "B * (length (kv_iter K s (kvbfs_key_dirent_prefix p)) + 5) \<le> sz" and off: "2 \<le> off"
  shows "readdir_real K env s p sz off =
      listed K s off (length (kvbfs_key_dirent_prefix p)) (kv_iter K s (kvbfs_key_dirent_prefix p)) 0 @
      virtual_entries p off (length (kv_iter K s (kvbfs_key_dirent_prefix p)))"
proof -
  let ?pre = "kvbfs_key_dirent_prefix p"
  let ?es = "kv_iter K s ?pre"
  have "snd ([] :: direntry list, 0) + B * length ?es \<le> sz" using sz by (simp add: algebra_simps)
  from readdir_loop_fits [OF B this, where K = K and s = s and off = off and plen = "length ?pre" and idx = 0] obtain n where
    n: "readdir_loop K env s sz off (length ?pre) ?es 0 ([], 0) =
      (True, length ?es, (listed K s off (length ?pre) ?es 0, n))"
    "n \<le> B * length ?es" by auto
  have "snd (listed K s off (length ?pre) ?es 0, n) + 3 * B \<le> sz"
    using n(2) sz by (simp add: algebra_simps)
  from virtual_entries_fit [OF B this, of off "length ?es"] show ?thesis
    using n(1) off
    by (cases "p = KVBFS_ROOT_INO") (simp_all add: readdir_real_def Let_def virtual_entries_def [of p])
qed

section \<open>Directories\<close>

context kv_store
begin

text \<open>What the entries of a well-formed store say.\<close>

lemma listing_names:
  assumes inv: "entries_ok (contents s)"
    and short: "\<And>name. dirent_lookup K s p name \<noteq> 0 \<Longrightarrow> length name \<le> 255"
    and es: "es = kv_iter K s (kvbfs_key_dirent_prefix p)"
  shows "distinct (map (\<lambda>e. drop (length (kvbfs_key_dirent_prefix p)) (fst e)) es)"
    and "(name, n) \<in> (\<lambda>e. (take 255 (drop (length (kvbfs_key_dirent_prefix p)) (fst e)), le_val (take 8 (snd e)))) ` set es
      \<longleftrightarrow> dirent_lookup K s p name = n \<and> n \<noteq> 0"
proof -
  let ?l = "length (kvbfs_key_dirent_prefix p)"
  have raw: "\<exists>name. k = encode (KDirent p name)" if "(k, v) \<in> set es" for k v
    using that by (auto simp: es iter_mem prefix_def kvbfs_key_dirent_prefix_def encode.simps)
  have val: "drop ?l (encode (KDirent p name)) = name" for name
    by (simp add: kvbfs_key_dirent_prefix_def encode.simps)
  have look: "dirent_lookup K s p name = le_val v \<and> le_val v \<noteq> 0 \<and> take 8 v = v"
    if "contents s (encode (KDirent p name)) = Some v" for name v
  proof -
    have "name_fits p name" "length v = SIZEOF_U64" "le_val v \<noteq> 0"
      using inv that by (auto simp: entries_ok_def)
    then show ?thesis using that by (simp add: dirent_lookup_dlook dlook_def SIZEOF_U64_def)
  qed
  have mem: "(encode (KDirent p name), v) \<in> set es \<longleftrightarrow> contents s (encode (KDirent p name)) = Some v" for name v
    by (simp add: es iter_mem prefix_iffs)
  have inj: "inj_on (drop ?l) (fst ` set es)"
  proof (rule inj_onI)
    fix x y assume "x \<in> fst ` set es" "y \<in> fst ` set es" "drop ?l x = drop ?l y"
    moreover from this obtain a b where "x = encode (KDirent p a)" "y = encode (KDirent p b)"
      using raw by fastforce
    ultimately show "x = y" by (simp add: val)
  qed
  have "distinct (map (drop ?l) (map fst es))"
    using iter_distinct [of s "kvbfs_key_dirent_prefix p"] es inj by (auto simp: distinct_map intro: comp_inj_on)
  then show "distinct (map (\<lambda>e. drop ?l (fst e)) es)" by (simp add: comp_def)
  show "(name, n) \<in> (\<lambda>e. (take 255 (drop ?l (fst e)), le_val (take 8 (snd e)))) ` set es
      \<longleftrightarrow> dirent_lookup K s p name = n \<and> n \<noteq> 0"
  proof
    assume "(name, n) \<in> (\<lambda>e. (take 255 (drop ?l (fst e)), le_val (take 8 (snd e)))) ` set es"
    then obtain k v where kv: "(k, v) \<in> set es" "name = take 255 (drop ?l k)" "n = le_val (take 8 v)" by auto
    obtain nm where k: "k = encode (KDirent p nm)" using raw [OF kv(1)] ..
    then have "contents s (encode (KDirent p nm)) = Some v" using kv(1) mem by simp
    from look [OF this] short [of nm] kv(2,3) k show "dirent_lookup K s p name = n \<and> n \<noteq> 0"
      by (simp add: val)
  next
    assume n: "dirent_lookup K s p name = n \<and> n \<noteq> 0"
    then obtain v where v: "contents s (encode (KDirent p name)) = Some v"
      by (auto simp: dirent_lookup_dlook dlook_def split: if_splits option.splits)
    have "(encode (KDirent p name), v) \<in> set es" using v mem by simp
    moreover have "take 255 (drop ?l (encode (KDirent p name))) = name" using short n by (simp add: val)
    moreover have "le_val (take 8 v) = n" using look [OF v] n by simp
    ultimately show "(name, n) \<in> (\<lambda>e. (take 255 (drop ?l (fst e)), le_val (take 8 (snd e)))) ` set es"
      by (force simp: image_iff)
  qed
qed

lemma readdir_reply:
  assumes "ok K c" "view K c p \<noteq> None" "p \<noteq> AGENTFS_VERSIONS_INO" "\<not> vtree_is_vnode p"
  shows "fst (kvbfs_readdir K env c p sz off) = ReplyDir (readdir_real K env (db c) p sz off)"
  using assms by (simp add: kvbfs_readdir_def fs_simps Let_def)

end

text \<open>What a listing shows of an inode: the number and mode of its image.\<close>

definition shown :: "'s kv_ops \<Rightarrow> 's \<Rightarrow> nat \<Rightarrow> nat \<times> nat" where
  "shown K s n = (case inode_load K s n of Some i \<Rightarrow> (n, i_mode i) | None \<Rightarrow> (0, 0))"

lemma dir_entry_sel:
  "de_name (dir_entry K s plen e off) = take 255 (drop plen (fst e))" "de_off (dir_entry K s plen e off) = off"
  "(de_ino (dir_entry K s plen e off), de_mode (dir_entry K s plen e off)) = shown K s (le_val (take 8 (snd e)))"
  by (simp_all add: dir_entry_def shown_def Let_def split: option.split)

definition listing :: "'s kv_ops \<Rightarrow> 's \<Rightarrow> nat \<Rightarrow> direntry list" where
  "listing K s p = (let pre = kvbfs_key_dirent_prefix p in listed K s 0 (length pre) (kv_iter K s pre) 2)"

lemma listing_map:
  "listing K s p = map (\<lambda>j. dir_entry K s (length (kvbfs_key_dirent_prefix p)) (kv_iter K s (kvbfs_key_dirent_prefix p) ! j) (j + 4))
     [0..<length (kv_iter K s (kvbfs_key_dirent_prefix p))]"
proof -
  have "(2 :: nat) + j + 2 = j + 4" for j by simp
  then show ?thesis unfolding listing_def Let_def listed_drop by (simp only: diff_0_eq_0)
qed

lemma length_listing: "length (listing K s p) = length (kv_iter K s (kvbfs_key_dirent_prefix p))"
  by (simp add: listing_map)

context kv_store_live
begin

lemma listing_whole:
  assumes inv: "fs_inv K c" and short: "\<forall>name. dirent_lookup K (db c) p name \<noteq> 0 \<longrightarrow> length name \<le> 255"
  shows "distinct (map de_name (listing K (db c) p))"
    and "(\<lambda>d. (de_name d, de_ino d, de_mode d)) ` set (listing K (db c) p) =
      (\<lambda>name. (name, shown K (db c) (dirent_lookup K (db c) p name))) ` {name. dirent_lookup K (db c) p name \<noteq> 0}"
proof -
  let ?pre = "kvbfs_key_dirent_prefix p"
  let ?es = "kv_iter K (db c) ?pre"
  let ?n = "\<lambda>e. (take 255 (drop (length ?pre) (fst e)), le_val (take 8 (snd e)))"
  note l = listing_names [OF fs_inv_entries [OF inv], of p, OF _ refl]
  have sh: "\<And>name. dirent_lookup K (db c) p name \<noteq> 0 \<Longrightarrow> length name \<le> 255" using short by blast
  have names: "map de_name (listing K (db c) p) = map (\<lambda>e. take 255 (drop (length ?pre) (fst e))) ?es"
    by (rule nth_equalityI) (simp_all add: listing_map dir_entry_sel)
  have short_key: "take 255 (drop (length ?pre) (fst e)) = drop (length ?pre) (fst e)" if "e \<in> set ?es" for e
  proof -
    obtain k v where e: "e = (k, v)" by (cases e)
    then have "prefix ?pre k" using that by (simp add: iter_mem)
    then obtain name where k: "k = encode (KDirent p name)" using raw_dirent_key by blast
    then have "contents (db c) (encode (KDirent p name)) = Some v" using that e by (simp add: iter_mem)
    then have "dirent_lookup K (db c) p name \<noteq> 0"
      using fs_inv_entries [OF inv] by (auto simp: entries_ok_def dirent_lookup_dlook dlook_def)
    then show ?thesis using sh [of name] e k by (simp add: kvbfs_key_dirent_prefix_def encode.simps)
  qed
  then have "map de_name (listing K (db c) p) = map (\<lambda>e. drop (length ?pre) (fst e)) ?es"
    by (simp add: names)
  with l(1) [OF sh] show "distinct (map de_name (listing K (db c) p))" by simp
  have "(\<lambda>d. (de_name d, de_ino d, de_mode d)) ` set (listing K (db c) p) =
      (\<lambda>e. (fst (?n e), shown K (db c) (snd (?n e)))) ` set ?es"
  proof -
    have "map (\<lambda>d. (de_name d, de_ino d, de_mode d)) (listing K (db c) p) =
        map (\<lambda>e. (fst (?n e), shown K (db c) (snd (?n e)))) ?es"
      by (rule nth_equalityI) (simp_all add: listing_map dir_entry_sel)
    from arg_cong [OF this, of set] show ?thesis by (simp only: list.set_map)
  qed
  also have "\<dots> = (\<lambda>x. (fst x, shown K (db c) (snd x))) ` (?n ` set ?es)" by (simp add: image_image)
  also have "?n ` set ?es = (\<lambda>name. (name, dirent_lookup K (db c) p name)) ` {name. dirent_lookup K (db c) p name \<noteq> 0}"
  proof -
    have "(a, b) \<in> ?n ` set ?es \<longleftrightarrow> (a, b) \<in> (\<lambda>name. (name, dirent_lookup K (db c) p name)) ` {name. dirent_lookup K (db c) p name \<noteq> 0}"
      for a b using l(2) [OF sh, of a b] by auto
    then show ?thesis by (simp only: set_eq_iff split_paired_All simp_thms)
  qed
  finally show "(\<lambda>d. (de_name d, de_ino d, de_mode d)) ` set (listing K (db c) p) =
      (\<lambda>name. (name, shown K (db c) (dirent_lookup K (db c) p name))) ` {name. dirent_lookup K (db c) p name \<noteq> 0}"
    by (simp add: image_image)
qed

lemma readdir_start:
  assumes inv: "fs_inv K c" and p: "view K c p \<noteq> None" "p \<noteq> AGENTFS_VERSIONS_INO" "\<not> vtree_is_vnode p"
    and B: "\<forall>name. e_dirent_size env name \<le> B" "B * (length (listing K (db c) p) + 5) \<le> sz"
  shows "fst (kvbfs_readdir K env c p sz 0) =
    ReplyDir (dots p @ listing K (db c) p @ virtual_entries p 0 (2 + length (listing K (db c) p)))"
  unfolding readdir_reply [OF fs_invD(1) [OF inv] p] length_listing
  using readdir_real_start [of env B K "db c" p sz] B
  by (simp add: length_listing) (simp add: listing_def Let_def)

lemma readdir_resume:
  assumes inv: "fs_inv K c" and p: "view K c p \<noteq> None" "p \<noteq> AGENTFS_VERSIONS_INO" "\<not> vtree_is_vnode p"
    and B: "\<forall>name. e_dirent_size env name \<le> B" "B * (length (listing K (db c) p) + 5) \<le> sz"
    and j: "j < length (listing K (db c) p)"
  shows "\<exists>ds. fst (kvbfs_readdir K env c p sz (de_off (listing K (db c) p ! j))) =
      ReplyDir (ds @ virtual_entries p (j + 4) (length (listing K (db c) p))) \<and>
    map de_name ds = drop (j + 4) (map de_name (listing K (db c) p))"
proof -
  let ?pre = "kvbfs_key_dirent_prefix p"
  let ?es = "kv_iter K (db c) ?pre"
  let ?ds = "listed K (db c) (j + 4) (length ?pre) ?es 0"
  have o: "de_off (listing K (db c) p ! j) = j + 4"
    using j by (simp add: listing_map dir_entry_sel)
  have "readdir_real K env (db c) p sz (j + 4) = ?ds @ virtual_entries p (j + 4) (length ?es)"
    using readdir_real_resume [of env B K "db c" p sz "j + 4"] B by (simp add: length_listing)
  moreover have "map de_name ?ds = drop (j + 4) (map de_name (listing K (db c) p))"
    by (simp add: listed_drop listing_map dir_entry_sel drop_map comp_def)
  ultimately show ?thesis
    by (auto simp: readdir_reply [OF fs_invD(1) [OF inv] p] length_listing o)
qed

end

section \<open>The sample\<close>

lemma sample_listing_length: "length (listing mem_ops (db sample) 1) = 2"
proof -
  let ?es = "kv_iter mem_ops (db sample) (kvbfs_key_dirent_prefix 1)"
  have "set (map fst ?es) = {encode (KDirent 1 ''a''), encode (KDirent 1 ''d'')}"
  proof -
    have mem: "k \<in> set (map fst ?es) \<longleftrightarrow> prefix (kvbfs_key_dirent_prefix 1) k \<and> DAList.lookup (db sample) k \<noteq> None" for k
    proof -
      have "k \<in> set (map fst ?es) \<longleftrightarrow> (\<exists>v. (k, v) \<in> set ?es)" by (force simp: image_iff)
      then show ?thesis by (simp only: mem.iter_mem) auto
    qed
    have look: "DAList.lookup (db sample) (encode (KDirent 1 name)) \<noteq> None \<longleftrightarrow> name = ''a'' \<or> name = ''d''" for name
      by (auto simp: lookup_store_of sample_entries_def)
    have pre: "prefix (kvbfs_key_dirent_prefix 1) (encode (KDirent 1 name))" for name
      by (simp add: prefix_iffs)
    show ?thesis
    proof (rule set_eqI)
      fix k
      show "k \<in> set (map fst ?es) \<longleftrightarrow> k \<in> {encode (KDirent 1 ''a''), encode (KDirent 1 ''d'')}"
      proof (cases "prefix (kvbfs_key_dirent_prefix 1) k")
        case True
        then obtain name where "k = encode (KDirent 1 name)" using mem.raw_dirent_key by blast
        with pre [of name] look [of name] show ?thesis by (simp only: mem) simp
      next
        case False
        with pre [of "''a''"] pre [of "''d''"] show ?thesis by (auto simp only: mem insert_iff empty_iff)
      qed
    qed
  qed
  moreover have "distinct (map fst ?es)" by (rule mem.iter_distinct)
  ultimately have "length (map fst ?es) = card {encode (KDirent 1 ''a''), encode (KDirent 1 ''d'')}"
    by (metis distinct_card)
  then show ?thesis by (simp add: length_listing)
qed

lemma sample_listing_length' [simp]: "length (listing mem_ops (store_of sample_entries) (Suc 0)) = 2"
  using sample_listing_length by simp

lemma sample_readdir_room: "32 * (length (listing mem_ops (db sample) 1) + 5) \<le> 4096"
  by simp

section \<open>Properties\<close>

text \<open>
  C29. A listing of a directory from the start, with room for it, is complete and exact: the two dot
  entries, every name of the directory once with the number and mode of its inode and nothing else,
  and behind them, in the root, the three virtual entries.
\<close>
theorem readdir_lists_directory:
  assumes "kv_store_live K contents" "fs_inv K c"
    and "view K c p \<noteq> None" "p \<noteq> AGENTFS_VERSIONS_INO" "\<not> vtree_is_vnode p"
    and "\<forall>name. dirent_lookup K (db c) p name \<noteq> 0 \<longrightarrow> length name \<le> 255"
    and "\<forall>name. e_dirent_size env name \<le> B" "B * (length (listing K (db c) p) + 5) \<le> sz"
  shows "\<exists>ds. fst (kvbfs_readdir K env c p sz 0) = ReplyDir (dots p @ ds @ virtual_entries p 0 (2 + length ds)) \<and>
    distinct (map de_name ds) \<and>
    (\<lambda>d. (de_name d, de_ino d, de_mode d)) ` set ds =
      (\<lambda>name. (name, shown K (db c) (dirent_lookup K (db c) p name))) ` {name. dirent_lookup K (db c) p name \<noteq> 0}"
  using kv_store_live.readdir_start [OF assms(1-5,7,8)] kv_store_live.listing_whole [OF assms(1,2,6)] by blast

lemma readdir_lists_directory_witness:
  "\<exists>ds. fst (kvbfs_readdir mem_ops sample_env sample 1 4096 0) = ReplyDir (dots 1 @ ds @ virtual_entries 1 0 (2 + length ds)) \<and>
    de_name ` set ds = {''a'', ''d''}"
proof -
  have short: "\<forall>name. dirent_lookup mem_ops (db sample) 1 name \<noteq> 0 \<longrightarrow> length name \<le> 255" by simp
  have B: "\<forall>name. e_dirent_size sample_env name \<le> 32" by (simp add: sample_env_def)
  obtain ds where ds: "fst (kvbfs_readdir mem_ops sample_env sample 1 4096 0) =
      ReplyDir (dots 1 @ ds @ virtual_entries 1 0 (2 + length ds))"
    "(\<lambda>d. (de_name d, de_ino d, de_mode d)) ` set ds =
      (\<lambda>name. (name, shown mem_ops (db sample) (dirent_lookup mem_ops (db sample) 1 name))) `
        {name. dirent_lookup mem_ops (db sample) 1 name \<noteq> 0}"
    using readdir_lists_directory [OF mem.kv_store_live_axioms sample_fs_inv _ _ _ short B sample_readdir_room]
    by (auto simp: vtree_is_vnode_def AGENTFS_VDIR_BASE_def AGENTFS_VERSIONS_INO_def)
  have "de_name ` set ds = fst ` (\<lambda>d. (de_name d, de_ino d, de_mode d)) ` set ds" by (simp add: image_image)
  also have "\<dots> = {''a'', ''d''}" unfolding ds(2) by (auto simp: image_iff)
  finally show ?thesis using ds(1) by blast
qed

text \<open>
  C30. A listing that does not fit into one reply loses entries: every offset the handler gives with
  an entry counts the two dot entries and is one too large, but on the next call the count starts
  again without them. Continuing after entry \<open>j\<close> (from 0) skips \<open>j + 4\<close> entries instead of
  \<open>j + 1\<close>, so that three names are in neither reply.
\<close>
theorem readdir_resume_skips_three:
  assumes "kv_store_live K contents" "fs_inv K c"
    and "view K c p \<noteq> None" "p \<noteq> AGENTFS_VERSIONS_INO" "\<not> vtree_is_vnode p"
    and "\<forall>name. e_dirent_size env name \<le> B" "B * (length (listing K (db c) p) + 5) \<le> sz"
    and "j < length (listing K (db c) p)"
  shows "fst (kvbfs_readdir K env c p sz 0) =
      ReplyDir (dots p @ listing K (db c) p @ virtual_entries p 0 (2 + length (listing K (db c) p))) \<and>
    (\<exists>ds. fst (kvbfs_readdir K env c p sz (de_off (listing K (db c) p ! j))) =
        ReplyDir (ds @ virtual_entries p (j + 4) (length (listing K (db c) p))) \<and>
      map de_name ds = drop (j + 4) (map de_name (listing K (db c) p)))"
  using kv_store_live.readdir_start [OF assms(1-7)] kv_store_live.readdir_resume [OF assms] by blast

lemma readdir_resume_skips_three_witness:
  "\<exists>ds. fst (kvbfs_readdir mem_ops sample_env sample 1 4096 (de_off (listing mem_ops (db sample) 1 ! 0))) =
      ReplyDir (ds @ virtual_entries 1 4 2) \<and> ds = []"
proof -
  have B: "\<forall>name. e_dirent_size sample_env name \<le> 32" by (simp add: sample_env_def)
  show ?thesis
    using readdir_resume_skips_three [OF mem.kv_store_live_axioms sample_fs_inv _ _ _ B sample_readdir_room, of 0]
      sample_listing_length'
    by (auto simp: vtree_is_vnode_def AGENTFS_VDIR_BASE_def AGENTFS_VERSIONS_INO_def)
qed

end
