(* ===== verification/NvmeProto.thy ===== *)
theory NvmeProto
  imports Structs
begin

text \<open>
  The wire format of \<^verbatim>\<open>src/nvme_kv_proto.h\<close>, which the NVMe backend and the simulator share:
  both headers with their memory images (little endian, no padding), the \<^verbatim>\<open>recv_exact\<close> and
  \<^verbatim>\<open>send_exact\<close> loops that both ends have word for word, and the format of a list response.
  A received stream is the list of segments in which the network delivers it; an empty segment or
  the end of the list is the end of the stream.
\<close>

section \<open>Constants\<close>

definition NVME_KV_MAGIC :: nat where "NVME_KV_MAGIC = 0x4E564B56"
definition NVME_KV_VERSION :: nat where "NVME_KV_VERSION = 1"
definition NVME_KV_OP_STORE :: nat where "NVME_KV_OP_STORE = 0x01"
definition NVME_KV_OP_RETRIEVE :: nat where "NVME_KV_OP_RETRIEVE = 0x02"
definition NVME_KV_OP_LIST :: nat where "NVME_KV_OP_LIST = 0x06"
definition NVME_KV_OP_DELETE :: nat where "NVME_KV_OP_DELETE = 0x10"
definition NVME_KV_OP_EXIST :: nat where "NVME_KV_OP_EXIST = 0x14"
definition NVME_KV_SC_SUCCESS :: nat where "NVME_KV_SC_SUCCESS = 0x0000"
definition NVME_KV_SC_NOT_FOUND :: nat where "NVME_KV_SC_NOT_FOUND = 0x0001"
definition NVME_KV_SC_INVALID_KEY :: nat where "NVME_KV_SC_INVALID_KEY = 0x0003"
definition NVME_KV_SC_INVALID_VALUE :: nat where "NVME_KV_SC_INVALID_VALUE = 0x0004"
definition NVME_KV_SC_INTERNAL_ERROR :: nat where "NVME_KV_SC_INTERNAL_ERROR = 0x00FF"
definition NVME_KV_MAX_KEY_LEN :: nat where "NVME_KV_MAX_KEY_LEN = 272"
definition NVME_KV_MAX_VAL_LEN :: nat where "NVME_KV_MAX_VAL_LEN = 2 * 1024 * 1024"
definition NVME_KV_DEFAULT_PORT :: nat where "NVME_KV_DEFAULT_PORT = 9527"

lemmas nvme_op_defs = NVME_KV_OP_STORE_def NVME_KV_OP_RETRIEVE_def NVME_KV_OP_LIST_def
  NVME_KV_OP_DELETE_def NVME_KV_OP_EXIST_def
lemmas nvme_sc_defs = NVME_KV_SC_SUCCESS_def NVME_KV_SC_NOT_FOUND_def NVME_KV_SC_INVALID_KEY_def
  NVME_KV_SC_INVALID_VALUE_def NVME_KV_SC_INTERNAL_ERROR_def

section \<open>Headers\<close>

text \<open>The reserved fields are always zero.\<close>

record nvme_kv_req_hdr =
  rq_magic :: nat
  rq_version :: nat
  rq_opcode :: nat
  rq_flags :: nat
  rq_key_len :: nat
  rq_value_len :: nat
  rq_cmd_id :: nat

record nvme_kv_resp_hdr =
  rs_magic :: nat
  rs_status :: nat
  rs_value_len :: nat
  rs_cmd_id :: nat

definition SIZEOF_REQ :: nat where "SIZEOF_REQ = 24"
definition SIZEOF_RESP :: nat where "SIZEOF_RESP = 16"

definition req_bytes :: "nvme_kv_req_hdr \<Rightarrow> bytes" where
  "req_bytes h = le_bytes 4 (rq_magic h) @ le_bytes 1 (rq_version h) @ le_bytes 1 (rq_opcode h) @
     le_bytes 1 (rq_flags h) @ le_bytes 1 0 @ le_bytes 2 (rq_key_len h) @ le_bytes 2 0 @
     le_bytes 4 (rq_value_len h) @ le_bytes 4 (rq_cmd_id h) @ le_bytes 4 0"

definition req_of_bytes :: "bytes \<Rightarrow> nvme_kv_req_hdr" where
  "req_of_bytes bs =
     \<lparr>rq_magic = field 0 4 bs, rq_version = field 4 1 bs, rq_opcode = field 5 1 bs, rq_flags = field 6 1 bs,
      rq_key_len = field 8 2 bs, rq_value_len = field 12 4 bs, rq_cmd_id = field 16 4 bs\<rparr>"

definition resp_bytes :: "nvme_kv_resp_hdr \<Rightarrow> bytes" where
  "resp_bytes h = le_bytes 4 (rs_magic h) @ le_bytes 2 (rs_status h) @ le_bytes 2 0 @
     le_bytes 4 (rs_value_len h) @ le_bytes 4 (rs_cmd_id h)"

definition resp_of_bytes :: "bytes \<Rightarrow> nvme_kv_resp_hdr" where
  "resp_of_bytes bs =
     \<lparr>rs_magic = field 0 4 bs, rs_status = field 4 2 bs, rs_value_len = field 8 4 bs, rs_cmd_id = field 12 4 bs\<rparr>"

definition wf_req :: "nvme_kv_req_hdr \<Rightarrow> bool" where
  "wf_req h \<longleftrightarrow> rq_magic h < 4294967296 \<and> rq_version h < 256 \<and> rq_opcode h < 256 \<and> rq_flags h < 256 \<and>
     rq_key_len h < 65536 \<and> rq_value_len h < 4294967296 \<and> rq_cmd_id h < 4294967296"

definition wf_resp :: "nvme_kv_resp_hdr \<Rightarrow> bool" where
  "wf_resp h \<longleftrightarrow> rs_magic h < 4294967296 \<and> rs_status h < 65536 \<and> rs_value_len h < 4294967296 \<and>
     rs_cmd_id h < 4294967296"

lemma le_val_bytes1: "le_val (le_bytes (Suc 0) x) = x mod 256"
  by simp

lemma length_req_bytes [simp]: "length (req_bytes h) = SIZEOF_REQ"
  by (simp add: req_bytes_def SIZEOF_REQ_def)

lemma length_resp_bytes [simp]: "length (resp_bytes h) = SIZEOF_RESP"
  by (simp add: resp_bytes_def SIZEOF_RESP_def)

lemma req_roundtrip: "wf_req h \<Longrightarrow> req_of_bytes (req_bytes h) = h"
  by (simp add: req_of_bytes_def req_bytes_def field_def wf_req_def)

lemma resp_roundtrip: "wf_resp h \<Longrightarrow> resp_of_bytes (resp_bytes h) = h"
  by (simp add: resp_of_bytes_def resp_bytes_def field_def wf_resp_def)

section \<open>Streams\<close>

type_synonym stream = "bytes list"

text \<open>One \<^verbatim>\<open>recv\<close>: at most \<open>n\<close> bytes of the next segment; \<^verbatim>\<open>None\<close> is a result of zero or less.\<close>

fun recv :: "stream \<Rightarrow> nat \<Rightarrow> (bytes \<times> stream) option" where
  "recv [] n = None"
| "recv (s # ss) n =
     (if s = [] then None
      else if length s \<le> n then Some (s, ss)
      else Some (take n s, drop n s # ss))"

lemma recv_progress: "recv st n = Some (b, st') \<Longrightarrow> 0 < n \<Longrightarrow> 0 < length b \<and> length b \<le> n"
  by (cases "(st, n)" rule: recv.cases) (auto split: if_splits)

function recv_exact :: "stream \<Rightarrow> nat \<Rightarrow> (bytes \<times> stream) option" where
  "recv_exact st n =
     (if n = 0 then Some ([], st)
      else case recv st n of
             None \<Rightarrow> None
           | Some (b, st') \<Rightarrow>
               (case recv_exact st' (n - length b) of
                  None \<Rightarrow> None
                | Some (b', st'') \<Rightarrow> Some (b @ b', st'')))"
  by pat_completeness auto
termination
  by (relation "measure snd") (auto dest: recv_progress)

declare recv_exact.simps [simp del]

text \<open>
  A sending end: what \<^verbatim>\<open>send\<close> accepts at each call, \<open>0\<close> standing for an error. The result says
  whether everything went out, and what did.
\<close>

fun send_exact :: "nat list \<Rightarrow> bytes \<Rightarrow> bool \<times> bytes \<times> nat list" where
  "send_exact ws [] = (True, [], ws)"
| "send_exact [] buf = (False, [], [])"
| "send_exact (w # ws) buf =
     (if w = 0 then (False, [], ws)
      else let (okay, out, ws') = send_exact ws (drop w buf) in (okay, take w buf @ out, ws'))"

lemma send_exact_prefix: "send_exact ws buf = (okay, out, ws') \<Longrightarrow> prefix out buf \<and> (okay \<longrightarrow> out = buf)"
proof (induction ws buf arbitrary: okay out ws' rule: send_exact.induct)
  case (3 w ws c cs)
  show ?case
  proof (cases "w = 0")
    case False
    obtain o1 out1 ws1 where s: "send_exact ws (drop w (c # cs)) = (o1, out1, ws1)" by (metis prod_cases3)
    from 3 False s have "prefix out1 (drop w (c # cs))" "o1 \<longrightarrow> out1 = drop w (c # cs)" by auto
    moreover have "out = take w (c # cs) @ out1" "okay = o1" using 3 False s by auto
    moreover have "take w (c # cs) @ drop w (c # cs) = c # cs" by (rule append_take_drop_id)
    ultimately show ?thesis by (metis same_prefix_prefix)
  qed (use 3 in auto)
qed auto

section \<open>How a stream is cut does not matter\<close>

definition live_stream :: "stream \<Rightarrow> bool" where
  "live_stream st \<longleftrightarrow> [] \<notin> set st"

lemma recv_concat:
  assumes "live_stream st" "recv st n = Some (b, st')" "0 < n"
  shows "b @ concat st' = concat st" "live_stream st'"
  using assms by (cases "(st, n)" rule: recv.cases; auto simp: live_stream_def split: if_splits)+

lemma recv_None: "live_stream st \<Longrightarrow> recv st n = None \<Longrightarrow> concat st = []"
  by (cases "(st, n)" rule: recv.cases) (auto simp: live_stream_def split: if_splits)

lemma recv_exact_concat:
  assumes "live_stream st"
  shows "if n \<le> length (concat st)
    then \<exists>st'. recv_exact st n = Some (take n (concat st), st') \<and> concat st' = drop n (concat st) \<and> live_stream st'
    else recv_exact st n = None"
  using assms
proof (induction st n rule: recv_exact.induct)
  case (1 st n)
  show ?case
  proof (cases "n = 0")
    case True
    with 1 show ?thesis by (simp add: recv_exact.simps)
  next
    case False
    show ?thesis
    proof (cases "recv st n")
      case None
      have "length (concat st) = 0" using recv_None [OF 1(2) None] by (simp only: list.size)
      with None False show ?thesis by (simp add: recv_exact.simps del: length_0_conv)
    next
      case (Some p)
      obtain b st' where p: "recv st n = Some (b, st')" using Some by (cases p) auto
      note c = recv_concat [OF 1(2) p] and l = recv_progress [OF p]
      have ih: "if n - length b \<le> length (concat st')
        then \<exists>st''. recv_exact st' (n - length b) = Some (take (n - length b) (concat st'), st'') \<and>
          concat st'' = drop (n - length b) (concat st') \<and> live_stream st''
        else recv_exact st' (n - length b) = None"
        using 1(1) [OF False p refl] c False by simp
      have cs: "concat st = b @ concat st'" using c(1) False by simp
      show ?thesis
        using ih l False by (auto simp: recv_exact.simps [of st n] p cs split: if_splits)
    qed
  qed
qed

end
