(* ===== verification/NvmeServer.thy ===== *)
theory NvmeServer
  imports NvmeProto KvMem
begin

text \<open>
  The simulator of an NVMe KV device: the command dispatch of \<^verbatim>\<open>sim/cmd_dispatch.c\<close> over the
  in-memory store, and the loop of \<^verbatim>\<open>sim/main.c\<close> that serves one connection. The shutdown flag,
  the listening socket and the messages are left out.
\<close>

section \<open>Command dispatch\<close>

definition init_resp :: "nat \<Rightarrow> nvme_kv_resp_hdr" where
  "init_resp cmd_id =
     \<lparr>rs_magic = NVME_KV_MAGIC, rs_status = NVME_KV_SC_SUCCESS, rs_value_len = 0, rs_cmd_id = cmd_id\<rparr>"

definition bad_key_len :: "nvme_kv_req_hdr \<Rightarrow> bool" where
  "bad_key_len req \<longleftrightarrow> rq_key_len req = 0 \<or> NVME_KV_MAX_KEY_LEN < rq_key_len req"

definition handle_store ::
  "kv_mem \<Rightarrow> nvme_kv_req_hdr \<Rightarrow> string \<Rightarrow> bytes \<Rightarrow> nvme_kv_resp_hdr \<Rightarrow> nvme_kv_resp_hdr \<times> kv_mem" where
  "handle_store mem req key val resp =
     (if bad_key_len req then (resp\<lparr>rs_status := NVME_KV_SC_INVALID_KEY\<rparr>, mem)
      else if NVME_KV_MAX_VAL_LEN < rq_value_len req then (resp\<lparr>rs_status := NVME_KV_SC_INVALID_VALUE\<rparr>, mem)
      else let (okay, mem') = kv_mem_store mem key val
           in (if okay then resp else resp\<lparr>rs_status := NVME_KV_SC_INTERNAL_ERROR\<rparr>, mem'))"

definition handle_retrieve ::
  "kv_mem \<Rightarrow> nvme_kv_req_hdr \<Rightarrow> string \<Rightarrow> nvme_kv_resp_hdr \<Rightarrow> nvme_kv_resp_hdr \<times> bytes" where
  "handle_retrieve mem req key resp =
     (if bad_key_len req then (resp\<lparr>rs_status := NVME_KV_SC_INVALID_KEY\<rparr>, [])
      else case kv_mem_retrieve mem key of
             None \<Rightarrow> (resp\<lparr>rs_status := NVME_KV_SC_NOT_FOUND\<rparr>, [])
           | Some v \<Rightarrow> (resp\<lparr>rs_value_len := u32 (length v)\<rparr>, take (u32 (length v)) v))"

definition handle_delete ::
  "kv_mem \<Rightarrow> nvme_kv_req_hdr \<Rightarrow> string \<Rightarrow> nvme_kv_resp_hdr \<Rightarrow> nvme_kv_resp_hdr \<times> kv_mem" where
  "handle_delete mem req key resp =
     (if bad_key_len req then (resp\<lparr>rs_status := NVME_KV_SC_INVALID_KEY\<rparr>, mem)
      else (resp, snd (kv_mem_delete mem key)))"

definition handle_exist ::
  "kv_mem \<Rightarrow> nvme_kv_req_hdr \<Rightarrow> string \<Rightarrow> nvme_kv_resp_hdr \<Rightarrow> nvme_kv_resp_hdr" where
  "handle_exist mem req key resp =
     (if bad_key_len req then resp\<lparr>rs_status := NVME_KV_SC_INVALID_KEY\<rparr>
      else if \<not> kv_mem_exist mem key then resp\<lparr>rs_status := NVME_KV_SC_NOT_FOUND\<rparr>
      else resp)"

text \<open>
  The list format. The lengths are cut to their fields; in a store that the server filled keys
  and values are far below the limits of the fields.
\<close>

definition list_entry_bytes :: "string \<times> bytes \<Rightarrow> bytes" where
  "list_entry_bytes e =
     le_bytes 2 (length (fst e)) @ take (u16 (length (fst e))) (fst e) @
     le_bytes 4 (length (snd e)) @ take (u32 (length (snd e))) (snd e)"

definition list_total :: "(string \<times> bytes) list \<Rightarrow> nat" where
  "list_total es = sum_list (map (\<lambda>e. 2 + length (fst e) + 4 + length (snd e)) es)"

definition handle_list ::
  "kv_mem \<Rightarrow> nvme_kv_req_hdr \<Rightarrow> string \<Rightarrow> nvme_kv_resp_hdr \<Rightarrow> nvme_kv_resp_hdr \<times> bytes" where
  "handle_list mem req key resp =
     (if NVME_KV_MAX_KEY_LEN < rq_key_len req then (resp\<lparr>rs_status := NVME_KV_SC_INVALID_KEY\<rparr>, [])
      else
        let es = kv_mem_list_prefix mem key
        in if length es = 0 then (resp, [])
           else
             let total = list_total es;
                 buf = concat (map list_entry_bytes es)
             in (resp\<lparr>rs_value_len := u32 total\<rparr>, take (u32 total) buf))"

definition cmd_dispatch ::
  "kv_mem \<Rightarrow> nvme_kv_req_hdr \<Rightarrow> string \<Rightarrow> bytes \<Rightarrow> nvme_kv_resp_hdr \<times> bytes \<times> kv_mem" where
  "cmd_dispatch mem req key val =
     (let resp = init_resp (rq_cmd_id req)
      in if rq_opcode req = NVME_KV_OP_STORE then
           (let (r, mem') = handle_store mem req key val resp in (r, [], mem'))
         else if rq_opcode req = NVME_KV_OP_RETRIEVE then
           (let (r, d) = handle_retrieve mem req key resp in (r, d, mem))
         else if rq_opcode req = NVME_KV_OP_DELETE then
           (let (r, mem') = handle_delete mem req key resp in (r, [], mem'))
         else if rq_opcode req = NVME_KV_OP_EXIST then (handle_exist mem req key resp, [], mem)
         else if rq_opcode req = NVME_KV_OP_LIST then
           (let (r, d) = handle_list mem req key resp in (r, d, mem))
         else (resp\<lparr>rs_status := NVME_KV_SC_INTERNAL_ERROR\<rparr>, [], mem))"

section \<open>One connection\<close>

text \<open>
  One turn of the loop: the stream has no complete request (the server waits, or the connection has
  ended), the server gives the connection up, or it answers.
\<close>

datatype srv_turn = SrvWait | SrvClose | SrvReply bytes kv_mem stream

definition serve_request :: "kv_mem \<Rightarrow> stream \<Rightarrow> srv_turn" where
  "serve_request mem st =
     (case recv_exact st SIZEOF_REQ of
        None \<Rightarrow> SrvWait
      | Some (hdr, st1) \<Rightarrow>
          let req = req_of_bytes hdr
          in if rq_magic req \<noteq> NVME_KV_MAGIC then SrvClose
             else if NVME_KV_MAX_KEY_LEN < rq_key_len req then SrvClose
             else case recv_exact st1 (rq_key_len req) of
                    None \<Rightarrow> SrvWait
                  | Some (key, st2) \<Rightarrow>
                      let n = (if rq_opcode req = NVME_KV_OP_STORE then rq_value_len req else 0)
                      in if NVME_KV_MAX_VAL_LEN < n then SrvClose
                         else case recv_exact st2 n of
                                None \<Rightarrow> SrvWait
                              | Some (val, st3) \<Rightarrow>
                                  let (resp, d, mem') = cmd_dispatch mem req key val
                                  in SrvReply (resp_bytes resp @ d) mem' st3)"

lemma recv_exact_length:
  "recv_exact st n = Some (b, st') \<Longrightarrow> length b = n \<and> length (concat st') + n \<le> length (concat st)"
proof (induction st n arbitrary: b st' rule: recv_exact.induct)
  case (1 st n)
  show ?case
  proof (cases "n = 0")
    case True
    with 1(2) show ?thesis by (simp add: recv_exact.simps)
  next
    case False
    then obtain b1 st1 b2 where r: "recv st n = Some (b1, st1)" "recv_exact st1 (n - length b1) = Some (b2, st')" "b = b1 @ b2"
      using 1(2) by (auto simp: recv_exact.simps [of st n] split: option.splits)
    have "length (concat st1) + length b1 = length (concat st)"
      using r(1) False by (cases "(st, n)" rule: recv.cases) (auto split: if_splits)
    moreover have "length b2 = n - length b1 \<and> length (concat st') + (n - length b1) \<le> length (concat st1)"
      by (rule 1(1) [OF False r(1) refl r(2)])
    moreover have "length b1 \<le> n" using recv_progress [OF r(1)] False by simp
    ultimately show ?thesis unfolding r(3) length_append by linarith
  qed
qed

lemma serve_request_consumes:
  "serve_request mem st = SrvReply out mem' st' \<Longrightarrow> length (concat st') < length (concat st)"
  by (auto simp: serve_request_def Let_def SIZEOF_REQ_def split: option.splits if_splits prod.splits
      dest!: recv_exact_length)

text \<open>The whole loop: the bytes sent, the store, whether the server closed, and what is unread.\<close>

function handle_connection :: "kv_mem \<Rightarrow> stream \<Rightarrow> bytes \<times> kv_mem \<times> bool \<times> stream" where
  "handle_connection mem st =
     (case serve_request mem st of
        SrvWait \<Rightarrow> ([], mem, False, st)
      | SrvClose \<Rightarrow> ([], mem, True, [])
      | SrvReply out mem' st' \<Rightarrow>
          let (out', mem'', closed, st'') = handle_connection mem' st'
          in (out @ out', mem'', closed, st''))"
  by pat_completeness auto
termination
  by (relation "measure (\<lambda>(mem, st). length (concat st))") (auto dest: serve_request_consumes)

declare handle_connection.simps [simp del]

end
