(* ===== verification/NvmeClient.thy ===== *)
theory NvmeClient
  imports NvmeServer
begin

text \<open>
  The NVMe backend, \<^verbatim>\<open>src/kv_nvme.c\<close>: the client of the wire protocol, composed with the
  server of \<^verbatim>\<open>sim/\<close> over a TCP connection. The connection record holds both ends: the client's
  command counter, the server's store, whether the server still serves, and the bytes under way in
  either direction. The network cuts a direction's bytes into segments as it likes: \<open>net\<close> gives
  the segments for the bytes under way during a command. What the server sent before it closed is
  delivered; a send to a server that has closed fails.
\<close>

section \<open>Connecting\<close>

record nvme_kv_conn =
  c_next_cmd_id :: nat
  c_open :: bool
  c_mem :: kv_mem
  c_up :: bytes
  c_down :: bytes

text \<open>\<^verbatim>\<open>strrchr\<close>: the text before and after the last occurrence.\<close>

definition split_last :: "char \<Rightarrow> string \<Rightarrow> (string \<times> string) option" where
  "split_last c s =
     (if c \<in> set s
      then Some (rev (tl (dropWhile (\<lambda>x. x \<noteq> c) (rev s))), rev (takeWhile (\<lambda>x. x \<noteq> c) (rev s)))
      else None)"

definition atoi :: "string \<Rightarrow> int" where
  "atoi s =
     (let t = dropWhile is_space s;
          neg = (t \<noteq> [] \<and> hd t = CHR ''-'');
          u = (if t \<noteq> [] \<and> (hd t = CHR ''-'' \<or> hd t = CHR ''+'') then tl t else t);
          v = foldl (\<lambda>a c. 10 * a + (int (of_char c) - 48)) 0 (takeWhile is_digit u)
      in if neg then - v else v)"

text \<open>The host of \<^verbatim>\<open>host:port\<close> in its buffer of 256 bytes, and the port.\<close>

definition nvme_address :: "string \<Rightarrow> string \<times> nat" where
  "nvme_address path =
     (case split_last CHR '':'' path of
        None \<Rightarrow> (take 255 path, NVME_KV_DEFAULT_PORT)
      | Some (h, p) \<Rightarrow> (take (if 256 \<le> length h then 255 else length h) h, nat (atoi p mod 65536)))"

text \<open>\<open>connect\<close> stands for the socket calls: the store of the server that accepts at the address.\<close>

definition nvme_kv_open :: "(string \<Rightarrow> nat \<Rightarrow> kv_mem option) \<Rightarrow> string \<Rightarrow> nvme_kv_conn option" where
  "nvme_kv_open connect path =
     (let (host, port) = nvme_address path
      in case connect host port of
           None \<Rightarrow> None
         | Some mem \<Rightarrow> Some \<lparr>c_next_cmd_id = 0, c_open = True, c_mem = mem, c_up = [], c_down = []\<rparr>)"

section \<open>Transactions\<close>

text \<open>A call blocks when the bytes it waits for never come although the server is still there.\<close>

datatype nvme_txn = TxnBlocked | TxnError | TxnOk nvme_kv_resp_hdr bytes

definition nvme_request :: "nvme_kv_conn \<Rightarrow> nat \<Rightarrow> nat \<Rightarrow> string \<Rightarrow> bytes \<Rightarrow> nvme_kv_req_hdr" where
  "nvme_request conn opcode flags key val =
     \<lparr>rq_magic = NVME_KV_MAGIC, rq_version = NVME_KV_VERSION, rq_opcode = opcode, rq_flags = flags,
      rq_key_len = u16 (length key),
      rq_value_len = (if opcode = NVME_KV_OP_STORE then u32 (length val) else 0),
      rq_cmd_id = c_next_cmd_id conn\<rparr>"

definition nvme_recv_response :: "stream \<Rightarrow> nvme_kv_conn \<Rightarrow> nvme_txn \<times> nvme_kv_conn" where
  "nvme_recv_response down conn =
     (let missing = (if c_open conn then TxnBlocked else TxnError)
      in case recv_exact down SIZEOF_RESP of
           None \<Rightarrow> (missing, conn\<lparr>c_down := []\<rparr>)
         | Some (hdr, down1) \<Rightarrow>
             let resp = resp_of_bytes hdr
             in if rs_magic resp \<noteq> NVME_KV_MAGIC then (TxnError, conn\<lparr>c_down := concat down1\<rparr>)
                else if 0 < rs_value_len resp then
                  (case recv_exact down1 (rs_value_len resp) of
                     None \<Rightarrow> (missing, conn\<lparr>c_down := []\<rparr>)
                   | Some (data, down2) \<Rightarrow> (TxnOk resp data, conn\<lparr>c_down := concat down2\<rparr>))
                else (TxnOk resp [], conn\<lparr>c_down := concat down1\<rparr>))"

definition nvme_kv_transact ::
  "(nat \<Rightarrow> bytes \<Rightarrow> stream) \<Rightarrow> nvme_kv_conn \<Rightarrow> nat \<Rightarrow> nat \<Rightarrow> string \<Rightarrow> bytes \<Rightarrow> nvme_txn \<times> nvme_kv_conn" where
  "nvme_kv_transact net conn opcode flags key val =
     (let req = nvme_request conn opcode flags key val;
          cid = c_next_cmd_id conn;
          conn1 = conn\<lparr>c_next_cmd_id := u32 (cid + 1)\<rparr>
      in if \<not> c_open conn then (TxnError, conn1)
         else
           let sent = req_bytes req @ key @ (if opcode = NVME_KV_OP_STORE then val else []);
               (out, mem, closed, rest) = handle_connection (c_mem conn) (net cid (c_up conn @ sent));
               conn2 = conn1\<lparr>c_open := \<not> closed, c_mem := mem, c_up := concat rest\<rparr>
           in nvme_recv_response (net cid (c_down conn @ out)) conn2)"

section \<open>List responses and iterators\<close>

record kv_iterator =
  it_entries :: "(string \<times> bytes) list"
  it_pos :: nat

text \<open>The first pass counts the entries.\<close>

function list_count :: "bytes \<Rightarrow> nat \<Rightarrow> nat" where
  "list_count data off =
     (if length data \<le> off then 0
      else if length data < off + 2 then 0
      else
        let off1 = off + 2 + field off 2 data
        in if length data < off1 + 4 then 0
           else Suc (list_count data (off1 + 4 + field off1 4 data)))"
  by pat_completeness auto
termination
  by (relation "measure (\<lambda>(data, off). length data - off)") auto

declare list_count.simps [simp del]

text \<open>The second pass copies them; \<^verbatim>\<open>None\<close> is a read past the end of the buffer.\<close>

definition read_at :: "bytes \<Rightarrow> nat \<Rightarrow> nat \<Rightarrow> bytes option" where
  "read_at data off n = (if off + n \<le> length data then Some (take n (drop off data)) else None)"

fun list_copy :: "bytes \<Rightarrow> nat \<Rightarrow> nat \<Rightarrow> (string \<times> bytes) list option" where
  "list_copy data 0 off = Some []"
| "list_copy data (Suc n) off =
     (case read_at data off 2 of
        None \<Rightarrow> None
      | Some kl \<Rightarrow>
          (case read_at data (off + 2) (le_val kl) of
             None \<Rightarrow> None
           | Some k \<Rightarrow>
               let off1 = off + 2 + le_val kl
               in (case read_at data off1 4 of
                     None \<Rightarrow> None
                   | Some vl \<Rightarrow>
                       (case read_at data (off1 + 4) (le_val vl) of
                          None \<Rightarrow> None
                        | Some v \<Rightarrow>
                            (case list_copy data n (off1 + 4 + le_val vl) of
                               None \<Rightarrow> None
                             | Some es \<Rightarrow> Some ((k, v) # es))))))"

definition parse_list :: "bytes \<Rightarrow> (string \<times> bytes) list option" where
  "parse_list data = list_copy data (list_count data 0) 0"

definition kv_iter_valid :: "kv_iterator \<Rightarrow> bool" where
  "kv_iter_valid it \<longleftrightarrow> it_pos it < length (it_entries it)"

definition kv_iter_next :: "kv_iterator \<Rightarrow> kv_iterator" where
  "kv_iter_next it = (if it_pos it < length (it_entries it) then it\<lparr>it_pos := it_pos it + 1\<rparr> else it)"

definition kv_iter_key :: "kv_iterator \<Rightarrow> string option" where
  "kv_iter_key it = (if length (it_entries it) \<le> it_pos it then None else Some (fst (it_entries it ! it_pos it)))"

definition kv_iter_value :: "kv_iterator \<Rightarrow> bytes option" where
  "kv_iter_value it = (if length (it_entries it) \<le> it_pos it then None else Some (snd (it_entries it ! it_pos it)))"

section \<open>The backend's operations\<close>

text \<open>A call never returns, or reads past its buffer, or returns a value.\<close>

datatype 'a nvme_ret = Blocked | Overread | Ret 'a

definition nvme_kv_get ::
  "(nat \<Rightarrow> bytes \<Rightarrow> stream) \<Rightarrow> nvme_kv_conn \<Rightarrow> string \<Rightarrow> bytes option nvme_ret \<times> nvme_kv_conn" where
  "nvme_kv_get net conn key =
     (case nvme_kv_transact net conn NVME_KV_OP_RETRIEVE 0 key [] of
        (TxnBlocked, c) \<Rightarrow> (Blocked, c)
      | (TxnError, c) \<Rightarrow> (Ret None, c)
      | (TxnOk resp data, c) \<Rightarrow> (Ret (if rs_status resp \<noteq> NVME_KV_SC_SUCCESS then None else Some data), c))"

definition nvme_kv_put ::
  "(nat \<Rightarrow> bytes \<Rightarrow> stream) \<Rightarrow> nvme_kv_conn \<Rightarrow> string \<Rightarrow> bytes \<Rightarrow> bool nvme_ret \<times> nvme_kv_conn" where
  "nvme_kv_put net conn key val =
     (case nvme_kv_transact net conn NVME_KV_OP_STORE 0 key val of
        (TxnBlocked, c) \<Rightarrow> (Blocked, c)
      | (TxnError, c) \<Rightarrow> (Ret False, c)
      | (TxnOk resp data, c) \<Rightarrow> (Ret (rs_status resp = NVME_KV_SC_SUCCESS), c))"

definition nvme_kv_delete ::
  "(nat \<Rightarrow> bytes \<Rightarrow> stream) \<Rightarrow> nvme_kv_conn \<Rightarrow> string \<Rightarrow> bool nvme_ret \<times> nvme_kv_conn" where
  "nvme_kv_delete net conn key =
     (case nvme_kv_transact net conn NVME_KV_OP_DELETE 0 key [] of
        (TxnBlocked, c) \<Rightarrow> (Blocked, c)
      | (TxnError, c) \<Rightarrow> (Ret False, c)
      | (TxnOk resp data, c) \<Rightarrow> (Ret (rs_status resp = NVME_KV_SC_SUCCESS), c))"

definition nvme_kv_iter_prefix ::
  "(nat \<Rightarrow> bytes \<Rightarrow> stream) \<Rightarrow> nvme_kv_conn \<Rightarrow> string \<Rightarrow> kv_iterator option nvme_ret \<times> nvme_kv_conn" where
  "nvme_kv_iter_prefix net conn p =
     (case nvme_kv_transact net conn NVME_KV_OP_LIST 0 p [] of
        (TxnBlocked, c) \<Rightarrow> (Blocked, c)
      | (TxnError, c) \<Rightarrow> (Ret None, c)
      | (TxnOk resp data, c) \<Rightarrow>
          (if rs_status resp \<noteq> NVME_KV_SC_SUCCESS \<or> length data = 0
           then (Ret (Some \<lparr>it_entries = [], it_pos = 0\<rparr>), c)
           else case parse_list data of
                  None \<Rightarrow> (Overread, c)
                | Some es \<Rightarrow> (Ret (Some \<lparr>it_entries = es, it_pos = 0\<rparr>), c)))"

section \<open>List responses read back\<close>

lemma list_entry_length:
  assumes "length k < 65536" "length v < 4294967296"
  shows "length (list_entry_bytes (k, v)) = 6 + length k + length v"
  using assms by (simp add: list_entry_bytes_def)

definition entry_fits :: "string \<times> bytes \<Rightarrow> bool" where
  "entry_fits e \<longleftrightarrow> length (fst e) < 65536 \<and> length (snd e) < 4294967296"

text \<open>The fields of an entry that starts at an offset.\<close>

lemma entry_fields:
  assumes "data = pre @ list_entry_bytes (k, v) @ post" "entry_fits (k, v)" "off = length pre"
  shows "field off 2 data = length k" "take 2 (drop off data) = le_bytes 2 (length k)"
    "take (length k) (drop (off + 2) data) = k" "field (off + 2 + length k) 4 data = length v"
    "take 4 (drop (off + 2 + length k) data) = le_bytes 4 (length v)"
    "take (length v) (drop (off + 6 + length k) data) = v"
    "length data = off + 6 + length k + length v + length post"
  using assms by (simp_all add: field_def list_entry_bytes_def entry_fits_def)

lemma list_count_step:
  assumes "data = pre @ list_entry_bytes (k, v) @ post" "entry_fits (k, v)" "off = length pre"
  shows "list_count data off = Suc (list_count data (off + 6 + length k + length v))"
proof -
  note f = entry_fields [OF assms]
  have "\<not> length data \<le> off" "\<not> length data < off + 2" "\<not> length data < off + 2 + length k + 4"
    unfolding f(7) by simp_all
  moreover have "off + 2 + length k + 4 + length v = off + 6 + length k + length v" by simp
  ultimately show ?thesis by (simp only: list_count.simps [of data off] f(1,4) Let_def if_False)
qed

lemma list_count_entries:
  assumes "data = pre @ concat (map list_entry_bytes es) @ post" "\<And>e. e \<in> set es \<Longrightarrow> entry_fits e" "off = length pre"
  shows "list_count data off = length es + list_count data (off + length (concat (map list_entry_bytes es)))"
  using assms
proof (induction es arbitrary: pre off)
  case (Cons e es)
  obtain k v where e: "e = (k, v)" by fastforce
  have fit: "entry_fits (k, v)" using Cons.prems e by simp
  have len: "length (list_entry_bytes e) = 6 + length k + length v"
    using fit e by (simp add: entry_fits_def list_entry_length)
  have "list_count data off = Suc (list_count data (off + 6 + length k + length v))"
    using Cons.prems e fit by (intro list_count_step [of _ pre k v "concat (map list_entry_bytes es) @ post"]) simp_all
  also have "list_count data (off + 6 + length k + length v) =
      length es + list_count data (off + 6 + length k + length v + length (concat (map list_entry_bytes es)))"
    using Cons.prems len by (intro Cons.IH [of "pre @ list_entry_bytes e"]) simp_all
  also have "off + 6 + length k + length v + length (concat (map list_entry_bytes es)) =
      off + length (concat (map list_entry_bytes (e # es)))"
    using len by simp
  finally show ?case by simp
qed simp

lemma list_copy_step:
  assumes "data = pre @ list_entry_bytes (k, v) @ post" "entry_fits (k, v)" "off = length pre"
  shows "list_copy data (Suc n) off =
    map_option (\<lambda>es. (k, v) # es) (list_copy data n (off + 6 + length k + length v))"
proof -
  note f = entry_fields [OF assms]
  have r: "read_at data off 2 = Some (le_bytes 2 (length k))"
    "read_at data (off + 2) (length k) = Some k"
    "read_at data (off + 2 + length k) 4 = Some (le_bytes 4 (length v))"
    "read_at data (off + 6 + length k) (length v) = Some v"
    unfolding read_at_def f(2,3,5-7) by simp_all
  have a: "off + 2 + length k + 4 = off + 6 + length k" by simp
  have l: "le_val (le_bytes 2 (length k)) = length k" "le_val (le_bytes 4 (length v)) = length v"
    using assms(2) by (simp_all add: entry_fits_def)
  show ?thesis
    by (simp only: list_copy.simps r option.case l Let_def a) (simp split: option.splits)
qed

lemma list_copy_entries:
  assumes "data = pre @ concat (map list_entry_bytes es) @ post" "\<And>e. e \<in> set es \<Longrightarrow> entry_fits e" "off = length pre"
  shows "list_copy data (length es + n) off =
    map_option (\<lambda>fs. es @ fs) (list_copy data n (off + length (concat (map list_entry_bytes es))))"
  using assms
proof (induction es arbitrary: pre off)
  case Nil
  then show ?case by (cases "list_copy data n off") simp_all
next
  case (Cons e es)
  obtain k v where e: "e = (k, v)" by fastforce
  have fit: "entry_fits (k, v)" using Cons.prems e by simp
  have len: "length (list_entry_bytes e) = 6 + length k + length v"
    using fit e by (simp add: entry_fits_def list_entry_length)
  have "list_copy data (Suc (length es + n)) off =
      map_option (\<lambda>es. (k, v) # es) (list_copy data (length es + n) (off + 6 + length k + length v))"
    using Cons.prems e fit by (intro list_copy_step [of _ pre k v "concat (map list_entry_bytes es) @ post"]) simp_all
  also have "list_copy data (length es + n) (off + 6 + length k + length v) =
      map_option (\<lambda>fs. es @ fs)
        (list_copy data n (off + 6 + length k + length v + length (concat (map list_entry_bytes es))))"
    using Cons.prems len by (intro Cons.IH [of "pre @ list_entry_bytes e"]) simp_all
  also have "off + 6 + length k + length v + length (concat (map list_entry_bytes es)) =
      off + length (concat (map list_entry_bytes (e # es)))"
    using len by simp
  finally show ?case using e by (simp add: option.map_comp comp_def)
qed

lemma parse_list_entries:
  assumes "\<And>e. e \<in> set es \<Longrightarrow> entry_fits e"
  shows "parse_list (concat (map list_entry_bytes es)) = Some es"
proof -
  let ?d = "concat (map list_entry_bytes es)"
  have "list_count ?d 0 = length es"
    using list_count_entries [of ?d "[]" es "[]" 0] assms by (simp add: list_count.simps)
  moreover have "list_copy ?d (length es + 0) 0 = Some es"
    using list_copy_entries [of ?d "[]" es "[]" 0 0] assms by simp
  ultimately show ?thesis by (simp add: parse_list_def)
qed

end
