(* ===== verification/NvmeStack.thy ===== *)
theory NvmeStack
  imports NvmeClient
begin

text \<open>
  The client and the simulator put together: whatever segments the network delivers, a request
  within the device's bounds gets the answer that the simulator's store gives directly.
\<close>

section \<open>The server's loop\<close>

definition segmenting :: "(nat \<Rightarrow> bytes \<Rightarrow> stream) \<Rightarrow> bool" where
  "segmenting net \<longleftrightarrow> (\<forall>n b. concat (net n b) = b \<and> live_stream (net n b))"

lemma recv_exact_append:
  assumes "live_stream st" "concat st = a @ b" "length a = n"
  obtains st' where "recv_exact st n = Some (a, st')" "concat st' = b" "live_stream st'"
  using recv_exact_concat [OF assms(1), of n] assms(2,3) by auto

lemma recv_exact_short:
  "live_stream st \<Longrightarrow> length (concat st) < n \<Longrightarrow> recv_exact st n = None"
  using recv_exact_concat [of st n] by auto

lemma live_Nil: "live_stream st \<Longrightarrow> concat st = [] \<Longrightarrow> st = []"
  by (cases st) (auto simp: live_stream_def)

text \<open>A request that the server can read in full.\<close>

definition framed :: "nvme_kv_req_hdr \<Rightarrow> string \<Rightarrow> bytes \<Rightarrow> bool" where
  "framed req key val \<longleftrightarrow> wf_req req \<and> rq_magic req = NVME_KV_MAGIC \<and> rq_key_len req = length key \<and>
     length key \<le> NVME_KV_MAX_KEY_LEN \<and>
     (if rq_opcode req = NVME_KV_OP_STORE
      then rq_value_len req = length val \<and> length val \<le> NVME_KV_MAX_VAL_LEN else val = [])"

lemma serve_request_framed:
  assumes st: "live_stream st" "concat st = req_bytes req @ key @ val @ post"
    and req: "framed req key val" and d: "cmd_dispatch mem req key val = (resp, d, mem')"
  shows "\<exists>st'. serve_request mem st = SrvReply (resp_bytes resp @ d) mem' st' \<and> concat st' = post \<and> live_stream st'"
proof -
  have wf: "wf_req req" and magic: "rq_magic req = NVME_KV_MAGIC" and kl: "rq_key_len req = length key"
    and kmax: "length key \<le> NVME_KV_MAX_KEY_LEN"
    using req by (simp_all add: framed_def)
  let ?n = "if rq_opcode req = NVME_KV_OP_STORE then rq_value_len req else 0"
  have n: "?n = length val" "length val \<le> NVME_KV_MAX_VAL_LEN"
    using req by (auto simp: framed_def split: if_splits)
  obtain st1 where r1: "recv_exact st SIZEOF_REQ = Some (req_bytes req, st1)" "concat st1 = key @ val @ post" "live_stream st1"
    using st by (rule recv_exact_append) simp
  obtain st2 where r2: "recv_exact st1 (length key) = Some (key, st2)" "concat st2 = val @ post" "live_stream st2"
    using r1(3,2) by (rule recv_exact_append) simp
  obtain st3 where r3: "recv_exact st2 (length val) = Some (val, st3)" "concat st3 = post" "live_stream st3"
    using r2(3,2) by (rule recv_exact_append) simp
  have "serve_request mem st = SrvReply (resp_bytes resp @ d) mem' st3"
    using kmax n(2)
    unfolding serve_request_def r1(1) option.case prod.case Let_def req_roundtrip [OF wf] magic kl r2(1)
      n(1) r3(1) d by simp
  with r3 show ?thesis by blast
qed

lemma serve_request_empty: "serve_request mem [] = SrvWait"
  by (simp add: serve_request_def recv_exact.simps SIZEOF_REQ_def)

text \<open>The answers to a list of requests and the store after them.\<close>

fun dispatch_all ::
  "kv_mem \<Rightarrow> (nvme_kv_req_hdr \<times> string \<times> bytes) list \<Rightarrow> bytes \<times> kv_mem" where
  "dispatch_all mem [] = ([], mem)"
| "dispatch_all mem ((req, key, val) # rs) =
     (let (resp, d, mem1) = cmd_dispatch mem req key val;
          (out, mem2) = dispatch_all mem1 rs
      in (resp_bytes resp @ d @ out, mem2))"

lemma handle_connection_all:
  assumes "live_stream st" "concat st = concat (map (\<lambda>(req, key, val). req_bytes req @ key @ val) rs)"
    and "list_all (\<lambda>(req, key, val). framed req key val) rs"
  shows "handle_connection mem st = (fst (dispatch_all mem rs), snd (dispatch_all mem rs), False, [])"
  using assms
proof (induction rs arbitrary: mem st)
  case Nil
  then have "st = []" using live_Nil by simp
  then show ?case by (simp add: handle_connection.simps serve_request_empty)
next
  case (Cons r rs)
  obtain req key val where r: "r = (req, key, val)" by (cases r) auto
  obtain resp d mem1 where d: "cmd_dispatch mem req key val = (resp, d, mem1)" by (metis prod_cases3)
  obtain st1 where s: "serve_request mem st = SrvReply (resp_bytes resp @ d) mem1 st1"
    "concat st1 = concat (map (\<lambda>(req, key, val). req_bytes req @ key @ val) rs)" "live_stream st1"
    using serve_request_framed [OF Cons.prems(1) _ _ d] Cons.prems(2,3) r by fastforce
  have "handle_connection mem1 st1 = (fst (dispatch_all mem1 rs), snd (dispatch_all mem1 rs), False, [])"
    using s Cons.prems(3) by (intro Cons.IH) simp_all
  then show ?case
    by (simp add: handle_connection.simps [of mem st] s(1) r d split_beta)
qed

section \<open>Dispatch\<close>

definition wf_mem :: "kv_mem \<Rightarrow> bool" where
  "wf_mem mem \<longleftrightarrow> (\<forall>k v. DAList.lookup mem k = Some v \<longrightarrow>
     length k \<le> NVME_KV_MAX_KEY_LEN \<and> length v \<le> NVME_KV_MAX_VAL_LEN)"

lemma wf_memD:
  "wf_mem mem \<Longrightarrow> DAList.lookup mem k = Some v \<Longrightarrow> length k \<le> NVME_KV_MAX_KEY_LEN \<and> length v \<le> NVME_KV_MAX_VAL_LEN"
  by (simp add: wf_mem_def)

lemmas nvme_max_defs = NVME_KV_MAX_KEY_LEN_def NVME_KV_MAX_VAL_LEN_def

lemma list_prefix_fits: "wf_mem mem \<Longrightarrow> e \<in> set (kv_mem_list_prefix mem p) \<Longrightarrow> entry_fits e"
  using wf_memD [of mem "fst e" "snd e"]
  by (auto simp: set_list_prefix entry_fits_def nvme_max_defs split: prod.splits)

lemma length_list_bytes:
  "(\<And>e. e \<in> set es \<Longrightarrow> entry_fits e) \<Longrightarrow> length (concat (map list_entry_bytes es)) = list_total es"
proof (induction es)
  case (Cons e es)
  then show ?case
    using list_entry_length [of "fst e" "snd e"] by (simp add: list_total_def entry_fits_def)
qed (simp add: list_total_def)

definition reply_wf :: "nvme_kv_resp_hdr \<Rightarrow> bytes \<Rightarrow> bool" where
  "reply_wf resp d \<longleftrightarrow> wf_resp resp \<and> rs_magic resp = NVME_KV_MAGIC \<and> rs_value_len resp = length d"

definition idle :: "nvme_kv_conn \<Rightarrow> bool" where
  "idle c \<longleftrightarrow> c_open c \<and> c_up c = [] \<and> c_down c = [] \<and> c_next_cmd_id c < 4294967296 \<and> wf_mem (c_mem c)"

lemma idle_next: "idle c \<Longrightarrow> wf_mem mem \<Longrightarrow> idle (c\<lparr>c_next_cmd_id := u32 n, c_mem := mem\<rparr>)"
  by (simp add: idle_def)

definition request_fits :: "nat \<Rightarrow> string \<Rightarrow> bytes \<Rightarrow> bool" where
  "request_fits opcode key val \<longleftrightarrow> opcode < 256 \<and> length key \<le> NVME_KV_MAX_KEY_LEN \<and>
     (if opcode = NVME_KV_OP_STORE then length val \<le> NVME_KV_MAX_VAL_LEN else val = [])"

lemma nvme_request_framed:
  "idle c \<Longrightarrow> request_fits opcode key val \<Longrightarrow> framed (nvme_request c opcode 0 key val) key val"
  by (simp add: framed_def nvme_request_def request_fits_def wf_req_def idle_def nvme_max_defs
      NVME_KV_MAGIC_def NVME_KV_VERSION_def split: if_splits)

lemma nvme_transact_idle:
  assumes net: "segmenting net" and c: "idle c" and fits: "request_fits opcode key val"
    and d: "cmd_dispatch (c_mem c) (nvme_request c opcode 0 key val) key val = (resp, d, mem)"
    and reply: "reply_wf resp d"
  shows "nvme_kv_transact net c opcode 0 key val =
    (TxnOk resp d, c\<lparr>c_next_cmd_id := u32 (c_next_cmd_id c + 1), c_mem := mem\<rparr>)"
proof -
  have n: "concat (net k b) = b" "live_stream (net k b)" for k b
    using net by (simp_all add: segmenting_def)
  let ?req = "nvme_request c opcode 0 key val" and ?id = "c_next_cmd_id c"
  let ?c = "c\<lparr>c_next_cmd_id := u32 (?id + 1), c_mem := mem\<rparr>"
  have val: "(if opcode = NVME_KV_OP_STORE then val else []) = val"
    using fits by (simp add: request_fits_def split: if_splits)
  have "handle_connection (c_mem c) (net ?id (req_bytes ?req @ key @ val)) = (resp_bytes resp @ d, mem, False, [])"
    using handle_connection_all [OF n(2), of ?id "req_bytes ?req @ key @ val" "[(?req, key, val)]" "c_mem c"]
      nvme_request_framed [OF c fits] d n(1) by simp
  moreover obtain s1 where s1: "recv_exact (net ?id (resp_bytes resp @ d)) SIZEOF_RESP = Some (resp_bytes resp, s1)"
    "concat s1 = d" "live_stream s1"
    using n(2) [of ?id "resp_bytes resp @ d"]
    by (rule recv_exact_append [where a = "resp_bytes resp" and b = d]) (simp_all add: n(1))
  moreover obtain s2 where "recv_exact s1 (length d) = Some (d, s2)" "concat s2 = []"
    using s1(3) by (rule recv_exact_append [where a = d and b = "[]"]) (simp_all add: s1(2))
  moreover have "resp_of_bytes (resp_bytes resp) = resp" "rs_magic resp = NVME_KV_MAGIC" "rs_value_len resp = length d"
    using reply by (simp_all add: reply_wf_def resp_roundtrip)
  moreover have "c_open c" "c_up c = []" "c_down c = []" using c by (simp_all add: idle_def)
  ultimately show ?thesis
    by (simp add: nvme_kv_transact_def val nvme_recv_response_def Let_def)
qed

text \<open>Each command on a well-formed store, within bounds.\<close>

lemma dispatch_store:
  assumes "key \<noteq> []" "request_fits NVME_KV_OP_STORE key val"
  shows "cmd_dispatch mem (nvme_request c NVME_KV_OP_STORE 0 key val) key val =
    (init_resp (c_next_cmd_id c), [], DAList.update key val mem)"
  using assms
  by (simp add: cmd_dispatch_def handle_store_def nvme_request_def bad_key_len_def request_fits_def
      kv_mem_store_def nvme_max_defs)

lemma dispatch_retrieve:
  assumes "key \<noteq> []" "request_fits NVME_KV_OP_RETRIEVE key []" "wf_mem mem"
  shows "cmd_dispatch mem (nvme_request c NVME_KV_OP_RETRIEVE 0 key []) key [] =
    (case DAList.lookup mem key of
       None \<Rightarrow> ((init_resp (c_next_cmd_id c))\<lparr>rs_status := NVME_KV_SC_NOT_FOUND\<rparr>, [], mem)
     | Some v \<Rightarrow> ((init_resp (c_next_cmd_id c))\<lparr>rs_value_len := length v\<rparr>, v, mem))"
  using assms wf_memD [OF assms(3), of key]
  by (auto simp: cmd_dispatch_def handle_retrieve_def nvme_request_def bad_key_len_def request_fits_def
      kv_mem_retrieve_def nvme_max_defs nvme_op_defs split: option.splits)

lemma dispatch_delete:
  assumes "key \<noteq> []" "request_fits NVME_KV_OP_DELETE key []"
  shows "cmd_dispatch mem (nvme_request c NVME_KV_OP_DELETE 0 key []) key [] =
    (init_resp (c_next_cmd_id c), [], DAList.delete key mem)"
  using assms
  by (simp add: cmd_dispatch_def handle_delete_def nvme_request_def bad_key_len_def request_fits_def
      kv_mem_delete_def nvme_max_defs nvme_op_defs)

lemma dispatch_list:
  assumes "request_fits NVME_KV_OP_LIST p []" "wf_mem mem" "list_total (kv_mem_list_prefix mem p) < 4294967296"
  shows "cmd_dispatch mem (nvme_request c NVME_KV_OP_LIST 0 p []) p [] =
    ((init_resp (c_next_cmd_id c))\<lparr>rs_value_len := list_total (kv_mem_list_prefix mem p)\<rparr>,
     concat (map list_entry_bytes (kv_mem_list_prefix mem p)), mem)"
  using assms length_list_bytes [of "kv_mem_list_prefix mem p"] list_prefix_fits [OF assms(2)]
  by (auto simp: cmd_dispatch_def handle_list_def nvme_request_def request_fits_def list_total_def
      nvme_max_defs nvme_op_defs init_resp_def Let_def)

lemma init_resp_wf:
  "n < 4294967296 \<Longrightarrow> reply_wf (init_resp n) []"
  "n < 4294967296 \<Longrightarrow> reply_wf ((init_resp n)\<lparr>rs_status := NVME_KV_SC_NOT_FOUND\<rparr>) []"
  "n < 4294967296 \<Longrightarrow> m < 4294967296 \<Longrightarrow> length d = m \<Longrightarrow> reply_wf ((init_resp n)\<lparr>rs_value_len := m\<rparr>) d"
  by (simp_all add: reply_wf_def init_resp_def wf_resp_def NVME_KV_MAGIC_def nvme_sc_defs)

lemma wf_mem_update:
  "wf_mem mem \<Longrightarrow> length k \<le> NVME_KV_MAX_KEY_LEN \<Longrightarrow> length v \<le> NVME_KV_MAX_VAL_LEN \<Longrightarrow> wf_mem (DAList.update k v mem)"
  "wf_mem mem \<Longrightarrow> wf_mem (DAList.delete k mem)"
  by (auto simp: wf_mem_def DAList.lookup_update DAList.lookup_delete split: if_splits)

section \<open>Calls through the backend\<close>

datatype kv_req = KvGet string | KvPut string bytes | KvDelete string | KvList string
datatype kv_reply = RepGet "bytes option" | RepOk bool | RepList "(string \<times> bytes) list option"

text \<open>A call on a backend of the interface.\<close>

fun kv_call :: "'s kv_ops \<Rightarrow> 's \<Rightarrow> kv_req \<Rightarrow> kv_reply \<times> 's" where
  "kv_call K s (KvGet k) = (RepGet (kv_get K s k), s)"
| "kv_call K s (KvPut k v) = (let (okay, s') = kv_put K s k v in (RepOk okay, s'))"
| "kv_call K s (KvDelete k) = (let (okay, s') = kv_delete K s k in (RepOk okay, s'))"
| "kv_call K s (KvList p) = (RepList (Some (kv_iter K s p)), s)"

fun kv_calls :: "'s kv_ops \<Rightarrow> 's \<Rightarrow> kv_req list \<Rightarrow> kv_reply list \<times> 's" where
  "kv_calls K s [] = ([], s)"
| "kv_calls K s (r # rs) =
     (let (rep, s1) = kv_call K s r; (reps, s2) = kv_calls K s1 rs in (rep # reps, s2))"

text \<open>The loop with which every caller walks an iterator.\<close>

function kv_iter_all :: "kv_iterator \<Rightarrow> (string \<times> bytes) list" where
  "kv_iter_all it =
     (if kv_iter_valid it
      then (the (kv_iter_key it), the (kv_iter_value it)) # kv_iter_all (kv_iter_next it)
      else [])"
  by pat_completeness auto
termination
  by (relation "measure (\<lambda>it. length (it_entries it) - it_pos it)") (auto simp: kv_iter_valid_def kv_iter_next_def)

declare kv_iter_all.simps [simp del]

lemma kv_iter_all_drop: "kv_iter_all it = drop (it_pos it) (it_entries it)"
proof (induction it rule: kv_iter_all.induct)
  case (1 it)
  show ?case
  proof (cases "kv_iter_valid it")
    case True
    then have "kv_iter_all it = it_entries it ! it_pos it # drop (Suc (it_pos it)) (it_entries it)"
      using 1 by (simp add: kv_iter_all.simps [of it] kv_iter_valid_def kv_iter_key_def kv_iter_value_def kv_iter_next_def)
    then show ?thesis using True by (simp add: kv_iter_valid_def Cons_nth_drop_Suc)
  qed (simp add: kv_iter_all.simps [of it] kv_iter_valid_def)
qed

fun map_ret :: "('a \<Rightarrow> 'b) \<Rightarrow> 'a nvme_ret \<Rightarrow> 'b nvme_ret" where
  "map_ret f Blocked = Blocked"
| "map_ret f Overread = Overread"
| "map_ret f (Ret x) = Ret (f x)"

fun nvme_call ::
  "(nat \<Rightarrow> bytes \<Rightarrow> stream) \<Rightarrow> nvme_kv_conn \<Rightarrow> kv_req \<Rightarrow> kv_reply nvme_ret \<times> nvme_kv_conn" where
  "nvme_call net c (KvGet k) = (let (r, c') = nvme_kv_get net c k in (map_ret RepGet r, c'))"
| "nvme_call net c (KvPut k v) = (let (r, c') = nvme_kv_put net c k v in (map_ret RepOk r, c'))"
| "nvme_call net c (KvDelete k) = (let (r, c') = nvme_kv_delete net c k in (map_ret RepOk r, c'))"
| "nvme_call net c (KvList p) =
     (let (r, c') = nvme_kv_iter_prefix net c p in (map_ret (\<lambda>it. RepList (map_option kv_iter_all it)) r, c'))"

fun nvme_calls ::
  "(nat \<Rightarrow> bytes \<Rightarrow> stream) \<Rightarrow> nvme_kv_conn \<Rightarrow> kv_req list \<Rightarrow> kv_reply nvme_ret list \<times> nvme_kv_conn" where
  "nvme_calls net c [] = ([], c)"
| "nvme_calls net c (r # rs) =
     (let (rep, c1) = nvme_call net c r; (reps, c2) = nvme_calls net c1 rs in (rep # reps, c2))"

text \<open>The bounds of the device, for one call and for a sequence.\<close>

fun call_fits :: "kv_mem \<Rightarrow> kv_req \<Rightarrow> bool" where
  "call_fits mem (KvGet k) \<longleftrightarrow> 0 < length k \<and> length k \<le> NVME_KV_MAX_KEY_LEN"
| "call_fits mem (KvPut k v) \<longleftrightarrow> 0 < length k \<and> length k \<le> NVME_KV_MAX_KEY_LEN \<and> length v \<le> NVME_KV_MAX_VAL_LEN"
| "call_fits mem (KvDelete k) \<longleftrightarrow> 0 < length k \<and> length k \<le> NVME_KV_MAX_KEY_LEN"
| "call_fits mem (KvList p) \<longleftrightarrow> length p \<le> NVME_KV_MAX_KEY_LEN \<and> list_total (kv_mem_list_prefix mem p) < 4294967296"

fun calls_fit :: "kv_mem \<Rightarrow> kv_req list \<Rightarrow> bool" where
  "calls_fit mem [] \<longleftrightarrow> True"
| "calls_fit mem (r # rs) \<longleftrightarrow> call_fits mem r \<and> calls_fit (snd (kv_call mem_ops mem r)) rs"

lemma nvme_call_idle:
  assumes net: "segmenting net" and c: "idle c" and fits: "call_fits (c_mem c) r"
  shows "nvme_call net c r = (Ret (fst (kv_call mem_ops (c_mem c) r)),
      c\<lparr>c_next_cmd_id := u32 (c_next_cmd_id c + 1), c_mem := snd (kv_call mem_ops (c_mem c) r)\<rparr>)
    \<and> wf_mem (snd (kv_call mem_ops (c_mem c) r))"
proof -
  have wf: "wf_mem (c_mem c)" and cid: "c_next_cmd_id c < 4294967296" using c by (simp_all add: idle_def)
  note t = nvme_transact_idle [OF net c] and i = init_resp_wf [OF cid]
  show ?thesis
  proof (cases r)
    case (KvGet k)
    have f: "request_fits NVME_KV_OP_RETRIEVE k []" "k \<noteq> []" using fits KvGet by (auto simp: request_fits_def nvme_op_defs)
    note d = dispatch_retrieve [OF f(2,1) wf, of c]
    show ?thesis
    proof (cases "DAList.lookup (c_mem c) k")
      case None
      with t [OF f(1) d [unfolded None option.case] i(2)] wf KvGet show ?thesis
        by (simp add: nvme_kv_get_def kv_mem_retrieve_def init_resp_def nvme_sc_defs)
    next
      case (Some v)
      have "length v < 4294967296" using wf_memD [OF wf Some] by (simp add: nvme_max_defs)
      from t [OF f(1) d [unfolded Some option.case] i(3) [OF this refl]] Some wf KvGet show ?thesis
        by (simp add: nvme_kv_get_def kv_mem_retrieve_def init_resp_def)
    qed
  next
    case (KvPut k v)
    have f: "request_fits NVME_KV_OP_STORE k v" "k \<noteq> []" using fits KvPut by (auto simp: request_fits_def nvme_op_defs)
    from t [OF f(1) dispatch_store [OF f(2,1)] i(1)] wf KvPut fits show ?thesis
      by (simp add: nvme_kv_put_def kv_mem_store_def init_resp_def wf_mem_update)
  next
    case (KvDelete k)
    have f: "request_fits NVME_KV_OP_DELETE k []" "k \<noteq> []" using fits KvDelete by (auto simp: request_fits_def nvme_op_defs)
    from t [OF f(1) dispatch_delete [OF f(2,1)] i(1)] wf KvDelete show ?thesis
      by (simp add: nvme_kv_delete_def kv_mem_delete_def init_resp_def wf_mem_update)
  next
    case (KvList p)
    let ?es = "kv_mem_list_prefix (c_mem c) p"
    have f: "request_fits NVME_KV_OP_LIST p []" "list_total ?es < 4294967296"
      using fits KvList by (auto simp: request_fits_def nvme_op_defs)
    have len: "length (concat (map list_entry_bytes ?es)) = list_total ?es"
      by (rule length_list_bytes) (rule list_prefix_fits [OF wf])
    have empty: "list_total ?es = 0 \<longleftrightarrow> ?es = []" by (cases ?es) (simp_all add: list_total_def)
    have parse: "parse_list (concat (map list_entry_bytes ?es)) = Some ?es"
      by (rule parse_list_entries) (rule list_prefix_fits [OF wf])
    have "nvme_kv_iter_prefix net c p =
        (Ret (Some \<lparr>it_entries = ?es, it_pos = 0\<rparr>), c\<lparr>c_next_cmd_id := u32 (c_next_cmd_id c + 1)\<rparr>)"
      using t [OF f(1) dispatch_list [OF f(1) wf f(2)] i(3) [OF f(2) len]] len empty
      by (simp add: nvme_kv_iter_prefix_def init_resp_def parse del: length_concat length_0_conv)
    then show ?thesis using KvList wf by (simp add: kv_iter_all_drop)
  qed
qed

lemma nvme_calls_idle:
  assumes "segmenting net" "idle c" "calls_fit (c_mem c) rs"
  shows "fst (nvme_calls net c rs) = map Ret (fst (kv_calls mem_ops (c_mem c) rs)) \<and>
    c_mem (snd (nvme_calls net c rs)) = snd (kv_calls mem_ops (c_mem c) rs) \<and> idle (snd (nvme_calls net c rs))"
  using assms(2,3)
proof (induction rs arbitrary: c)
  case (Cons r rs)
  let ?rep = "fst (kv_call mem_ops (c_mem c) r)" and ?mem = "snd (kv_call mem_ops (c_mem c) r)"
  let ?c = "c\<lparr>c_next_cmd_id := u32 (c_next_cmd_id c + 1), c_mem := ?mem\<rparr>"
  have step: "nvme_call net c r = (Ret ?rep, ?c)" "wf_mem ?mem"
    using nvme_call_idle [OF assms(1) Cons.prems(1)] Cons.prems(2) by simp_all
  have "idle ?c" using Cons.prems(1) step(2) by (rule idle_next)
  moreover have "calls_fit (c_mem ?c) rs" using Cons.prems(2) by simp
  ultimately have "fst (nvme_calls net ?c rs) = map Ret (fst (kv_calls mem_ops ?mem rs)) \<and>
      c_mem (snd (nvme_calls net ?c rs)) = snd (kv_calls mem_ops ?mem rs) \<and> idle (snd (nvme_calls net ?c rs))"
    using Cons.IH [of ?c] by simp
  then show ?case by (simp add: step(1) split_beta)
qed simp

section \<open>After the server has closed\<close>

lemma nvme_transact_closed:
  "\<not> c_open c \<Longrightarrow> nvme_kv_transact net c opcode flags key val =
     (TxnError, c\<lparr>c_next_cmd_id := u32 (c_next_cmd_id c + 1)\<rparr>)"
  by (simp add: nvme_kv_transact_def Let_def)

text \<open>What a caller sees of a failed call.\<close>

fun failed_reply :: "kv_req \<Rightarrow> kv_reply" where
  "failed_reply (KvGet k) = RepGet None"
| "failed_reply (KvPut k v) = RepOk False"
| "failed_reply (KvDelete k) = RepOk False"
| "failed_reply (KvList p) = RepList None"

lemma nvme_call_closed:
  "\<not> c_open c \<Longrightarrow> nvme_call net c r = (Ret (failed_reply r), c\<lparr>c_next_cmd_id := u32 (c_next_cmd_id c + 1)\<rparr>)"
  by (cases r) (simp_all add: nvme_kv_get_def nvme_kv_put_def nvme_kv_delete_def nvme_kv_iter_prefix_def
      nvme_transact_closed)

lemma nvme_calls_closed:
  "\<not> c_open c \<Longrightarrow> fst (nvme_calls net c rs) = map (Ret \<circ> failed_reply) rs \<and> c_mem (snd (nvme_calls net c rs)) = c_mem c"
  by (induction rs arbitrary: c) (simp_all add: nvme_call_closed split_beta)

text \<open>A request that the server refuses to read.\<close>

definition refused :: "nat \<Rightarrow> string \<Rightarrow> bytes \<Rightarrow> bool" where
  "refused opcode key val \<longleftrightarrow> length key < 65536 \<and> length val < 4294967296 \<and>
     (NVME_KV_MAX_KEY_LEN < length key \<or> opcode = NVME_KV_OP_STORE \<and> NVME_KV_MAX_VAL_LEN < length val)"

lemma serve_request_refused:
  assumes st: "live_stream st" "concat st = req_bytes req @ key @ val"
    and req: "wf_req req" "rq_magic req = NVME_KV_MAGIC" "rq_key_len req = length key"
      "rq_opcode req = NVME_KV_OP_STORE \<Longrightarrow> rq_value_len req = length val"
    and ref: "refused (rq_opcode req) key val"
  shows "serve_request mem st = SrvClose"
proof -
  obtain st1 where r1: "recv_exact st SIZEOF_REQ = Some (req_bytes req, st1)" "concat st1 = key @ val" "live_stream st1"
    using st by (rule recv_exact_append) simp
  obtain st2 where r2: "recv_exact st1 (length key) = Some (key, st2)"
    using r1(3,2) by (rule recv_exact_append) simp
  show ?thesis
    using ref req(4)
    unfolding serve_request_def r1(1) option.case prod.case Let_def req_roundtrip [OF req(1)] req(2,3) r2 refused_def
    by auto
qed

lemma nvme_transact_refused:
  assumes net: "segmenting net" and c: "idle c" and op: "opcode < 256" and ref: "refused opcode key val"
  shows "nvme_kv_transact net c opcode 0 key val =
    (TxnError, c\<lparr>c_next_cmd_id := u32 (c_next_cmd_id c + 1), c_open := False\<rparr>)"
proof -
  have n: "concat (net k b) = b" "live_stream (net k b)" for k b
    using net by (simp_all add: segmenting_def)
  let ?req = "nvme_request c opcode 0 key val" and ?id = "c_next_cmd_id c"
  let ?sent = "req_bytes ?req @ key @ (if opcode = NVME_KV_OP_STORE then val else [])"
  have "wf_req ?req"
    using c op by (simp add: nvme_request_def wf_req_def idle_def NVME_KV_MAGIC_def NVME_KV_VERSION_def u16_def)
  moreover have "refused (rq_opcode ?req) key (if opcode = NVME_KV_OP_STORE then val else [])"
    using ref by (auto simp: refused_def nvme_request_def)
  ultimately have "serve_request (c_mem c) (net ?id ?sent) = SrvClose"
    using ref by (intro serve_request_refused [OF n(2) n(1)]) (simp_all add: nvme_request_def refused_def)
  then have h: "handle_connection (c_mem c) (net ?id ?sent) = ([], c_mem c, True, [])"
    by (simp add: handle_connection.simps)
  have "net ?id [] = []" using live_Nil [OF n(2)] n(1) by blast
  then have "recv_exact (net ?id []) SIZEOF_RESP = None" by (simp add: recv_exact.simps SIZEOF_RESP_def)
  moreover have "c_open c" "c_up c = []" "c_down c = []" using c by (simp_all add: idle_def)
  ultimately show ?thesis
    by (simp add: nvme_kv_transact_def Let_def h nvme_recv_response_def split del: if_split)
qed

fun call_refused :: "kv_req \<Rightarrow> bool" where
  "call_refused (KvGet k) \<longleftrightarrow> refused NVME_KV_OP_RETRIEVE k []"
| "call_refused (KvPut k v) \<longleftrightarrow> refused NVME_KV_OP_STORE k v"
| "call_refused (KvDelete k) \<longleftrightarrow> refused NVME_KV_OP_DELETE k []"
| "call_refused (KvList p) \<longleftrightarrow> refused NVME_KV_OP_LIST p []"

lemma nvme_call_refused:
  assumes "segmenting net" "idle c" "call_refused r"
  shows "nvme_call net c r = (Ret (failed_reply r), c\<lparr>c_next_cmd_id := u32 (c_next_cmd_id c + 1), c_open := False\<rparr>)"
  using assms nvme_transact_refused [OF assms(1,2)]
  by (cases r) (simp_all add: nvme_kv_get_def nvme_kv_put_def nvme_kv_delete_def nvme_kv_iter_prefix_def nvme_op_defs)

section \<open>A list response that is cut off\<close>

lemma parse_list_overread:
  assumes "\<And>e. e \<in> set es \<Longrightarrow> entry_fits e" "entry_fits (k, v)" "n < 4294967296" "length v < n"
  shows "parse_list (concat (map list_entry_bytes es) @ le_bytes 2 (length k) @ k @ le_bytes 4 n @ v) = None"
proof -
  let ?pre = "concat (map list_entry_bytes es)" and ?rest = "le_bytes 2 (length k) @ k @ le_bytes 4 n @ v"
  let ?d = "?pre @ ?rest" and ?off = "length (concat (map list_entry_bytes es))"
  have f: "field ?off 2 ?d = length k" "field (?off + 2 + length k) 4 ?d = n"
    using assms by (simp_all add: field_def entry_fits_def)
  have len: "length ?d = ?off + 6 + length k + length v" by simp
  have "list_count ?d ?off = Suc 0"
    using assms(4) unfolding list_count.simps [of ?d ?off] f(1) Let_def len f(2)
    by (simp add: list_count.simps)
  then have "list_count ?d 0 = length es + 1"
    using list_count_entries [of ?d "[]" es ?rest 0] assms(1) by simp
  moreover have "list_copy ?d 1 ?off = None"
  proof -
    have r: "read_at ?d ?off 2 = Some (le_bytes 2 (length k))"
      "read_at ?d (?off + 2) (length k) = Some k"
      "read_at ?d (?off + 2 + length k) 4 = Some (le_bytes 4 n)"
      "read_at ?d (?off + 2 + length k + 4) n = None"
      using assms(4) unfolding read_at_def len by simp_all
    have l: "le_val (le_bytes 2 (length k)) = length k" "le_val (le_bytes 4 n) = n"
      using assms by (simp_all add: entry_fits_def)
    show ?thesis unfolding One_nat_def by (simp only: list_copy.simps r option.case l Let_def)
  qed
  ultimately show ?thesis
    using list_copy_entries [of ?d "[]" es ?rest 0 1] assms(1) unfolding parse_list_def by simp
qed

section \<open>Properties\<close>

text \<open>A network that delivers every byte by itself.\<close>

definition bytewise :: "nat \<Rightarrow> bytes \<Rightarrow> stream" where
  "bytewise n b = map (\<lambda>c. [c]) b"

lemma bytewise_segmenting: "segmenting bytewise"
  by (auto simp: segmenting_def bytewise_def live_stream_def comp_def)

definition sample_mem :: kv_mem where
  "sample_mem = DAList.update ''a'' ''1'' DAList.empty"

definition sample_conn :: nvme_kv_conn where
  "sample_conn = \<lparr>c_next_cmd_id = 4294967295, c_open = True, c_mem = sample_mem,
     c_up = [], c_down = []\<rparr>"

lemma sample_conn_idle: "idle sample_conn"
  by (simp add: idle_def sample_conn_def sample_mem_def wf_mem_def DAList.lookup_update nvme_max_defs)

lemma sample_scan:
  "kv_mem_list_prefix (DAList.delete ''a'' (DAList.update ''b'' ''2'' sample_mem)) ''b'' = [(''b'', ''2'')]"
  by code_simp

text \<open>
  C5. The backend is the store. On a connection with nothing under way, however the network cuts
  the bytes into segments, any sequence of reads, writes, deletions and prefix scans within the
  device's bounds returns, call by call, what the simulator's store returns when it is used
  directly; no call blocks, none reads past a buffer, the store ends in the same state and the
  connection is ready for the next call.
\<close>

theorem nvme_backend_is_store:
  assumes "segmenting net" "idle c" "calls_fit (c_mem c) rs"
  shows "fst (nvme_calls net c rs) = map Ret (fst (kv_calls mem_ops (c_mem c) rs)) \<and>
    c_mem (snd (nvme_calls net c rs)) = snd (kv_calls mem_ops (c_mem c) rs) \<and>
    idle (snd (nvme_calls net c rs))"
  using assms by (rule nvme_calls_idle)

theorem nvme_backend_is_store_witness:
  "fst (nvme_calls bytewise sample_conn [KvPut ''b'' ''2'', KvDelete ''a'', KvGet ''a'', KvList ''b''])
     = [Ret (RepOk True), Ret (RepOk True), Ret (RepGet None), Ret (RepList (Some [(''b'', ''2'')]))]"
proof -
  have fits: "calls_fit (c_mem sample_conn) [KvPut ''b'' ''2'', KvDelete ''a'', KvGet ''a'', KvList ''b'']"
    using sample_scan by (simp add: list_total_def nvme_max_defs kv_mem_store_def kv_mem_delete_def sample_conn_def)
  have "fst (kv_calls mem_ops sample_mem [KvPut ''b'' ''2'', KvDelete ''a'', KvGet ''a'', KvList ''b''])
      = [RepOk True, RepOk True, RepGet None, RepList (Some [(''b'', ''2'')])]"
    by code_simp
  with nvme_backend_is_store [OF bytewise_segmenting sample_conn_idle fits] show ?thesis
    by (simp add: sample_conn_def)
qed

text \<open>
  C36. Reading a list response back. A response that serialises entries (keys below 64 KiB, values
  below 4 GiB) gives the iterator exactly these entries in their order; a response whose last
  entry announces a longer value than the bytes that follow makes the copying pass read past the
  end of the received buffer, because the counting pass accepts the entry.
\<close>

theorem list_response_roundtrip:
  assumes "list_all entry_fits es" "entry_fits (k, v)" "n < 4294967296" "length v < n"
  shows "parse_list (concat (map list_entry_bytes es)) = Some es \<and>
    parse_list (concat (map list_entry_bytes es) @ le_bytes 2 (length k) @ k @ le_bytes 4 n @ v) = None"
  using assms parse_list_entries [of es] parse_list_overread [of es k v n] by (simp add: list_all_iff)

theorem list_response_roundtrip_witness:
  "parse_list (concat (map list_entry_bytes [(''k'', ''12'')])) = Some [(''k'', ''12'')] \<and>
   parse_list (concat (map list_entry_bytes [(''k'', ''12'')]) @ le_bytes 2 (length ''l'') @ ''l'' @ le_bytes 4 9 @ ''xy'') = None"
  by (rule list_response_roundtrip) (simp_all add: entry_fits_def)

text \<open>
  C35. A call beyond the device's bounds (a key of more than 272 bytes, or a value of more than
  2 MiB) ends the connection: the call fails, the store keeps its contents, and since the client
  never connects again every later call fails too, whatever it asks for.
\<close>

theorem oversized_call_ends_connection:
  assumes "segmenting net" "idle c" "call_refused r"
  shows "fst (nvme_calls net c (r # rs)) = map (Ret \<circ> failed_reply) (r # rs) \<and>
    c_mem (snd (nvme_calls net c (r # rs))) = c_mem c"
  using nvme_calls_closed [of "c\<lparr>c_next_cmd_id := u32 (c_next_cmd_id c + 1), c_open := False\<rparr>" net rs]
  by (simp add: nvme_call_refused [OF assms] split_beta)

theorem oversized_call_ends_connection_witness:
  "fst (nvme_calls bytewise sample_conn [KvGet (replicate 273 (CHR ''k'')), KvGet ''a'']) = [Ret (RepGet None), Ret (RepGet None)]"
  using oversized_call_ends_connection [OF bytewise_segmenting sample_conn_idle,
      of "KvGet (replicate 273 (CHR ''k''))" "[KvGet ''a'']"]
  by (simp add: refused_def nvme_max_defs)

text \<open>Names of up to 255 bytes and numbers below the widths of their fields.\<close>

fun key_in_range :: "key \<Rightarrow> bool" where
  "key_in_range KSuper \<longleftrightarrow> True"
| "key_in_range (KInode ino) \<longleftrightarrow> ino < 10 ^ 20"
| "key_in_range (KDirent p name) \<longleftrightarrow> p < 10 ^ 14 \<and> length name \<le> 255"
| "key_in_range (KBlock ino b) \<longleftrightarrow> ino < 10 ^ 20 \<and> b < 10 ^ 20"
| "key_in_range (KXattr ino name) \<longleftrightarrow> ino < 10 ^ 14 \<and> length name \<le> 255"
| "key_in_range (KVerCounter ino) \<longleftrightarrow> ino < 10 ^ 20"
| "key_in_range (KVerMeta ino v) \<longleftrightarrow> ino < 10 ^ 20 \<and> v < 10 ^ 20"
| "key_in_range (KVerBlock ino v b) \<longleftrightarrow> ino < 10 ^ 20 \<and> v < 10 ^ 20 \<and> b < 10 ^ 20"
| "key_in_range (KMemSeq ino) \<longleftrightarrow> ino < 10 ^ 20"
| "key_in_range (KMemGen ino) \<longleftrightarrow> ino < 10 ^ 20"
| "key_in_range (KMemVec ino s) \<longleftrightarrow> ino < 10 ^ 20 \<and> s < 10 ^ 20"
| "key_in_range (KMemText ino s) \<longleftrightarrow> ino < 10 ^ 20 \<and> s < 10 ^ 20"
| "key_in_range (KMemHeader ino s) \<longleftrightarrow> ino < 10 ^ 20 \<and> s < 10 ^ 20"
| "key_in_range (KMemArchive ino g i) \<longleftrightarrow> ino < 10 ^ 20 \<and> g < 10 ^ 20 \<and> i < 10 ^ 20"
| "key_in_range (KMemSummary ino g) \<longleftrightarrow> ino < 10 ^ 20 \<and> g < 10 ^ 20"
| "key_in_range (KMemSummaryVec ino g) \<longleftrightarrow> ino < 10 ^ 20 \<and> g < 10 ^ 20"

lemma dec_length_20: "n < 10 ^ 20 \<Longrightarrow> length (dec n) \<le> 20"
  by (rule length_dec_le) simp_all

lemma dec_length_14: "n < 10 ^ 14 \<Longrightarrow> length (dec n) \<le> 14"
  by (rule length_dec_le) simp_all

lemma key_length_le: "key_in_range k \<Longrightarrow> 0 < length (encode k) \<and> length (encode k) \<le> 272"
  by (cases k; auto simp: key_defs dest!: dec_length_20 [simplified] dec_length_14 [simplified])

text \<open>
  The keys fit the device. Every key of the program is non-empty and at most 272 bytes long
  when names have at most 255 bytes (and the inode numbers in name keys at most 14 digits). The
  helper for directory entries itself allows longer ones: a name of 269 bytes or more passes its
  check against the 512-byte buffer up to the buffer's end, and already looking it up is a call
  that the device refuses.
\<close>

theorem keys_fit_device:
  "(key_in_range k \<longrightarrow> 0 < length (encode k) \<and> length (encode k) \<le> NVME_KV_MAX_KEY_LEN) \<and>
   (269 \<le> length name \<and> kvbfs_key_dirent KVBFS_KEY_MAX p name = Some key \<longrightarrow> call_refused (KvGet key))"
proof (intro conjI impI)
  show "0 < length (encode k)" "length (encode k) \<le> NVME_KV_MAX_KEY_LEN" if "key_in_range k"
    using key_length_le [OF that] by (simp_all add: nvme_max_defs)
next
  assume "269 \<le> length name \<and> kvbfs_key_dirent KVBFS_KEY_MAX p name = Some key"
  moreover have "Suc 0 \<le> length (dec p)" using dec_nonempty [of p] by (cases "dec p") simp_all
  ultimately show "call_refused (KvGet key)"
    by (auto simp del: dec_nonempty simp: kvbfs_key_dirent_def Let_def refused_def nvme_max_defs KVBFS_KEY_MAX_def split: if_splits)
qed

theorem keys_fit_device_witness:
  "length (encode (KXattr 7 ''user.a'')) \<le> NVME_KV_MAX_KEY_LEN \<and>
   call_refused (KvGet (''d:1:'' @ replicate 269 (CHR ''n'')))"
proof -
  have dec_1: "dec (Suc 0) = ''1''" by code_simp
  have "kvbfs_key_dirent KVBFS_KEY_MAX 1 (replicate 269 (CHR ''n'')) = Some (''d:1:'' @ replicate 269 (CHR ''n''))"
    by (simp add: kvbfs_key_dirent_def Let_def KVBFS_KEY_MAX_def dec_1)
  with keys_fit_device [of "KXattr 7 ''user.a''" "replicate 269 (CHR ''n'')" 1 "''d:1:'' @ replicate 269 (CHR ''n'')"]
  show ?thesis by simp
qed

end
