(* ===== verification/Rocks.thy ===== *)
theory Rocks
  imports KvMem
begin

text \<open>
  The RocksDB backend, \<^verbatim>\<open>src/kv_rocksdb.c\<close>: a wrapper around the C interface of RocksDB. The
  library is a parameter: its three point operations with the error each may report, the entries
  of a store, and those an iterator yields after a seek, with the error that ends it early. An
  iterator of the backend is the library's iterator, which is the entries from its position on,
  with a copy of the prefix; the wrapper does not ask for the iterator's error.
\<close>

section \<open>The wrapper\<close>

record 's rocksdb =
  rdb_get :: "'s \<Rightarrow> string \<Rightarrow> bytes option \<times> bool"
  rdb_put :: "'s \<Rightarrow> string \<Rightarrow> bytes \<Rightarrow> bool \<times> 's"
  rdb_delete :: "'s \<Rightarrow> string \<Rightarrow> bool \<times> 's"
  rdb_entries :: "'s \<Rightarrow> (string \<times> bytes) list"
  rdb_seek :: "'s \<Rightarrow> string \<Rightarrow> (string \<times> bytes) list \<times> bool"

text \<open>
  Opening and closing: \<open>opn\<close> is \<^verbatim>\<open>rocksdb_open\<close> with \<^verbatim>\<open>create_if_missing\<close>, which gives a handle and may set
  its error string; \<open>cls\<close> is \<^verbatim>\<open>rocksdb_close\<close>, not called without a handle.
\<close>

definition rocks_kv_open :: "(string \<Rightarrow> 'h \<times> bool) \<Rightarrow> string \<Rightarrow> 'h option" where
  "rocks_kv_open opn path = (let (db, err) = opn path in if err then None else Some db)"

definition rocks_kv_close :: "('h \<Rightarrow> 'w \<Rightarrow> 'w) \<Rightarrow> 'h option \<Rightarrow> 'w \<Rightarrow> 'w" where
  "rocks_kv_close cls db w = (case db of None \<Rightarrow> w | Some d \<Rightarrow> cls d w)"

text \<open>The flag of each operation says whether the library set its error string.\<close>

definition rocks_kv_get :: "'s rocksdb \<Rightarrow> 's \<Rightarrow> string \<Rightarrow> bytes option" where
  "rocks_kv_get R db key =
     (let (value, err) = rdb_get R db key
      in if err then None
         else case value of None \<Rightarrow> None | Some v \<Rightarrow> Some v)"

definition rocks_kv_put :: "'s rocksdb \<Rightarrow> 's \<Rightarrow> string \<Rightarrow> bytes \<Rightarrow> bool \<times> 's" where
  "rocks_kv_put R db key val = (let (err, db') = rdb_put R db key val in (if err then False else True, db'))"

definition rocks_kv_delete :: "'s rocksdb \<Rightarrow> 's \<Rightarrow> string \<Rightarrow> bool \<times> 's" where
  "rocks_kv_delete R db key = (let (err, db') = rdb_delete R db key in (if err then False else True, db'))"

record rocks_iterator =
  ri_iter :: "(string \<times> bytes) list"
  ri_prefix :: string

definition rocks_iter_prefix :: "'s rocksdb \<Rightarrow> 's \<Rightarrow> string \<Rightarrow> rocks_iterator" where
  "rocks_iter_prefix R db p = \<lparr>ri_iter = fst (rdb_seek R db p), ri_prefix = p\<rparr>"

definition rocks_iter_valid :: "rocks_iterator \<Rightarrow> bool" where
  "rocks_iter_valid it =
     (if ri_iter it = [] then False
      else
        let key = fst (hd (ri_iter it))
        in if length key < length (ri_prefix it) then False
           else memcmp (length (ri_prefix it)) key (ri_prefix it) = 0)"

definition rocks_iter_next :: "rocks_iterator \<Rightarrow> rocks_iterator" where
  "rocks_iter_next it = it\<lparr>ri_iter := tl (ri_iter it)\<rparr>"

definition rocks_iter_key :: "rocks_iterator \<Rightarrow> string" where
  "rocks_iter_key it = fst (hd (ri_iter it))"

definition rocks_iter_value :: "rocks_iterator \<Rightarrow> bytes" where
  "rocks_iter_value it = snd (hd (ri_iter it))"

text \<open>The loop with which every caller walks an iterator.\<close>

function rocks_iter_all :: "rocks_iterator \<Rightarrow> (string \<times> bytes) list" where
  "rocks_iter_all it =
     (if rocks_iter_valid it
      then (rocks_iter_key it, rocks_iter_value it) # rocks_iter_all (rocks_iter_next it)
      else [])"
  by pat_completeness auto
termination
  by (relation "measure (\<lambda>it. length (ri_iter it))")
    (auto simp: rocks_iter_valid_def rocks_iter_next_def split: if_splits)

declare rocks_iter_all.simps [simp del]

definition rocks_ops :: "'s rocksdb \<Rightarrow> 's kv_ops" where
  "rocks_ops R = \<lparr>kv_get = rocks_kv_get R, kv_put = rocks_kv_put R, kv_delete = rocks_kv_delete R,
     kv_iter = (\<lambda>db p. rocks_iter_all (rocks_iter_prefix R db p))\<rparr>"

section \<open>A scan from a seek is the entries with the prefix\<close>

lemma prefix_le: "prefix p k \<Longrightarrow> p \<le> (k :: string)"
proof (induction p arbitrary: k)
  case (Cons a p)
  then show ?case by (cases k) auto
qed simp

lemma prefix_convex: "p \<le> k \<Longrightarrow> k \<le> k' \<Longrightarrow> prefix p k' \<Longrightarrow> prefix p (k :: string)"
proof (induction p arbitrary: k k')
  case (Cons a p)
  then show ?case by (cases k; cases k') (auto split: if_splits)
qed simp

lemma scan_is_filter:
  assumes "sorted_wrt (<) (map fst es)"
  shows "takeWhile (\<lambda>e. prefix p (fst e)) (dropWhile (\<lambda>e. fst e < p) es) = filter (\<lambda>e. prefix p (fst e)) (es :: (string \<times> bytes) list)"
  using assms
proof (induction es)
  case (Cons e es)
  show ?case
  proof (cases "fst e < p \<or> prefix p (fst e)")
    case True
    have all: "es' = es \<Longrightarrow> prefix p (fst e) \<Longrightarrow> dropWhile (\<lambda>e. fst e < p) es = es" for es'
    proof -
      assume "prefix p (fst e)"
      then have "\<not> fst x < p" if "x \<in> set es" for x
        using Cons.prems that prefix_le [of p "fst e"] by fastforce
      then show ?thesis by (simp add: dropWhile_eq_self_iff)
    qed
    from True show ?thesis
      using Cons all prefix_le [of p "fst e"] by auto
  next
    case False
    then have "\<not> prefix p (fst x)" if "x \<in> set es" for x
      using Cons.prems that prefix_convex [of p "fst e" "fst x"] by fastforce
    then have "filter (\<lambda>e. prefix p (fst e)) es = []" by (simp add: filter_empty_conv)
    with False show ?thesis by simp
  qed
qed simp

lemma rocks_iter_valid_iff:
  "rocks_iter_valid it \<longleftrightarrow> ri_iter it \<noteq> [] \<and> prefix (ri_prefix it) (fst (hd (ri_iter it)))"
  using memcmp_prefix [of "ri_prefix it" "fst (hd (ri_iter it))"]
    prefix_length_le [of "ri_prefix it" "fst (hd (ri_iter it))"]
  by (auto simp: rocks_iter_valid_def Let_def not_less)

lemma rocks_iter_all_takeWhile:
  "rocks_iter_all it = takeWhile (\<lambda>e. prefix (ri_prefix it) (fst e)) (ri_iter it)"
proof (induction it rule: rocks_iter_all.induct)
  case (1 it)
  then show ?case
    by (cases "ri_iter it") (simp_all add: rocks_iter_all.simps [of it] rocks_iter_valid_iff rocks_iter_next_def
        rocks_iter_key_def rocks_iter_value_def)
qed

section \<open>Runs of calls\<close>

datatype store_call = CallGet string | CallPut string bytes | CallDelete string | CallScan string

datatype store_reply = GotValue "bytes option" | Updated bool | Scanned "(string \<times> bytes) list"

fun rocks_call :: "'s rocksdb \<Rightarrow> store_call \<Rightarrow> 's \<Rightarrow> store_reply \<times> 's" where
  "rocks_call R (CallGet k) db = (GotValue (rocks_kv_get R db k), db)"
| "rocks_call R (CallPut k v) db = (let (okay, db') = rocks_kv_put R db k v in (Updated okay, db'))"
| "rocks_call R (CallDelete k) db = (let (okay, db') = rocks_kv_delete R db k in (Updated okay, db'))"
| "rocks_call R (CallScan p) db = (Scanned (rocks_iter_all (rocks_iter_prefix R db p)), db)"

text \<open>Whether the library has an error for the call, reported or, for a scan, kept in the iterator.\<close>

fun library_error :: "'s rocksdb \<Rightarrow> store_call \<Rightarrow> 's \<Rightarrow> bool" where
  "library_error R (CallGet k) db = snd (rdb_get R db k)"
| "library_error R (CallPut k v) db = fst (rdb_put R db k v)"
| "library_error R (CallDelete k) db = fst (rdb_delete R db k)"
| "library_error R (CallScan p) db = snd (rdb_seek R db p)"

fun rocks_calls :: "'s rocksdb \<Rightarrow> store_call list \<Rightarrow> 's \<Rightarrow> (bool \<times> store_reply) list" where
  "rocks_calls R [] db = []"
| "rocks_calls R (x # xs) db =
     (let (r, db') = rocks_call R x db in (library_error R x db, r) # rocks_calls R xs db')"

text \<open>The entries of a map under a prefix, each once, in byte order.\<close>

definition listing :: "(string \<Rightarrow> bytes option) \<Rightarrow> string \<Rightarrow> (string \<times> bytes) list \<Rightarrow> bool" where
  "listing M p es \<longleftrightarrow> set es = {(k, v). M k = Some v \<and> prefix p k} \<and> sorted_wrt (<) (map fst es)"

text \<open>
  What the caller may rely on. A read gives the value of the map, or nothing when the library
  failed; an update reports exactly whether the library did it, and after one that was not done
  nothing is promised any more; a scan gives the listing, or an initial run of it when the library
  broke off.
\<close>

fun like_map :: "(string \<Rightarrow> bytes option) \<Rightarrow> store_call list \<Rightarrow> (bool \<times> store_reply) list \<Rightarrow> bool" where
  "like_map M [] rs \<longleftrightarrow> rs = []"
| "like_map M (CallGet k # xs) ((err, GotValue r) # rs) \<longleftrightarrow>
     r = (if err then None else M k) \<and> like_map M xs rs"
| "like_map M (CallPut k v # xs) ((err, Updated okay) # rs) \<longleftrightarrow>
     okay = (\<not> err) \<and> (okay \<longrightarrow> like_map (M(k \<mapsto> v)) xs rs)"
| "like_map M (CallDelete k # xs) ((err, Updated okay) # rs) \<longleftrightarrow>
     okay = (\<not> err) \<and> (okay \<longrightarrow> like_map (M(k := None)) xs rs)"
| "like_map M (CallScan p # xs) ((err, Scanned es) # rs) \<longleftrightarrow>
     (\<exists>full. listing M p full \<and> prefix es full \<and> (\<not> err \<longrightarrow> es = full)) \<and> like_map M xs rs"
| "like_map M (x # xs) rs \<longleftrightarrow> False"

section \<open>The contract\<close>

text \<open>
  The documented behaviour of the library: a read without an error gives the stored value; an
  update without an error has happened; the entries are in byte order, each once; a seek moves to
  the first key at or after the target, and an iterator walks on from there to the end, or up to
  where an error ends it. Nothing is said of the value of a read that failed or of the store after
  an update that failed.
\<close>

definition rocksdb_laws :: "'s rocksdb \<Rightarrow> ('s \<Rightarrow> string \<Rightarrow> bytes option) \<Rightarrow> bool" where
  "rocksdb_laws R contents \<longleftrightarrow>
     (\<forall>db k v. rdb_get R db k = (v, False) \<longrightarrow> v = contents db k) \<and>
     (\<forall>db k v db'. rdb_put R db k v = (False, db') \<longrightarrow> contents db' = (contents db)(k \<mapsto> v)) \<and>
     (\<forall>db k db'. rdb_delete R db k = (False, db') \<longrightarrow> contents db' = (contents db)(k := None)) \<and>
     (\<forall>db. set (rdb_entries R db) = {(k, v). contents db k = Some v} \<and> sorted_wrt (<) (map fst (rdb_entries R db))) \<and>
     (\<forall>db p. prefix (fst (rdb_seek R db p)) (dropWhile (\<lambda>e. fst e < p) (rdb_entries R db))) \<and>
     (\<forall>db p es. rdb_seek R db p = (es, False) \<longrightarrow> es = dropWhile (\<lambda>e. fst e < p) (rdb_entries R db))"

lemma rocksdb_lawsD:
  assumes "rocksdb_laws R contents"
  shows "rdb_get R db k = (v, False) \<Longrightarrow> v = contents db k"
    and "rdb_put R db k x = (False, db') \<Longrightarrow> contents db' = (contents db)(k \<mapsto> x)"
    and "rdb_delete R db k = (False, db') \<Longrightarrow> contents db' = (contents db)(k := None)"
    and "set (rdb_entries R db) = {(k, v). contents db k = Some v}" "sorted_wrt (<) (map fst (rdb_entries R db))"
    and "prefix (fst (rdb_seek R db p)) (dropWhile (\<lambda>e. fst e < p) (rdb_entries R db))"
    and "\<not> snd (rdb_seek R db p) \<Longrightarrow> fst (rdb_seek R db p) = dropWhile (\<lambda>e. fst e < p) (rdb_entries R db)"
proof -
  show "\<not> snd (rdb_seek R db p) \<Longrightarrow> fst (rdb_seek R db p) = dropWhile (\<lambda>e. fst e < p) (rdb_entries R db)"
    using assms unfolding rocksdb_laws_def by (cases "rdb_seek R db p") auto
qed (use assms in \<open>auto simp: rocksdb_laws_def\<close>)

lemma prefix_takeWhile: "prefix xs ys \<Longrightarrow> prefix (takeWhile P xs) (takeWhile P ys)"
proof (induction xs arbitrary: ys)
  case (Cons x xs)
  then show ?case by (cases ys) auto
qed simp

text \<open>A walk of a prefix iterator: all entries with the prefix, or those before an error.\<close>

lemma rocks_scan:
  assumes "rocksdb_laws R contents"
  shows "\<exists>full. listing (contents db) p full \<and> prefix (rocks_iter_all (rocks_iter_prefix R db p)) full \<and>
    (\<not> snd (rdb_seek R db p) \<longrightarrow> rocks_iter_all (rocks_iter_prefix R db p) = full)"
proof -
  note d = rocksdb_lawsD [OF assms]
  let ?all = "filter (\<lambda>e. prefix p (fst e)) (rdb_entries R db)"
  have s: "takeWhile (\<lambda>e. prefix p (fst e)) (dropWhile (\<lambda>e. fst e < p) (rdb_entries R db)) = ?all"
    using scan_is_filter [OF d(5)] .
  have w: "rocks_iter_all (rocks_iter_prefix R db p) = takeWhile (\<lambda>e. prefix p (fst e)) (fst (rdb_seek R db p))"
    by (simp add: rocks_iter_all_takeWhile rocks_iter_prefix_def)
  have "listing (contents db) p ?all"
    using d(4,5) [of db] by (auto simp: listing_def sorted_wrt_map sorted_wrt_filter)
  moreover have "prefix (rocks_iter_all (rocks_iter_prefix R db p)) ?all"
    using prefix_takeWhile [OF d(6)] unfolding w s [symmetric] .
  moreover have "\<not> snd (rdb_seek R db p) \<longrightarrow> rocks_iter_all (rocks_iter_prefix R db p) = ?all"
    using d(7) [of db p] unfolding w s [symmetric] by simp
  ultimately show ?thesis by blast
qed

lemma rocks_calls_like_map:
  assumes "rocksdb_laws R contents"
  shows "like_map (contents db) xs (rocks_calls R xs db)"
proof (induction xs arbitrary: db)
  case (Cons x xs)
  note d = rocksdb_lawsD [OF assms]
  show ?case
  proof (cases x)
    case (CallGet k)
    obtain v err where g: "rdb_get R db k = (v, err)" by fastforce
    with d(1) [of db k v] Cons.IH [of db] CallGet show ?thesis
      by (cases v; cases err) (auto simp: rocks_kv_get_def split: option.split)
  next
    case (CallPut k v)
    obtain err db' where p: "rdb_put R db k v = (err, db')" by fastforce
    have "contents db' = (contents db)(k \<mapsto> v) \<Longrightarrow> like_map ((contents db)(k \<mapsto> v)) xs (rocks_calls R xs db')"
      using Cons.IH [of db'] by metis
    with d(2) [of db k v db'] p CallPut show ?thesis
      by (cases err) (simp_all add: rocks_kv_put_def)
  next
    case (CallDelete k)
    obtain err db' where p: "rdb_delete R db k = (err, db')" by fastforce
    have "contents db' = (contents db)(k := None) \<Longrightarrow> like_map ((contents db)(k := None)) xs (rocks_calls R xs db')"
      using Cons.IH [of db'] by metis
    with d(3) [of db k db'] p CallDelete show ?thesis
      by (cases err) (simp_all add: rocks_kv_delete_def)
  next
    case (CallScan p)
    with rocks_scan [OF assms, of db p] Cons.IH [of db] show ?thesis by simp
  qed
qed simp

text \<open>A library that reports no error, and so the storage contract with its liveness.\<close>

definition error_free :: "'s rocksdb \<Rightarrow> bool" where
  "error_free R \<longleftrightarrow> (\<forall>x db. \<not> library_error R x db)"

lemma rocksdb_error_free:
  assumes "rocksdb_laws R contents" "error_free R"
  shows "kv_store_live (rocks_ops R) contents"
proof
  note d = rocksdb_lawsD [OF assms(1)]
  have e: "\<not> library_error R x db" for x db using assms(2) by (simp add: error_free_def)
  have noerr: "\<not> snd (rdb_get R db k)" "\<not> fst (rdb_put R db k v)" "\<not> fst (rdb_delete R db k)" "\<not> snd (rdb_seek R db p)"
    for db k v p using e [of "CallGet k" db] e [of "CallPut k v" db] e [of "CallDelete k" db] e [of "CallScan p" db] by simp_all
  fix s s' k v p
  show "kv_get (rocks_ops R) s k = contents s k"
    using d(1) [of s k "fst (rdb_get R s k)"] noerr(1) [of s k]
    by (auto simp: rocks_ops_def rocks_kv_get_def split: prod.splits option.splits)
  show "kv_put (rocks_ops R) s k v = (True, s') \<Longrightarrow> contents s' = (contents s)(k \<mapsto> v)"
    using d(2) [of s k v s'] by (auto simp: rocks_ops_def rocks_kv_put_def split: prod.splits if_splits)
  show "kv_put (rocks_ops R) s k v = (False, s') \<Longrightarrow> contents s' = contents s"
    using noerr(2) [of s k v] by (auto simp: rocks_ops_def rocks_kv_put_def split: prod.splits)
  show "kv_delete (rocks_ops R) s k = (True, s') \<Longrightarrow> contents s' = (contents s)(k := None)"
    using d(3) [of s k s'] by (auto simp: rocks_ops_def rocks_kv_delete_def split: prod.splits if_splits)
  show "kv_delete (rocks_ops R) s k = (False, s') \<Longrightarrow> contents s' = contents s"
    using noerr(3) [of s k] by (auto simp: rocks_ops_def rocks_kv_delete_def split: prod.splits)
  show "set (kv_iter (rocks_ops R) s p) = {(k, v). contents s k = Some v \<and> prefix p k}"
    and "sorted_wrt (<) (map fst (kv_iter (rocks_ops R) s p))"
    using rocks_scan [OF assms(1), of s p] noerr(4) [of s p] by (auto simp: rocks_ops_def listing_def)
  show "fst (kv_put (rocks_ops R) s k v)" "fst (kv_delete (rocks_ops R) s k)"
    using noerr(2) [of s k v] noerr(3) [of s k]
    by (simp_all add: rocks_ops_def rocks_kv_put_def rocks_kv_delete_def split_def Let_def)
qed

text \<open>
  C6. The RocksDB wrapper answers like a map. Whenever RocksDB behaves as documented, any sequence
  of reads, updates and prefix scans gives the values of the map: a read that the library fails
  finds nothing, whatever value came with the error; an update reports success exactly when the
  library did it, and the promise ends with the first that failed; walking a prefix iterator from
  its seek until it turns invalid gives every entry with the prefix, once, in byte order, and no
  other. When the library's iterator ends in an error the walk gives only the first of them, and
  the wrapper does not tell. With a library that reports no error the wrapper keeps the storage
  contract of the file system.
\<close>

theorem rocksdb_answers_like_map:
  assumes "rocksdb_laws R contents"
  shows "like_map (contents db) xs (rocks_calls R xs db) \<and>
    (error_free R \<longrightarrow> kv_store_live (rocks_ops R) contents)"
  using rocks_calls_like_map [OF assms] rocksdb_error_free [OF assms] by blast

text \<open>
  A library with these laws: a sorted table, a disk that is full after two keys, a key whose block
  is damaged, with what was read of it, and iterators that end at that key.
\<close>

definition sample_rocksdb :: "kv_mem rocksdb" where
  "sample_rocksdb =
     \<lparr>rdb_get = (\<lambda>db k. if k = ''bad'' then (Some ''?'', True) else (DAList.lookup db k, False)),
      rdb_put = (\<lambda>db k v. if 2 \<le> length (DAList.impl_of db) then (True, DAList.empty) else (False, DAList.update k v db)),
      rdb_delete = (\<lambda>db k. (False, DAList.delete k db)),
      rdb_entries = (\<lambda>db. kv_mem_list_prefix db []),
      rdb_seek = (\<lambda>db p. let es = dropWhile (\<lambda>e. fst e < p) (kv_mem_list_prefix db [])
                       in (takeWhile (\<lambda>e. fst e \<noteq> ''bad'') es, \<exists>e\<in>set es. fst e = ''bad''))\<rparr>"

lemma sample_rocksdb_laws: "rocksdb_laws sample_rocksdb DAList.lookup"
proof -
  have "takeWhile (\<lambda>e. fst e \<noteq> ''bad'') es = es" if "\<forall>e\<in>set es. fst e \<noteq> ''bad''" for es :: "(string \<times> bytes) list"
    using that by (simp add: takeWhile_eq_all_conv)
  then show ?thesis
    using mem.put mem.delete by (auto simp: rocksdb_laws_def sample_rocksdb_def set_list_prefix takeWhile_is_prefix
      sorted_list_prefix kv_mem_store_def kv_mem_delete_def Let_def split: if_splits)
qed

theorem rocksdb_answers_like_map_witness:
  "like_map (DAList.lookup DAList.empty) [CallPut ''bad'' ''v'', CallGet ''bad'', CallScan [], CallPut ''a'' ''w'', CallGet ''a'', CallScan [], CallPut ''c'' ''x'']
     (rocks_calls sample_rocksdb
       [CallPut ''bad'' ''v'', CallGet ''bad'', CallScan [], CallPut ''a'' ''w'', CallGet ''a'', CallScan [], CallPut ''c'' ''x''] DAList.empty)"
  using rocksdb_answers_like_map [OF sample_rocksdb_laws] by blast

end
