(* ===== verification/Xattrs.thy ===== *)
theory Xattrs
  imports FuseXattr Namespace
begin

text \<open>
  The extended attributes of an inode as a map from names to values: every request computes its
  specification on the map, on every branch, and touches nothing else in the store.
\<close>

section \<open>The abstract attributes\<close>

datatype xattr_op =
    XSet string bytes nat
  | XGet string nat
  | XList nat
  | XRemove string

type_synonym xattrs = "string \<Rightarrow> bytes option"

text \<open>The size protocol of the reading calls.\<close>

definition sized_reply :: "nat \<Rightarrow> bytes \<Rightarrow> reply" where
  "sized_reply sz data =
     (if sz = 0 then ReplyXattr (length data)
      else if sz < length data then ReplyErr ERANGE else ReplyBuf data)"

definition name_too_long :: "nat \<Rightarrow> string \<Rightarrow> bool" where
  "name_too_long ino name \<longleftrightarrow> KVBFS_KEY_MAX \<le> 3 + length (dec ino) + length name"

definition name_list :: "xattrs \<Rightarrow> bytes" where
  "name_list m = concat (map (\<lambda>n. n @ [NUL]) (sorted_list_of_set (dom m)))"

fun xattr_spec :: "nat \<Rightarrow> xattr_op \<Rightarrow> xattrs \<Rightarrow> reply \<times> xattrs" where
  "xattr_spec ino (XSet name val flags) m =
     (if prefix ''agentfs.'' name then (ReplyErr EPERM, m)
      else if name_too_long ino name then (ReplyErr ERANGE, m)
      else if flags AND XATTR_CREATE \<noteq> 0 \<and> m name \<noteq> None then (ReplyErr EEXIST, m)
      else if flags AND XATTR_CREATE = 0 \<and> flags AND XATTR_REPLACE \<noteq> 0 \<and> m name = None then (ReplyErr ENODATA, m)
      else (ReplyOk, m(name \<mapsto> val)))"
| "xattr_spec ino (XGet name sz) m =
     (if name_too_long ino name then ReplyErr ERANGE
      else case m name of None \<Rightarrow> ReplyErr ENODATA | Some v \<Rightarrow> sized_reply sz v, m)"
| "xattr_spec ino (XList sz) m = (sized_reply sz (name_list m), m)"
| "xattr_spec ino (XRemove name) m =
     (if prefix ''agentfs.'' name then (ReplyErr EPERM, m)
      else if name_too_long ino name then (ReplyErr ERANGE, m)
      else if m name = None then (ReplyErr ENODATA, m)
      else (ReplyOk, m(name := None)))"

fun xattr_specs :: "nat \<Rightarrow> xattr_op list \<Rightarrow> xattrs \<Rightarrow> reply list \<times> xattrs" where
  "xattr_specs ino [] m = ([], m)"
| "xattr_specs ino (x # xs) m =
     (let (r, m1) = xattr_spec ino x m; (rs, m2) = xattr_specs ino xs m1 in (r # rs, m2))"

text \<open>The requests on the file system.\<close>

fun xattr_run :: "'s kv_ops \<Rightarrow> fs_env \<Rightarrow> nat \<Rightarrow> xattr_op \<Rightarrow> 's kvbfs_ctx \<Rightarrow> reply \<times> 's kvbfs_ctx" where
  "xattr_run K env ino (XSet name val flags) c = kvbfs_setxattr K env c ino name val flags"
| "xattr_run K env ino (XGet name sz) c = (kvbfs_getxattr K c ino name sz, c)"
| "xattr_run K env ino (XList sz) c = (kvbfs_listxattr K c ino sz, c)"
| "xattr_run K env ino (XRemove name) c = kvbfs_removexattr K env c ino name"

fun xattr_runs :: "'s kv_ops \<Rightarrow> fs_env \<Rightarrow> nat \<Rightarrow> xattr_op list \<Rightarrow> 's kvbfs_ctx \<Rightarrow> reply list \<times> 's kvbfs_ctx" where
  "xattr_runs K env ino [] c = ([], c)"
| "xattr_runs K env ino (x # xs) c =
     (let (r, c1) = xattr_run K env ino x c; (rs, c2) = xattr_runs K env ino xs c1 in (r # rs, c2))"

text \<open>Reads of the two virtual names are apart.\<close>

fun ordinary :: "xattr_op \<Rightarrow> bool" where
  "ordinary (XGet name sz) \<longleftrightarrow> name \<noteq> ''agentfs.version'' \<and> name \<noteq> ''agentfs.versions''"
| "ordinary _ \<longleftrightarrow> True"

definition xattrs_of :: "(string \<Rightarrow> bytes option) \<Rightarrow> nat \<Rightarrow> xattrs" where
  "xattrs_of M ino = (\<lambda>name. M (encode (KXattr ino name)))"

section \<open>Refinement\<close>

lemma xattr_key: "kvbfs_key_xattr KVBFS_KEY_MAX ino name =
    (if name_too_long ino name then None else Some (encode (KXattr ino name)))"
  by (simp add: kvbfs_key_xattr_def name_too_long_def Let_def encode.simps)

lemma xattr_encode: "encode (KXattr ino name) = kvbfs_key_xattr_prefix ino @ name"
  by (simp add: encode.simps kvbfs_key_xattr_prefix_def)

lemma less_append: "p @ a < p @ (b :: string) \<longleftrightarrow> a < b"
  by (induction p) auto

lemma xattrs_of_upd: "xattrs_of (M(encode (KXattr ino name) := v)) ino = (xattrs_of M ino)(name := v)"
  by (auto simp: xattrs_of_def)

lemma xattr_at: "M (encode (KXattr ino name)) = xattrs_of M ino name"
  by (simp add: xattrs_of_def)

lemma length_names: "length (concat (map (\<lambda>n. n @ [NUL]) ns)) = sum_list (map (\<lambda>n. length n + 1) ns)"
  by (induction ns) auto

context kv_store
begin

lemma xattr_names_sorted: "xattr_names K s ino = sorted_list_of_set (dom (xattrs_of (contents s) ino))"
proof -
  let ?p = "kvbfs_key_xattr_prefix ino" and ?es = "kv_iter K s (kvbfs_key_xattr_prefix ino)"
  have split_key: "\<exists>n. fst e = ?p @ n" if "e \<in> set ?es" for e
    using that by (auto simp: iter_set prefix_def)
  have names: "map fst ?es = map ((@) ?p) (xattr_names K s ino)"
    unfolding xattr_names_def Let_def map_map by (rule map_cong) (auto dest!: split_key)
  have "sorted_wrt (<) (xattr_names K s ino)"
    using iter_sorted [of s ?p] unfolding names sorted_wrt_map by (simp add: less_append)
  moreover have "set (xattr_names K s ino) = dom (xattrs_of (contents s) ino)"
  proof -
    have "n \<in> set (xattr_names K s ino) \<longleftrightarrow> ?p @ n \<in> set (map fst ?es)" for n
      unfolding names by auto
    then show ?thesis by (auto simp: iter_set xattrs_of_def xattr_encode image_iff)
  qed
  ultimately show ?thesis
    using sorted_list_of_set.idem_if_sorted_distinct strict_sorted_iff by metis
qed

lemma listxattr_spec:
  "\<not> no_xattr_ino ino \<Longrightarrow> kvbfs_listxattr K c ino sz = sized_reply sz (name_list (xattrs_of (contents (db c)) ino))"
  by (simp add: kvbfs_listxattr_def Let_def xattr_names_sorted sized_reply_def name_list_def length_names
      del: length_concat)

lemma getxattr_spec:
  "\<not> no_xattr_ino ino \<Longrightarrow> ordinary (XGet name sz) \<Longrightarrow>
   kvbfs_getxattr K c ino name sz = fst (xattr_spec ino (XGet name sz) (xattrs_of (contents (db c)) ino))"
  by (auto simp: kvbfs_getxattr_def xattr_key get xattrs_of_def sized_reply_def split: option.splits)

end

text \<open>The store outside an inode's attributes.\<close>

definition same_but_xattrs :: "nat \<Rightarrow> (string \<Rightarrow> bytes option) \<Rightarrow> (string \<Rightarrow> bytes option) \<Rightarrow> bool" where
  "same_but_xattrs ino M M' \<longleftrightarrow> (\<forall>k. (\<forall>n. k \<noteq> KXattr ino n) \<longrightarrow> M' (encode k) = M (encode k))"

context kv_store_live
begin

lemma xattr_run_refines:
  assumes "\<not> no_xattr_ino ino" "ordinary x"
  shows "fst (xattr_run K env ino x c) = fst (xattr_spec ino x (xattrs_of (contents (db c)) ino)) \<and>
    xattrs_of (contents (db (snd (xattr_run K env ino x c)))) ino = snd (xattr_spec ino x (xattrs_of (contents (db c)) ino)) \<and>
    same_but_xattrs ino (contents (db c)) (contents (db (snd (xattr_run K env ino x c))))"
proof (cases x)
  case (XSet name val flags)
  let ?key = "encode (KXattr ino name)"
  obtain okay s where q: "kv_put K (db c) ?key val = (okay, s)" by fastforce
  note p = put_eq [OF q]
  show ?thesis
    using assms p q by (simp add: XSet kvbfs_setxattr_def xattr_key get xattrs_of_upd same_but_xattrs_def
        xattr_at [of "contents (db c)" ino name])
next
  case (XRemove name)
  let ?key = "encode (KXattr ino name)"
  obtain okay s where q: "kv_delete K (db c) ?key = (okay, s)" by fastforce
  note p = delete_eq [OF q]
  show ?thesis
    using assms p q by (simp add: XRemove kvbfs_removexattr_def xattr_key get xattrs_of_upd same_but_xattrs_def
        xattr_at [of "contents (db c)" ino name])
qed (use assms in \<open>simp_all add: listxattr_spec getxattr_spec same_but_xattrs_def\<close>)

lemma xattr_runs_refine:
  assumes "\<not> no_xattr_ino ino" "list_all ordinary xs"
  shows "fst (xattr_runs K env ino xs c) = fst (xattr_specs ino xs (xattrs_of (contents (db c)) ino)) \<and>
    xattrs_of (contents (db (snd (xattr_runs K env ino xs c)))) ino = snd (xattr_specs ino xs (xattrs_of (contents (db c)) ino)) \<and>
    same_but_xattrs ino (contents (db c)) (contents (db (snd (xattr_runs K env ino xs c))))"
  using assms(2)
proof (induction xs arbitrary: c)
  case (Cons x xs)
  note step = xattr_run_refines [OF assms(1), of x env c]
  from Cons step show ?case
    using Cons.IH [of "snd (xattr_run K env ino x c)"]
    by (simp add: split_beta same_but_xattrs_def)
qed (simp add: same_but_xattrs_def)

end

section \<open>Property\<close>

text \<open>
  C7. Extended attributes refine a map. For every inode but the control and the event file, any
  sequence of set, get, list and remove requests gives, reply by reply, what its specification
  gives on the map of the inode's attributes: creation and replacement flags, names reserved for
  \<^verbatim>\<open>agentfs.\<close> (refused), names too long, absent names, the size protocol, and the sorted list of
  names. Everything else in the store stays as it is, the attributes of other inodes included.
\<close>

theorem xattr_requests_refine:
  assumes "kv_store_live K contents" "\<not> no_xattr_ino ino" "list_all ordinary xs"
  shows "fst (xattr_runs K env ino xs c) = fst (xattr_specs ino xs (xattrs_of (contents (db c)) ino)) \<and>
    xattrs_of (contents (db (snd (xattr_runs K env ino xs c)))) ino = snd (xattr_specs ino xs (xattrs_of (contents (db c)) ino)) \<and>
    same_but_xattrs ino (contents (db c)) (contents (db (snd (xattr_runs K env ino xs c))))"
  by (rule kv_store_live.xattr_runs_refine [OF assms])

theorem xattr_requests_refine_witness:
  "fst (xattr_runs mem_ops sample_env 5 [XSet ''user.a'' ''1'' 0, XSet ''agentfs.noindex'' ''1'' 0, XGet ''user.a'' 10, XRemove ''user.b''] sample) =
     [ReplyOk, ReplyErr EPERM, ReplyBuf ''1'', ReplyErr ENODATA]"
proof -
  let ?xs = "[XSet ''user.a'' ''1'' 0, XSet ''agentfs.noindex'' ''1'' 0, XGet ''user.a'' 10, XRemove ''user.b'']"
  have no: "\<not> no_xattr_ino 5" by (simp add: no_xattr_ino_def AGENTFS_CTL_INO_def AGENTFS_EVENTS_INO_def)
  have "xattrs_of (DAList.lookup (db sample)) 5 = [''user.k'' \<mapsto> ''v'']"
    by (rule ext) (simp add: xattrs_of_def lookup_store_of sample_entries_def)
  moreover have "length (dec 5) = 1" by code_simp
  ultimately have "fst (xattr_specs 5 ?xs (xattrs_of (DAList.lookup (db sample)) 5)) = [ReplyOk, ReplyErr EPERM, ReplyBuf ''1'', ReplyErr ENODATA]"
    by (simp add: name_too_long_def KVBFS_KEY_MAX_def sized_reply_def)
  with xattr_requests_refine [OF mem.kv_store_live_axioms no, of ?xs sample_env sample] show ?thesis by simp
qed

end
