(* ===== verification/Search.thy ===== *)
theory Search
  imports Memory Samples "HOL-Library.Multiset"
begin

text \<open>
  The search over stored vectors (\<^verbatim>\<open>mem_search\<close> of \<^verbatim>\<open>src/mem.c\<close>): the insertion into the table
  of results is one step of a stable insertion sort that keeps the best entries, so the table ends
  as the first entries of all candidates sorted by falling score.
\<close>

section \<open>Candidates\<close>

type_synonym hit = "real \<times> nat \<times> nat"

text \<open>An entry of the scan that counts, with its score, inode and sequence number.\<close>

definition is_candidate :: "fs_env \<Rightarrow> string \<times> bytes \<Rightarrow> bool" where
  "is_candidate env e \<longleftrightarrow> \<not> (6 < length (fst e) \<and> take 2 (drop 4 (fst e)) = ''s:'') \<and> length (snd e) = e_n_embd env * 4"

definition hit_of :: "fs_env \<Rightarrow> real list \<Rightarrow> string \<times> bytes \<Rightarrow> hit" where
  "hit_of env qvec e = (cosine_sim qvec (e_floats env (snd e)), parse_hit (drop 4 (fst e)))"

definition candidates :: "fs_env \<Rightarrow> real list \<Rightarrow> (string \<times> bytes) list \<Rightarrow> hit list" where
  "candidates env qvec es = map (hit_of env qvec) (filter (is_candidate env) es)"

definition ranked :: "hit list \<Rightarrow> hit list" where
  "ranked hs = sort_key (\<lambda>h. - fst h) hs"

section \<open>Insertion\<close>

definition ins_hit :: "hit \<Rightarrow> hit list \<Rightarrow> hit list" where
  "ins_hit h hs = (let p = insert_pos (fst h) (map fst hs) in take p hs @ h # drop p hs)"

lemma insert_pos_le: "insert_pos x ys \<le> length ys"
  by (induction ys) auto

lemma insert_pos_before: "i < insert_pos x ys \<Longrightarrow> x \<le> ys ! i"
proof (induction ys arbitrary: i)
  case (Cons y ys)
  then show ?case by (cases i) (auto split: if_splits)
qed simp

lemma insert_pos_at: "insert_pos x ys < length ys \<Longrightarrow> ys ! insert_pos x ys < x"
  by (induction ys) auto

lemma ins_hit_Cons: "ins_hit h (x # xs) = (if fst x < fst h then h # x # xs else x # ins_hit h xs)"
  by (simp add: ins_hit_def Let_def)

lemma ins_hit_Nil: "ins_hit h [] = [h]"
  by (simp add: ins_hit_def Let_def)

lemma mset_ins_hit: "mset (ins_hit h hs) = add_mset h (mset hs)"
  by (induction hs) (auto simp: ins_hit_Cons ins_hit_Nil)

lemma length_ins_hit: "length (ins_hit h hs) = Suc (length hs)"
  using mset_ins_hit [of h hs] by (metis size_add_mset size_mset)

lemma sorted_ins_hit: "sorted (map (\<lambda>h. - fst h) hs) \<Longrightarrow> sorted (map (\<lambda>h. - fst h) (ins_hit h hs))"
proof (induction hs)
  case (Cons x xs)
  have "set (ins_hit h xs) = insert h (set xs)" using mset_ins_hit [of h xs] by (metis set_mset_mset set_mset_add_mset_insert)
  with Cons show ?case by (auto simp: ins_hit_Cons)
qed (simp add: ins_hit_Nil)

lemma filter_rotate:
  "(fst k = fst h \<Longrightarrow> filter (\<lambda>y. - fst k = - fst y) l = []) \<Longrightarrow>
   filter (\<lambda>y. - fst k = - fst y) (h # l) = filter (\<lambda>y. - fst k = - (fst y :: real)) (l @ [h])"
  by (cases "fst k = fst h") auto

lemma filter_ins_hit:
  "sorted (map (\<lambda>h. - fst h) hs) \<Longrightarrow>
   filter (\<lambda>x. - fst k = - fst x) (ins_hit h hs) = filter (\<lambda>x. - fst k = - fst x) (hs @ [h])"
proof (induction hs)
  case (Cons x xs)
  show ?case
  proof (cases "fst x < fst h")
    case True
    have lt: "fst y < fst h" if "y \<in> set (x # xs)" for y using Cons.prems that True by auto
    have "filter (\<lambda>y. - fst k = - fst y) (x # xs) = []" if "fst k = fst h"
      unfolding filter_empty_conv using lt that by fastforce
    then have "filter (\<lambda>y. - fst k = - fst y) (h # x # xs) = filter (\<lambda>y. - fst k = - fst y) ((x # xs) @ [h])"
      by (rule filter_rotate)
    moreover have "ins_hit h (x # xs) = h # x # xs" using True by (simp add: ins_hit_Cons)
    ultimately show ?thesis by (simp only:)
  next
    case False
    with Cons show ?thesis by (cases "fst k = fst h") (auto simp: ins_hit_Cons)
  qed
qed (simp add: ins_hit_Nil)

lemma ranked_snoc: "ranked (hs @ [h]) = ins_hit h (ranked hs)"
  unfolding ranked_def
proof (rule properties_for_sort_key)
  let ?f = "\<lambda>h. - fst h"
  show "mset (ins_hit h (sort_key ?f hs)) = mset (hs @ [h])" by (simp add: mset_ins_hit)
  show "sorted (map ?f (ins_hit h (sort_key ?f hs)))" by (rule sorted_ins_hit) simp
  show "filter (\<lambda>x. ?f k = ?f x) (ins_hit h (sort_key ?f hs)) = filter (\<lambda>x. ?f k = ?f x) (hs @ [h])" for k
    using filter_ins_hit [of "sort_key ?f hs" k h] sort_key_stable [of ?f "?f k" hs] by (simp add: eq_commute)
qed

text \<open>Keeping the first \<open>k\<close> entries commutes with the insertion.\<close>

lemma take_ins_hit: "take k (ins_hit h (take k hs)) = take k (ins_hit h hs)"
proof (induction hs arbitrary: k)
  case (Cons x xs)
  show ?case
  proof (cases k)
    case (Suc n)
    then show ?thesis
    proof (cases "fst x < fst h")
      case True
      with Suc show ?thesis by (cases n) (simp_all add: ins_hit_Cons)
    next
      case False
      with Suc Cons show ?thesis by (simp add: ins_hit_Cons)
    qed
  qed simp
qed simp

section \<open>The table\<close>

definition hit_triple :: "cfs_mem_result \<Rightarrow> hit" where
  "hit_triple r = (r_score r, r_ino r, r_seq r)"

definition hits :: "cfs_mem_query \<Rightarrow> hit list" where
  "hits q = map hit_triple (take (q_n_results q) (q_results q))"

text \<open>A result whose text is in the store shows its beginning.\<close>

definition summary_ok :: "'s kv_ops \<Rightarrow> 's \<Rightarrow> cfs_mem_result \<Rightarrow> bool" where
  "summary_ok K s r \<longleftrightarrow> (\<forall>t. kv_get K s (mem_key_text (r_ino r) (r_seq r)) = Some t \<longrightarrow>
     r_summary r = cstr (take (CFS_MEM_SUMMARY_LEN - 1) t))"

definition table_ok :: "'s kv_ops \<Rightarrow> 's \<Rightarrow> nat \<Rightarrow> cfs_mem_query \<Rightarrow> hit list \<Rightarrow> bool" where
  "table_ok K s k q hs \<longleftrightarrow> 0 < k \<and> k \<le> length (q_results q) \<and> q_n_results q = min k (length hs) \<and>
     hits q = take k (ranked hs) \<and> (\<forall>r\<in>set (take (q_n_results q) (q_results q)). summary_ok K s r)"

lemma insert_pos_snoc: "y < x \<Longrightarrow> insert_pos x (ys @ [y]) = insert_pos x ys"
  by (induction ys) auto

lemma take_insert:
  assumes "p \<le> n" "n < length rs"
  shows "take (Suc n) ((if p < n then shift_down rs p n else rs)[p := new]) = take p rs @ new # drop p (take n rs)"
proof (cases "p < n")
  case True
  have "take (p + 1) rs = take p rs @ [rs ! p]" using True assms by (simp add: take_Suc_conv_app_nth)
  then have "(shift_down rs p n)[p := new] = (take p rs @ new # drop p (take n rs)) @ drop (n + 1) rs"
    using True assms by (simp add: shift_down_def list_update_append)
  moreover have "length (take p rs @ new # drop p (take n rs)) = Suc n" using assms by simp
  ultimately show ?thesis using True by (simp only: if_True take_append) simp
next
  case False
  with assms have "p = n" by simp
  with assms show ?thesis by (simp add: take_Suc_conv_app_nth)
qed

lemma ins_hit_full:
  assumes "sorted (map (\<lambda>h. - fst h) L)" "L \<noteq> []" "\<not> fst (last L) < fst h"
  shows "take (length L) (ins_hit h L) = L"
  using assms
proof (induction L)
  case (Cons x xs)
  then show ?case by (cases "xs = []") (auto simp: ins_hit_Cons ins_hit_Nil dest!: last_in_set)
qed simp

lemma take_length_ranked [simp]: "length (ranked hs) = length hs"
  by (simp add: ranked_def)

lemma sorted_take_ranked: "sorted (map (\<lambda>h. - fst h) (take k (ranked hs)))"
  by (simp add: ranked_def take_map [symmetric] sorted_wrt_take)

lemma search_insert_ok:
  assumes t: "table_ok K s k q hs"
  shows "table_ok K s k (search_insert K s k rest sim q) (hs @ [(sim, parse_hit rest)])"
proof -
  let ?rs = "q_results q" and ?n = "q_n_results q" and ?h = "(sim, parse_hit rest)"
  define L where "L = map hit_triple (take ?n ?rs)"
  have k: "0 < k" "k \<le> length ?rs" "?n = min k (length hs)" and L: "L = take k (ranked hs)"
    and sums: "\<forall>r\<in>set (take ?n ?rs). summary_ok K s r"
    using t unfolding table_ok_def hits_def L_def by blast+
  have goal: "take k (ranked (hs @ [?h])) = take k (ins_hit ?h L)"
    by (simp add: ranked_snoc L take_ins_hit)
  have fstL: "map (fst \<circ> hit_triple) xs = map r_score xs" "fst (hit_triple r) = r_score r" for xs r
    by (simp_all add: hit_triple_def)
  show ?thesis
  proof (cases "r_score (?rs ! (k - 1)) < sim \<or> ?n < k")
    case True
    define p0 where "p0 = (if ?n < k then ?n else k - 1)"
    define p where "p = insert_pos sim (map r_score (take p0 ?rs))"
    define rs1 where "rs1 = (if p < p0 then shift_down ?rs p p0 else ?rs)"
    obtain ino seq where hit: "parse_hit rest = (ino, seq)" by fastforce
    define new where "new = (rs1 ! p)\<lparr>r_score := sim, r_ino := ino, r_seq := seq,
      r_summary := load_summary K s ino seq (r_summary (rs1 ! p))\<rparr>"
    have q': "search_insert K s k rest sim q =
        q\<lparr>q_results := rs1[p := new], q_n_results := (if ?n < k then ?n + 1 else ?n)\<rparr>"
      using True by (simp add: search_insert_def Let_def p0_def p_def rs1_def new_def hit)
    have p: "p \<le> p0" "p0 < length ?rs" and n': "(if ?n < k then ?n + 1 else ?n) = Suc p0"
      using insert_pos_le [of sim "map r_score (take p0 ?rs)"] k by (auto simp: p_def p0_def)
    have tk: "take (Suc p0) (rs1[p := new]) = take p ?rs @ new # drop p (take p0 ?rs)"
      unfolding rs1_def by (rule take_insert [OF p])
    have trip: "hit_triple new = ?h" by (simp add: new_def hit_triple_def hit)
    have L0: "map hit_triple (take p ?rs @ new # drop p (take p0 ?rs)) = ins_hit ?h (map hit_triple (take p0 ?rs))"
      using p by (simp add: ins_hit_def Let_def p_def fstL trip take_map drop_map min_absorb1)
    have "ins_hit ?h (map hit_triple (take p0 ?rs)) = take k (ins_hit ?h L)"
    proof (cases "?n < k")
      case True
      then have "p0 = ?n" "length (ins_hit ?h L) \<le> k"
        using k by (simp_all add: p0_def length_ins_hit L_def)
      then show ?thesis by (simp add: L_def)
    next
      case False
      then have n: "?n = k" and p0: "p0 = k - 1" and gt: "r_score (?rs ! (k - 1)) < sim"
        using k True by (simp_all add: p0_def)
      have Ls: "L = map hit_triple (take p0 ?rs) @ [hit_triple (?rs ! p0)]"
      proof -
        have "k = Suc p0" using k p0 by simp
        then show ?thesis using n p(2) by (simp add: L_def take_Suc_conv_app_nth)
      qed
      have "insert_pos sim (map fst L) = p"
        using gt insert_pos_snoc [of "r_score (?rs ! p0)" sim "map r_score (take p0 ?rs)"]
        by (simp add: Ls p_def fstL p0)
      then have "ins_hit ?h L = take p L @ ?h # drop p L" by (simp add: ins_hit_def Let_def)
      moreover have "ins_hit ?h (map hit_triple (take p0 ?rs)) = take p L @ ?h # drop p (take p0 L)"
        using p by (simp add: ins_hit_def Let_def p_def fstL Ls)
      moreover have "k = Suc p0" using k p0 by simp
      ultimately show ?thesis using p by (simp add: Ls Suc_diff_le)
    qed
    moreover have "hits (search_insert K s k rest sim q) = map hit_triple (take (Suc p0) (rs1[p := new]))"
      by (simp add: hits_def q' n')
    ultimately have hits: "hits (search_insert K s k rest sim q) = take k (ranked (hs @ [?h]))"
      by (simp only: tk L0 goal)
    have "summary_ok K s new"
      by (auto simp: summary_ok_def new_def load_summary_def)
    moreover have "p0 \<le> ?n" unfolding p0_def by (cases "?n < k") simp_all
    then have "set (take p ?rs) \<subseteq> set (take ?n ?rs)" "set (drop p (take p0 ?rs)) \<subseteq> set (take ?n ?rs)"
      using p(1) set_take_subset_set_take [of p ?n ?rs] set_take_subset_set_take [of p0 ?n ?rs]
        set_drop_subset [of p "take p0 ?rs"] by auto
    ultimately have "\<forall>r\<in>set (take (Suc p0) (rs1[p := new])). summary_ok K s r"
      using sums unfolding tk by auto
    moreover have "length rs1 = length ?rs" using p by (auto simp: rs1_def shift_down_def)
    moreover have "(if ?n < k then ?n + 1 else ?n) = min k (Suc (length hs))" using k(3) by simp
    then have "Suc p0 = min k (Suc (length hs))" by (simp only: n')
    moreover have "q_n_results (search_insert K s k rest sim q) = Suc p0"
      "q_results (search_insert K s k rest sim q) = rs1[p := new]" by (simp_all only: q' n') simp_all
    ultimately show ?thesis
      using k(2) unfolding table_ok_def by (simp only: hits k(1)) simp
  next
    case False
    then have n: "?n = k" and le: "\<not> r_score (?rs ! (k - 1)) < sim" using k(3) by linarith+
    have len: "length L = k" using n k by (simp add: L_def)
    have "last L = hit_triple (?rs ! (k - 1))"
      using k(1,2) n unfolding L_def by (cases k) (simp_all add: take_Suc_conv_app_nth)
    then have "\<not> fst (last L) < fst ?h" using le by (simp add: hit_triple_def)
    moreover have "sorted (map (\<lambda>h. - fst h) L)" unfolding L by (rule sorted_take_ranked)
    moreover have "L \<noteq> []" using len k(1) by auto
    ultimately have "take (length L) (ins_hit ?h L) = L" by (intro ins_hit_full)
    then have "take k (ins_hit ?h L) = L" by (simp only: len)
    with False t n k goal show ?thesis
      by (simp add: table_ok_def search_insert_def Let_def hits_def L_def)
  qed
qed

lemma search_scan_ok:
  "table_ok K s k q hs \<Longrightarrow> table_ok K s k (search_scan K env s k qvec es q) (hs @ candidates env qvec es)"
proof (induction es arbitrary: q hs)
  case (Cons e es)
  obtain key val where e: "e = (key, val)" by fastforce
  show ?case
  proof (cases "is_candidate env e")
    case True
    have "table_ok K s k (search_insert K s k (drop 4 key) (cosine_sim qvec (e_floats env val)) q) (hs @ [hit_of env qvec e])"
      using search_insert_ok [OF Cons.prems] by (simp add: hit_of_def e)
    from Cons.IH [OF this] True e show ?thesis by (auto simp: candidates_def is_candidate_def)
  next
    case False
    with Cons e show ?thesis by (auto simp: candidates_def is_candidate_def)
  qed
qed (simp add: candidates_def)

lemma strtoull_dec_rest:
  assumes "n < 18446744073709551616" "rest = [] \<or> \<not> is_digit (hd rest)"
  shows "strtoull (dec n @ rest) = (n, rest)"
proof -
  obtain c cs where c: "dec n = c # cs" by (cases "dec n") auto
  then have "is_digit c" using dec_digits [of c n] by simp
  then have "\<not> is_space c" "c \<noteq> CHR ''-''" "c \<noteq> CHR ''+''"
    by (auto simp: is_digit_not_space is_digit_def)
  moreover have "takeWhile is_digit (dec n @ rest) = dec n" "dropWhile is_digit (dec n @ rest) = rest"
    using assms(2) by (cases rest; simp add: takeWhile_append dropWhile_append dec_digits)+
  ultimately show ?thesis
    using assms(1) c undec_dec [of n] by (auto simp: strtoull_def clamp64_def Let_def)
qed

lemma parse_hit_key:
  assumes "ino < 18446744073709551616" "seq < 4294967296"
  shows "parse_hit (drop 4 (mem_key_vec ino seq)) = (ino, seq)"
proof -
  have "\<not> is_digit (CHR '':'')" by (simp add: is_digit_def)
  then have "strtoull (dec ino @ '':'' @ dec seq) = (ino, '':'' @ dec seq)"
    using assms(1) by (intro strtoull_dec_rest) simp_all
  moreover have "strtoull (dec seq) = (seq, [])" using assms(2) by (intro strtoull_dec) simp
  moreover have "length (dec ino @ '':'' @ dec seq) \<noteq> length ('':'' @ dec seq)" by simp
  then have "dec ino @ '':'' @ dec seq \<noteq> '':'' @ dec seq" by metis
  ultimately show ?thesis using assms(2) by (simp add: parse_hit_def mem_key_vec_def)
qed

section \<open>Property\<close>

text \<open>
  C40. The search returns the best matches. Over whatever the scan of the vectors yields, the
  results are the candidates (vectors of the model's length that are not summaries) with the
  highest scores, sorted by falling score and in scan order where scores are equal, as many as
  asked for (5 by default, at most 16) or as there are; each names the inode and the sequence
  number of its key, and a result whose text is stored shows the first 511 bytes of it.
\<close>

theorem mem_search_best:
  assumes "mem_search K env c q = (True, q')" "length (q_results q) = CFS_MEM_MAX_RESULTS"
    and "mem_embed_text env (query_text q) = Some qvec"
  shows "hits q' = take (clamp_top_k (q_top_k q)) (ranked (candidates env qvec (kv_iter K (db c) ''m:v:''))) \<and>
    (\<forall>r\<in>set (take (q_n_results q') (q_results q')). summary_ok K (db c) r) \<and>
    (\<forall>ino seq. ino < 18446744073709551616 \<and> seq < 4294967296 \<longrightarrow> parse_hit (drop 4 (mem_key_vec ino seq)) = (ino, seq))"
proof -
  let ?k = "clamp_top_k (q_top_k q)"
  define init where "init = q\<lparr>q_results := map (\<lambda>r. r\<lparr>r_score := -1, r_summary := []\<rparr>) (take ?k (q_results q)) @
    drop ?k (q_results q), q_n_results := 0\<rparr>"
  have k: "0 < ?k" "?k \<le> CFS_MEM_MAX_RESULTS" by (auto simp: clamp_top_k_def Let_def CFS_MEM_MAX_RESULTS_def)
  have "q' = search_scan K env (db c) ?k qvec (kv_iter K (db c) ''m:v:'') init"
    using assms(1,3) by (auto simp: mem_search_def Let_def init_def split: if_splits)
  moreover have "table_ok K (db c) ?k init []"
    using k assms(2) by (simp add: table_ok_def init_def hits_def ranked_def)
  ultimately show ?thesis
    using search_scan_ok [of K "db c" ?k init "[]"] parse_hit_key by (auto simp: table_ok_def)
qed

text \<open>Two stored vectors, the second the closer one to the query.\<close>

definition search_env :: fs_env where
  "search_env = \<lparr>e_now = t1, e_uid = 1000, e_gid = 1000, e_dirent_size = (\<lambda>_. 32),
     e_encode = (\<lambda>_. Some [1]), e_n_embd = 1, e_floats = (\<lambda>bs. [if bs = zeros 4 then 1 / 2 else 1]),
     e_float_bytes = (\<lambda>_. zeros 4), e_fmt_score = (\<lambda>_. ''0'')\<rparr>"

definition search_db :: kv_mem where
  "search_db = DAList.update (mem_key_vec 5 0) (zeros 4)
     (DAList.update (mem_key_vec 7 1) ''abcd'' (DAList.update (mem_key_text 7 1) ''found'' DAList.empty))"

definition search_ctx :: "kv_mem kvbfs_ctx" where
  "search_ctx = sample\<lparr>db := search_db, mem := mem_zero\<lparr>mem_running := True\<rparr>\<rparr>"

definition search_query :: cfs_mem_query where
  "search_query = \<lparr>query_text = ''q'', q_top_k = 0, q_n_results = 0,
     q_results = replicate CFS_MEM_MAX_RESULTS \<lparr>r_ino = 0, r_seq = 0, r_score = 0, r_summary = []\<rparr>\<rparr>"

lemma search_keys:
  "mem_key_vec 5 0 = ''m:v:5:0''" "mem_key_vec 7 1 = ''m:v:7:1''" "mem_key_text 7 1 = ''m:t:7:1''"
  by (simp_all add: mem_key_vec_def mem_key_text_def dec.simps digit_char_def) (code_simp+)

lemma search_iter: "kv_iter mem_ops search_db ''m:v:'' = [(mem_key_vec 5 0, zeros 4), (mem_key_vec 7 1, ''abcd'')]"
proof -
  have "DAList.impl_of search_db =
      [(''m:t:7:1'', ''found''), (''m:v:7:1'', ''abcd''), (''m:v:5:0'', zeros 4)]"
    unfolding search_db_def search_keys DAList.update.rep_eq DAList.empty.rep_eq by simp
  moreover have "entry_cmp (''m:v:7:1'', ''abcd'') (''m:v:5:0'', zeros 4) = 2" by code_simp
  ultimately show ?thesis
    by (simp add: kv_mem_list_prefix_def search_keys [unfolded One_nat_def] qsort_by_def)
qed

lemma search_candidates:
  "ranked (candidates search_env [1] (kv_iter mem_ops (db search_ctx) ''m:v:'')) = [(1, 7, 1), (1 / 2, 5, 0)]"
proof -
  have "kv_iter mem_ops (db search_ctx) ''m:v:'' = [(mem_key_vec 5 0, zeros 4), (mem_key_vec 7 1, ''abcd'')]"
    using search_iter by (simp add: search_ctx_def)
  moreover have "is_candidate search_env (mem_key_vec 5 0, zeros 4)" "is_candidate search_env (mem_key_vec 7 1, ''abcd'')"
    by (simp_all add: is_candidate_def search_keys [unfolded One_nat_def] search_env_def zeros_def)
  moreover have "hit_of search_env [1] (mem_key_vec 5 0, zeros 4) = (1 / 2, 5, 0)"
    "hit_of search_env [1] (mem_key_vec 7 1, ''abcd'') = (1, 7, 1)"
    by (simp_all only: hit_of_def fst_conv snd_conv parse_hit_key) (simp_all add: search_env_def cosine_sim_def zeros_def numeral_eq_Suc NUL_def)
  ultimately show ?thesis by (simp add: candidates_def ranked_def)
qed

lemma mem_search_best_witness:
  "hits (snd (mem_search mem_ops search_env search_ctx search_query)) = [(1, 7, 1), (1 / 2, 5, 0)]"
proof -
  have "mem_embed_text search_env (query_text search_query) = Some [1]"
    by (simp add: mem_embed_text_def search_env_def search_query_def l2_norm_def)
  moreover have "mem_search mem_ops search_env search_ctx search_query =
      (True, snd (mem_search mem_ops search_env search_ctx search_query))"
    using calculation by (simp add: mem_search_def search_ctx_def Let_def)
  moreover have "length (q_results search_query) = CFS_MEM_MAX_RESULTS" "clamp_top_k (q_top_k search_query) = 5"
    by (simp_all add: search_query_def clamp_top_k_def CFS_MEM_MAX_RESULTS_def)
  ultimately show ?thesis
    using mem_search_best [of mem_ops search_env search_ctx search_query _ "[1]"] search_candidates by simp
qed

end
