(* ===== verification/LlmWorker.thy ===== *)
theory LlmWorker
  imports Llm
begin

text \<open>
  The inference side of \<^verbatim>\<open>src/llm.c\<close>: compression of a long conversation, the answer to an
  unanswered message, and the worker thread. The functions of llama.cpp are a parameter. A task is
  two steps, up to the mark that a generation runs and from there to its end; requests of the file
  system may come between them. A write past the end of a heap buffer is the outcome
  \<^verbatim>\<open>Corrupt\<close>.
\<close>

section \<open>The model\<close>

record llm_config =
  cf_n_ctx :: nat
  cf_max_tokens :: nat
  cf_temperature :: real

text \<open>
  The chat template (\<^verbatim>\<open>None\<close> for a negative length), the tokenizer with the room it has, the
  cleared memory, the decoding of a batch, the sampler (a function of the temperature, what it
  sampled before and the memory), the end mark, and the text of a token (at most 256 bytes, empty
  when there is none).
\<close>

record 'm llama =
  la_template :: "chat_msg list \<Rightarrow> string option"
  la_tokenize :: "bytes \<Rightarrow> nat \<Rightarrow> nat list option"
  la_cleared :: 'm
  la_decode :: "'m \<Rightarrow> nat list \<Rightarrow> bool \<times> 'm"
  la_sample :: "real \<Rightarrow> nat list \<Rightarrow> 'm \<Rightarrow> nat"
  la_is_eog :: "nat \<Rightarrow> bool"
  la_piece :: "nat \<Rightarrow> bytes"

datatype 'a llm_run = Corrupt | Run 'a

section \<open>Generation\<close>

text \<open>The prompt is decoded in batches of 512 tokens.\<close>

function decode_prompt :: "'m llama \<Rightarrow> 'm \<Rightarrow> nat list \<Rightarrow> 'm option" where
  "decode_prompt L m tokens =
     (if tokens = [] then Some m
      else
        let (okay, m') = la_decode L m (take 512 tokens)
        in if okay then decode_prompt L m' (drop 512 tokens) else None)"
  by pat_completeness auto
termination
  by (relation "measure (\<lambda>(L, m, tokens). length tokens)") auto

declare decode_prompt.simps [simp del]

text \<open>
  The sampling loop: the number of rounds left, the tokens sampled, and the text so far in a
  buffer of \<open>cap\<close> bytes.
\<close>

fun generate :: "'m llama \<Rightarrow> real \<Rightarrow> nat \<Rightarrow> nat \<Rightarrow> nat list \<Rightarrow> 'm \<Rightarrow> bytes \<Rightarrow> bytes llm_run" where
  "generate L temp cap 0 sampled m buf = Run buf"
| "generate L temp cap (Suc n) sampled m buf =
     (let token = la_sample L temp sampled m
      in if la_is_eog L token then Run buf
         else
           let buf' = buf @ la_piece L token
           in if cap < length buf' then Corrupt
              else
                let (okay, m') = la_decode L m [token]
                in if \<not> okay then Run buf'
                   else generate L temp cap n (sampled @ [token]) m' buf')"

text \<open>The text that the loop makes, whatever the buffer holds.\<close>

fun generated :: "'m llama \<Rightarrow> real \<Rightarrow> nat \<Rightarrow> nat list \<Rightarrow> 'm \<Rightarrow> bytes" where
  "generated L temp 0 sampled m = []"
| "generated L temp (Suc n) sampled m =
     (let token = la_sample L temp sampled m
      in if la_is_eog L token then []
         else
           let (okay, m') = la_decode L m [token]
           in la_piece L token @ (if okay then generated L temp n (sampled @ [token]) m' else []))"

lemma generate_exact:
  "length buf \<le> cap \<Longrightarrow> generate L temp cap n sampled m buf =
     (if length buf + length (generated L temp n sampled m) \<le> cap
      then Run (buf @ generated L temp n sampled m) else Corrupt)"
proof (induction n arbitrary: sampled m buf)
  case (Suc n)
  let ?t = "la_sample L temp sampled m"
  obtain okay m' where d: "la_decode L m [?t] = (okay, m')" by fastforce
  show ?case
    using Suc.IH [of "buf @ la_piece L ?t" "sampled @ [?t]" m'] Suc.prems d by (simp add: Let_def)
qed simp

text \<open>The buffers for an answer and for a summary, in bytes, and the tokens of a summary.\<close>

definition response_size :: "llm_config \<Rightarrow> nat" where
  "response_size cf = cf_max_tokens cf * 16"

definition summary_tokens :: nat where "summary_tokens = 256"

definition summary_size :: nat where "summary_size = 256 * 16"

section \<open>Compression\<close>

definition SUMMARY_SYSTEM :: string where
  "SUMMARY_SYSTEM = ''You are a summarizer. Condense the following conversation '' @
     ''into a brief summary preserving key facts, decisions, and '' @
     ''context. Output only the summary, no preamble.''"

definition llm_summarize :: "'m llama \<Rightarrow> llm_config \<Rightarrow> string \<Rightarrow> bytes option llm_run" where
  "llm_summarize L cf text =
     (let user_content = ''Summarize the following conversation:'' @ [newline] @ text;
          chat = [\<lparr>cm_role = ''system'', cm_content = SUMMARY_SYSTEM\<rparr>,
                  \<lparr>cm_role = ''user'', cm_content = user_content\<rparr>]
      in case la_template L chat of
           None \<Rightarrow> Run None
         | Some prompt \<Rightarrow>
             (case la_tokenize L prompt (cf_n_ctx cf) of
                None \<Rightarrow> Run None
              | Some tokens \<Rightarrow>
                  (case decode_prompt L (la_cleared L) tokens of
                     None \<Rightarrow> Run None
                   | Some m \<Rightarrow>
                       (case generate L (3 / 10) summary_size summary_tokens [] m [] of
                          Corrupt \<Rightarrow> Corrupt
                        | Run summary \<Rightarrow>
                            if length summary < summary_size then Run (Some summary) else Corrupt))))"

text \<open>One message as a line of the session file.\<close>

definition msg_line :: "chat_msg \<Rightarrow> string" where
  "msg_line m = (if cm_role m = ''user'' then ''User: '' else ''Assistant: '') @ cm_content m @ [newline]"

definition split_point :: "nat \<Rightarrow> nat" where
  "split_point n =
     (let s = n * 3 div 5; s1 = (if s < 1 then 1 else s) in if n \<le> s1 then n - 1 else s1)"

fun archive_msgs :: "'s kv_ops \<Rightarrow> 's \<Rightarrow> nat \<Rightarrow> nat \<Rightarrow> nat \<Rightarrow> chat_msg list \<Rightarrow> 's" where
  "archive_msgs K s ino gen i [] = s"
| "archive_msgs K s ino gen i (m # ms) =
     archive_msgs K (snd (kv_put K s (mem_key_archive ino gen i) (msg_line m))) ino gen (i + 1) ms"

definition compressed_text :: "bytes \<Rightarrow> chat_msg list \<Rightarrow> bytes" where
  "compressed_text summary msgs =
     ''[Context Summary]'' @ [newline] @ cstr summary @ [newline] @ ''---'' @ [newline] @
     concat (map msg_line msgs)"

text \<open>
  The result is \<open>0\<close> when nothing had to be done, \<open>1\<close> after a compression, \<open>-1\<close> on an error. The
  buffers for the old and the new text are large enough for every message with its prefix.
\<close>

definition try_compress_context ::
  "'m llama \<Rightarrow> llm_config \<Rightarrow> 's kv_ops \<Rightarrow> fs_env \<Rightarrow> 's kvbfs_ctx \<Rightarrow> nat \<Rightarrow> bytes \<Rightarrow> (int \<times> 's kvbfs_ctx) llm_run" where
  "try_compress_context L cf K env c ino content =
     (let threshold = cf_n_ctx cf * 3 div 4
      in if (case la_tokenize L content (cf_n_ctx cf) of None \<Rightarrow> False | Some ts \<Rightarrow> length ts < threshold)
         then Run (0, c)
         else
           let msgs = parse_conversation content
           in if length msgs < 2 then Run (- 1, c)
              else
                let split = split_point (length msgs);
                    old_text = concat (map msg_line (take split msgs));
                    (gen, s1) = mem_next_gen K (db c) ino;
                    s2 = archive_msgs K s1 ino gen 0 (take split msgs)
                in case llm_summarize L cf old_text of
                     Corrupt \<Rightarrow> Corrupt
                   | Run None \<Rightarrow> Run (- 1, c\<lparr>db := s2\<rparr>)
                   | Run (Some summary) \<Rightarrow>
                       if summary = [] then Run (- 1, c\<lparr>db := s2\<rparr>)
                       else
                         let s3 = snd (kv_put K s2 (mem_key_summary ino gen) summary);
                             s4 = (if mem_running (mem c) then
                                     (case mem_embed_text env summary of
                                        None \<Rightarrow> s3
                                      | Some svec \<Rightarrow>
                                          snd (kv_put K s3 (mem_key_summary_vec ino gen) (e_float_bytes env svec)))
                                   else s3);
                             new_content = compressed_text summary (drop split msgs);
                             (r, c1) = file_overwrite K (e_now env) (c\<lparr>db := s4\<rparr>) ino new_content
                         in Run (1, c1))"

section \<open>A task\<close>

definition gen_finish :: "'s kvbfs_ctx \<Rightarrow> nat \<Rightarrow> 's kvbfs_ctx" where
  "gen_finish c ino = c\<lparr>llm := llm_gen_finish (llm c) ino\<rparr>"

text \<open>The text of the last message of the user.\<close>

definition last_user_msg :: "chat_msg list \<Rightarrow> string option" where
  "last_user_msg msgs = map_option cm_content (find (\<lambda>m. cm_role m = ''user'') (rev msgs))"

definition append_answer ::
  "'s kv_ops \<Rightarrow> fs_env \<Rightarrow> 's kvbfs_ctx \<Rightarrow> nat \<Rightarrow> bytes \<Rightarrow> 's kvbfs_ctx" where
  "append_answer K env c ino response =
     (if response \<noteq> []
      then snd (file_append K (e_now env) c ino (''Assistant: '' @ response @ [newline]))
      else c)"

text \<open>Both messages are queued for embedding; the answer gets its NUL in the response buffer.\<close>

definition memorize_turn ::
  "'s kv_ops \<Rightarrow> nat \<Rightarrow> 's kvbfs_ctx \<Rightarrow> nat \<Rightarrow> string option \<Rightarrow> bytes \<Rightarrow> 's kvbfs_ctx llm_run" where
  "memorize_turn K cap c ino last_user response =
     (case last_user of
        None \<Rightarrow> Run c
      | Some u \<Rightarrow>
          let c1 = snd (mem_memorize K c ino u (Some ''user''))
          in if response = [] then Run c1
             else if cap \<le> length response then Corrupt
             else Run (snd (mem_memorize K c1 ino response (Some ''assistant''))))"

definition answer ::
  "'m llama \<Rightarrow> llm_config \<Rightarrow> 's kv_ops \<Rightarrow> fs_env \<Rightarrow> 's kvbfs_ctx \<Rightarrow> nat \<Rightarrow> bytes \<Rightarrow> 's kvbfs_ctx llm_run" where
  "answer L cf K env c ino content =
     (let msgs = parse_conversation content
      in if msgs = [] then Run (gen_finish c ino)
         else case la_template L msgs of
                None \<Rightarrow> Run (gen_finish c ino)
              | Some prompt \<Rightarrow>
                  let last_user = (if mem_running (mem c) then last_user_msg msgs else None)
                  in (case la_tokenize L prompt (cf_n_ctx cf) of
                        None \<Rightarrow> Run (gen_finish c ino)
                      | Some tokens \<Rightarrow>
                          (case decode_prompt L (la_cleared L) tokens of
                             None \<Rightarrow> Run (gen_finish c ino)
                           | Some m \<Rightarrow>
                               let cap = response_size cf
                               in (case generate L (cf_temperature cf) cap (cf_max_tokens cf) [] m [] of
                                     Corrupt \<Rightarrow> Corrupt
                                   | Run response \<Rightarrow>
                                       (case memorize_turn K cap (append_answer K env c ino response) ino last_user response of
                                          Corrupt \<Rightarrow> Corrupt
                                        | Run c1 \<Rightarrow> Run (gen_finish c1 ino))))))"

text \<open>The first step of \<^verbatim>\<open>process_session\<close>: the text to answer, if an answer is due.\<close>

definition session_begin :: "'s kv_ops \<Rightarrow> 's kvbfs_ctx \<Rightarrow> nat \<Rightarrow> bytes option \<times> 's kvbfs_ctx" where
  "session_begin K c ino =
     (let (content, c1) = file_read_all K c ino
      in case content of
           None \<Rightarrow> (None, c1)
         | Some t \<Rightarrow>
             if \<not> needs_response t then (None, c1)
             else (Some t, c1\<lparr>llm := llm_gen_start (llm c1) ino\<rparr>))"

text \<open>The second step.\<close>

definition session_finish ::
  "'m llama \<Rightarrow> llm_config \<Rightarrow> 's kv_ops \<Rightarrow> fs_env \<Rightarrow> 's kvbfs_ctx \<Rightarrow> nat \<Rightarrow> bytes \<Rightarrow> 's kvbfs_ctx llm_run" where
  "session_finish L cf K env c ino content =
     (if \<not> mem_running (mem c) then answer L cf K env c ino content
      else case try_compress_context L cf K env c ino content of
             Corrupt \<Rightarrow> Corrupt
           | Run (compressed, c1) \<Rightarrow>
               if compressed \<le> 0 then answer L cf K env c1 ino content
               else
                 let (content', c2) = file_read_all K c1 ino
                 in (case content' of
                       None \<Rightarrow> Run (gen_finish c2 ino)
                     | Some t \<Rightarrow>
                         if \<not> needs_response t then Run (gen_finish c2 ino)
                         else answer L cf K env c2 ino t))"

definition process_session ::
  "'m llama \<Rightarrow> llm_config \<Rightarrow> 's kv_ops \<Rightarrow> fs_env \<Rightarrow> 's kvbfs_ctx \<Rightarrow> nat \<Rightarrow> 's kvbfs_ctx llm_run" where
  "process_session L cf K env c ino =
     (let (content, c1) = session_begin K c ino
      in case content of
           None \<Rightarrow> Run c1
         | Some t \<Rightarrow> session_finish L cf K env c1 ino t)"

end
