(* ===== verification/Conversation.thy ===== *)
theory Conversation
  imports LlmWorker
begin

text \<open>
  The conversation format of a session file: writing messages as lines and parsing them gives the
  messages back, parsing always gives messages with this property, and text without a turn marker
  in front of the messages is not seen by the parser.
\<close>

section \<open>Clean messages\<close>

text \<open>No line but the first starts a turn.\<close>

fun no_turn :: "string \<Rightarrow> bool" where
  "no_turn [] = True"
| "no_turn (c # cs) = ((c = newline \<longrightarrow> \<not> at_turn cs) \<and> no_turn cs)"

definition clean_msg :: "chat_msg \<Rightarrow> bool" where
  "clean_msg m \<longleftrightarrow> (cm_role m = ''user'' \<or> cm_role m = ''assistant'') \<and>
     (cm_content m = [] \<or> hd (cm_content m) \<noteq> CHR '' '') \<and> trim_end (cm_content m) = cm_content m \<and>
     no_turn (cm_content m) \<and> NUL \<notin> set (cm_content m)"

lemma is_eol_newline [simp]: "is_eol newline"
  by (simp add: is_eol_def)

lemma newline_markers: "newline \<notin> set ''User:''" "newline \<notin> set ''Assistant:''"
  by (simp_all add: newline_def)

lemma prefix_before_newline: "newline \<notin> set u \<Longrightarrow> prefix u (b @ newline # r) \<longleftrightarrow> prefix u b"
proof (induction u arbitrary: b)
  case (Cons a u)
  then show ?case by (cases b) auto
qed simp

lemma at_turn_newline: "at_turn (b @ newline # r) \<longleftrightarrow> at_turn b"
  unfolding at_turn_def using prefix_before_newline [OF newline_markers(1)] prefix_before_newline [OF newline_markers(2)]
  by simp

lemma at_turn_mono: "at_turn b \<Longrightarrow> at_turn (b @ r)"
  by (auto simp: at_turn_def intro: prefix_order.trans)

lemma at_turn_Nil [simp]: "\<not> at_turn []"
  by (simp add: at_turn_def)

lemma no_turn_append: "no_turn (a @ b) \<Longrightarrow> no_turn a"
  by (induction a) (auto dest: at_turn_mono [of _ b])

lemma turn_text_prefix: "prefix (turn_text s) s"
  by (induction s) auto

lemma no_turn_turn_text: "no_turn (turn_text s)"
proof (induction s)
  case (Cons c cs)
  obtain r where "cs = turn_text cs @ r" using turn_text_prefix [of cs] by (auto simp: prefix_def)
  then have "\<not> at_turn cs \<Longrightarrow> \<not> at_turn (turn_text cs)" using at_turn_mono [of "turn_text cs" r] by metis
  with Cons show ?case by auto
qed simp

lemma trim_end_prefix: "prefix (trim_end s) s"
proof -
  let ?P = "\<lambda>c. is_eol c \<or> c = CHR '' ''"
  have "s = rev (dropWhile ?P (rev s)) @ rev (takeWhile ?P (rev s))"
    by (metis rev_append rev_rev_ident takeWhile_dropWhile_id)
  then show ?thesis unfolding trim_end_def prefix_def by blast
qed

lemma trim_end_idem [simp]: "trim_end (trim_end s) = trim_end s"
  by (simp add: trim_end_def dropWhile_idem)

lemma trim_end_newline: "trim_end (s @ [newline]) = trim_end s"
  by (simp add: trim_end_def)

lemma hd_prefix: "prefix a b \<Longrightarrow> a \<noteq> [] \<Longrightarrow> hd a = hd b"
  by (cases a; cases b) auto

section \<open>Parsing lines\<close>

lemma turn_text_line:
  assumes "no_turn s" "at_turn rest"
  shows "turn_text (s @ newline # rest) = s"
  using assms by (induction s) (auto simp: at_turn_newline)

lemma turn_text_last: "no_turn s \<Longrightarrow> turn_text (s @ [newline]) = s @ [newline]"
proof (induction s)
  case (Cons c s)
  then show ?case using at_turn_newline [of s "[]"] by auto
qed simp

lemma parse_turns_skip: "dropWhile is_eol s = dropWhile is_eol t \<Longrightarrow> parse_turns s = parse_turns t"
  by (simp add: parse_turns.simps [of s] parse_turns.simps [of t])

lemma parse_turns_newline [simp]: "parse_turns (newline # s) = parse_turns s"
  by (rule parse_turns_skip) simp

lemma parse_turns_Nil [simp]: "parse_turns [] = []"
  by (simp add: parse_turns.simps)

lemma msg_line_at_turn: "at_turn (msg_line m @ r)"
  by (simp add: msg_line_def at_turn_def)

text \<open>One line and what follows it.\<close>

lemma parse_turns_line:
  assumes m: "clean_msg m" and rest: "rest = [] \<or> at_turn rest"
  shows "parse_turns (msg_line m @ rest) = m # parse_turns rest"
proof -
  let ?s = "cm_content m" and ?user = "cm_role m = ''user''"
  let ?p = "msg_line m @ rest"
  have p: "?p = (if ?user then ''User:'' else ''Assistant:'') @ CHR '' '' # ?s @ newline # rest"
    by (simp add: msg_line_def)
  have "dropWhile is_eol ?p = ?p" unfolding p by (simp add: is_eol_def newline_def)
  moreover have "at_turn ?p" by (rule msg_line_at_turn)
  moreover have "prefix ''User:'' ?p = ?user" unfolding p by simp
  moreover have "dropWhile (\<lambda>c. c = CHR '' '') (drop (if ?user then 5 else 10) ?p) = ?s @ newline # rest"
  proof -
    have "dropWhile (\<lambda>c. c = CHR '' '') (?s @ newline # rest) = ?s @ newline # rest"
      using m by (cases ?s) (auto simp: clean_msg_def newline_def)
    then show ?thesis unfolding p by simp
  qed
  moreover have "?p \<noteq> []" unfolding p by simp
  moreover have "parse_turns (drop (length (turn_text (?s @ newline # rest))) (?s @ newline # rest)) = parse_turns rest
      \<and> trim_end (turn_text (?s @ newline # rest)) = ?s"
  proof (cases "rest = []")
    case True
    with m show ?thesis by (simp add: turn_text_last clean_msg_def trim_end_newline)
  next
    case False
    with m rest show ?thesis by (simp add: turn_text_line clean_msg_def)
  qed
  moreover have "m = \<lparr>cm_role = (if ?user then ''user'' else ''assistant''), cm_content = ?s\<rparr>"
    using m by (auto simp: clean_msg_def)
  ultimately show ?thesis
    by (simp add: parse_turns.simps [of ?p] Let_def)
qed

lemma parse_turns_lines: "list_all clean_msg ms \<Longrightarrow> parse_turns (concat (map msg_line ms)) = ms"
proof (induction ms)
  case (Cons m ms)
  have "concat (map msg_line ms) = [] \<or> at_turn (concat (map msg_line ms))"
    by (cases ms) (simp_all add: msg_line_at_turn)
  with Cons show ?case by (simp add: parse_turns_line)
qed simp

section \<open>Parsed messages are clean\<close>

lemma parse_turns_clean: "NUL \<notin> set s \<Longrightarrow> list_all clean_msg (parse_turns s)"
proof (induction s rule: parse_turns.induct)
  case (1 s)
  define p where "p = dropWhile is_eol s"
  have nul: "NUL \<notin> set p" using 1(3) set_dropWhileD [of NUL is_eol s] by (auto simp: p_def)
  show ?case
  proof (cases "p = []")
    case True
    then show ?thesis by (simp add: parse_turns.simps [of s] p_def Let_def)
  next
    case False
    show ?thesis
    proof (cases "at_turn p")
      case True
      define start where "start = dropWhile (\<lambda>c. c = CHR '' '') (drop (if prefix ''User:'' p then 5 else 10) p)"
      define body where "body = turn_text start"
      have ns: "NUL \<notin> set start"
        using nul set_dropWhileD [of NUL "\<lambda>c. c = CHR '' ''"] in_set_dropD by (fastforce simp: start_def)
      have "NUL \<notin> set (drop (length body) start)" using ns in_set_dropD by fastforce
      then have rest: "list_all clean_msg (parse_turns (drop (length body) start))"
        using 1(1) [OF p_def False True refl start_def body_def] by simp
      have pre: "prefix (trim_end body) body" "prefix body start"
        by (simp_all add: trim_end_prefix turn_text_prefix body_def)
      have "trim_end body = [] \<or> hd (trim_end body) \<noteq> CHR '' ''"
      proof (cases "trim_end body = []")
        case False
        then have "hd (trim_end body) = hd start" "start \<noteq> []"
          using hd_prefix [of "trim_end body" start] pre by (auto intro: prefix_order.trans)
        then show ?thesis using hd_dropWhile [of "\<lambda>c. c = CHR '' ''"] by (metis start_def)
      qed simp
      moreover have "no_turn (trim_end body)"
        using no_turn_turn_text [of start] pre(1) no_turn_append unfolding body_def prefix_def by metis
      moreover have "NUL \<notin> set (trim_end body)"
        using ns pre by (meson prefix_order.trans set_mono_prefix subsetD)
      ultimately have "clean_msg \<lparr>cm_role = (if prefix ''User:'' p then ''user'' else ''assistant''), cm_content = trim_end body\<rparr>"
        by (simp add: clean_msg_def)
      with rest False True show ?thesis
        by (simp add: parse_turns.simps [of s] p_def [symmetric] start_def [symmetric] body_def [symmetric] Let_def)
    next
      case no: False
      have "NUL \<notin> set (dropWhile (\<lambda>c. c \<noteq> newline) p)" using nul set_dropWhileD by fastforce
      with 1(2) [OF p_def False no] False no show ?thesis
        by (simp add: parse_turns.simps [of s] p_def [symmetric] Let_def)
    qed
  qed
qed

lemma NUL_cstr: "NUL \<notin> set (cstr s)"
  by (auto simp: cstr_def dest: set_takeWhileD)

lemma parse_conversation_clean: "list_all clean_msg (parse_conversation t)"
  by (simp add: parse_conversation_def parse_turns_clean NUL_cstr)

section \<open>Text the parser does not see\<close>

text \<open>No turn marker anywhere.\<close>

fun no_marker :: "string \<Rightarrow> bool" where
  "no_marker [] = True"
| "no_marker (c # cs) = (\<not> at_turn (c # cs) \<and> no_marker cs)"

lemma no_marker_appendD: "no_marker (a @ b) \<Longrightarrow> no_marker b"
  by (induction a) auto

lemma no_marker_dropWhile: "no_marker s \<Longrightarrow> no_marker (dropWhile P s)"
  by (metis no_marker_appendD takeWhile_dropWhile_id)

lemma no_marker_at_turn: "no_marker s \<Longrightarrow> \<not> at_turn s"
  by (cases s) simp_all

lemma no_marker_newline: "no_marker (a @ newline # b) \<longleftrightarrow> no_marker a \<and> no_marker b"
proof (induction a)
  case Nil
  have "\<not> at_turn (newline # b)" using at_turn_newline [of "[]" b] by simp
  then show ?case by simp
next
  case (Cons c a)
  then show ?case using at_turn_newline [of "c # a" b] by auto
qed

lemma parse_turns_no_marker: "no_marker x \<Longrightarrow> parse_turns (x @ newline # r) = parse_turns r"
proof (induction x rule: measure_induct_rule [of length])
  case (less x)
  define y where "y = dropWhile is_eol x"
  show ?case
  proof (cases "y = []")
    case True
    then have "\<forall>c\<in>set x. is_eol c" by (simp add: y_def)
    then have "dropWhile is_eol (x @ newline # r) = dropWhile is_eol r"
      using dropWhile_append2 [of x is_eol "newline # r"] by simp
    then show ?thesis by (rule parse_turns_skip)
  next
    case False
    then have d: "dropWhile is_eol (x @ newline # r) = y @ newline # r"
      by (auto simp: y_def dropWhile_append)
    have "no_marker y" using less.prems by (simp add: y_def no_marker_dropWhile)
    then have "\<not> at_turn (y @ newline # r)" by (simp add: at_turn_newline no_marker_at_turn)
    then have step: "parse_turns (x @ newline # r) = parse_turns (dropWhile (\<lambda>c. c \<noteq> newline) (y @ newline # r))"
      using False by (simp add: parse_turns.simps [of "x @ newline # r"] d Let_def)
    let ?z = "dropWhile (\<lambda>c. c \<noteq> newline) y"
    show ?thesis
    proof (cases "newline \<in> set y")
      case True
      then have z: "dropWhile (\<lambda>c. c \<noteq> newline) (y @ newline # r) = ?z @ newline # r"
        by (simp add: dropWhile_append1)
      have "length ?z < length y"
      proof (cases y)
        case (Cons a q)
        then have "\<not> is_eol a" using hd_dropWhile [of is_eol x] by (auto simp: y_def)
        then have "a \<noteq> newline" by auto
        with Cons show ?thesis using length_dropWhile_le [of "\<lambda>c. c \<noteq> newline" q] by simp
      qed (use False in simp)
      then have "length ?z < length x" using length_dropWhile_le [of is_eol x] by (simp add: y_def)
      then have "parse_turns (?z @ newline # r) = parse_turns r"
        using less.IH \<open>no_marker y\<close> no_marker_dropWhile by blast
      with step z show ?thesis by simp
    next
      case no: False
      then have "\<forall>c\<in>set y. c \<noteq> newline" by blast
      then have "dropWhile (\<lambda>c. c \<noteq> newline) (y @ newline # r) = newline # r"
        by (simp add: dropWhile_append2)
      with step show ?thesis by simp
    qed
  qed
qed

lemma header_no_marker: "no_marker ''[Context Summary]'' \<and> no_marker ''---''"
  by (simp add: at_turn_def)

lemma parse_compressed:
  assumes "no_marker (cstr summary)" "list_all clean_msg msgs"
  shows "parse_conversation (compressed_text summary msgs) = msgs"
proof -
  let ?x = "''[Context Summary]'' @ newline # (cstr summary @ newline # ''---'')"
  let ?lines = "concat (map msg_line msgs)"
  have t: "compressed_text summary msgs = ?x @ newline # ?lines" by (simp add: compressed_text_def)
  have lines: "NUL \<notin> set ?lines"
    using assms(2) by (auto simp: list_all_iff clean_msg_def msg_line_def newline_def NUL_def)
  have "NUL \<notin> set ''[Context Summary]''" "NUL \<notin> set ''---''" "NUL \<noteq> newline"
    by (simp_all add: NUL_def newline_def)
  with lines NUL_cstr [of summary] have "NUL \<notin> set (compressed_text summary msgs)"
    unfolding t set_append list.set by blast
  then have "\<forall>c\<in>set (compressed_text summary msgs). c \<noteq> NUL" by blast
  then have "cstr (compressed_text summary msgs) = compressed_text summary msgs"
    by (simp only: cstr_def takeWhile_eq_all_conv)
  then have "cstr (compressed_text summary msgs) = ?x @ newline # ?lines" unfolding t .
  moreover have "no_marker ?x"
    using assms(1) header_no_marker by (simp only: no_marker_newline simp_thms)
  ultimately show ?thesis
    by (simp only: parse_conversation_def parse_turns_no_marker parse_turns_lines [OF assms(2)])
qed

end
