(* ===== verification/SessionFile.thy ===== *)
theory SessionFile
  imports Files Conversation
begin

text \<open>
  The whole-file helpers of \<^verbatim>\<open>src/llm.c\<close> on the abstract file: reading gives its bytes, appending
  and overwriting change them as the names say, and everything but the file's own inode and blocks
  stays as it is.
\<close>

section \<open>A file and what surrounds it\<close>

definition sfile :: "'s kv_ops \<Rightarrow> ('s \<Rightarrow> string \<Rightarrow> bytes option) \<Rightarrow> 's kvbfs_ctx \<Rightarrow> nat \<Rightarrow> bytes \<Rightarrow> bool" where
  "sfile K contents c ino f \<longleftrightarrow> ok K c \<and>
     (\<exists>i. view K c ino = Some i \<and> file_ok (contents (db c)) ino i \<and> file_of (contents (db c)) ino i = f \<and> i_size i = length f)"

text \<open>Two states that differ in a file's inode and blocks only.\<close>

definition frame_file :: "'s kv_ops \<Rightarrow> ('s \<Rightarrow> string \<Rightarrow> bytes option) \<Rightarrow> nat \<Rightarrow> 's kvbfs_ctx \<Rightarrow> 's kvbfs_ctx \<Rightarrow> bool" where
  "frame_file K contents ino c c' \<longleftrightarrow>
     (\<forall>n. n \<noteq> ino \<longrightarrow> view K c' n = view K c n) \<and> refs c' = refs c \<and> super c' = super c \<and>
     llm c' = llm c \<and> mem c' = mem c \<and>
     (\<forall>k. (\<forall>b. k \<noteq> KBlock ino b) \<longrightarrow> contents (db c') (encode k) = contents (db c) (encode k))"

lemma frame_file_refl [simp]: "frame_file K contents ino c c"
  by (simp add: frame_file_def)

lemma frame_file_trans:
  "frame_file K contents ino c c1 \<Longrightarrow> frame_file K contents ino c1 c2 \<Longrightarrow> frame_file K contents ino c c2"
  by (simp add: frame_file_def)

lemma abs_write_end: "abs_write f (length f) data = f @ data"
  by (simp add: abs_write_def)

context kv_store
begin

lemma read_all_bytes:
  assumes "full_blocks (contents s) ino" "sz \<le> n * KVBFS_BLOCK_SIZE" "b \<le> n"
  shows "read_all K s ino sz [b..<n] (file_bytes (contents s) ino (min sz (b * KVBFS_BLOCK_SIZE))) =
    file_bytes (contents s) ino sz"
  using assms(3)
proof (induction "n - b" arbitrary: b)
  case 0
  then have "b = n" by simp
  with assms(2) show ?case by (simp add: min_absorb1)
next
  case (Suc m)
  let ?M = "contents s" and ?p = "b * KVBFS_BLOCK_SIZE"
  have bs: "[b..<n] = b # [Suc b..<n]" using Suc by (simp add: upt_conv_Cons)
  show ?case
  proof (cases "sz \<le> ?p")
    case True
    then show ?thesis by (simp add: bs)
  next
    case False
    define q where "q = min (sz - ?p) KVBFS_BLOCK_SIZE"
    have q: "0 + q \<le> KVBFS_BLOCK_SIZE" by (simp add: q_def)
    have d: "take (sz - ?p) (case ?M (encode (KBlock ino b)) of Some d \<Rightarrow> d | None \<Rightarrow> zeros KVBFS_BLOCK_SIZE) =
        map (byte_at ?M ino) [?p..<?p + q]"
      using map_byte_at_block [OF q, of ?M ino b] map_byte_at_hole [OF q, of ?M ino b] assms(1)
      by (cases "?M (encode (KBlock ino b))") (auto simp: q_def full_blocks_def min_def)
    have next_min: "min sz (Suc b * KVBFS_BLOCK_SIZE) = ?p + q" using False by (auto simp: q_def)
    have "file_bytes ?M ino ?p @ map (byte_at ?M ino) [?p..<?p + q] = file_bytes ?M ino (?p + q)"
      by (simp only: file_bytes_def map_append [symmetric] upt_add_eq_append [OF le0])
    then have "read_all K s ino sz [b..<n] (file_bytes ?M ino (min sz ?p)) =
        read_all K s ino sz [Suc b..<n] (file_bytes ?M ino (min sz (Suc b * KVBFS_BLOCK_SIZE)))"
      using False d unfolding next_min by (simp add: bs get block_key_encode min_absorb2)
    also have "\<dots> = file_bytes ?M ino sz" using Suc.hyps(2) by (intro Suc.hyps(1)) simp_all
    finally show ?thesis .
  qed
qed

end

context kv_store_live
begin

lemma file_read_all_sfile:
  assumes "sfile K contents c ino f"
  shows "\<exists>c'. file_read_all K c ino = (if f = [] then None else Some f, c') \<and> sfile K contents c' ino f \<and>
    frame_file K contents ino c c'"
proof -
  obtain i where i: "ok K c" "view K c ino = Some i" "file_ok (contents (db c)) ino i"
    "file_of (contents (db c)) ino i = f" "i_size i = length f"
    using assms by (auto simp: sfile_def)
  let ?c' = "inode_put (get_c K c ino) ino"
  have obs: "view K ?c' = view K c" "refs ?c' = refs c" "ok K ?c'" "db ?c' = db c" "llm ?c' = llm c" "mem ?c' = mem c"
    "super ?c' = super c"
    using i(1,2) by (simp_all add: fs_simps)
  have "i_size i \<le> i_blocks i * KVBFS_BLOCK_SIZE"
    using i(3) blocks_of_bounds(1) [of "i_size i"] by (simp add: file_ok_def)
  then have "read_all K (db c) ino (i_size i) [0..<i_blocks i] [] = f"
    using read_all_bytes [OF file_ok_full [OF i(3)], of "i_size i" "i_blocks i" 0] i(4)
    by (simp add: file_of_def file_bytes_def)
  then have "file_read_all K c ino = (if f = [] then None else Some f, ?c')"
    using i(1,2,5) by (simp add: file_read_all_def fs_simps Let_def)
  with obs i show ?thesis by (simp add: sfile_def frame_file_def)
qed

lemma file_append_sfile:
  assumes "sfile K contents c ino f" "length f + length data + KVBFS_BLOCK_SIZE \<le> 18446744073709551616"
  shows "\<exists>c'. file_append K now c ino data = (True, c') \<and> sfile K contents c' ino (f @ data) \<and>
    frame_file K contents ino c c'"
proof -
  obtain i where i: "ok K c" "view K c ino = Some i" "file_ok (contents (db c)) ino i"
    "file_of (contents (db c)) ino i = f" "i_size i = length f"
    using assms by (auto simp: sfile_def)
  let ?off = "i_size i"
  obtain s where s: "write_blocks K (db c) ino (?off div KVBFS_BLOCK_SIZE) (?off mod KVBFS_BLOCK_SIZE) data = (True, s)"
    "full_blocks (contents s) ino"
    "\<And>j. byte_at (contents s) ino j = (if ?off \<le> j \<and> j < ?off + length data
      then data ! (j - ?off) else byte_at (contents (db c)) ino j)"
    "\<And>k. (\<forall>b. k \<noteq> KBlock ino b) \<Longrightarrow> contents s (encode k) = contents (db c) (encode k)"
    using write_blocks_live [OF file_ok_full [OF i(3)], of "?off mod KVBFS_BLOCK_SIZE" "?off div KVBFS_BLOCK_SIZE" data]
    unfolding block_split by auto
  define sz where "sz = ?off + length data"
  have u: "u64 (?off + length data) = sz" using assms(2) i(5) by (simp add: KVBFS_BLOCK_SIZE_def sz_def)
  define g :: "kvbfs_inode \<Rightarrow> kvbfs_inode" where
    "g = (\<lambda>i. i\<lparr>i_size := sz, i_blocks := blocks_of sz, i_mtime := now, i_ctime := now\<rparr>)"
  have h1: "held K (get_c K c ino) (view K c) (refs c) ino i" by (rule held_get [OF i(1,2)])
  have h2: "held K ((get_c K c ino)\<lparr>db := s\<rparr>) (view K c) (refs c) ino i"
    using s(4) i(1,2) by (intro held_db [OF h1]) (simp add: fs_simps)
  have h3: "held K (ic_modify ((get_c K c ino)\<lparr>db := s\<rparr>) ino g) (view K c) (refs c) ino (g i)"
    by (rule held_modify [OF h2]) (simp add: g_def)
  let ?c' = "inode_put (ic_modify ((get_c K c ino)\<lparr>db := s\<rparr>) ino g) ino"
  have eq: "file_append K now c ino data = (True, ?c')"
    using i(1,2) s(1) held_sync [OF h3] held_ic_get [OF h1]
    by (simp add: file_append_def inode_get_view Let_def get_c_obs u g_def)
  have obs: "view K ?c' = (view K c)(ino \<mapsto> g i)" "refs ?c' = refs c" "ok K ?c'" "db ?c' = s" "llm ?c' = llm c"
    "mem ?c' = mem c" "super ?c' = super c"
    using held_put [OF h3] i(1,2) by (simp_all add: fs_simps)
  have z: "zero_beyond (contents (db c)) ino ?off" using i(3) by (simp add: file_ok_def)
  have w: "file_bytes (contents s) ino sz = f @ data" "zero_beyond (contents s) ino sz"
    using file_bytes_write [OF s(3) z] i(4,5) abs_write_end [of f data] by (simp_all add: file_of_def sz_def max_def)
  have "sfile K contents ?c' ino (f @ data)"
    using obs w s(2) assms(2) i(5) by (simp add: sfile_def file_ok_def file_of_def g_def sz_def)
  moreover have "frame_file K contents ino c ?c'" using obs s(4) by (simp add: frame_file_def)
  ultimately show ?thesis using eq by blast
qed

lemma file_overwrite_sfile:
  assumes "sfile K contents c ino f" "length data + KVBFS_BLOCK_SIZE \<le> 18446744073709551616"
  shows "\<exists>c'. file_overwrite K now c ino data = (True, c') \<and> sfile K contents c' ino data \<and>
    frame_file K contents ino c c'"
proof -
  obtain i where i: "ok K c" "view K c ino = Some i" "file_ok (contents (db c)) ino i"
    "file_of (contents (db c)) ino i = f" "i_size i = length f"
    using assms by (auto simp: sfile_def)
  define s where "s = delete_file_blocks K (db c) ino (i_blocks i)"
  have keep: "contents s (encode k) = contents (db c) (encode k)" if "\<forall>b. k \<noteq> KBlock ino b" for k
    using that by (auto simp: s_def delete_file_blocks_def contents_block_deletes)
  define g :: "kvbfs_inode \<Rightarrow> kvbfs_inode" where "g = (\<lambda>i. i\<lparr>i_size := 0, i_blocks := 0\<rparr>)"
  have h1: "held K (get_c K c ino) (view K c) (refs c) ino i" by (rule held_get [OF i(1,2)])
  have h2: "held K ((get_c K c ino)\<lparr>db := s\<rparr>) (view K c) (refs c) ino i"
    using keep i(1,2) by (intro held_db [OF h1]) (simp add: fs_simps)
  have h3: "held K (ic_modify ((get_c K c ino)\<lparr>db := s\<rparr>) ino g) (view K c) (refs c) ino (g i)"
    by (rule held_modify [OF h2]) (simp add: g_def)
  let ?c5 = "inode_put (ic_modify ((get_c K c ino)\<lparr>db := s\<rparr>) ino g) ino"
  have eq: "file_overwrite K now c ino data = (if data \<noteq> [] then file_append K now ?c5 ino data else (True, ?c5))"
    using i(1,2) held_sync [OF h3] held_ic_get [OF h1]
    by (simp add: file_overwrite_def inode_get_view Let_def get_c_obs s_def g_def)
  have obs: "view K ?c5 = (view K c)(ino \<mapsto> g i)" "refs ?c5 = refs c" "ok K ?c5" "db ?c5 = s" "llm ?c5 = llm c"
    "mem ?c5 = mem c" "super ?c5 = super c"
    using held_put [OF h3] i(1,2) by (simp_all add: fs_simps)
  have "byte_at (contents s) ino j = NUL" for j
    using i(3) blocks_of_bounds(3) [of "i_size i" j]
    by (cases "i_size i \<le> j") (auto simp: s_def delete_file_blocks_def byte_at_deletes file_ok_def zero_beyond_def)
  moreover have "full_blocks (contents s) ino"
    unfolding s_def delete_file_blocks_def by (rule full_blocks_deletes [OF file_ok_full [OF i(3)]])
  ultimately have c5: "sfile K contents ?c5 ino []"
    using obs by (simp add: sfile_def file_ok_def file_of_def file_bytes_def g_def zero_beyond_def
        KVBFS_BLOCK_SIZE_def blocks_of_def)
  have fr: "frame_file K contents ino c ?c5" using obs keep by (simp add: frame_file_def)
  show ?thesis
  proof (cases "data = []")
    case True
    with eq c5 fr show ?thesis by auto
  next
    case False
    from file_append_sfile [OF c5, of data now] assms(2) obtain c' where
      "file_append K now ?c5 ino data = (True, c')" "sfile K contents c' ino data" "frame_file K contents ino ?c5 c'"
      by auto
    with eq False frame_file_trans [OF fr] show ?thesis by auto
  qed
qed

end

end
