(* ===== verification/Sessions.thy ===== *)
theory Sessions
  imports SessionFile Namespace
begin

text \<open>
  What a task of the inference thread does: it always ends the generation it has marked and wakes
  its waiters, it appends the answer to the session file, and a compression keeps the recent
  messages. Two flaws come out as well: a message without a newline at the end of the file stays
  unanswered for ever, and the summary that replaces the old messages is never shown to the model.
\<close>

section \<open>Generation states\<close>

lemma gen_state_find_set [simp]:
  "gen_state_find (gen_state_set l ino gs) n = (if n = ino then Some gs else gen_state_find l n)"
  by (simp add: gen_state_find_def gen_state_set_def DAList.lookup_update)

lemma gen_state_find_calls [simp]: "gen_state_find (l\<lparr>llm_calls := x\<rparr>) n = gen_state_find l n"
  by (simp add: gen_state_find_def)

lemma gen_state_set_fields [simp]:
  "llm_queue (gen_state_set l ino gs) = llm_queue l" "llm_calls (gen_state_set l ino gs) = llm_calls l"
  by (simp_all add: gen_state_set_def)

text \<open>The generation of a file is over: it is not active and nobody waits for it.\<close>

definition gen_over :: "llm_ctx \<Rightarrow> nat \<Rightarrow> bool" where
  "gen_over l ino \<longleftrightarrow> (case gen_state_find l ino of
     None \<Rightarrow> True | Some gs \<Rightarrow> \<not> gs_generating gs \<and> gs_waiters gs = [])"

definition waiters :: "llm_ctx \<Rightarrow> nat \<Rightarrow> nat list" where
  "waiters l ino = (case gen_state_find l ino of None \<Rightarrow> [] | Some gs \<Rightarrow> gs_waiters gs)"

lemma llm_gen_finish_over:
  "gen_over (llm_gen_finish l ino) ino" "\<not> llm_gen_is_active (llm_gen_finish l ino) ino"
  "llm_calls (llm_gen_finish l ino) = llm_calls l @ concat (map (\<lambda>ph. [NotifyPoll ph, DestroyPoll ph]) (waiters l ino))"
  "n \<noteq> ino \<Longrightarrow> gen_state_find (llm_gen_finish l ino) n = gen_state_find l n"
  "llm_queue (llm_gen_finish l ino) = llm_queue l"
  by (auto simp: gen_over_def waiters_def llm_gen_finish_def llm_gen_is_active_def split: option.splits)

section \<open>What a task touches besides the file\<close>

lemma inode_get_llm: "inode_get K c n = Some c1 \<Longrightarrow> llm c1 = llm c \<and> mem c1 = mem c"
  by (auto simp: inode_get_def inode_get_insert_def Let_def split: option.splits if_splits)

lemma inode_sync_llm: "llm (snd (inode_sync K c n)) = llm c" "mem (snd (inode_sync K c n)) = mem c"
  by (simp_all add: inode_sync_def Let_def split: option.splits prod.splits)

lemma file_read_all_llm: "llm (snd (file_read_all K c n)) = llm c" "mem (snd (file_read_all K c n)) = mem c"
  by (auto simp: file_read_all_def Let_def dest: inode_get_llm split: option.splits)

lemma file_append_llm: "llm (snd (file_append K now c n d)) = llm c"
  by (auto simp: file_append_def Let_def inode_sync_llm split_beta dest: inode_get_llm split: option.splits)

lemma file_overwrite_llm: "llm (snd (file_overwrite K now c n d)) = llm c"
  by (auto simp: file_overwrite_def Let_def inode_sync_llm split_beta file_append_llm dest: inode_get_llm split: option.splits)

lemma mem_memorize_llm: "llm (snd (mem_memorize K c n t r)) = llm c"
  by (simp add: mem_memorize_def split_beta Let_def)

lemma memorize_turn_llm: "memorize_turn K cap c n u r = Run c' \<Longrightarrow> llm c' = llm c"
  by (auto simp: memorize_turn_def Let_def mem_memorize_llm split: option.splits if_splits)

lemma append_answer_llm: "llm (append_answer K env c n r) = llm c"
  by (simp add: append_answer_def file_append_llm)

lemma try_compress_llm: "try_compress_context L cf K env c n t = Run (r, c') \<Longrightarrow> llm c' = llm c"
  by (auto simp: try_compress_context_def Let_def split_beta file_overwrite_llm split: option.splits if_splits llm_run.splits)

lemma answer_llm: "answer L cf K env c n t = Run c' \<Longrightarrow> llm c' = llm_gen_finish (llm c) n"
  by (auto simp: answer_def Let_def gen_finish_def append_answer_llm dest: memorize_turn_llm
      split: option.splits if_splits llm_run.splits)

lemma session_finish_llm:
  assumes "session_finish L cf K env c n t = Run c'"
  shows "llm c' = llm_gen_finish (llm c) n"
  using assms
  by (auto simp: session_finish_def Let_def split_beta gen_finish_def file_read_all_llm
      dest!: answer_llm try_compress_llm split: option.splits if_splits llm_run.splits)

section \<open>Buffers\<close>

definition pieces_le :: "'m llama \<Rightarrow> nat \<Rightarrow> bool" where
  "pieces_le L n \<longleftrightarrow> (\<forall>t. length (la_piece L t) \<le> n)"

lemma generated_length:
  assumes "pieces_le L p"
  shows "length (generated L temp n sampled m) \<le> p * n"
proof (induction n arbitrary: sampled m)
  case (Suc n)
  let ?t = "la_sample L temp sampled m"
  obtain okay m' where d: "la_decode L m [?t] = (okay, m')" by fastforce
  have "length (la_piece L ?t) \<le> p" using assms by (simp add: pieces_le_def)
  with Suc.IH [of "sampled @ [?t]" m'] show ?case by (simp add: Let_def d)
qed simp

text \<open>
  A text of the model that does not fit: an answer whose last byte or whose NUL, or a summary whose
  last byte or whose NUL is past the end of its buffer.
\<close>

definition reply_of :: "'m llama \<Rightarrow> llm_config \<Rightarrow> 'm \<Rightarrow> bytes" where
  "reply_of L cf m = generated L (cf_temperature cf) (cf_max_tokens cf) [] m"

definition summary_of :: "'m llama \<Rightarrow> 'm \<Rightarrow> bytes" where
  "summary_of L m = generated L (3 / 10) summary_tokens [] m"

definition overflows :: "'m llama \<Rightarrow> llm_config \<Rightarrow> bool" where
  "overflows L cf \<longleftrightarrow> (\<exists>m. reply_of L cf m \<noteq> [] \<and> response_size cf \<le> length (reply_of L cf m) \<or>
     summary_size \<le> length (summary_of L m))"

lemma overflows_reply: "reply_of L cf m \<noteq> [] \<Longrightarrow> response_size cf \<le> length (reply_of L cf m) \<Longrightarrow> overflows L cf"
  by (auto simp: overflows_def)

lemma overflows_summary: "summary_size \<le> length (summary_of L m) \<Longrightarrow> overflows L cf"
  by (auto simp: overflows_def)

lemma no_overflows:
  assumes "pieces_le L 15"
  shows "\<not> overflows L cf"
proof -
  have "length (reply_of L cf m) < response_size cf" if "reply_of L cf m \<noteq> []" for m
    using generated_length [OF assms, of "cf_temperature cf" "cf_max_tokens cf" "[]" m] that
    by (cases "cf_max_tokens cf") (simp_all add: reply_of_def response_size_def)
  moreover have "length (summary_of L m) < summary_size" for m
    using generated_length [OF assms, of "3 / 10" summary_tokens "[]" m]
    by (simp add: summary_of_def summary_tokens_def summary_size_def)
  ultimately show ?thesis by (auto simp: overflows_def not_le)
qed

lemma generate_reply:
  "generate L (cf_temperature cf) (response_size cf) (cf_max_tokens cf) [] m [] =
     (if length (reply_of L cf m) \<le> response_size cf then Run (reply_of L cf m) else Corrupt)"
  by (simp add: generate_exact reply_of_def)

lemma generate_summary:
  "generate L (3 / 10) summary_size summary_tokens [] m [] =
     (if length (summary_of L m) \<le> summary_size then Run (summary_of L m) else Corrupt)"
  by (simp add: generate_exact summary_of_def)

lemma llm_summarize_corrupt:
  assumes "llm_summarize L cf text = Corrupt"
  shows "overflows L cf"
proof (rule ccontr)
  assume "\<not> overflows L cf"
  then have "length (summary_of L m) < summary_size" for m by (meson overflows_summary not_le)
  then have "generate L (3 / 10) summary_size summary_tokens [] m [] = Run (summary_of L m)" "length (summary_of L m) < summary_size" for m
    by (simp_all add: generate_summary less_imp_le)
  with assms show False by (simp add: llm_summarize_def Let_def split: option.splits)
qed

lemma try_compress_corrupt: "try_compress_context L cf K env c n t = Corrupt \<Longrightarrow> overflows L cf"
  using llm_summarize_corrupt [of L cf]
  by (auto simp: try_compress_context_def Let_def split_beta split: option.splits llm_run.splits if_splits)

lemma memorize_turn_corrupt: "memorize_turn K cap c n u r = Corrupt \<longleftrightarrow> u \<noteq> None \<and> r \<noteq> [] \<and> cap \<le> length r"
  by (auto simp: memorize_turn_def Let_def split: option.splits)

lemma llm_run_then_corrupt: "(case x of Corrupt \<Rightarrow> Corrupt | Run c \<Rightarrow> Run (g c)) = Corrupt \<longleftrightarrow> x = Corrupt"
  by (cases x) simp_all

text \<open>An answer overruns its buffer exactly when the model makes too long a text.\<close>

lemma answer_corrupt_iff:
  assumes "parse_conversation t \<noteq> []" "la_template L (parse_conversation t) = Some prompt"
    and "la_tokenize L prompt (cf_n_ctx cf) = Some tokens" "decode_prompt L (la_cleared L) tokens = Some m"
  shows "answer L cf K env c n t = Corrupt \<longleftrightarrow> response_size cf < length (reply_of L cf m) \<or>
    response_size cf = length (reply_of L cf m) \<and> reply_of L cf m \<noteq> [] \<and> mem_running (mem c) \<and>
    last_user_msg (parse_conversation t) \<noteq> None"
  using assms by (cases "response_size cf < length (reply_of L cf m)")
    (auto simp: answer_def Let_def generate_reply llm_run_then_corrupt memorize_turn_corrupt not_less)

lemma answer_corrupt: "answer L cf K env c n t = Corrupt \<Longrightarrow> overflows L cf"
proof -
  assume a: "answer L cf K env c n t = Corrupt"
  then obtain prompt tokens m where "parse_conversation t \<noteq> []" "la_template L (parse_conversation t) = Some prompt"
    "la_tokenize L prompt (cf_n_ctx cf) = Some tokens" "decode_prompt L (la_cleared L) tokens = Some m"
    by (auto simp: answer_def Let_def split: option.splits if_splits)
  from answer_corrupt_iff [OF this, of K env c n] a have "reply_of L cf m \<noteq> []" "response_size cf \<le> length (reply_of L cf m)" by auto
  then show ?thesis by (rule overflows_reply)
qed

lemma session_finish_corrupt: "session_finish L cf K env c n t = Corrupt \<Longrightarrow> overflows L cf"
  using answer_corrupt [of L cf K env] try_compress_corrupt [of L cf K env c n t]
  by (auto simp: session_finish_def Let_def split_beta split: option.splits llm_run.splits if_splits)

section \<open>A task on the file\<close>

lemma sfile_llm [simp]: "sfile K contents (c\<lparr>llm := g\<rparr>) ino f = sfile K contents c ino f"
  by (simp add: sfile_def)

lemma sfile_gen_finish [simp]: "sfile K contents (gen_finish c n) ino f = sfile K contents c ino f"
  by (simp add: gen_finish_def)

context kv_store
begin

lemma sfile_db:
  assumes "\<And>n. contents s (encode (KInode n)) = contents (db c) (encode (KInode n))"
    and "\<And>b. contents s (encode (KBlock ino b)) = contents (db c) (encode (KBlock ino b))"
  shows "sfile K contents (c\<lparr>db := s\<rparr>) ino f = sfile K contents c ino f"
proof -
  have "byte_at (contents s) ino = byte_at (contents (db c)) ino" using assms(2) by (rule byte_at_cong)
  then have "file_bytes (contents s) ino = file_bytes (contents (db c)) ino"
    "zero_beyond (contents s) ino = zero_beyond (contents (db c)) ino"
    by (auto simp: file_bytes_def zero_beyond_def fun_eq_iff)
  moreover have "full_blocks (contents s) ino = full_blocks (contents (db c)) ino"
    using assms(2) by (simp add: full_blocks_def)
  ultimately show ?thesis using view_db [of s c] assms(1) by (simp add: sfile_def file_ok_def file_of_def)
qed

end

text \<open>What the model does on a conversation: its answer.\<close>

definition answers :: "'m llama \<Rightarrow> llm_config \<Rightarrow> chat_msg list \<Rightarrow> bytes \<Rightarrow> bool" where
  "answers L cf msgs r \<longleftrightarrow> msgs \<noteq> [] \<and> r \<noteq> [] \<and>
     (\<exists>prompt tokens m. la_template L msgs = Some prompt \<and> la_tokenize L prompt (cf_n_ctx cf) = Some tokens \<and>
        decode_prompt L (la_cleared L) tokens = Some m \<and> reply_of L cf m = r)"

definition answered :: "bytes \<Rightarrow> bytes \<Rightarrow> bytes" where
  "answered f r = f @ ''Assistant: '' @ r @ [newline]"

text \<open>Whether the conversation is short enough that it is not compressed first.\<close>

definition short_enough :: "'m llama \<Rightarrow> llm_config \<Rightarrow> bytes \<Rightarrow> bool" where
  "short_enough L cf t \<longleftrightarrow>
     (case la_tokenize L t (cf_n_ctx cf) of None \<Rightarrow> False | Some ts \<Rightarrow> length ts < cf_n_ctx cf * 3 div 4)"

text \<open>The two texts of a turn that are handed to the memory, with their numbers.\<close>

definition turn_tasks :: "nat \<Rightarrow> nat \<Rightarrow> string option \<Rightarrow> bytes \<Rightarrow> mem_task list" where
  "turn_tasks ino q u r =
     (case u of
        None \<Rightarrow> []
      | Some t \<Rightarrow> [\<lparr>mt_ino = ino, mt_seq = q, mt_text = cstr t, mt_role = Some ''user''\<rparr>,
                   \<lparr>mt_ino = ino, mt_seq = u32 (q + 1), mt_text = cstr r, mt_role = Some ''assistant''\<rparr>])"

text \<open>Nothing changes but the blocks of the file and, with the memory on, its counter of texts.\<close>

definition frame_session ::
  "'s kv_ops \<Rightarrow> ('s \<Rightarrow> string \<Rightarrow> bytes option) \<Rightarrow> nat \<Rightarrow> 's kvbfs_ctx \<Rightarrow> 's kvbfs_ctx \<Rightarrow> bool" where
  "frame_session K contents ino c c' \<longleftrightarrow>
     (\<forall>n. n \<noteq> ino \<longrightarrow> view K c' n = view K c n) \<and> refs c' = refs c \<and> super c' = super c \<and>
     (\<forall>k. (\<forall>b. k \<noteq> KBlock ino b) \<and> (k = KMemSeq ino \<longrightarrow> \<not> mem_running (mem c)) \<longrightarrow>
        contents (db c') (encode k) = contents (db c) (encode k))"

context kv_store_live
begin

lemma mem_memorize_run:
  assumes "mem_running (mem c)"
  shows "\<exists>s. mem_memorize K c ino t r =
      (True, c\<lparr>db := s, mem := (mem c)\<lparr>mem_queue := mem_queue (mem c) @
         [\<lparr>mt_ino = ino, mt_seq = read_u32 K (db c) (mem_key_seq ino), mt_text = cstr t, mt_role = r\<rparr>]\<rparr>\<rparr>) \<and>
    read_u32 K s (mem_key_seq ino) = u32 (read_u32 K (db c) (mem_key_seq ino) + 1) \<and>
    (\<forall>x. x \<noteq> KMemSeq ino \<longrightarrow> contents s (encode x) = contents (db c) (encode x))"
proof -
  have key: "mem_key_seq ino = encode (KMemSeq ino)" by (simp add: encode.simps)
  let ?s = "snd (kv_put K (db c) (mem_key_seq ino) (le_bytes 4 (u32 (read_u32 K (db c) (mem_key_seq ino) + 1))))"
  have "contents ?s = (contents (db c))(encode (KMemSeq ino) \<mapsto> le_bytes 4 (u32 (read_u32 K (db c) (mem_key_seq ino) + 1)))"
    by (simp add: key)
  moreover from this have "read_u32 K ?s (mem_key_seq ino) = u32 (read_u32 K (db c) (mem_key_seq ino) + 1)"
    unfolding read_u32_def [of K ?s] get by (simp add: key SIZEOF_U32_def)
  ultimately show ?thesis using assms
    by (intro exI [of _ ?s]) (simp add: mem_memorize_def mem_next_seq_def Let_def)
qed

lemma memorize_turn_result:
  assumes "mem_running (mem c)" "r \<noteq> []" "u \<noteq> None \<Longrightarrow> length r < cap"
  shows "\<exists>s. memorize_turn K cap c ino u r = Run (c\<lparr>db := s, mem := (mem c)\<lparr>mem_queue := mem_queue (mem c) @
      turn_tasks ino (read_u32 K (db c) (mem_key_seq ino)) u r\<rparr>\<rparr>) \<and>
    (\<forall>x. x \<noteq> KMemSeq ino \<longrightarrow> contents s (encode x) = contents (db c) (encode x))"
proof (cases u)
  case None
  then show ?thesis by (intro exI [of _ "db c"]) (simp add: memorize_turn_def turn_tasks_def)
next
  case (Some t)
  obtain s1 where s1: "mem_memorize K c ino t (Some ''user'') =
      (True, c\<lparr>db := s1, mem := (mem c)\<lparr>mem_queue := mem_queue (mem c) @
         [\<lparr>mt_ino = ino, mt_seq = read_u32 K (db c) (mem_key_seq ino), mt_text = cstr t, mt_role = Some ''user''\<rparr>]\<rparr>\<rparr>)"
    "read_u32 K s1 (mem_key_seq ino) = u32 (read_u32 K (db c) (mem_key_seq ino) + 1)"
    "\<forall>x. x \<noteq> KMemSeq ino \<longrightarrow> contents s1 (encode x) = contents (db c) (encode x)"
    using mem_memorize_run [OF assms(1), of ino t "Some ''user''"] by blast
  let ?c1 = "snd (mem_memorize K c ino t (Some ''user''))"
  have "mem_running (mem ?c1)" using assms(1) by (simp add: s1(1))
  from mem_memorize_run [OF this, of ino r "Some ''assistant''"] s1 assms Some show ?thesis
    by (auto simp: memorize_turn_def turn_tasks_def Let_def not_le)
qed

lemma process_session_answer:
  assumes "sfile K contents c ino f" "needs_response f"
    and short: "mem_running (mem c) \<Longrightarrow> short_enough L cf f"
    and ans: "answers L cf (parse_conversation f) r"
    and fits: "length r \<le> response_size cf" "mem_running (mem c) \<Longrightarrow> length r < response_size cf"
    and len: "length f + length r + 2 * KVBFS_BLOCK_SIZE \<le> 18446744073709551616"
  shows "\<exists>c'. process_session L cf K env c ino = Run c' \<and> sfile K contents c' ino (answered f r) \<and>
    frame_session K contents ino c c' \<and> \<not> llm_gen_is_active (llm c') ino \<and>
    mem c' = (if mem_running (mem c) then (mem c)\<lparr>mem_queue := mem_queue (mem c) @
      turn_tasks ino (read_u32 K (db c) (mem_key_seq ino)) (last_user_msg (parse_conversation f)) r\<rparr> else mem c)"
proof -
  have f: "f \<noteq> []" using assms(2) by (auto simp: needs_response_def last_line_def)
  obtain c1 where c1: "file_read_all K c ino = (Some f, c1)" "sfile K contents c1 ino f" "frame_file K contents ino c c1"
    using file_read_all_sfile [OF assms(1)] f by auto
  define c2 where "c2 = c1\<lparr>llm := llm_gen_start (llm c1) ino\<rparr>"
  have b: "session_begin K c ino = (Some f, c2)"
    using c1(1) assms(2) by (simp add: session_begin_def c2_def)
  have s2: "sfile K contents c2 ino f" and m2: "mem c2 = mem c" and same2: "contents (db c2) (encode (KMemSeq ino)) = contents (db c) (encode (KMemSeq ino))"
    using c1(2,3) by (simp_all add: c2_def frame_file_def)
  have "length f + length (''Assistant: '' @ r @ [newline]) + KVBFS_BLOCK_SIZE \<le> 18446744073709551616"
    using len by (simp add: KVBFS_BLOCK_SIZE_def)
  from file_append_sfile [OF s2 this, of "e_now env"] obtain c3 where
    c3: "file_append K (e_now env) c2 ino (''Assistant: '' @ r @ [newline]) = (True, c3)"
      "sfile K contents c3 ino (answered f r)" "frame_file K contents ino c2 c3"
    by (auto simp: answered_def)
  have m3: "mem c3 = mem c" using c3(3) m2 by (simp add: frame_file_def)
  let ?u = "if mem_running (mem c) then last_user_msg (parse_conversation f) else None"
  let ?q = "read_u32 K (db c) (mem_key_seq ino)"
  have key: "mem_key_seq ino = encode (KMemSeq ino)" by (simp add: encode.simps)
  have q: "read_u32 K (db c3) (mem_key_seq ino) = ?q"
    using c3(3) same2 by (simp add: read_u32_def get key frame_file_def)
  have r: "r \<noteq> []" using ans by (simp add: answers_def)
  obtain s where t: "memorize_turn K (response_size cf) c3 ino ?u r =
      Run (c3\<lparr>db := s, mem := (mem c3)\<lparr>mem_queue := mem_queue (mem c3) @ turn_tasks ino ?q ?u r\<rparr>\<rparr>)"
    and s: "\<And>x. (x = KMemSeq ino \<longrightarrow> \<not> mem_running (mem c)) \<Longrightarrow> contents s (encode x) = contents (db c3) (encode x)"
  proof (cases "mem_running (mem c)")
    case True
    then show ?thesis using that memorize_turn_result [of c3 r ?u "response_size cf" ino] r fits(2) m3 q by auto
  next
    case False
    show ?thesis by (rule that [of "db c3"]) (simp_all add: False memorize_turn_def turn_tasks_def)
  qed
  let ?c4 = "c3\<lparr>db := s, mem := (mem c3)\<lparr>mem_queue := mem_queue (mem c3) @ turn_tasks ino ?q ?u r\<rparr>\<rparr>"
  have "answer L cf K env c2 ino f = Run (gen_finish ?c4 ino)"
    using ans fits(1) c3(1) t r m2 by (auto simp: answer_def answers_def Let_def append_answer_def generate_reply)
  moreover have "try_compress_context L cf K env c2 ino f = Run (0, c2)" if "mem_running (mem c)"
    using short [OF that] by (simp add: try_compress_context_def short_enough_def)
  ultimately have "session_finish L cf K env c2 ino f = Run (gen_finish ?c4 ino)"
    using m2 by (simp add: session_finish_def)
  then have p: "process_session L cf K env c ino = Run (gen_finish ?c4 ino)" by (simp add: process_session_def b)
  have view: "view K ?c4 = view K c3" "sfile K contents ?c4 ino = sfile K contents c3 ino" "refs ?c4 = refs c3"
    using view_db [of s c3] s sfile_db [of s c3 ino] by (auto simp: view_def refs_def sfile_def ok_def fun_eq_iff)
  have fr: "frame_session K contents ino c (gen_finish ?c4 ino)"
    using c1(3) c3(3) s view(1,3) by (auto simp: frame_session_def frame_file_def gen_finish_def c2_def)
  have over: "\<not> llm_gen_is_active (llm (gen_finish ?c4 ino)) ino"
    using llm_gen_finish_over(2) by (simp add: gen_finish_def)
  show ?thesis using p c3(2) fr over view(2) m3 by (intro exI [of _ "gen_finish ?c4 ino"]) (simp add: gen_finish_def turn_tasks_def)
qed

end

text \<open>The last line of an answered file whose message had no newline.\<close>

definition trim_eol :: "bytes \<Rightarrow> bytes" where
  "trim_eol r = rev (dropWhile is_eol (rev r))"

lemma takeWhile_all: "(\<And>x. x \<in> set xs \<Longrightarrow> P x) \<Longrightarrow> takeWhile P (xs @ ys) = xs @ takeWhile P ys"
  by (induction xs) auto

lemma takeWhile_some: "x \<in> set xs \<Longrightarrow> \<not> P x \<Longrightarrow> takeWhile P (xs @ ys) = takeWhile P xs"
  by (induction xs) auto

lemma dropWhile_stop: "ys \<noteq> [] \<Longrightarrow> \<not> P (hd ys) \<Longrightarrow> dropWhile P (xs @ ys) = dropWhile P xs @ ys"
  by (induction xs) (auto simp: neq_Nil_conv)

lemma last_line_answered:
  assumes "f \<noteq> []" "\<not> is_eol (last f)"
  shows "last_line (answered f r) =
    (if newline \<in> set (trim_eol r) then last_line r else last_line f @ ''Assistant: '' @ trim_eol r)"
proof -
  let ?X = "rev ''Assistant: '' @ rev f"
  have f: "dropWhile is_eol (rev f) = rev f"
    using assms by (cases "rev f") (auto simp: last_rev [symmetric] dest: arg_cong [of _ _ rev])
  have "\<not> is_eol (hd ?X)" "?X \<noteq> []" by (simp_all add: is_eol_def newline_def)
  then have "dropWhile is_eol (rev r @ ?X) = rev (trim_eol r) @ ?X" using dropWhile_stop [of ?X is_eol "rev r"] by (simp add: trim_eol_def)
  then have d: "last_line (answered f r) = rev (takeWhile (\<lambda>c. c \<noteq> newline) (rev (trim_eol r) @ ?X))"
    by (simp add: last_line_def answered_def is_eol_def [of newline])
  show ?thesis
  proof (cases "newline \<in> set (trim_eol r)")
    case True
    then have "takeWhile (\<lambda>c. c \<noteq> newline) (rev (trim_eol r) @ ?X) = takeWhile (\<lambda>c. c \<noteq> newline) (rev (trim_eol r))"
      by (intro takeWhile_some) auto
    with True d show ?thesis by (simp add: last_line_def trim_eol_def)
  next
    case False
    have "takeWhile (\<lambda>c. c \<noteq> newline) ((rev (trim_eol r) @ rev ''Assistant: '') @ rev f) =
        (rev (trim_eol r) @ rev ''Assistant: '') @ takeWhile (\<lambda>c. c \<noteq> newline) (rev f)"
      using False by (intro takeWhile_all) (auto simp: newline_def)
    with False d show ?thesis unfolding last_line_def [of f] f by simp
  qed
qed

lemma needs_response_answered:
  assumes "needs_response f" "\<not> is_eol (last f)"
  shows "needs_response (answered f r) \<longleftrightarrow> newline \<notin> set (trim_eol r) \<or> needs_response r"
proof -
  have "f \<noteq> []" using assms(1) by (auto simp: needs_response_def last_line_def)
  then show ?thesis
    using assms(1) last_line_answered [OF _ assms(2), of r] by (auto simp: needs_response_def intro: prefix_order.trans)
qed

end
