(* ===== verification/Compress.thy ===== *)
theory Compress
  imports Sessions
begin

text \<open>
  Compression of a long conversation on the stored file: the old messages go to the archive keys,
  the file is rewritten with the summary and the recent messages.
\<close>

section \<open>Archive and summary keys\<close>

lemma archive_key: "mem_key_archive ino gen i = encode (KMemArchive ino gen i)"
  by (simp add: encode.simps)

context kv_store_live
begin

lemma archive_msgs_contents:
  "contents (archive_msgs K s ino gen i ms) (encode k) =
    (case k of
       KMemArchive n g j \<Rightarrow>
         if n = ino \<and> g = gen \<and> i \<le> j \<and> j < i + length ms then Some (msg_line (ms ! (j - i)))
         else contents s (encode k)
     | _ \<Rightarrow> contents s (encode k))"
proof (induction ms arbitrary: s i)
  case Nil
  then show ?case by (auto split: key.splits)
next
  case (Cons m ms)
  show ?case
    unfolding archive_msgs.simps Cons.IH archive_key put
    by (auto split: key.splits simp: nth_Cons' Suc_diff_Suc)
qed

lemma mem_next_gen_contents:
  "mem_next_gen K s ino = (gen, s1) \<Longrightarrow> gen = read_u32 K s (mem_key_gen ino) \<and>
    contents s1 (encode k) = (if k = KMemGen ino then Some (le_bytes 4 (u32 (gen + 1))) else contents s (encode k))"
proof -
  have key: "mem_key_gen ino = encode (KMemGen ino)" by (simp add: encode.simps)
  assume "mem_next_gen K s ino = (gen, s1)"
  then have "gen = read_u32 K s (mem_key_gen ino)" "s1 = snd (kv_put K s (mem_key_gen ino) (le_bytes 4 (u32 (gen + 1))))"
    by (auto simp: mem_next_gen_def Let_def)
  then show ?thesis by (simp add: key)
qed

end

section \<open>A compression\<close>

lemma split_point_bounds: "2 \<le> n \<Longrightarrow> 0 < split_point n \<and> split_point n < n"
  by (auto simp: split_point_def Let_def)

lemma llm_summarize_length: "llm_summarize L cf t = Run (Some summary) \<Longrightarrow> length summary < 4096"
  by (auto simp: llm_summarize_def summary_size_def Let_def split: option.splits llm_run.splits if_splits)

lemma length_cstr: "length (cstr s) \<le> length s"
  by (simp add: cstr_def length_takeWhile_le)

lemma length_lines_drop: "length (concat (map msg_line (drop k ms))) \<le> length (concat (map msg_line ms))"
proof -
  have "length (concat (map msg_line (take k ms @ drop k ms))) =
      length (concat (map msg_line (take k ms))) + length (concat (map msg_line (drop k ms)))"
    by (simp only: map_append concat_append length_append)
  then show ?thesis by simp
qed

context kv_store_live
begin

lemma try_compress_file:
  assumes f: "sfile K contents c ino f"
    and run: "try_compress_context L cf K env c ino t = Run (1, c')"
    and len: "length (concat (map msg_line (parse_conversation t))) + 3 * KVBFS_BLOCK_SIZE \<le> 18446744073709551616"
    and msgs: "msgs = parse_conversation t" and k: "k = split_point (length msgs)"
  shows "\<exists>summary. 0 < k \<and> k < length msgs \<and> sfile K contents c' ino (compressed_text summary (drop k msgs)) \<and>
    (\<forall>i<k. contents (db c') (mem_key_archive ino (read_u32 K (db c) (mem_key_gen ino)) i) = Some (msg_line (msgs ! i))) \<and>
    contents (db c') (mem_key_summary ino (read_u32 K (db c) (mem_key_gen ino))) = Some summary"
proof -
  have two: "2 \<le> length msgs"
    using run by (auto simp: try_compress_context_def Let_def msgs split: if_splits)
  define gen where "gen = read_u32 K (db c) (mem_key_gen ino)"
  obtain g s1 where g0: "mem_next_gen K (db c) ino = (g, s1)" by fastforce
  have g: "g = gen" "contents s1 (encode x) = (if x = KMemGen ino then Some (le_bytes 4 (u32 (g + 1))) else contents (db c) (encode x))" for x
    using mem_next_gen_contents [OF g0] by (simp_all add: gen_def)
  define s2 where "s2 = archive_msgs K s1 ino gen 0 (take k msgs)"
  have s2: "contents s2 (encode x) = (case x of
      KMemArchive n h j \<Rightarrow> if n = ino \<and> h = gen \<and> j < min k (length msgs) then Some (msg_line (msgs ! j)) else contents s1 (encode x)
    | _ \<Rightarrow> contents s1 (encode x))" for x
    unfolding s2_def archive_msgs_contents by (auto split: key.splits)
  obtain summary where sum: "llm_summarize L cf (concat (map msg_line (take k msgs))) = Run (Some summary)" "summary \<noteq> []"
    using run two g0 g(1)
    by (auto simp: try_compress_context_def Let_def msgs [symmetric] k [symmetric] s2_def [symmetric]
        split: if_splits llm_run.splits option.splits)
  define s3 where "s3 = snd (kv_put K s2 (mem_key_summary ino gen) summary)"
  define s4 where "s4 = (if mem_running (mem c) then
      (case mem_embed_text env summary of None \<Rightarrow> s3
       | Some svec \<Rightarrow> snd (kv_put K s3 (mem_key_summary_vec ino gen) (e_float_bytes env svec))) else s3)"
  have keys: "mem_key_summary ino gen = encode (KMemSummary ino gen)" "mem_key_summary_vec ino gen = encode (KMemSummaryVec ino gen)"
    by (simp_all add: encode.simps)
  have s4: "contents s4 (encode x) = (if x = KMemSummary ino gen then Some summary else contents s2 (encode x))"
    if "x \<noteq> KMemSummaryVec ino gen" for x
    using that unfolding s4_def s3_def keys
    by (cases "mem_embed_text env summary") simp_all
  let ?new = "compressed_text summary (drop k msgs)"
  have c': "c' = snd (file_overwrite K (e_now env) (c\<lparr>db := s4\<rparr>) ino ?new)"
    using run two g0 g(1) sum
    by (cases "mem_embed_text env summary")
      (auto simp: try_compress_context_def Let_def msgs [symmetric] k [symmetric] s2_def [symmetric]
        s3_def [symmetric] s4_def split_beta split: if_splits)
  have "length ?new + KVBFS_BLOCK_SIZE \<le> 18446744073709551616"
    using len length_lines_drop [of k msgs] llm_summarize_length [OF sum(1)] length_cstr [of summary]
    by (simp add: compressed_text_def KVBFS_BLOCK_SIZE_def msgs)
  moreover have "sfile K contents (c\<lparr>db := s4\<rparr>) ino f"
    using f by (subst sfile_db) (simp_all add: s4 s2 g(2))
  ultimately obtain c2 where c2: "file_overwrite K (e_now env) (c\<lparr>db := s4\<rparr>) ino ?new = (True, c2)"
    "sfile K contents c2 ino ?new" "frame_file K contents ino (c\<lparr>db := s4\<rparr>) c2"
    using file_overwrite_sfile by blast
  have other: "contents (db c') (encode x) = contents s4 (encode x)" if "\<forall>b. x \<noteq> KBlock ino b" for x
    using c2 c' that by (simp add: frame_file_def)
  have "contents (db c') (mem_key_archive ino gen i) = Some (msg_line (msgs ! i))" if "i < k" for i
    using other [of "KMemArchive ino gen i"] that split_point_bounds [OF two]
    unfolding archive_key by (simp add: s4 s2 k)
  moreover have "contents (db c') (mem_key_summary ino gen) = Some summary"
    using other [of "KMemSummary ino gen"] unfolding keys by (simp add: s4)
  ultimately show ?thesis
    using c2 c' split_point_bounds [OF two] unfolding k gen_def by auto
qed

end

section \<open>A small model\<close>

definition sample_llama :: "nat list llama" where
  "sample_llama =
     \<lparr>la_template = (\<lambda>ms. Some ''p''), la_tokenize = (\<lambda>b n. if length b \<le> n then Some (map of_char b) else None),
      la_cleared = [], la_decode = (\<lambda>m ts. (True, m @ ts)), la_sample = (\<lambda>temp h m. if length h < 2 then 111 else 0),
      la_is_eog = (\<lambda>t. t = 0), la_piece = (\<lambda>t. ''o'')\<rparr>"

definition sample_config :: llm_config where
  "sample_config = \<lparr>cf_n_ctx = 8, cf_max_tokens = 4, cf_temperature = 1\<rparr>"

lemma sample_generated: "2 < n \<Longrightarrow> generated sample_llama temp n [] m = ''oo''"
  by (cases n; cases "n - 1"; cases "n - 2") (auto simp: sample_llama_def Let_def)

lemma sample_reply: "reply_of sample_llama sample_config m = ''oo''" "summary_of sample_llama m = ''oo''"
  by (simp_all add: reply_of_def summary_of_def sample_config_def summary_tokens_def sample_generated)

lemma sample_prompt:
  "la_template sample_llama ms = Some ''p''" "la_tokenize sample_llama ''p'' (cf_n_ctx sample_config) = Some [112]"
  "decode_prompt sample_llama (la_cleared sample_llama) [112] = Some [112]"
  by (simp_all add: sample_llama_def sample_config_def decode_prompt.simps)

lemma sample_answers: "msgs \<noteq> [] \<Longrightarrow> answers sample_llama sample_config msgs ''oo''"
  by (simp add: answers_def sample_reply sample_prompt)

lemma sample_pieces: "pieces_le sample_llama 15"
  by (simp add: pieces_le_def sample_llama_def)

lemma sample_size: "response_size sample_config = 64"
  by (simp add: response_size_def sample_config_def)

definition sess :: "bytes \<Rightarrow> kv_mem kvbfs_ctx" where
  "sess f = snd (file_overwrite mem_ops t1 sample 5 f)"

lemma sess_file:
  assumes "length f \<le> 4096"
  shows "sfile mem_ops DAList.lookup (sess f) 5 f" "\<not> mem_running (mem (sess f))"
proof -
  have s: "sfile mem_ops DAList.lookup sample 5 ''hello!''"
    using sample_is_file by (auto simp: sfile_def is_file_def)
  obtain c where "file_overwrite mem_ops t1 sample 5 f = (True, c)" "sfile mem_ops DAList.lookup c 5 f"
    "frame_file mem_ops DAList.lookup 5 sample c"
    using mem.file_overwrite_sfile [OF s, of f t1] assms by (auto simp: KVBFS_BLOCK_SIZE_def)
  then show "sfile mem_ops DAList.lookup (sess f) 5 f" "\<not> mem_running (mem (sess f))"
    by (simp_all add: sess_def frame_file_def mem_zero_def)
qed

section \<open>Properties\<close>

text \<open>
  C25. A generation comes to its end. Whatever the conversation and the model do (an error of the
  template, the tokenizer, the decoder or the compression included), the second step of a task
  returns, unless the model is one that can make a text longer than the buffer it is written to: such a
  run may be undefined in C. When it returns the file's generation is over, every poll handle that waited for
  it has been notified and then destroyed, once and in order, and the states of other files are as
  before.
\<close>

theorem session_wakes_waiters:
  "(\<exists>c'. session_finish L cf K env c ino t = Run c' \<and> gen_over (llm c') ino \<and>
      \<not> llm_gen_is_active (llm c') ino \<and>
      llm_calls (llm c') = llm_calls (llm c) @ concat (map (\<lambda>ph. [NotifyPoll ph, DestroyPoll ph]) (waiters (llm c) ino)) \<and>
      (\<forall>n. n \<noteq> ino \<longrightarrow> gen_state_find (llm c') n = gen_state_find (llm c) n)) \<or>
   session_finish L cf K env c ino t = Corrupt \<and> overflows L cf"
proof (cases "session_finish L cf K env c ino t")
  case (Run c')
  then show ?thesis using session_finish_llm [OF Run] llm_gen_finish_over by metis
qed (use session_finish_corrupt [of L cf K env c ino t] in simp)

theorem session_wakes_waiters_witness:
  "\<exists>c'. session_finish sample_llama sample_config mem_ops sample_env
     (sample\<lparr>llm := llm_gen_add_waiter (llm_gen_start llm_zero 5) 5 7\<rparr>) 5 ''User: hi'' = Run c' \<and>
     llm_calls (llm c') = [NotifyPoll 7, DestroyPoll 7]"
proof -
  have "waiters (llm_gen_add_waiter (llm_gen_start llm_zero 5) 5 7) 5 = [7]" "llm_calls (llm_gen_add_waiter (llm_gen_start llm_zero 5) 5 7) = []"
    by (simp_all add: waiters_def llm_gen_add_waiter_def llm_gen_start_def Let_def LLM_MAX_POLL_WAITERS_def
        llm_zero_def gen_state_find_def gen_state_set_def DAList.lookup_update DAList.lookup_empty)
  with session_wakes_waiters [of sample_llama sample_config mem_ops sample_env
      "sample\<lparr>llm := llm_gen_add_waiter (llm_gen_start llm_zero 5) 5 7\<rparr>" 5 "''User: hi''"]
    no_overflows [OF sample_pieces, of sample_config]
  show ?thesis by auto
qed

text \<open>
  C37. The bound of the response buffer. Once the prompt is decoded, the answer is written past the
  end of its buffer exactly when the text the model makes has more than 16 bytes for each token
  that is allowed, or exactly that many when the memory then terminates it with a NUL. Pieces of at
  most 16 bytes stay within the bytes; a piece may have up to 256.
\<close>

theorem generation_buffer_bound:
  assumes "parse_conversation t \<noteq> []" "la_template L (parse_conversation t) = Some prompt"
    and "la_tokenize L prompt (cf_n_ctx cf) = Some tokens" "decode_prompt L (la_cleared L) tokens = Some m"
  shows "(answer L cf K env c ino t = Corrupt \<longleftrightarrow>
      16 * cf_max_tokens cf < length (reply_of L cf m) \<or>
      16 * cf_max_tokens cf = length (reply_of L cf m) \<and> reply_of L cf m \<noteq> [] \<and> mem_running (mem c) \<and>
        last_user_msg (parse_conversation t) \<noteq> None) \<and>
    (pieces_le L 16 \<longrightarrow> length (reply_of L cf m) \<le> 16 * cf_max_tokens cf)"
  using answer_corrupt_iff [OF assms, of K env c ino]
    generated_length [of L 16 "cf_temperature cf" "cf_max_tokens cf" "[]" m]
  by (auto simp: response_size_def reply_of_def mult.commute)

text \<open>A model with pieces of 17 bytes that does not end.\<close>

definition wordy_llama :: "nat list llama" where
  "wordy_llama = sample_llama\<lparr>la_is_eog := \<lambda>t. False, la_piece := \<lambda>t. replicate 17 (CHR ''x'')\<rparr>"

theorem generation_buffer_bound_witness:
  "answer wordy_llama sample_config mem_ops sample_env sample 5 ''User: hi'' = Corrupt"
proof -
  have "length (generated wordy_llama temp n s m) = 17 * n" for temp n s m
    by (induction n arbitrary: s m) (simp_all add: wordy_llama_def sample_llama_def Let_def)
  then have r: "length (reply_of wordy_llama sample_config m) = 68" for m
    by (simp add: reply_of_def sample_config_def)
  have p: "parse_conversation ''User: hi'' \<noteq> []" by code_simp
  have "la_template wordy_llama x = Some ''p''" "la_tokenize wordy_llama ''p'' (cf_n_ctx sample_config) = Some [112]"
    "decode_prompt wordy_llama (la_cleared wordy_llama) [112] = Some [112]" for x
    by (simp_all add: wordy_llama_def sample_llama_def sample_config_def decode_prompt.simps)
  from generation_buffer_bound [OF p this, of mem_ops sample_env sample 5] r [of "[112]"] show ?thesis
    by (simp add: sample_config_def)
qed

text \<open>
  C26. A task answers an unanswered message: when the conversation of a session file ends in a
  message of the user and the model produces a text for it that fits its buffer, the file becomes
  the old file with a line \<^verbatim>\<open>Assistant:\<close> and the text, and the generation is over. With the
  memory off nothing else changes: other files, the entries and the counters are untouched. With
  the memory on, for a conversation that is short enough not to be compressed first, the message
  and the answer are also put into the memory's queue under the next two numbers of the file, whose
  counter is the only other key that is written.
\<close>

theorem session_answered:
  assumes "kv_store_live K contents" "sfile K contents c ino f" "needs_response f"
    and "mem_running (mem c) \<Longrightarrow> short_enough L cf f"
    and "answers L cf (parse_conversation f) r"
    and "length r \<le> response_size cf" "mem_running (mem c) \<Longrightarrow> length r < response_size cf"
    and "length f + length r + 2 * KVBFS_BLOCK_SIZE \<le> 18446744073709551616"
  shows "\<exists>c'. process_session L cf K env c ino = Run c' \<and> sfile K contents c' ino (f @ ''Assistant: '' @ r @ [newline]) \<and>
    frame_session K contents ino c c' \<and> \<not> llm_gen_is_active (llm c') ino \<and>
    mem c' = (if mem_running (mem c) then (mem c)\<lparr>mem_queue := mem_queue (mem c) @
      turn_tasks ino (read_u32 K (db c) (mem_key_seq ino)) (last_user_msg (parse_conversation f)) r\<rparr> else mem c)"
  using kv_store_live.process_session_answer [OF assms] by (simp add: answered_def)

lemma sample_needs: "needs_response (''User: hi'' @ [newline])" "parse_conversation (''User: hi'' @ [newline]) \<noteq> []"
  by code_simp+

theorem session_answered_witness:
  "\<exists>c'. process_session sample_llama sample_config mem_ops sample_env (sess (''User: hi'' @ [newline])) 5 = Run c' \<and>
     sfile mem_ops DAList.lookup c' 5 ((''User: hi'' @ [newline]) @ ''Assistant: '' @ ''oo'' @ [newline])"
proof -
  have f: "length (''User: hi'' @ [newline]) \<le> 4096"
    "length (''User: hi'' @ [newline]) + length ''oo'' + 2 * KVBFS_BLOCK_SIZE \<le> 18446744073709551616"
    by (simp_all add: KVBFS_BLOCK_SIZE_def)
  have r: "length ''oo'' \<le> response_size sample_config" "length ''oo'' < response_size sample_config"
    by (simp_all add: sample_size)
  from session_answered [OF mem.kv_store_live_axioms sess_file(1) [OF f(1)] sample_needs(1) _
      sample_answers [OF sample_needs(2)] r f(2), of sample_env] sess_file(2) [OF f(1)]
  show ?thesis by blast
qed

text \<open>
  C38. A message without a newline at the end of the file is answered on its own line: the answer
  is glued to the message. When the answer has one line, up to newlines at its end, the last line
  of the file still starts with \<^verbatim>\<open>User:\<close>, so the file counts as unanswered again, and every later
  release of it by a writer asks for one more answer; after an answer of several lines it does so
  exactly when the last of them starts with \<^verbatim>\<open>User:\<close>. (With the memory off, or on and for a
  conversation that is not compressed first.)
\<close>

theorem unterminated_message_stays_unanswered:
  assumes "kv_store_live K contents" "sfile K contents c ino f" "needs_response f"
    and "mem_running (mem c) \<Longrightarrow> short_enough L cf f"
    and "answers L cf (parse_conversation f) r"
    and "length r \<le> response_size cf" "mem_running (mem c) \<Longrightarrow> length r < response_size cf"
    and "length f + length r + 2 * KVBFS_BLOCK_SIZE \<le> 18446744073709551616"
    and "\<not> is_eol (last f)"
  shows "\<exists>c' f'. process_session L cf K env c ino = Run c' \<and> sfile K contents c' ino f' \<and>
    (needs_response f' \<longleftrightarrow> newline \<notin> set (trim_eol r) \<or> needs_response r)"
  using kv_store_live.process_session_answer [OF assms(1-8)] needs_response_answered [OF assms(3,9)] by blast

lemma sample_needs2: "needs_response ''User: hi''" "\<not> is_eol (last ''User: hi'')" "parse_conversation ''User: hi'' \<noteq> []"
  by code_simp+

theorem unterminated_message_stays_unanswered_witness:
  "\<exists>c' f'. process_session sample_llama sample_config mem_ops sample_env (sess ''User: hi'') 5 = Run c' \<and>
     sfile mem_ops DAList.lookup c' 5 f' \<and> needs_response f'"
proof -
  have f: "length ''User: hi'' \<le> 4096" "newline \<notin> set (trim_eol ''oo'')"
    "length ''User: hi'' + length ''oo'' + 2 * KVBFS_BLOCK_SIZE \<le> 18446744073709551616"
    by (simp_all add: KVBFS_BLOCK_SIZE_def trim_eol_def is_eol_def newline_def)
  have r: "length ''oo'' \<le> response_size sample_config" "length ''oo'' < response_size sample_config"
    by (simp_all add: sample_size)
  from unterminated_message_stays_unanswered [OF mem.kv_store_live_axioms sess_file(1) [OF f(1)] sample_needs2(1) _
      sample_answers [OF sample_needs2(3)] r f(3) sample_needs2(2), of sample_env] sess_file(2) [OF f(1)] f(2)
  show ?thesis by blast
qed

text \<open>
  C27. What a compression keeps and what it loses. The old messages (the first three fifths) are
  archived line by line under the file's next generation number and the summary is stored; the
  session file then holds the summary and, word for word, the recent messages. When the summary
  has no turn marker (\<^verbatim>\<open>User:\<close> or \<^verbatim>\<open>Assistant:\<close>), parsing the new file gives exactly the recent
  messages: the summary in front of them is skipped, so the model does not see it. (Nothing is
  claimed about the parse of a summary with a marker.)
\<close>

theorem compression_keeps_recent:
  assumes "kv_store_live K contents" "sfile K contents c ino f"
    and "try_compress_context L cf K env c ino t = Run (1, c')"
    and "length (concat (map msg_line (parse_conversation t))) + 3 * KVBFS_BLOCK_SIZE \<le> 18446744073709551616"
    and "msgs = parse_conversation t" "k = split_point (length msgs)" "gen = read_u32 K (db c) (mem_key_gen ino)"
  shows "0 < k \<and> k < length msgs \<and>
    (\<forall>i<k. contents (db c') (mem_key_archive ino gen i) = Some (msg_line (msgs ! i))) \<and>
    (\<exists>summary. contents (db c') (mem_key_summary ino gen) = Some summary \<and>
       sfile K contents c' ino (compressed_text summary (drop k msgs)) \<and>
       (no_marker (cstr summary) \<longrightarrow> parse_conversation (compressed_text summary (drop k msgs)) = drop k msgs))"
proof -
  have "list_all clean_msg (drop k msgs)"
    using parse_conversation_clean [of t] unfolding assms(5) by (auto simp: list_all_iff dest: in_set_dropD)
  with kv_store_live.try_compress_file [OF assms(1-6)] show ?thesis
    using parse_compressed unfolding assms(7) by blast
qed

definition long_text :: bytes where
  "long_text = ''User: a'' @ [newline] @ ''Assistant: b'' @ [newline] @ ''User: c'' @ [newline]"

lemma long_text_parse:
  "parse_conversation long_text = [\<lparr>cm_role = ''user'', cm_content = ''a''\<rparr>,
     \<lparr>cm_role = ''assistant'', cm_content = ''b''\<rparr>, \<lparr>cm_role = ''user'', cm_content = ''c''\<rparr>]"
  by code_simp

lemma sample_compress:
  "\<exists>c'. try_compress_context sample_llama sample_config mem_ops sample_env (sess long_text) 5 long_text = Run (1, c')"
proof -
  have z: "2 < summary_size" by (simp add: summary_size_def)
  then have "generate sample_llama (3 / 10) summary_size summary_tokens [] m [] = Run ''oo''" for m
    by (simp add: generate_summary sample_reply)
  with z have "llm_summarize sample_llama sample_config x = Run (Some ''oo'')" for x
    by (simp add: llm_summarize_def Let_def sample_prompt)
  moreover have "la_tokenize sample_llama long_text (cf_n_ctx sample_config) = None"
    by (simp add: sample_llama_def sample_config_def long_text_def)
  ultimately show ?thesis
    by (simp add: try_compress_context_def Let_def long_text_parse split_beta)
qed

theorem compression_keeps_recent_witness:
  "\<exists>c'. try_compress_context sample_llama sample_config mem_ops sample_env (sess long_text) 5 long_text = Run (1, c') \<and>
     DAList.lookup (db c') (mem_key_archive 5 (read_u32 mem_ops (db (sess long_text)) (mem_key_gen 5)) 0) =
       Some (''User: a'' @ [newline])"
proof -
  obtain c' where run: "try_compress_context sample_llama sample_config mem_ops sample_env (sess long_text) 5 long_text = Run (1, c')"
    using sample_compress by blast
  have f: "sfile mem_ops DAList.lookup (sess long_text) 5 long_text"
    by (rule sess_file(1)) (simp add: long_text_def)
  from compression_keeps_recent [OF mem.kv_store_live_axioms f run _ refl refl refl] run show ?thesis
    by (auto simp: long_text_parse msg_line_def KVBFS_BLOCK_SIZE_def)
qed

end
