(* ===== verification/Workers.thy ===== *)
theory Workers
  imports Compress
begin

text \<open>
  The two worker threads from the request to end to their end: \<^verbatim>\<open>mem_worker\<close> and
  \<^verbatim>\<open>mem_destroy\<close> of \<^verbatim>\<open>src/mem.c\<close>, \<^verbatim>\<open>llm_worker\<close> and \<^verbatim>\<open>llm_destroy\<close> of
  \<^verbatim>\<open>src/llm.c\<close>. A worker leaves its loop only when its queue is empty, so a shutdown first does
  everything that was asked for.
\<close>

section \<open>The memory thread\<close>

lemma mem_worker_step_queue:
  "mem_worker_step K env c = Some c' \<Longrightarrow> length (mem_queue (mem c')) < length (mem_queue (mem c))"
  by (auto simp: mem_worker_step_def split: list.splits)

function mem_worker :: "'s kv_ops \<Rightarrow> fs_env \<Rightarrow> 's kvbfs_ctx \<Rightarrow> 's kvbfs_ctx" where
  "mem_worker K env c =
     (case mem_worker_step K env c of
        None \<Rightarrow> c
      | Some c' \<Rightarrow> mem_worker K env c')"
  by pat_completeness auto
termination
  by (relation "measure (\<lambda>(K, env, c). length (mem_queue (mem c)))") (auto dest: mem_worker_step_queue)

declare mem_worker.simps [simp del]

definition mem_destroy :: "'s kv_ops \<Rightarrow> fs_env \<Rightarrow> 's kvbfs_ctx \<Rightarrow> 's kvbfs_ctx" where
  "mem_destroy K env c =
     (if \<not> mem_running (mem c) then c
      else
        let c1 = mem_worker K env (c\<lparr>mem := (mem c)\<lparr>mem_shutdown := True\<rparr>\<rparr>)
        in c1\<lparr>mem := (mem c1)\<lparr>mem_running := False, mem_queue := []\<rparr>\<rparr>)"

section \<open>The inference thread\<close>

lemma session_begin_queue: "llm_queue (llm (snd (session_begin K c n))) = llm_queue (llm c)"
  using file_read_all_llm(1) [of K c n]
  by (auto simp: session_begin_def llm_gen_start_def Let_def split: prod.splits option.splits)

lemma process_session_queue:
  assumes "process_session L cf K env c n = Run c'"
  shows "llm_queue (llm c') = llm_queue (llm c)"
proof -
  obtain t c1 where b: "session_begin K c n = (t, c1)" by fastforce
  show ?thesis
    using assms session_begin_queue [of K c n] session_finish_llm [of L cf K env c1 n _ c'] llm_gen_finish_over(5)
    by (auto simp: process_session_def b split: option.splits)
qed

definition llm_take :: "'s kvbfs_ctx \<Rightarrow> 's kvbfs_ctx" where
  "llm_take c = c\<lparr>llm := (llm c)\<lparr>llm_queue := tl (llm_queue (llm c))\<rparr>\<rparr>"

function llm_worker ::
  "'m llama \<Rightarrow> llm_config \<Rightarrow> 's kv_ops \<Rightarrow> fs_env \<Rightarrow> 's kvbfs_ctx \<Rightarrow> 's kvbfs_ctx llm_run" where
  "llm_worker L cf K env c =
     (case llm_queue (llm c) of
        [] \<Rightarrow> Run c
      | ino # q \<Rightarrow>
          (case process_session L cf K env (llm_take c) ino of
             Corrupt \<Rightarrow> Corrupt
           | Run c' \<Rightarrow> llm_worker L cf K env c'))"
  by pat_completeness auto
termination
  by (relation "measure (\<lambda>(L, cf, K, env, c). length (llm_queue (llm c)))")
    (auto simp: llm_take_def dest: process_session_queue)

declare llm_worker.simps [simp del]

definition llm_destroy ::
  "'m llama \<Rightarrow> llm_config \<Rightarrow> 's kv_ops \<Rightarrow> fs_env \<Rightarrow> 's kvbfs_ctx \<Rightarrow> 's kvbfs_ctx llm_run" where
  "llm_destroy L cf K env c =
     (if \<not> llm_running (llm c) then Run c
      else case llm_worker L cf K env (c\<lparr>llm := (llm c)\<lparr>llm_shutdown := True\<rparr>\<rparr>) of
             Corrupt \<Rightarrow> Corrupt
           | Run c1 \<Rightarrow>
               let l = (llm c1)\<lparr>llm_running := False, llm_queue := []\<rparr>
               in Run (c1\<lparr>llm := llm_gen_destroy l\<rparr>))"

section \<open>Everything is done\<close>

lemma process_session_corrupt: "process_session L cf K env c n = Corrupt \<Longrightarrow> overflows L cf"
  using session_finish_corrupt [of L cf K env] by (auto simp: process_session_def Let_def split: prod.splits option.splits)

text \<open>The inference thread empties its queue, or a text of the model overran its buffer.\<close>

lemma llm_worker_run:
  "(\<exists>c'. llm_worker L cf K env c = Run c' \<and> llm_queue (llm c') = []) \<or> llm_worker L cf K env c = Corrupt \<and> overflows L cf"
proof (induction "length (llm_queue (llm c))" arbitrary: c)
  case 0
  then show ?case by (simp add: llm_worker.simps)
next
  case (Suc n)
  then obtain ino q where q: "llm_queue (llm c) = ino # q" by (cases "llm_queue (llm c)") auto
  show ?case
  proof (cases "process_session L cf K env (llm_take c) ino")
    case Corrupt
    then show ?thesis using process_session_corrupt [OF Corrupt] by (simp add: llm_worker.simps [of L cf K env c] q)
  next
    case (Run c1)
    have "n = length (llm_queue (llm c1))"
      using process_session_queue [OF Run] q Suc.hyps(2) by (simp add: llm_take_def)
    from Suc.hyps(1) [OF this] show ?thesis by (simp add: llm_worker.simps [of L cf K env c] q Run)
  qed
qed

lemma llm_destroy_run:
  "(\<exists>c'. llm_destroy L cf K env c = Run c') \<or> llm_running (llm c) \<and> llm_destroy L cf K env c = Corrupt \<and> overflows L cf"
  using llm_worker_run [of L cf K env "c\<lparr>llm := (llm c)\<lparr>llm_shutdown := True\<rparr>\<rparr>"]
  by (auto simp: llm_destroy_def Let_def)

text \<open>What the store holds for an embedded text.\<close>

definition task_stored :: "fs_env \<Rightarrow> mem_task \<Rightarrow> (string \<Rightarrow> bytes option) \<Rightarrow> bool" where
  "task_stored env t M \<longleftrightarrow>
     (case mem_embed_text env (mt_text t) of
        None \<Rightarrow> True
      | Some vec \<Rightarrow>
          M (mem_key_vec (mt_ino t) (mt_seq t)) = Some (e_float_bytes env vec) \<and>
          M (mem_key_text (mt_ino t) (mt_seq t)) = Some (mt_text t) \<and>
          M (mem_key_header (mt_ino t) (mt_seq t)) = Some (mem_header_bytes t (e_now env)))"

definition task_keys :: "mem_task \<Rightarrow> key set" where
  "task_keys t = {KMemVec (mt_ino t) (mt_seq t), KMemText (mt_ino t) (mt_seq t), KMemHeader (mt_ino t) (mt_seq t)}"

lemma task_key_encode:
  "mem_key_vec i q = encode (KMemVec i q)" "mem_key_text i q = encode (KMemText i q)" "mem_key_header i q = encode (KMemHeader i q)"
  by (simp_all add: encode.simps)

lemma task_stored_cong:
  "(\<And>k. k \<in> task_keys t \<Longrightarrow> M (encode k) = M' (encode k)) \<Longrightarrow> task_stored env t M = task_stored env t M'"
  by (simp add: task_stored_def task_keys_def task_key_encode split: option.splits)

lemma task_keys_disjoint:
  "(mt_ino t, mt_seq t) \<noteq> (mt_ino u, mt_seq u) \<Longrightarrow> k \<in> task_keys t \<Longrightarrow> k \<notin> task_keys u"
  by (auto simp: task_keys_def)

context kv_store_live
begin

lemma store_embedding:
  "task_stored env t (contents (snd (mem_store_embedding K env s t)))"
  "k \<notin> task_keys t \<Longrightarrow> contents (snd (mem_store_embedding K env s t)) (encode k) = contents s (encode k)"
  by (auto simp: task_stored_def mem_store_embedding_def task_key_encode task_keys_def Let_def split: option.splits)

lemma mem_worker_stores:
  assumes "distinct (map (\<lambda>t. (mt_ino t, mt_seq t)) (mem_queue (mem c)))"
  shows "mem_queue (mem (mem_worker K env c)) = [] \<and> llm (mem_worker K env c) = llm c \<and>
    (\<forall>t\<in>set (mem_queue (mem c)). task_stored env t (contents (db (mem_worker K env c)))) \<and>
    (\<forall>k. (\<forall>t\<in>set (mem_queue (mem c)). k \<notin> task_keys t) \<longrightarrow>
       contents (db (mem_worker K env c)) (encode k) = contents (db c) (encode k))"
  using assms
proof (induction "mem_queue (mem c)" arbitrary: c)
  case Nil
  then have "mem_worker_step K env c = None" by (simp add: mem_worker_step_def)
  with Nil show ?case by (simp add: mem_worker.simps [of K env c])
next
  case (Cons t ts)
  let ?c1 = "c\<lparr>mem := (mem c)\<lparr>mem_queue := ts\<rparr>, db := snd (mem_store_embedding K env (db c) t)\<rparr>"
  have "mem_worker_step K env c = Some ?c1" by (simp add: mem_worker_step_def Cons.hyps(2) [symmetric])
  then have w: "mem_worker K env c = mem_worker K env ?c1" by (simp add: mem_worker.simps [of K env c])
  have d: "distinct (map (\<lambda>t. (mt_ino t, mt_seq t)) (t # ts))" using Cons.prems by (simp only: Cons.hyps(2))
  have ih: "mem_queue (mem (mem_worker K env ?c1)) = [] \<and> llm (mem_worker K env ?c1) = llm c \<and>
      (\<forall>u\<in>set ts. task_stored env u (contents (db (mem_worker K env ?c1)))) \<and>
      (\<forall>k. (\<forall>u\<in>set ts. k \<notin> task_keys u) \<longrightarrow>
         contents (db (mem_worker K env ?c1)) (encode k) = contents (db ?c1) (encode k))"
    using Cons.hyps(1) [of ?c1] d by simp
  have "k \<in> task_keys t \<Longrightarrow> \<forall>u\<in>set ts. k \<notin> task_keys u" for k
    using d task_keys_disjoint [of t] by force
  then have "task_stored env t (contents (db (mem_worker K env ?c1))) = task_stored env t (contents (db ?c1))"
    using ih by (intro task_stored_cong) blast
  then have "task_stored env t (contents (db (mem_worker K env ?c1)))" using store_embedding(1) by simp
  with ih store_embedding(2) show ?case unfolding w Cons.hyps(2) [symmetric] by simp
qed

lemma shutdown_all:
  assumes "mem_running (mem c)" "llm_running (llm c)"
    and "distinct (map (\<lambda>t. (mt_ino t, mt_seq t)) (mem_queue (mem c)))"
  shows "((\<exists>c'. llm_destroy L cf K env (mem_destroy K env c) = Run c' \<and> llm_queue (llm c') = [] \<and>
      \<not> llm_running (llm c') \<and> llm_gen_states (llm c') = DAList.empty) \<or>
     llm_destroy L cf K env (mem_destroy K env c) = Corrupt \<and> overflows L cf) \<and>
    mem_queue (mem (mem_destroy K env c)) = [] \<and> \<not> mem_running (mem (mem_destroy K env c)) \<and>
    (\<forall>t\<in>set (mem_queue (mem c)). task_stored env t (contents (db (mem_destroy K env c))))"
proof -
  note w = mem_worker_stores [of "c\<lparr>mem := (mem c)\<lparr>mem_shutdown := True\<rparr>\<rparr>" env]
  have m: "mem_queue (mem (mem_destroy K env c)) = []" "\<not> mem_running (mem (mem_destroy K env c))"
    "llm (mem_destroy K env c) = llm c"
    "\<forall>t\<in>set (mem_queue (mem c)). task_stored env t (contents (db (mem_destroy K env c)))"
    using w assms(1,3) by (simp_all add: mem_destroy_def Let_def)
  then show ?thesis
    using llm_worker_run [of L cf K env "(mem_destroy K env c)\<lparr>llm := (llm c)\<lparr>llm_shutdown := True\<rparr>\<rparr>"] assms(2)
    by (auto simp: llm_destroy_def Let_def llm_gen_destroy_def)
qed

end

section \<open>Property\<close>

text \<open>
  A shutdown loses no work. Ending the memory thread and then the inference thread: both queues are
  empty, both threads have ended, no generation state is left, and for every text that was still
  queued the vector, the text and the header are in the store, unless the model gave no vector for
  it. (The inference thread may not get to its end when a text of the model overruns its buffer.)
\<close>

theorem shutdown_loses_no_work:
  assumes "kv_store_live K contents" "mem_running (mem c)" "llm_running (llm c)"
    and "distinct (map (\<lambda>t. (mt_ino t, mt_seq t)) (mem_queue (mem c)))"
  shows "((\<exists>c'. llm_destroy L cf K env (mem_destroy K env c) = Run c' \<and> llm_queue (llm c') = [] \<and>
      \<not> llm_running (llm c') \<and> llm_gen_states (llm c') = DAList.empty) \<or>
     llm_destroy L cf K env (mem_destroy K env c) = Corrupt \<and> overflows L cf) \<and>
    mem_queue (mem (mem_destroy K env c)) = [] \<and> \<not> mem_running (mem (mem_destroy K env c)) \<and>
    (\<forall>t\<in>set (mem_queue (mem c)). task_stored env t (contents (db (mem_destroy K env c))))"
  by (rule kv_store_live.shutdown_all [OF assms])

definition busy :: "kv_mem kvbfs_ctx" where
  "busy = (sess ''User: hi'')\<lparr>
     mem := \<lparr>mem_running = True, mem_shutdown = False,
             mem_queue = [\<lparr>mt_ino = 5, mt_seq = 0, mt_text = ''a'', mt_role = None\<rparr>,
                          \<lparr>mt_ino = 5, mt_seq = 1, mt_text = ''b'', mt_role = None\<rparr>]\<rparr>,
     llm := llm_zero\<lparr>llm_running := True, llm_queue := [5, 9]\<rparr>\<rparr>"

theorem shutdown_loses_no_work_witness:
  "DAList.lookup (db (mem_destroy mem_ops (sample_env\<lparr>e_encode := \<lambda>t. Some [1]\<rparr>) busy)) (mem_key_text 5 1) = Some ''b''"
proof -
  let ?env = "sample_env\<lparr>e_encode := \<lambda>t. Some [1]\<rparr>"
  have "mem_running (mem busy)" "llm_running (llm busy)"
    "distinct (map (\<lambda>t. (mt_ino t, mt_seq t)) (mem_queue (mem busy)))"
    by (simp_all add: busy_def)
  from shutdown_loses_no_work [OF mem.kv_store_live_axioms this, of sample_llama sample_config ?env]
  show ?thesis by (auto simp: busy_def task_stored_def mem_embed_text_def Let_def)
qed

end
