(* ===== verification/Typed.thy ===== *)
theory Typed
  imports Mount Workers Search
begin

text \<open>
  The types of stored values. Most readers of the store take a value only when it has the size of
  what they expect. Every function of the program that writes keeps every value at the size its
  readers check, whether the backend accepts a write or refuses it.
\<close>

declare encode.simps [simp del]

section \<open>Typed stores\<close>

definition SIZEOF_MEM_HEADER :: nat where "SIZEOF_MEM_HEADER = 48"

text \<open>The size of a value by its key, for an embedding model with vectors of \<open>d\<close> floats of 4 bytes.\<close>

fun value_ok :: "nat \<Rightarrow> key \<Rightarrow> bytes \<Rightarrow> bool" where
  "value_ok d KSuper v \<longleftrightarrow> length v = SIZEOF_SUPER"
| "value_ok d (KInode n) v \<longleftrightarrow> length v = SIZEOF_INODE"
| "value_ok d (KDirent p name) v \<longleftrightarrow> length v = SIZEOF_U64"
| "value_ok d (KVerCounter n) v \<longleftrightarrow> length v = SIZEOF_U64"
| "value_ok d (KVerMeta n ver) v \<longleftrightarrow> length v = SIZEOF_VERSION_META"
| "value_ok d (KMemSeq n) v \<longleftrightarrow> length v = SIZEOF_U32"
| "value_ok d (KMemGen n) v \<longleftrightarrow> length v = SIZEOF_U32"
| "value_ok d (KMemHeader n seq) v \<longleftrightarrow> length v = SIZEOF_MEM_HEADER"
| "value_ok d (KMemVec n seq) v \<longleftrightarrow> length v = d * 4"
| "value_ok d (KMemSummaryVec n gen) v \<longleftrightarrow> length v = d * 4"
| "value_ok d k v \<longleftrightarrow> True"

definition typed :: "nat \<Rightarrow> (string \<Rightarrow> bytes option) \<Rightarrow> bool" where
  "typed d M \<longleftrightarrow> (\<forall>k v. M (encode k) = Some v \<longrightarrow> value_ok d k v)"

named_theorems typed

lemma typed_upd [typed]: "typed d M \<Longrightarrow> value_ok d k v \<Longrightarrow> typed d (M(encode k \<mapsto> v))"
  by (simp add: typed_def)

lemma typed_del [typed]: "typed d M \<Longrightarrow> typed d (M(k := None))"
  by (simp add: typed_def)

lemma length_mem_header [simp]: "length (mem_header_bytes t now) = SIZEOF_MEM_HEADER"
  by (simp add: mem_header_bytes_def FLOAT_ONE_def Let_def SIZEOF_MEM_HEADER_def zeros_def)

text \<open>
  The model gives vectors of its dimension, and a float has 4 bytes in memory. (A mount with a model
  of another dimension is a run of its own.)
\<close>

definition embeds :: "nat \<Rightarrow> fs_env \<Rightarrow> bool" where
  "embeds d env \<longleftrightarrow> e_n_embd env = d \<and> (\<forall>t v. e_encode env t = Some v \<longrightarrow> length v = d) \<and>
     (\<forall>v. length v = d \<longrightarrow> length (e_float_bytes env v) = d * 4)"

lemma embed_length: "embeds d env \<Longrightarrow> mem_embed_text env t = Some v \<Longrightarrow> length (e_float_bytes env v) = d * 4"
  by (auto simp: embeds_def mem_embed_text_def Let_def split: if_splits option.splits)

text \<open>Getting an inode does not touch the store.\<close>

lemma inode_get_db: "inode_get K c n = Some c' \<Longrightarrow> db c' = db c"
  by (auto simp: inode_get_def split: option.splits)

lemma get_c_db [simp]: "view K c n \<noteq> None \<Longrightarrow> db (get_c K c n) = db c"
  using inode_get_db [of K c n "get_c K c n"] by (auto simp: inode_get_view)

context kv_store
begin

lemma typed_put [typed]: "typed d (contents s) \<Longrightarrow> value_ok d k v \<Longrightarrow> typed d (contents (snd (kv_put K s (encode k) v)))"
  by (cases rule: put_cases [of s "encode k" v]) (simp_all add: typed_upd)

lemma typed_delete [typed]: "typed d (contents s) \<Longrightarrow> typed d (contents (snd (kv_delete K s k)))"
  by (cases rule: delete_cases [of s k]) (simp_all add: typed_del)

lemma typed_delete_keys [typed]: "typed d (contents s) \<Longrightarrow> typed d (contents (kv_delete_keys K s ks))"
  by (induction ks arbitrary: s) (simp_all add: typed)

lemma typed_delete_prefix [typed]: "typed d (contents s) \<Longrightarrow> typed d (contents (kv_delete_prefix K s p))"
  by (simp add: kv_delete_prefix_def typed)

text \<open>The superblock and the inodes.\<close>

lemma typed_super_save [typed]: "typed d (contents (db c)) \<Longrightarrow> typed d (contents (db (snd (super_save K c))))"
  by (simp add: super_save_def split_def Let_def super_key_encode typed)

lemma typed_inode_save [typed]: "typed d (contents s) \<Longrightarrow> typed d (contents (snd (inode_save K s i)))"
  by (simp add: inode_save_def inode_key_encode typed)

lemma typed_create_root [typed]: "typed d (contents (db c)) \<Longrightarrow> typed d (contents (db (snd (super_create_root K now c))))"
  by (simp add: super_create_root_def split_def Let_def inode_key_encode typed)

lemma typed_super_load: "typed d (contents (db c)) \<Longrightarrow> typed d (contents (db (snd (super_load K now c))))"
  by (simp add: super_load_def split_def Let_def typed split: option.split)

lemma typed_inode_create [typed]: "typed d (contents (db c)) \<Longrightarrow> typed d (contents (db (snd (inode_create K now c mode))))"
  by (simp add: inode_create_def inode_alloc_def inode_alloc_bump_def split_def Let_def typed)

lemma typed_inode_delete [typed]: "typed d (contents (db c)) \<Longrightarrow> typed d (contents (db (snd (inode_delete K c n))))"
  by (simp add: inode_delete_def split_def Let_def typed)

lemma typed_inode_sync [typed]: "typed d (contents (db c)) \<Longrightarrow> typed d (contents (db (snd (inode_sync K c n))))"
  by (simp add: inode_sync_def split_def Let_def typed split: option.split)

lemma typed_sync_list [typed]: "typed d (contents (db c)) \<Longrightarrow> typed d (contents (db (snd (sync_list K c ns))))"
  by (induction ns arbitrary: c) (simp_all add: split_def Let_def typed)

lemma typed_sync_all [typed]: "typed d (contents (db c)) \<Longrightarrow> typed d (contents (db (snd (inode_sync_all K c))))"
  by (simp add: inode_sync_all_def Let_def typed)

lemma typed_adjust_nlink [typed]: "typed d (contents (db c)) \<Longrightarrow> typed d (contents (db (adjust_nlink K c n f)))"
  by (auto simp: adjust_nlink_def split_def Let_def typed inode_get_db split: option.split)

text \<open>Entries, attributes, versions, embeddings and blocks.\<close>

lemma typed_dirent_add [typed]: "typed d (contents (db c)) \<Longrightarrow> typed d (contents (db (snd (dirent_add K c p name n))))"
  by (simp add: dirent_add_def key_dirent_encode split_def Let_def typed SIZEOF_U64_def)

lemma typed_dirent_remove [typed]: "typed d (contents (db c)) \<Longrightarrow> typed d (contents (db (snd (dirent_remove K c p name))))"
  by (simp add: dirent_remove_def split_def Let_def typed split: option.split)

lemma typed_delete_file_blocks [typed]: "typed d (contents s) \<Longrightarrow> typed d (contents (delete_file_blocks K s n b))"
  by (simp add: delete_file_blocks_def typed)

lemma typed_mem_delete [typed]: "typed d (contents s) \<Longrightarrow> typed d (contents (mem_delete_embeddings K s n))"
  by (simp add: mem_delete_embeddings_def Let_def typed)

lemma typed_version_delete_one [typed]: "typed d (contents s) \<Longrightarrow> typed d (contents (version_delete_one K s n v))"
  by (simp add: version_delete_one_def typed)

lemma typed_version_delete_all [typed]: "typed d (contents s) \<Longrightarrow> typed d (contents (version_delete_all K s n))"
proof -
  have "typed d (contents s) \<Longrightarrow> typed d (contents (fold (\<lambda>v s. version_delete_one K s n v) vs s))" for vs s
    by (induction vs arbitrary: s) (simp_all add: typed)
  then show "typed d (contents s) \<Longrightarrow> typed d (contents (version_delete_all K s n))"
    by (simp add: version_delete_all_def Let_def typed)
qed

lemma typed_purge [typed]: "typed d (contents (db c)) \<Longrightarrow> typed d (contents (db (purge_inode K c n)))"
  by (simp add: purge_inode_def xattr_delete_all_def Let_def typed)

lemma typed_block [typed]: "typed d (contents s) \<Longrightarrow> typed d (contents (snd (kv_put K s (kvbfs_key_block n b) v)))"
  unfolding version_keys_encode by (simp add: typed)

lemma typed_write_blocks [typed]: "typed d (contents s) \<Longrightarrow> typed d (contents (snd (write_blocks K s n b off data)))"
proof (induction "length data" arbitrary: s b off data rule: less_induct)
  case less
  show ?case
  proof (cases "data = [] \<or> KVBFS_BLOCK_SIZE \<le> off")
    case True
    with less.prems show ?thesis by (simp add: write_blocks.simps)
  next
    case False
    let ?m = "min (KVBFS_BLOCK_SIZE - off) (length data)" and ?key = "kvbfs_key_block n b"
    obtain okay s1 where p: "kv_put K s ?key (write_block (kv_get K s ?key) off (take ?m data)) = (okay, s1)" by fastforce
    then have "typed d (contents s1)" using typed_block [OF less.prems, of n b] by (metis snd_conv)
    moreover have "length (drop ?m data) < length data" using False by (simp add: KVBFS_BLOCK_SIZE_def)
    ultimately show ?thesis using less.hyps [of "drop ?m data" s1 "b + 1" 0] False p
      by (simp add: write_blocks.simps [of K s n b off data] Let_def)
  qed
qed

lemma typed_truncate [typed]: "typed d (contents s) \<Longrightarrow> typed d (contents (truncate_blocks K s n old new))"
  by (simp add: truncate_blocks_def zero_tail_def Let_def typed split: option.split)

lemma typed_set_size [typed]: "typed d (contents (db c)) \<Longrightarrow> typed d (contents (db (set_size_step K c n sz)))"
  by (simp add: set_size_step_def Let_def typed)

lemma typed_version_copy [typed]: "typed d (contents s) \<Longrightarrow> typed d (contents (version_copy K s n v bs))"
  by (induction bs arbitrary: s) (simp_all add: version_keys_encode typed split: option.split)

lemma typed_snapshot [typed]: "typed d (contents (db c)) \<Longrightarrow> typed d (contents (db (snd (version_snapshot K c n))))"
  by (auto simp: version_snapshot_def version_set_counter_def version_keys_encode Let_def typed sizeof_defs inode_get_db
      split: option.split)

lemma mem_keys_encode:
  "mem_key_seq n = encode (KMemSeq n)" "mem_key_gen n = encode (KMemGen n)" "mem_key_vec n q = encode (KMemVec n q)"
  "mem_key_text n q = encode (KMemText n q)" "mem_key_header n q = encode (KMemHeader n q)"
  "mem_key_archive n g i = encode (KMemArchive n g i)" "mem_key_summary n g = encode (KMemSummary n g)"
  "mem_key_summary_vec n g = encode (KMemSummaryVec n g)"
  by (simp_all add: encode.simps)

lemma typed_next [typed]:
  "typed d (contents s) \<Longrightarrow> typed d (contents (snd (mem_next_seq K s n)))"
  "typed d (contents s) \<Longrightarrow> typed d (contents (snd (mem_next_gen K s n)))"
  by (simp_all add: mem_next_seq_def mem_next_gen_def Let_def mem_keys_encode typed SIZEOF_U32_def)

lemma typed_memorize [typed]: "typed d (contents (db c)) \<Longrightarrow> typed d (contents (db (snd (mem_memorize K c n t r))))"
  by (simp add: mem_memorize_def Let_def split_def typed)

lemma typed_memorize_all [typed]: "typed d (contents (db c)) \<Longrightarrow> typed d (contents (db (memorize_all K c n ts)))"
  unfolding memorize_all_def by (induction ts arbitrary: c) (simp_all add: typed)

lemma typed_index_file [typed]: "typed d (contents (db c)) \<Longrightarrow> typed d (contents (db (snd (mem_index_file K c n))))"
  by (auto simp: mem_index_file_def Let_def typed inode_get_db split: option.split)

lemma typed_store_embedding:
  "embeds d env \<Longrightarrow> typed d (contents s) \<Longrightarrow> typed d (contents (snd (mem_store_embedding K env s t)))"
  by (simp add: mem_store_embedding_def Let_def mem_keys_encode typed embed_length split: option.split)

lemma typed_worker_step:
  "embeds d env \<Longrightarrow> typed d (contents (db c)) \<Longrightarrow> mem_worker_step K env c = Some c' \<Longrightarrow> typed d (contents (db c'))"
  by (auto simp: mem_worker_step_def typed_store_embedding split: list.splits)

text \<open>The inference thread.\<close>

lemma typed_read_all [typed]: "typed d (contents (db c)) \<Longrightarrow> typed d (contents (db (snd (file_read_all K c n))))"
  by (auto simp: file_read_all_def Let_def inode_get_db split: option.split)

lemma typed_append [typed]: "typed d (contents (db c)) \<Longrightarrow> typed d (contents (db (snd (file_append K now c n data))))"
  by (auto simp: file_append_def Let_def split_def typed inode_get_db split: option.split)

lemma typed_overwrite [typed]: "typed d (contents (db c)) \<Longrightarrow> typed d (contents (db (snd (file_overwrite K now c n data))))"
  by (auto simp: file_overwrite_def Let_def split_def typed inode_get_db split: option.split)

lemma typed_archive [typed]: "typed d (contents s) \<Longrightarrow> typed d (contents (archive_msgs K s n g i ms))"
  by (induction ms arbitrary: s i) (simp_all add: mem_keys_encode typed)

lemma typed_compress:
  assumes "embeds d env" "typed d (contents (db c))" "try_compress_context L cf K env c n content = Run (r, c')"
  shows "typed d (contents (db c'))"
  using assms
  by (auto simp: try_compress_context_def Let_def split_def typed mem_keys_encode embed_length split: llm_run.splits option.splits if_splits)

lemma typed_answer:
  assumes "typed d (contents (db c))" "answer L cf K env c n content = Run c'"
  shows "typed d (contents (db c'))"
  using assms
  by (auto simp: answer_def memorize_turn_def append_answer_def gen_finish_def Let_def typed
      split: llm_run.splits option.splits if_splits)

lemma typed_begin [typed]: "typed d (contents (db c)) \<Longrightarrow> typed d (contents (db (snd (session_begin K c n))))"
  by (simp add: session_begin_def Let_def split_def typed split: option.split)

lemma typed_finish:
  assumes "typed d (contents (db c))" "session_finish L cf K env c n content = Run c'" "embeds d env"
  shows "typed d (contents (db c'))"
proof (cases "mem_running (mem c)")
  case False
  with assms(2) show ?thesis by (intro typed_answer [OF assms(1)]) (simp add: session_finish_def)
next
  case True
  show ?thesis
  proof (cases "try_compress_context L cf K env c n content")
    case Corrupt
    with True assms(2) show ?thesis by (simp add: session_finish_def)
  next
    case (Run x)
    obtain r c1 where x: "x = (r, c1)" by fastforce
    obtain t c2 where f: "file_read_all K c1 n = (t, c2)" by fastforce
    have c1: "typed d (contents (db c1))" using typed_compress [OF assms(3,1)] Run x by simp
    then have "typed d (contents (db c2))" using typed_read_all [where c = c1 and n = n] f by simp
    have fin: "session_finish L cf K env c n content =
        (if r \<le> 0 then answer L cf K env c1 n content
         else case t of None \<Rightarrow> Run (gen_finish c2 n)
           | Some u \<Rightarrow> if \<not> needs_response u then Run (gen_finish c2 n) else answer L cf K env c2 n u)"
      using True Run x f by (simp add: session_finish_def)
    consider "answer L cf K env c1 n content = Run c'" | u where "answer L cf K env c2 n u = Run c'"
      | "Run (gen_finish c2 n) = Run c'"
      using assms(2) unfolding fin by (cases "r \<le> 0"; cases t; cases "needs_response (the t)") simp_all
    then show ?thesis
    proof cases
      case 3
      then show ?thesis using \<open>typed d (contents (db c2))\<close> by (auto simp: gen_finish_def)
    qed (use c1 \<open>typed d (contents (db c2))\<close> typed_answer in blast)+
  qed
qed

text \<open>The handlers.\<close>

lemma lookup_virtual_db: "db (snd (lookup_virtual K env c p name)) = db c"
proof -
  have "db (snd (if b then f else g)) = db c" if "db (snd f) = db c" "db (snd g) = db c"
    for b and f g :: "reply \<times> 's kvbfs_ctx"
    using that by simp
  note if_db = this
  show ?thesis
    unfolding lookup_virtual_def Let_def split_def
    by (cases "if p = AGENTFS_VERSIONS_INO then Some KVBFS_ROOT_INO else map_option vn_real_ino (vtree_get (vtree c) p)")
      (simp_all only: option.case, (rule if_db | simp)+)
qed

lemma typed_lookup: "typed d (contents (db c)) \<Longrightarrow> typed d (contents (db (snd (kvbfs_lookup K env c p name))))"
  by (simp add: kvbfs_lookup_def lookup_virtual_db Let_def inode_get_view)

lemma typed_getattr: "typed d (contents (db c)) \<Longrightarrow> typed d (contents (db (snd (kvbfs_getattr K env c n))))"
  by (auto simp: kvbfs_getattr_def Let_def inode_get_db split: option.split)

lemma typed_setattr: "typed d (contents (db c)) \<Longrightarrow> typed d (contents (db (snd (kvbfs_setattr K env c n attr flags))))"
  by (auto simp: kvbfs_setattr_def ic_modify_if_def Let_def split_def typed inode_get_db split: option.split)

lemma typed_dirs:
  "typed d (contents (db c)) \<Longrightarrow> typed d (contents (db (snd (kvbfs_opendir K c n))))"
  "typed d (contents (db c)) \<Longrightarrow> typed d (contents (db (snd (kvbfs_readdir K env c n sz off))))"
  by (auto simp: kvbfs_opendir_def kvbfs_readdir_def Let_def split_def inode_get_db split: option.split)

lemma typed_mkdir: "typed d (contents (db c)) \<Longrightarrow> typed d (contents (db (snd (kvbfs_mkdir K env c p name mode))))"
  by (auto simp: kvbfs_mkdir_def Let_def split_def typed inode_get_db split: option.split)

lemma typed_create: "typed d (contents (db c)) \<Longrightarrow> typed d (contents (db (snd (kvbfs_create K env c p name mode))))"
  by (auto simp: kvbfs_create_def Let_def split_def typed inode_get_db split: option.split)

lemma typed_symlink: "typed d (contents (db c)) \<Longrightarrow> typed d (contents (db (snd (kvbfs_symlink K env c target p name))))"
  by (auto simp: kvbfs_symlink_def Let_def split_def typed inode_get_db split: option.split)

lemma typed_readlink: "typed d (contents (db c)) \<Longrightarrow> typed d (contents (db (snd (kvbfs_readlink K c n))))"
  by (auto simp: kvbfs_readlink_def Let_def inode_get_db split: option.split)

lemma typed_link: "typed d (contents (db c)) \<Longrightarrow> typed d (contents (db (snd (kvbfs_link K env c n p name))))"
  by (auto simp: kvbfs_link_def Let_def split_def typed inode_get_db split: option.split)

lemma typed_rmdir: "typed d (contents (db c)) \<Longrightarrow> typed d (contents (db (snd (kvbfs_rmdir K env c p name))))"
  by (auto simp: kvbfs_rmdir_def Let_def split_def typed inode_get_db split: option.split)

lemma typed_unlink: "typed d (contents (db c)) \<Longrightarrow> typed d (contents (db (snd (kvbfs_unlink K env c p name))))"
  by (auto simp: kvbfs_unlink_def Let_def split_def typed inode_get_db split: option.split)

lemma typed_replace [typed]: "typed d (contents (db c)) \<Longrightarrow> typed d (contents (db (snd (rename_replace K c p name n))))"
  by (auto simp: rename_replace_def Let_def split_def typed inode_get_db split: option.split)

lemma typed_move [typed]: "typed d (contents (db c)) \<Longrightarrow> typed d (contents (db (snd (rename_move K env c n p name q name'))))"
  by (auto simp: rename_move_def Let_def split_def typed inode_get_db split: option.split)

lemma typed_rename: "typed d (contents (db c)) \<Longrightarrow> typed d (contents (db (snd (kvbfs_rename K env c p name q name'))))"
  by (simp add: kvbfs_rename_def Let_def split_def typed)

lemma typed_open: "typed d (contents (db c)) \<Longrightarrow> typed d (contents (db (snd (kvbfs_open K env c n flags))))"
  by (auto simp: kvbfs_open_def Let_def split_def typed inode_get_db split: option.split)

lemma typed_release: "typed d (contents (db c)) \<Longrightarrow> typed d (contents (db (snd (kvbfs_release K env c n flags fh))))"
  by (auto simp: kvbfs_release_def Let_def typed split: option.split)

lemma typed_read: "typed d (contents (db c)) \<Longrightarrow> typed d (contents (db (snd (snd (kvbfs_read K env c n sz off fh)))))"
  by (auto simp: kvbfs_read_def Let_def split_def inode_get_db split: option.split)

lemma typed_write: "typed d (contents (db c)) \<Longrightarrow> typed d (contents (db (snd (snd (kvbfs_write K env c n buf off fh)))))"
  by (auto simp: kvbfs_write_def Let_def split_def typed inode_get_db split: option.split)

lemma typed_fsync: "typed d (contents (db c)) \<Longrightarrow> typed d (contents (db (snd (kvbfs_fsync K c n))))"
  by (auto simp: kvbfs_fsync_def Let_def split_def typed inode_get_db split: option.split)

lemma typed_poll: "typed d (contents (db c)) \<Longrightarrow> typed d (contents (db (snd (kvbfs_poll_op c n fh ph))))"
  by (simp add: kvbfs_poll_op_def Let_def split_def split: option.split)

lemma typed_setxattr: "typed d (contents (db c)) \<Longrightarrow> typed d (contents (db (snd (kvbfs_setxattr K env c n name v flags))))"
  by (auto simp: kvbfs_setxattr_def kvbfs_key_xattr_Some Let_def split_def typed split: option.split)

lemma typed_removexattr: "typed d (contents (db c)) \<Longrightarrow> typed d (contents (db (snd (kvbfs_removexattr K env c n name))))"
  by (auto simp: kvbfs_removexattr_def Let_def split_def typed split: option.split)

lemma typed_sessions_dir: "typed d (contents (db c)) \<Longrightarrow> typed d (contents (db (snd (ensure_sessions_dir K now c))))"
  by (auto simp: ensure_sessions_dir_def kvbfs_key_dirent_Some Let_def split_def typed SIZEOF_U64_def split: option.split prod.split)

lemma typed_start_llm: "typed d (contents (db c)) \<Longrightarrow> typed d (contents (db (snd (ctx_init_llm K now st c))))"
  using typed_sessions_dir [of d c now] by (simp add: ctx_init_llm_def split_def Let_def)

lemma typed_start_mem: "typed d (contents (db c)) \<Longrightarrow> typed d (contents (db (snd (ctx_init_mem st c))))"
  by (simp add: ctx_init_mem_def split_def Let_def)

lemma typed_destroy: "typed d (contents (db c)) \<Longrightarrow> typed d (contents (ctx_destroy K (kvbfs_destroy K c)))"
  by (simp add: ctx_destroy_def ctx_close_def kvbfs_destroy_def inode_cache_clear_def Let_def typed)

end

section \<open>Running\<close>

text \<open>
  One request, one turn of a worker, or one of the two steps of an answer; \<open>E\<close> says what is known
  of the models the workers use.
\<close>

inductive served :: "(fs_env \<Rightarrow> bool) \<Rightarrow> 'm llama \<Rightarrow> llm_config \<Rightarrow> 's kv_ops \<Rightarrow> 's kvbfs_ctx \<Rightarrow> 's kvbfs_ctx \<Rightarrow> bool"
  for E :: "fs_env \<Rightarrow> bool" and L :: "'m llama" and cf :: llm_config and K :: "'s kv_ops" where
  lookup: "served E L cf K c (snd (kvbfs_lookup K env c p name))"
| getattr: "served E L cf K c (snd (kvbfs_getattr K env c n))"
| setattr: "served E L cf K c (snd (kvbfs_setattr K env c n attr flags))"
| opendir: "served E L cf K c (snd (kvbfs_opendir K c n))"
| readdir: "served E L cf K c (snd (kvbfs_readdir K env c n sz off))"
| mkdir: "served E L cf K c (snd (kvbfs_mkdir K env c p name mode))"
| create: "served E L cf K c (snd (kvbfs_create K env c p name mode))"
| symlink: "served E L cf K c (snd (kvbfs_symlink K env c target p name))"
| readlink: "served E L cf K c (snd (kvbfs_readlink K c n))"
| link: "served E L cf K c (snd (kvbfs_link K env c n p name))"
| rmdir: "served E L cf K c (snd (kvbfs_rmdir K env c p name))"
| unlink: "served E L cf K c (snd (kvbfs_unlink K env c p name))"
| rename: "served E L cf K c (snd (kvbfs_rename K env c p name q name'))"
| open_file: "served E L cf K c (snd (kvbfs_open K env c n oflags))"
| release_file: "served E L cf K c (snd (kvbfs_release K env c n oflags fh))"
| read_file: "served E L cf K c (snd (snd (kvbfs_read K env c n sz off fh)))"
| write_file: "served E L cf K c (snd (snd (kvbfs_write K env c n buf off fh)))"
| fsync: "served E L cf K c (snd (kvbfs_fsync K c n))"
| poll: "served E L cf K c (snd (kvbfs_poll_op c n fh ph))"
| setxattr: "served E L cf K c (snd (kvbfs_setxattr K env c n name v xflags))"
| removexattr: "served E L cf K c (snd (kvbfs_removexattr K env c n name))"
| embed: "E env \<Longrightarrow> mem_worker_step K env c = Some c' \<Longrightarrow> served E L cf K c c'"
| begin_answer: "served E L cf K c (snd (session_begin K c n))"
| finish_answer: "E env \<Longrightarrow> session_finish L cf K env c n content = Run c' \<Longrightarrow> served E L cf K c c'"

text \<open>
  From a store: mounting it, starting each of the two models (with the directory of the sessions),
  serving, mounting again.
\<close>

inductive fs_runs :: "(fs_env \<Rightarrow> bool) \<Rightarrow> 'm llama \<Rightarrow> llm_config \<Rightarrow> 's kv_ops \<Rightarrow> 's \<Rightarrow> 's kvbfs_ctx \<Rightarrow> bool"
  for E :: "fs_env \<Rightarrow> bool" and L :: "'m llama" and cf :: llm_config and K :: "'s kv_ops" and s :: 's where
  mount: "ctx_init K now s = Some c \<Longrightarrow> fs_runs E L cf K s c"
| start_llm: "fs_runs E L cf K s c \<Longrightarrow> fs_runs E L cf K s (snd (ctx_init_llm K now st c))"
| start_mem: "fs_runs E L cf K s c \<Longrightarrow> fs_runs E L cf K s (snd (ctx_init_mem st c))"
| serve: "fs_runs E L cf K s c \<Longrightarrow> served E L cf K c c' \<Longrightarrow> fs_runs E L cf K s c'"
| remount: "fs_runs E L cf K s c \<Longrightarrow> ctx_init K now (ctx_destroy K (kvbfs_destroy K c)) = Some c' \<Longrightarrow> fs_runs E L cf K s c'"

lemma vec_key_no_summary: "take 2 (drop 4 (mem_key_vec n q)) \<noteq> ''s:''"
proof -
  obtain c cs where c: "dec n = c # cs" by (cases "dec n") auto
  then have "is_digit c" using dec_digits [of c n] by simp
  then have "c \<noteq> CHR ''s''" by (auto simp: is_digit_def)
  with c show ?thesis by (simp add: mem_key_vec_def)
qed

context kv_store
begin

lemma typed_served:
  assumes "served (embeds d) L cf K c c'" "typed d (contents (db c))"
  shows "typed d (contents (db c'))"
  using assms(1)
proof cases
  case embed
  show ?thesis by (rule typed_worker_step [OF embed(1) assms(2) embed(2)])
next
  case finish_answer
  show ?thesis by (rule typed_finish [OF assms(2) finish_answer(2,1)])
qed (simp_all only: assms(2) [THEN typed_lookup] assms(2) [THEN typed_getattr] assms(2) [THEN typed_setattr]
    assms(2) [THEN typed_dirs(1)] assms(2) [THEN typed_dirs(2)] assms(2) [THEN typed_mkdir] assms(2) [THEN typed_create]
    assms(2) [THEN typed_symlink] assms(2) [THEN typed_readlink] assms(2) [THEN typed_link] assms(2) [THEN typed_rmdir]
    assms(2) [THEN typed_unlink] assms(2) [THEN typed_rename] assms(2) [THEN typed_open] assms(2) [THEN typed_release]
    assms(2) [THEN typed_read] assms(2) [THEN typed_write] assms(2) [THEN typed_fsync] assms(2) [THEN typed_poll]
    assms(2) [THEN typed_setxattr] assms(2) [THEN typed_removexattr] assms(2) [THEN typed_begin])

lemma typed_mount: "typed d (contents s) \<Longrightarrow> ctx_init K now s = Some c \<Longrightarrow> typed d (contents (db c))"
  using typed_super_load [where c = "ctx_zero s" and now = now] by (auto simp: ctx_init_def ctx_zero_def split: prod.splits if_splits)

lemma typed_runs:
  assumes "fs_runs (embeds d) L cf K s c" "typed d (contents s)"
  shows "typed d (contents (db c))"
  using assms(1)
  by induction (auto intro: typed_mount [OF assms(2)] typed_start_llm typed_start_mem typed_served typed_mount [OF typed_destroy])

lemma super_load_typed:
  assumes "typed d (contents (db c))" "contents (db c) (encode KSuper) = Some b"
  shows "snd (super_load K now c) = c\<lparr>super := super_of_bytes b\<rparr>"
proof -
  have "value_ok d KSuper b" using assms unfolding typed_def by blast
  then have "length b = SIZEOF_SUPER" by simp
  with assms(2) show ?thesis by (simp add: super_load_def super_key_encode get Let_def)
qed

text \<open>No reader turns a value of a typed store down.\<close>

lemma typed_readers:
  assumes "typed d (contents s)"
  shows "inode_load K s n = map_option inode_of_bytes (contents s (encode (KInode n)))"
    "version_get_meta K s n v = map_option version_meta_of_bytes (contents s (encode (KVerMeta n v)))"
    "version_get_current K s n = (case contents s (encode (KVerCounter n)) of None \<Rightarrow> 0 | Some b \<Rightarrow> le_val b)"
    "dirent_lookup K s p name =
       (if name_fits p name then case contents s (encode (KDirent p name)) of None \<Rightarrow> 0 | Some b \<Rightarrow> le_val b else 0)"
    "read_u32 K s (mem_key_seq n) = (case contents s (encode (KMemSeq n)) of None \<Rightarrow> 0 | Some b \<Rightarrow> le_val b)"
    "read_u32 K s (mem_key_gen n) = (case contents s (encode (KMemGen n)) of None \<Rightarrow> 0 | Some b \<Rightarrow> le_val b)"
    "embeds d env \<Longrightarrow> contents s (encode (KMemVec n v)) = Some b \<Longrightarrow> is_candidate env (mem_key_vec n v, b)"
proof -
  have t: "contents s (encode k) = Some b \<Longrightarrow> value_ok d k b" for k b using assms by (simp add: typed_def)
  show "inode_load K s n = map_option inode_of_bytes (contents s (encode (KInode n)))"
    using t [of "KInode n"] by (simp add: inode_load_contents split: option.split)
  show "version_get_meta K s n v = map_option version_meta_of_bytes (contents s (encode (KVerMeta n v)))"
    using t [of "KVerMeta n v"] by (simp add: version_get_meta_def version_keys_encode get split: option.split)
  show "version_get_current K s n = (case contents s (encode (KVerCounter n)) of None \<Rightarrow> 0 | Some b \<Rightarrow> le_val b)"
    using t [of "KVerCounter n"] by (simp add: version_get_current_def version_keys_encode get split: option.split)
  show "dirent_lookup K s p name =
       (if name_fits p name then case contents s (encode (KDirent p name)) of None \<Rightarrow> 0 | Some b \<Rightarrow> le_val b else 0)"
    using t [of "KDirent p name"] by (simp add: dirent_lookup_def key_dirent_encode get split: option.split)
  show "read_u32 K s (mem_key_seq n) = (case contents s (encode (KMemSeq n)) of None \<Rightarrow> 0 | Some b \<Rightarrow> le_val b)"
    "read_u32 K s (mem_key_gen n) = (case contents s (encode (KMemGen n)) of None \<Rightarrow> 0 | Some b \<Rightarrow> le_val b)"
    using t [of "KMemSeq n"] t [of "KMemGen n"] by (simp_all add: read_u32_def mem_keys_encode get split: option.split)
  show "is_candidate env (mem_key_vec n v, b)" if "embeds d env" "contents s (encode (KMemVec n v)) = Some b"
    using t [OF that(2)] that(1) vec_key_no_summary [of n v] by (simp add: is_candidate_def embeds_def)
qed

end

section \<open>Property\<close>

text \<open>
  C21. Stored values have their type. From an empty store or any other whose values have the sizes
  of their kinds, whatever requests are served, whatever the two workers do with embedding models
  of one dimension, across unmounts and mounts and even when the backend refuses writes, every
  superblock, inode, entry, version, counter, header and vector in the store has the size its
  readers check. So the readers of the superblock, of inodes, entries, version counters, version
  records, of the two counters of the memory and the search over the vectors never turn a stored
  value down.
\<close>

theorem stored_values_typed:
  assumes "kv_store K contents" "typed d (contents s)" "fs_runs (embeds d) L cf K s c"
  shows "typed d (contents (db c)) \<and>
    (\<forall>now b. contents (db c) (encode KSuper) = Some b \<longrightarrow> snd (super_load K now c) = c\<lparr>super := super_of_bytes b\<rparr>) \<and>
    (\<forall>n. inode_load K (db c) n = map_option inode_of_bytes (contents (db c) (encode (KInode n)))) \<and>
    (\<forall>n v. version_get_meta K (db c) n v =
       map_option version_meta_of_bytes (contents (db c) (encode (KVerMeta n v)))) \<and>
    (\<forall>n. version_get_current K (db c) n =
       (case contents (db c) (encode (KVerCounter n)) of None \<Rightarrow> 0 | Some b \<Rightarrow> le_val b)) \<and>
    (\<forall>p name. name_fits p name \<longrightarrow> dirent_lookup K (db c) p name =
       (case contents (db c) (encode (KDirent p name)) of None \<Rightarrow> 0 | Some b \<Rightarrow> le_val b)) \<and>
    (\<forall>n. read_u32 K (db c) (mem_key_seq n) =
       (case contents (db c) (encode (KMemSeq n)) of None \<Rightarrow> 0 | Some b \<Rightarrow> le_val b)) \<and>
    (\<forall>n. read_u32 K (db c) (mem_key_gen n) =
       (case contents (db c) (encode (KMemGen n)) of None \<Rightarrow> 0 | Some b \<Rightarrow> le_val b)) \<and>
    (\<forall>env n q b. embeds d env \<and> contents (db c) (encode (KMemVec n q)) = Some b \<longrightarrow> is_candidate env (mem_key_vec n q, b))"
  using kv_store.super_load_typed [OF assms(1) kv_store.typed_runs [OF assms(1,3,2)]]
    kv_store.typed_readers [OF assms(1) kv_store.typed_runs [OF assms(1,3,2)]] kv_store.typed_runs [OF assms(1,3,2)] by simp

theorem stored_values_typed_witness:
  "\<exists>c. fs_runs (embeds 1) sample_llama sample_config mem_ops DAList.empty c \<and> typed 1 (DAList.lookup (db c)) \<and>
     inode_load mem_ops (db c) 2 = map_option inode_of_bytes (DAList.lookup (db c) (encode (KInode 2)))"
proof -
  obtain c0 where "ctx_init mem_ops t0 DAList.empty = Some c0"
    by (simp add: ctx_init_def super_load_def super_save_def super_create_root_def kv_mem_retrieve_def kv_mem_store_def
        ctx_zero_def split_def Let_def)
  then have r: "fs_runs (embeds 1) sample_llama sample_config mem_ops DAList.empty
      (snd (kvbfs_mkdir mem_ops sample_env c0 1 ''d'' 0))"
    by (blast intro: fs_runs.mount fs_runs.serve served.mkdir)
  have "kv_store mem_ops DAList.lookup" by unfold_locales
  moreover have "typed 1 (DAList.lookup DAList.empty)" by (simp add: typed_def)
  ultimately show ?thesis
    using stored_values_typed [OF _ _ r, of DAList.lookup] r
    by (intro exI [of _ "snd (kvbfs_mkdir mem_ops sample_env c0 1 ''d'' 0)"]) simp
qed

end
