(* ===== verification/Marks.thy ===== *)
theory Marks
  imports Typed
begin

text \<open>
  The marks of the two workers, \<^verbatim>\<open>running\<close> in \<^verbatim>\<open>struct llm_ctx\<close> and \<^verbatim>\<open>struct mem_ctx\<close>: no
  request and no step of a worker changes them, only the start and the end of a worker do.
\<close>

section \<open>The marks\<close>

datatype thread = InferenceThread | EmbeddingThread

definition marked :: "'s kvbfs_ctx \<Rightarrow> thread \<Rightarrow> bool" where
  "marked c t = (case t of InferenceThread \<Rightarrow> llm_running (llm c) | EmbeddingThread \<Rightarrow> mem_running (mem c))"

lemma marked_simps [simp]:
  "marked c InferenceThread = llm_running (llm c)" "marked c EmbeddingThread = mem_running (mem c)"
  by (simp_all add: marked_def)

named_theorems marks

lemma mem_worker_llm: "llm (mem_worker K env c) = llm c"
proof (induction K env c rule: mem_worker.induct)
  case (1 K env c)
  have "mem_worker_step K env c = Some c' \<Longrightarrow> llm c' = llm c" for c'
    by (auto simp: mem_worker_step_def split: list.splits)
  with 1 show ?case by (simp add: mem_worker.simps [of K env c] split: option.split)
qed

lemma mem_destroy_llm [simp]: "llm (mem_destroy K env c) = llm c"
  by (simp add: mem_destroy_def Let_def mem_worker_llm)

lemma inode_sync_marks [marks]: "marked (snd (inode_sync K c n)) t = marked c t"
  by (cases t) (auto simp: inode_sync_def Let_def split: option.split prod.split)

lemma inode_put_marks [marks]: "marked (inode_put c n) t = marked c t"
  by (cases t) (auto simp: inode_put_def Let_def split: option.split)

lemma sync_list_marks [marks]: "marked (snd (sync_list K c ns)) t = marked c t"
  by (induction ns arbitrary: c) (simp_all add: Let_def split_def inode_sync_marks inode_put_marks)

lemma kvbfs_destroy_marks [marks]: "marked (kvbfs_destroy K c) t = marked c t"
proof -
  have "marked (inode_cache_clear c) t = marked c t" for c :: "'a kvbfs_ctx"
    by (cases t) (simp_all add: inode_cache_clear_def)
  moreover have "marked (c\<lparr>icache := ic\<rparr>) t = marked c t" for ic by (cases t) simp_all
  ultimately show ?thesis
    by (simp add: kvbfs_destroy_def inode_sync_all_def Let_def sync_list_marks)
qed

lemma marked_update [marks]:
  "marked (c\<lparr>db := s\<rparr>) t = marked c t" "marked (c\<lparr>icache := ic\<rparr>) t = marked c t"
  "marked (c\<lparr>super := sb\<rparr>) t = marked c t" "marked (c\<lparr>sessions_ino := n\<rparr>) t = marked c t"
  "marked (c\<lparr>session_set := ns\<rparr>) t = marked c t" "marked (c\<lparr>events := ev\<rparr>) t = marked c t"
  by (cases t; simp)+

lemma super_save_marks [marks]: "marked (snd (super_save K c)) t = marked c t"
  by (simp add: super_save_def split_def Let_def marks)

lemma super_load_marks [marks]: "marked (snd (super_load K now c)) t = marked c t"
  by (simp add: super_load_def super_create_root_def split_def Let_def marks split: option.split)

lemma inode_create_marks [marks]: "marked (snd (inode_create K now c mode)) t = marked c t"
  by (simp add: inode_create_def inode_alloc_def inode_alloc_bump_def split_def Let_def marks)

lemma ic_modify_marks [marks]: "marked (ic_modify c n f) t = marked c t"
  by (simp add: ic_modify_def marks split: option.split)

lemma inode_delete_marks [marks]: "marked (snd (inode_delete K c n)) t = marked c t"
  by (simp add: inode_delete_def split_def Let_def marks)

lemma inode_get_marks: "inode_get K c n = Some c' \<Longrightarrow> marked c' t = marked c t"
  by (auto simp: inode_get_def marks split: option.splits)

lemma adjust_nlink_marks [marks]: "marked (adjust_nlink K c n f) t = marked c t"
  by (auto simp: adjust_nlink_def Let_def marks inode_sync_marks inode_put_marks split_def inode_get_marks
      split: option.split)

lemma ensure_sessions_dir_marks [marks]: "marked (snd (ensure_sessions_dir K now c)) t = marked c t"
  unfolding ensure_sessions_dir_def
  by (auto simp: Let_def split_def marks inode_sync_marks inode_put_marks split: option.split prod.split)

section \<open>The steps of the handlers\<close>

lemma marked_parts [marks]:
  "marked (c\<lparr>vtree := v\<rparr>) t = marked c t"
  "llm_running l = llm_running (llm c) \<Longrightarrow> marked (c\<lparr>llm := l\<rparr>) t = marked c t"
  "mem_running m = mem_running (mem c) \<Longrightarrow> marked (c\<lparr>mem := m\<rparr>) t = marked c t"
  by (cases t; simp)+

lemma emit_marks [marks]: "marked (emit env c e n name) t = marked c t"
  by (simp add: emit_def marks)

lemma session_marks [marks]: "marked (session_add c n) t = marked c t" "marked (session_del c n) t = marked c t"
  by (simp_all add: session_add_def session_del_def marks)

lemma dirent_marks [marks]:
  "marked (snd (dirent_add K c p name n)) t = marked c t" "marked (snd (dirent_remove K c p name)) t = marked c t"
  by (auto simp: dirent_add_def dirent_remove_def split_def Let_def marks split: option.split)

lemma get_c_marks [marks]: "view K c n \<noteq> None \<Longrightarrow> marked (get_c K c n) t = marked c t"
  using inode_get_marks [of K c n "get_c K c n"] by (auto simp: inode_get_view)

lemma purge_marks [marks]: "marked (purge_inode K c n) t = marked c t"
  by (simp add: purge_inode_def xattr_delete_all_def Let_def marks)

lemma set_size_marks [marks]: "marked (set_size_step K c n sz) t = marked c t"
  by (simp add: set_size_step_def Let_def marks)

lemma snapshot_marks [marks]: "marked (snd (version_snapshot K c n)) t = marked c t"
  by (auto simp: version_snapshot_def Let_def marks inode_get_marks split: option.split)

lemma memorize_marks [marks]: "marked (snd (mem_memorize K c n u r)) t = marked c t"
  by (simp add: mem_memorize_def Let_def split_def marks)

lemma memorize_all_marks [marks]: "marked (memorize_all K c n ts) t = marked c t"
  unfolding memorize_all_def by (induction ts arbitrary: c) (simp_all add: marks)

lemma index_marks [marks]: "marked (snd (mem_index_file K c n)) t = marked c t"
  by (auto simp: mem_index_file_def Let_def marks inode_get_marks split: option.split)

lemma file_marks [marks]:
  "marked (snd (file_read_all K c n)) t = marked c t" "marked (snd (file_append K now c n data)) t = marked c t"
  by (auto simp: file_read_all_def file_append_def Let_def split_def marks inode_get_marks split: option.split)

lemma overwrite_marks [marks]: "marked (snd (file_overwrite K now c n data)) t = marked c t"
  by (auto simp: file_overwrite_def Let_def split_def marks inode_get_marks split: option.split)

lemma gen_marks [simp]:
  "llm_running (llm_gen_start l n) = llm_running l" "llm_running (llm_gen_finish l n) = llm_running l"
  "llm_running (llm_gen_add_waiter l n ph) = llm_running l" "llm_running (llm_submit l n) = llm_running l"
  by (simp_all add: llm_gen_start_def llm_gen_finish_def llm_gen_add_waiter_def llm_submit_def gen_state_set_def Let_def
      split: option.split)
section \<open>The handlers\<close>

lemma lookup_virtual_marks [marks]: "marked (snd (lookup_virtual K env c p name)) t = marked c t"
proof -
  have "marked (snd (if b then f else g)) t = marked c t" if "marked (snd f) t = marked c t" "marked (snd g) t = marked c t"
    for b and f g :: "reply \<times> 'a kvbfs_ctx"
    using that by simp
  note if_marks = this
  show ?thesis
    unfolding lookup_virtual_def Let_def split_def
    by (cases "if p = AGENTFS_VERSIONS_INO then Some KVBFS_ROOT_INO else map_option vn_real_ino (vtree_get (vtree c) p)")
      (simp_all only: option.case, (rule if_marks | simp add: marks)+)
qed

lemma lookup_marks: "marked (snd (kvbfs_lookup K env c p name)) t = marked c t"
  by (simp add: kvbfs_lookup_def Let_def inode_get_view marks)

lemma getattr_marks: "marked (snd (kvbfs_getattr K env c n)) t = marked c t"
  by (auto simp: kvbfs_getattr_def Let_def split_def marks inode_get_marks split: option.split)

lemma setattr_marks: "marked (snd (kvbfs_setattr K env c n attr flags)) t = marked c t"
  by (auto simp: kvbfs_setattr_def ic_modify_if_def Let_def split_def marks inode_get_marks split: option.split)

lemma dirs_marks: "marked (snd (kvbfs_opendir K c n)) t = marked c t" "marked (snd (kvbfs_readdir K env c n sz off)) t = marked c t"
  by (auto simp: kvbfs_opendir_def kvbfs_readdir_def Let_def split_def marks inode_get_marks split: option.split)

lemma mkdir_marks: "marked (snd (kvbfs_mkdir K env c p name mode)) t = marked c t"
  by (auto simp: kvbfs_mkdir_def Let_def split_def marks inode_get_marks split: option.split)

lemma create_marks: "marked (snd (kvbfs_create K env c p name mode)) t = marked c t"
  by (auto simp: kvbfs_create_def Let_def split_def marks inode_get_marks split: option.split)

lemma symlink_marks: "marked (snd (kvbfs_symlink K env c target p name)) t = marked c t"
  by (auto simp: kvbfs_symlink_def Let_def split_def marks inode_get_marks split: option.split)

lemma readlink_marks: "marked (snd (kvbfs_readlink K c n)) t = marked c t"
  by (auto simp: kvbfs_readlink_def Let_def split_def marks inode_get_marks split: option.split)

lemma link_marks: "marked (snd (kvbfs_link K env c n p name)) t = marked c t"
  by (auto simp: kvbfs_link_def Let_def split_def marks inode_get_marks split: option.split)

lemma rmdir_marks: "marked (snd (kvbfs_rmdir K env c p name)) t = marked c t"
  by (auto simp: kvbfs_rmdir_def Let_def split_def marks inode_get_marks split: option.split)

lemma unlink_marks: "marked (snd (kvbfs_unlink K env c p name)) t = marked c t"
  by (auto simp: kvbfs_unlink_def Let_def split_def marks inode_get_marks split: option.split)

lemma replace_marks [marks]: "marked (snd (rename_replace K c p name n)) t = marked c t"
  by (auto simp: rename_replace_def Let_def split_def marks inode_get_marks split: option.split)

lemma move_marks [marks]: "marked (snd (rename_move K env c n p name q name')) t = marked c t"
  by (auto simp: rename_move_def Let_def split_def marks inode_get_marks split: option.split)

lemma rename_marks: "marked (snd (kvbfs_rename K env c p name q name')) t = marked c t"
  by (auto simp: kvbfs_rename_def Let_def split_def marks inode_get_marks split: option.split)

lemma open_marks: "marked (snd (kvbfs_open K env c n flags)) t = marked c t"
  by (auto simp: kvbfs_open_def Let_def split_def marks inode_get_marks split: option.split)

lemma release_marks: "marked (snd (kvbfs_release K env c n flags fh)) t = marked c t"
  by (auto simp: kvbfs_release_def Let_def split_def marks inode_get_marks split: option.split)

lemma read_marks: "marked (snd (snd (kvbfs_read K env c n sz off fh))) t = marked c t"
  by (auto simp: kvbfs_read_def Let_def split_def marks inode_get_marks split: option.split)

lemma write_marks: "marked (snd (snd (kvbfs_write K env c n buf off fh))) t = marked c t"
  by (auto simp: kvbfs_write_def Let_def split_def marks inode_get_marks split: option.split)

lemma fsync_marks: "marked (snd (kvbfs_fsync K c n)) t = marked c t"
  by (auto simp: kvbfs_fsync_def Let_def split_def marks inode_get_marks split: option.split)

lemma poll_marks: "marked (snd (kvbfs_poll_op c n fh ph)) t = marked c t"
  by (auto simp: kvbfs_poll_op_def Let_def split_def marks inode_get_marks split: option.split)

lemma setxattr_marks: "marked (snd (kvbfs_setxattr K env c n name v flags)) t = marked c t"
  by (auto simp: kvbfs_setxattr_def Let_def split_def marks inode_get_marks split: option.split)

lemma removexattr_marks: "marked (snd (kvbfs_removexattr K env c n name)) t = marked c t"
  by (auto simp: kvbfs_removexattr_def Let_def split_def marks inode_get_marks split: option.split)
section \<open>The workers\<close>

lemma worker_step_marks: "mem_worker_step K env c = Some c' \<Longrightarrow> marked c' t = marked c t"
  by (cases t) (auto simp: mem_worker_step_def split: list.splits)

lemma compress_marks: "try_compress_context L cf K env c n content = Run (r, c') \<Longrightarrow> marked c' t = marked c t"
  by (auto simp: try_compress_context_def Let_def split_def marks split: llm_run.splits option.splits if_splits)

lemma append_answer_marks [marks]: "marked (append_answer K env c n r) t = marked c t"
  by (simp add: append_answer_def marks)

lemma gen_finish_marks [marks]: "marked (gen_finish c n) t = marked c t"
  by (simp add: gen_finish_def marks)

lemma memorize_turn_marks: "memorize_turn K cap c n u r = Run c' \<Longrightarrow> marked c' t = marked c t"
  by (auto simp: memorize_turn_def Let_def marks split: option.splits if_splits)

lemma answer_marks: "answer L cf K env c n content = Run c' \<Longrightarrow> marked c' t = marked c t"
  by (auto simp: answer_def Let_def marks dest!: memorize_turn_marks split: llm_run.splits option.splits if_splits)

lemma begin_marks: "marked (snd (session_begin K c n)) t = marked c t"
  by (simp add: session_begin_def Let_def split_def marks split: option.split)

lemma finish_marks:
  assumes "session_finish L cf K env c n content = Run c'"
  shows "marked c' t = marked c t"
proof (cases "mem_running (mem c)")
  case False
  with assms show ?thesis by (simp add: session_finish_def answer_marks)
next
  case True
  then obtain r c1 where c1: "try_compress_context L cf K env c n content = Run (r, c1)"
    using assms by (cases "try_compress_context L cf K env c n content") (auto simp: session_finish_def)
  have r: "marked (snd (file_read_all K c1 n)) t = marked c t"
    using compress_marks [OF c1, of t] by (simp add: marks)
  obtain u c2 where f: "file_read_all K c1 n = (u, c2)" by fastforce
  have fin: "session_finish L cf K env c n content =
      (if r \<le> 0 then answer L cf K env c1 n content
       else case u of None \<Rightarrow> Run (gen_finish c2 n)
         | Some v \<Rightarrow> if \<not> needs_response v then Run (gen_finish c2 n) else answer L cf K env c2 n v)"
    using True c1 f by (simp add: session_finish_def)
  consider "answer L cf K env c1 n content = Run c'" | "c' = gen_finish c2 n" | v where "answer L cf K env c2 n v = Run c'"
    using assms unfolding fin by (cases "r \<le> 0"; cases u; cases "needs_response (the u)") simp_all
  then show ?thesis
    by cases (use r f compress_marks [OF c1, of t] in \<open>simp_all add: answer_marks gen_finish_marks\<close>)
qed

text \<open>Whatever is served, the marks stay.\<close>

lemma served_marks: "served E L cf K c c' \<Longrightarrow> marked c' t = marked c t"
  by (induction rule: served.induct)
    (simp_all add: lookup_marks getattr_marks setattr_marks dirs_marks mkdir_marks create_marks symlink_marks readlink_marks
      link_marks rmdir_marks unlink_marks rename_marks open_marks release_marks read_marks write_marks fsync_marks poll_marks
      setxattr_marks removexattr_marks worker_step_marks begin_marks finish_marks)

lemma served_star_marks: "(served E L cf K)\<^sup>*\<^sup>* c c' \<Longrightarrow> marked c' t = marked c t"
  by (induction rule: rtranclp_induct) (simp_all add: served_marks)

end
