(* ===== verification/Program.thy ===== *)
theory Program
  imports Remount Marks NvmeServer NvmeClient
begin

text \<open>
  The two programs: \<^verbatim>\<open>main\<close> of \<^verbatim>\<open>src/main.c\<close>, from the options and the environment through
  the start of the workers, the FUSE session and every clean-up label to the exit code, with the
  whole of \<^verbatim>\<open>ctx_destroy\<close>; and \<^verbatim>\<open>main\<close> of \<^verbatim>\<open>sim/main.c\<close> with its accept loop. The messages
  are left out. libfuse, the environment and the sockets are parameters. A join of a thread that
  the process does not have is undefined in C and an outcome of its own here.
\<close>

section \<open>The file system's process\<close>

record llm_settings =
  set_model_path :: string
  set_n_ctx :: int
  set_n_gpu_layers :: int
  set_max_tokens :: int
  set_temperature :: real

record mem_settings =
  set_embed_path :: string
  set_embed_n_ctx :: int
  set_embed_gpu_layers :: int

record 's process =
  pr_ctx :: "'s kvbfs_ctx"
  pr_threads :: "thread list"
  pr_llm :: llm_settings

record fuse_opts =
  fo_show_help :: bool
  fo_show_version :: bool
  fo_mountpoint :: "string option"
  fo_foreground :: bool
  fo_singlethread :: bool

text \<open>
  What lies outside: the environment, the parser of floats, opening a store, starting the models,
  and libfuse. The session loop gets the threads of the process and the context, and gives its
  return value and what the requests and the workers have made of the context. Going to the
  background gives the threads that are left.
\<close>

record 's world =
  w_getenv :: "string \<Rightarrow> string option"
  w_atof :: "string \<Rightarrow> real"
  w_open :: "string \<Rightarrow> 's option"
  w_llm :: "llm_settings \<Rightarrow> llama_start"
  w_mem :: "mem_settings \<Rightarrow> llama_start"
  w_session :: bool
  w_signals :: bool
  w_mount :: "string \<Rightarrow> bool"
  w_daemonize :: "bool \<Rightarrow> thread list \<Rightarrow> thread list"
  w_loop :: "bool \<Rightarrow> thread list \<Rightarrow> 's kvbfs_ctx \<Rightarrow> int \<times> 's kvbfs_ctx"

section \<open>Settings\<close>

definition db_path :: "'s world \<Rightarrow> string" where
  "db_path w = (case w_getenv w ''KVBFS_DB_PATH'' of Some p \<Rightarrow> p | None \<Rightarrow> ''/tmp/kvbfs_data'')"

definition env_int :: "'s world \<Rightarrow> string \<Rightarrow> int \<Rightarrow> int" where
  "env_int w name d = (case w_getenv w name of Some s \<Rightarrow> atoi s | None \<Rightarrow> d)"

definition llm_settings_of :: "'s world \<Rightarrow> string \<Rightarrow> llm_settings" where
  "llm_settings_of w path =
     \<lparr>set_model_path = path, set_n_ctx = env_int w ''CFS_N_CTX'' 4096,
      set_n_gpu_layers = env_int w ''CFS_N_GPU_LAYERS'' 0,
      set_max_tokens = env_int w ''CFS_MAX_TOKENS'' 512,
      set_temperature = (case w_getenv w ''CFS_TEMPERATURE'' of Some s \<Rightarrow> w_atof w s | None \<Rightarrow> 7 / 10)\<rparr>"

definition mem_settings_of :: "'s world \<Rightarrow> string \<Rightarrow> mem_settings" where
  "mem_settings_of w path =
     \<lparr>set_embed_path = path, set_embed_n_ctx = env_int w ''CFS_EMBED_N_CTX'' 512,
      set_embed_gpu_layers = env_int w ''CFS_EMBED_N_GPU_LAYERS'' 0\<rparr>"

text \<open>The settings the worker uses, for sizes that are not negative.\<close>

definition config_of :: "llm_settings \<Rightarrow> llm_config" where
  "config_of s = \<lparr>cf_n_ctx = nat (set_n_ctx s), cf_max_tokens = nat (set_max_tokens s),
     cf_temperature = set_temperature s\<rparr>"

section \<open>Start\<close>

definition start_llm :: "'s kv_ops \<Rightarrow> timespec \<Rightarrow> 's world \<Rightarrow> 's process \<Rightarrow> 's process" where
  "start_llm K now w p =
     (case w_getenv w ''CFS_MODEL_PATH'' of
        None \<Rightarrow> p
      | Some path \<Rightarrow>
          let cfg = llm_settings_of w path;
              (okay, c) = ctx_init_llm K now (w_llm w cfg) (pr_ctx p)
          in p\<lparr>pr_ctx := c, pr_llm := cfg,
               pr_threads := (if okay then InferenceThread # pr_threads p else pr_threads p)\<rparr>)"

definition start_mem :: "'s world \<Rightarrow> 's process \<Rightarrow> 's process" where
  "start_mem w p =
     (case w_getenv w ''CFS_EMBED_MODEL_PATH'' of
        None \<Rightarrow> p
      | Some path \<Rightarrow>
          let (okay, c) = ctx_init_mem (w_mem w (mem_settings_of w path)) (pr_ctx p)
          in p\<lparr>pr_ctx := c,
               pr_threads := (if okay then EmbeddingThread # pr_threads p else pr_threads p)\<rparr>)"

definition process0 :: "'s kvbfs_ctx \<Rightarrow> 's process" where
  "process0 c = \<lparr>pr_ctx = c, pr_threads = [],
     pr_llm = \<lparr>set_model_path = [], set_n_ctx = 0, set_n_gpu_layers = 0, set_max_tokens = 0, set_temperature = 0\<rparr>\<rparr>"

definition start_workers :: "'s kv_ops \<Rightarrow> timespec \<Rightarrow> 's world \<Rightarrow> 's kvbfs_ctx \<Rightarrow> 's process" where
  "start_workers K now w c = start_mem w (start_llm K now w (process0 c))"

section \<open>Shutdown\<close>

text \<open>The whole of \<^verbatim>\<open>ctx_destroy\<close>. \<open>None\<close>: a join of a thread that is not there, or a worker that overran its buffer.\<close>

definition ctx_shutdown :: "'m llama \<Rightarrow> 's kv_ops \<Rightarrow> fs_env \<Rightarrow> 's process \<Rightarrow> 's option" where
  "ctx_shutdown L K env p =
     (let c = (pr_ctx p)\<lparr>events := events_destroy (events (pr_ctx p))\<rparr>
      in if mem_running (mem c) \<and> EmbeddingThread \<notin> set (pr_threads p) then None
         else
           let c1 = mem_destroy K env c
           in if llm_running (llm c1) \<and> InferenceThread \<notin> set (pr_threads p) then None
              else case llm_destroy L (config_of (pr_llm p)) K env c1 of
                     Corrupt \<Rightarrow> None
                   | Run c2 \<Rightarrow> Some (ctx_close K c2))"

section \<open>The session\<close>

datatype fuse_call =
    SessionNew | SignalsSet | Mounted string | Daemonized bool | LoopRun bool "thread list"
  | Unmounted | SignalsRemoved | SessionDestroyed

text \<open>
  From \<^verbatim>\<open>fuse_session_new\<close> to the label \<^verbatim>\<open>out2\<close>: the calls that succeed, the value of
  \<^verbatim>\<open>ret\<close>, and the process after them. Destroying a session that was mounted runs the
  \<^verbatim>\<open>destroy\<close> callback.
\<close>

definition run_session ::
  "'s kv_ops \<Rightarrow> 's world \<Rightarrow> fuse_opts \<Rightarrow> string \<Rightarrow> 's process \<Rightarrow> int \<times> fuse_call list \<times> 's process" where
  "run_session K w opts mp p =
     (if \<not> w_session w then (-1, [], p)
      else if \<not> w_signals w then (-1, [SessionNew, SessionDestroyed], p)
      else if \<not> w_mount w mp then (-1, [SessionNew, SignalsSet, SignalsRemoved, SessionDestroyed], p)
      else
        let ts = w_daemonize w (fo_foreground opts) (pr_threads p);
            (ret, c) = w_loop w (fo_singlethread opts) ts (pr_ctx p)
        in (ret, [SessionNew, SignalsSet, Mounted mp, Daemonized (fo_foreground opts),
                  LoopRun (fo_singlethread opts) ts, Unmounted, SignalsRemoved, SessionDestroyed],
            p\<lparr>pr_threads := ts, pr_ctx := kvbfs_destroy K c\<rparr>))"

datatype 's main_result = Exit nat "fuse_call list" "'s option" | Undefined "fuse_call list"

definition kvbfs_main ::
  "'m llama \<Rightarrow> 's kv_ops \<Rightarrow> fs_env \<Rightarrow> 's world \<Rightarrow> fuse_opts option \<Rightarrow> 's main_result" where
  "kvbfs_main L K env w cmdline =
     (case cmdline of
        None \<Rightarrow> Exit 1 [] None
      | Some opts \<Rightarrow>
          if fo_show_help opts then Exit 0 [] None
          else if fo_show_version opts then Exit 0 [] None
          else case fo_mountpoint opts of
                 None \<Rightarrow> Exit 1 [] None
               | Some mp \<Rightarrow>
                   (case (case w_open w (db_path w) of None \<Rightarrow> None | Some s \<Rightarrow> ctx_init K (e_now env) s) of
                      None \<Rightarrow> Exit 1 [] None
                    | Some c \<Rightarrow>
                        let (ret, calls, p) = run_session K w opts mp (start_workers K (e_now env) w c)
                        in case ctx_shutdown L K env p of
                             None \<Rightarrow> Undefined calls
                           | Some s \<Rightarrow> Exit (if ret \<noteq> 0 then 1 else 0) calls (Some s)))"

section \<open>The simulator's process\<close>

text \<open>
  The options \<^verbatim>\<open>getopt_long\<close> gives in order (\<open>p\<close>, \<open>h\<close>, or another letter for an error): the
  port to listen on, or the exit code.
\<close>

fun sim_options :: "(char \<times> string) list \<Rightarrow> nat \<Rightarrow> nat + nat" where
  "sim_options [] port = Inr port"
| "sim_options ((opt, arg) # opts) port =
     (if opt = CHR ''p'' then sim_options opts (nat (atoi arg mod 65536))
      else Inl (if opt = CHR ''h'' then 0 else 1))"

text \<open>
  What a turn of the accept loop meets: a client with the bytes it sends, a signal that does not
  stop the program, the signal that does, or another error.
\<close>

datatype accepted = Client stream | Interrupted | Stopped | AcceptFailed

fun accept_loop :: "kv_mem \<Rightarrow> accepted list \<Rightarrow> bytes list \<times> kv_mem" where
  "accept_loop m [] = ([], m)"
| "accept_loop m (Client st # as) =
     (let (out, m', closed, rest) = handle_connection m st;
          (outs, m'') = accept_loop m' as
      in (out # outs, m''))"
| "accept_loop m (Interrupted # as) = accept_loop m as"
| "accept_loop m (Stopped # as) = ([], m)"
| "accept_loop m (AcceptFailed # as) = ([], m)"

text \<open>Whether the socket calls succeed for the port; the bytes sent to each client, or the exit code.\<close>

definition sim_main :: "(nat \<Rightarrow> bool) \<Rightarrow> (char \<times> string) list \<Rightarrow> accepted list \<Rightarrow> nat \<times> bytes list" where
  "sim_main listens opts as =
     (case sim_options opts NVME_KV_DEFAULT_PORT of
        Inl code \<Rightarrow> (code, [])
      | Inr port \<Rightarrow> if \<not> listens port then (1, []) else (0, fst (accept_loop kv_mem_create as)))"

lemma sim_options_port:
  "sim_options opts port = Inr q \<Longrightarrow> port < 65536 \<Longrightarrow> q < 65536"
  by (induction opts port rule: sim_options.induct) (auto split: if_splits)

section \<open>Workers and threads\<close>

text \<open>
  What the program relies on. POSIX: after going to the background, which forks, the process has
  only the thread that called; in the foreground nothing changes. libfuse: the loop runs the
  handlers, with the steps of the workers between them.
\<close>

definition posix_daemonize :: "'s world \<Rightarrow> bool" where
  "posix_daemonize w \<longleftrightarrow> (\<forall>ts. w_daemonize w False ts = [] \<and> w_daemonize w True ts = ts)"

definition loop_serves :: "'m llama \<Rightarrow> 's kv_ops \<Rightarrow> 's world \<Rightarrow> bool" where
  "loop_serves L K w \<longleftrightarrow>
     (\<forall>b ts c. \<exists>cf. (served (\<lambda>env. True) L cf K)\<^sup>*\<^sup>* c (snd (w_loop w b ts c)))"

text \<open>How the start of a model that was asked for went, and whether its worker is without a thread in the end.\<close>

definition llm_starts :: "'s world \<Rightarrow> llama_start option" where
  "llm_starts w = map_option (\<lambda>path. w_llm w (llm_settings_of w path)) (w_getenv w ''CFS_MODEL_PATH'')"

definition mem_starts :: "'s world \<Rightarrow> llama_start option" where
  "mem_starts w = map_option (\<lambda>path. w_mem w (mem_settings_of w path)) (w_getenv w ''CFS_EMBED_MODEL_PATH'')"

definition stranded :: "bool \<Rightarrow> llama_start option \<Rightarrow> bool" where
  "stranded foreground st \<longleftrightarrow>
     (case st of None \<Rightarrow> False | Some s \<Rightarrow> ls_model s \<and> ls_context s \<and> (foreground \<longrightarrow> \<not> ls_thread s))"

lemma ex_thread: "(\<exists>t. P t) \<longleftrightarrow> P InferenceThread \<or> P EmbeddingThread"
  by (metis thread.exhaust)

lemma ctx_shutdown_cases:
  "if \<exists>t. marked (pr_ctx p) t \<and> t \<notin> set (pr_threads p) then ctx_shutdown L K env p = None
   else (\<exists>s. ctx_shutdown L K env p = Some s) \<or>
     ctx_shutdown L K env p = None \<and> overflows L (config_of (pr_llm p))"
  using llm_destroy_run [of L "config_of (pr_llm p)" K env
      "mem_destroy K env ((pr_ctx p)\<lparr>events := events_destroy (events (pr_ctx p))\<rparr>)"]
  by (auto simp: ctx_shutdown_def Let_def ex_thread)

lemma ctx_init_unmarked: "ctx_init K now s = Some c \<Longrightarrow> \<not> marked c t"
  by (cases t; use super_load_marks [of K now "ctx_zero s" t] in
      \<open>auto simp: ctx_init_def ctx_zero_def mem_zero_def llm_zero_def split: prod.splits if_splits\<close>)

text \<open>The marks and the threads after the start.\<close>

lemma start_llm_marks:
  assumes "\<And>t. \<not> marked c t" "p = start_llm K now w (process0 c)"
  shows "(marked (pr_ctx p) InferenceThread \<and> (fg \<longrightarrow> InferenceThread \<notin> set (pr_threads p))) \<longleftrightarrow>
      fst (ensure_sessions_dir K now c) \<noteq> 0 \<and> stranded fg (llm_starts w)"
    and "\<not> marked (pr_ctx p) EmbeddingThread" "EmbeddingThread \<notin> set (pr_threads p)"
  using assms(1) [of InferenceThread] assms(1) [of EmbeddingThread]
    ensure_sessions_dir_marks [of K now c InferenceThread] ensure_sessions_dir_marks [of K now c EmbeddingThread]
  by (auto simp: assms(2) start_llm_def process0_def ctx_init_llm_def llm_init_def llm_starts_def stranded_def llm_zero_def
      Let_def split_def split: option.splits if_splits)

lemma start_mem_marks:
  assumes "\<not> marked (pr_ctx q) EmbeddingThread" "EmbeddingThread \<notin> set (pr_threads q)" "p = start_mem w q"
  shows "(marked (pr_ctx p) EmbeddingThread \<and> (fg \<longrightarrow> EmbeddingThread \<notin> set (pr_threads p))) \<longleftrightarrow> stranded fg (mem_starts w)"
    and "marked (pr_ctx p) InferenceThread = marked (pr_ctx q) InferenceThread"
    and "InferenceThread \<in> set (pr_threads p) \<longleftrightarrow> InferenceThread \<in> set (pr_threads q)"
    and "pr_llm p = pr_llm q"
  using assms(1,2)
  by (auto simp: assms(3) start_mem_def ctx_init_mem_def mem_init_def mem_starts_def stranded_def mem_zero_def
      Let_def split_def split: option.splits if_splits)

lemma start_workers_stranded:
  assumes "\<And>t. \<not> marked c t" "p = start_workers K now w c" "ts = (if fg then pr_threads p else [])"
  shows "(\<exists>t. marked (pr_ctx p) t \<and> t \<notin> set ts) \<longleftrightarrow>
    stranded fg (mem_starts w) \<or> fst (ensure_sessions_dir K now c) \<noteq> 0 \<and> stranded fg (llm_starts w)"
proof -
  define q where "q = start_llm K now w (process0 c)"
  have p: "p = start_mem w q" by (simp add: assms(2) start_workers_def q_def)
  note l = start_llm_marks [OF assms(1) q_def]
  note m = start_mem_marks [OF l(2,3) p]
  have "(\<exists>t. marked (pr_ctx p) t \<and> t \<notin> set ts) \<longleftrightarrow>
      (marked (pr_ctx p) InferenceThread \<and> (fg \<longrightarrow> InferenceThread \<notin> set (pr_threads p))) \<or>
      (marked (pr_ctx p) EmbeddingThread \<and> (fg \<longrightarrow> EmbeddingThread \<notin> set (pr_threads p)))"
    by (auto simp: ex_thread assms(3))
  then show ?thesis using l(1) [of fg] m(1) [of fg] m(2,3) by blast
qed

section \<open>Properties\<close>

text \<open>
  C28. The workers do not survive the way to the background. With a successful start of the
  session the shutdown is undefined, because it joins a thread the process does not have, whenever
  a model was loaded with its context and the process went to the background (the threads are made
  before it forks), and in the foreground whenever the thread of a loaded model could not be created
  (its mark stays set). The inference model is loaded only once the directory of the sessions is
  there. Otherwise the program ends with the result of the loop, unless a text of the model overruns
  its buffer while the shutdown drains the queue.
\<close>

theorem background_stops_workers:
  assumes "posix_daemonize w" "loop_serves L K w"
    and "\<not> fo_show_help opts" "\<not> fo_show_version opts" "fo_mountpoint opts = Some mp"
    and "w_open w (db_path w) = Some s" "ctx_init K (e_now env) s = Some c"
    and "w_session w" "w_signals w" "w_mount w mp"
    and "p = start_workers K (e_now env) w c" "fg = fo_foreground opts"
    and "ts = (if fg then pr_threads p else [])"
    and "calls = [SessionNew, SignalsSet, Mounted mp, Daemonized fg,
      LoopRun (fo_singlethread opts) ts, Unmounted, SignalsRemoved, SessionDestroyed]"
  shows "if stranded fg (mem_starts w) \<or> fst (ensure_sessions_dir K (e_now env) c) \<noteq> 0 \<and> stranded fg (llm_starts w)
    then kvbfs_main L K env w (Some opts) = Undefined calls
    else (\<exists>s'. kvbfs_main L K env w (Some opts) =
        Exit (if fst (w_loop w (fo_singlethread opts) ts (pr_ctx p)) \<noteq> 0 then 1 else 0) calls (Some s')) \<or>
      kvbfs_main L K env w (Some opts) = Undefined calls \<and> overflows L (config_of (pr_llm p))"
proof -
  obtain ret c' where l: "w_loop w (fo_singlethread opts) ts (pr_ctx p) = (ret, c')" by fastforce
  define q where "q = p\<lparr>pr_threads := ts, pr_ctx := kvbfs_destroy K c'\<rparr>"
  obtain cf where "(served (\<lambda>env. True) L cf K)\<^sup>*\<^sup>* (pr_ctx p) c'"
    using assms(2) l unfolding loop_serves_def by (metis snd_conv)
  then have m: "marked (pr_ctx q) t = marked (pr_ctx p) t" for t
    by (simp add: q_def kvbfs_destroy_marks served_star_marks)
  have "w_daemonize w fg (pr_threads p) = ts"
    using assms(1,13) by (cases fg) (simp_all add: posix_daemonize_def)
  then have r: "run_session K w opts mp p = (ret, calls, q)"
    using assms(8-10,12,14) by (simp add: run_session_def l q_def)
  have main: "kvbfs_main L K env w (Some opts) =
      (case ctx_shutdown L K env q of None \<Rightarrow> Undefined calls | Some s \<Rightarrow> Exit (if ret \<noteq> 0 then 1 else 0) calls (Some s))"
    using assms(3-7,11) r by (simp add: kvbfs_main_def)
  have "(\<exists>t. marked (pr_ctx q) t \<and> t \<notin> set (pr_threads q)) \<longleftrightarrow>
      stranded fg (mem_starts w) \<or> fst (ensure_sessions_dir K (e_now env) c) \<noteq> 0 \<and> stranded fg (llm_starts w)"
    using start_workers_stranded [OF ctx_init_unmarked [OF assms(7)] assms(11,13)] m by (simp add: q_def)
  then show ?thesis
    using ctx_shutdown_cases [of q L K env] l unfolding main by (auto simp: q_def split: if_splits)
qed

definition releases :: "fuse_call \<Rightarrow> fuse_call option" where
  "releases f = (case f of SessionNew \<Rightarrow> Some SessionDestroyed | SignalsSet \<Rightarrow> Some SignalsRemoved
     | Mounted m \<Rightarrow> Some Unmounted | _ \<Rightarrow> None)"

fun balanced :: "fuse_call list \<Rightarrow> fuse_call list \<Rightarrow> bool" where
  "balanced [] stack \<longleftrightarrow> stack = []"
| "balanced (f # fs) stack \<longleftrightarrow>
     (case releases f of
        Some r \<Rightarrow> balanced fs (r # stack)
      | None \<Rightarrow> if f \<in> {SessionDestroyed, SignalsRemoved, Unmounted}
               then stack \<noteq> [] \<and> hd stack = f \<and> balanced fs (tl stack)
               else balanced fs stack)"

fun calls_of :: "'s main_result \<Rightarrow> fuse_call list" where
  "calls_of (Exit code calls res) = calls"
| "calls_of (Undefined calls) = calls"

lemma run_session_balanced: "run_session K w opts mp p = (ret, calls, q) \<Longrightarrow> balanced calls []"
  by (auto simp: run_session_def releases_def Let_def split: if_splits prod.splits)

lemma run_session_loop:
  "run_session K w opts mp p = (0, calls, q) \<Longrightarrow> \<exists>ts. LoopRun (fo_singlethread opts) ts \<in> set calls"
  by (auto simp: run_session_def Let_def split: if_splits prod.splits)

text \<open>
  Clean-up. Whichever call fails, the program gives back what it got from libfuse in the
  opposite order and nothing twice. It ends with 0 or 1, with 0 only for help, for the version, or
  after the session loop has run; and a store that was opened and loaded is closed by the shutdown.
\<close>

theorem main_cleans_up:
  "balanced (calls_of (kvbfs_main L K env w cmdline)) [] \<and>
   (\<forall>code calls res. kvbfs_main L K env w cmdline = Exit code calls res \<longrightarrow>
      code \<in> {0, 1} \<and>
      (code = 0 \<longrightarrow> (\<exists>opts. cmdline = Some opts \<and>
         (fo_show_help opts \<or> fo_show_version opts \<or> (\<exists>ts. LoopRun (fo_singlethread opts) ts \<in> set calls)))) \<and>
      (res = None \<longrightarrow> calls = []))"
  using run_session_balanced [of K w] run_session_loop [of K w]
  by (auto simp: kvbfs_main_def split: option.splits prod.splits if_splits)

text \<open>
  A background start on an empty store, with an embedding model and without an inference model,
  and the same start in the foreground.
\<close>

definition sample_world :: "kv_mem world" where
  "sample_world =
     \<lparr>w_getenv = (\<lambda>n. if n = ''CFS_EMBED_MODEL_PATH'' then Some ''e.gguf'' else None), w_atof = (\<lambda>_. 0),
      w_open = (\<lambda>_. Some kv_mem_create), w_llm = (\<lambda>_. \<lparr>ls_model = False, ls_context = False, ls_thread = True\<rparr>),
      w_mem = (\<lambda>_. \<lparr>ls_model = True, ls_context = True, ls_thread = True\<rparr>),
      w_session = True, w_signals = True, w_mount = (\<lambda>_. True),
      w_daemonize = (\<lambda>fg ts. if fg then ts else []), w_loop = (\<lambda>_ _ c. (0, c))\<rparr>"

definition sample_opts :: "bool \<Rightarrow> fuse_opts" where
  "sample_opts fg = \<lparr>fo_show_help = False, fo_show_version = False, fo_mountpoint = Some ''/mnt'',
     fo_foreground = fg, fo_singlethread = True\<rparr>"

theorem background_stops_workers_witness:
  "(\<exists>calls. kvbfs_main sample_llama mem_ops sample_env sample_world (Some (sample_opts False)) = Undefined calls \<and>
      LoopRun True [] \<in> set calls) \<and>
   (\<exists>calls s. kvbfs_main sample_llama mem_ops sample_env sample_world (Some (sample_opts True)) = Exit 0 calls (Some s))"
proof -
  define c where "c = the (ctx_init mem_ops (e_now sample_env) kv_mem_create)"
  have c: "ctx_init mem_ops (e_now sample_env) kv_mem_create = Some c"
    by (simp add: c_def ctx_init_def super_load_def super_save_def super_create_root_def ctx_zero_def
        kv_mem_create_def kv_mem_retrieve_def kv_mem_store_def)
  have w: "posix_daemonize sample_world" "loop_serves sample_llama mem_ops sample_world"
    "w_open sample_world (db_path sample_world) = Some kv_mem_create"
    "w_session sample_world" "w_signals sample_world" "w_mount sample_world ''/mnt''"
    by (simp_all add: sample_world_def posix_daemonize_def loop_serves_def)
  have o: "\<not> fo_show_help (sample_opts fg)" "\<not> fo_show_version (sample_opts fg)"
    "fo_mountpoint (sample_opts fg) = Some ''/mnt''" "fo_foreground (sample_opts fg) = fg"
    "fo_singlethread (sample_opts fg)" for fg
    by (simp_all add: sample_opts_def)
  note t = background_stops_workers [OF w(1,2) o(1-3) w(3) c w(4-6) refl refl refl refl]
  have st: "stranded fg (mem_starts sample_world) \<longleftrightarrow> \<not> fg" "\<not> stranded fg (llm_starts sample_world)" for fg
    by (simp_all add: stranded_def mem_starts_def llm_starts_def sample_world_def)
  have l: "fst (w_loop sample_world b ts x) = 0" for b ts x by (simp add: sample_world_def)
  have "\<exists>calls. kvbfs_main sample_llama mem_ops sample_env sample_world (Some (sample_opts False)) = Undefined calls \<and>
      LoopRun True [] \<in> set calls"
    using t [of False] st by (auto simp: o)
  moreover have "\<exists>calls s. kvbfs_main sample_llama mem_ops sample_env sample_world (Some (sample_opts True)) = Exit 0 calls (Some s)"
    using t [of True] st l no_overflows [OF sample_pieces] by (auto simp: o)
  ultimately show ?thesis ..
qed

theorem main_cleans_up_witness:
  "balanced (calls_of (kvbfs_main sample_llama mem_ops sample_env (sample_world\<lparr>w_mount := \<lambda>_. False\<rparr>)
     (Some (sample_opts True)))) []"
  using main_cleans_up [of sample_llama mem_ops sample_env "sample_world\<lparr>w_mount := \<lambda>_. False\<rparr>" "Some (sample_opts True)"]
  by blast

end
