(* ===== verification/UtHash.thy ===== *)
theory UtHash
  imports Prelude "HOL-Library.Word"
begin

unbundle bit_operations_syntax

text \<open>
  The hash table of \<^verbatim>\<open>src/uthash.h\<close>, the part the program uses, with its pointers: the list of
  all elements in the order they were added (\<^verbatim>\<open>prev\<close>, \<^verbatim>\<open>next\<close>, \<^verbatim>\<open>tail\<close>), the chain of
  each bucket (\<^verbatim>\<open>hh_prev\<close>, \<^verbatim>\<open>hh_next\<close>), the doubling of the buckets, and Jenkins' hash
  function on 32-bit words. An address names an element, which is the same as its handle, and
  memory maps an address to its handle. The loops that follow pointers are partial functions.
  The counters stay far below \<^verbatim>\<open>2^32\<close> and are natural numbers; \<^verbatim>\<open>malloc\<close> of an array of
  buckets may fail, which ends the program.
\<close>

section \<open>Memory\<close>

type_synonym addr = nat

record ut_handle =
  hh_app_prev :: "addr option"
  hh_app_next :: "addr option"
  hh_prev :: "addr option"
  hh_next :: "addr option"
  hh_key :: bytes
  hh_hashv :: "32 word"

type_synonym ut_memory = "addr \<Rightarrow> ut_handle"

record ut_bucket =
  bk_head :: "addr option"
  bk_count :: nat
  bk_expand_mult :: nat

record ut_table =
  ut_buckets :: "ut_bucket list"
  ut_num_buckets :: nat
  ut_log2_num_buckets :: nat
  ut_num_items :: nat
  ut_tail :: addr
  ut_ideal_chain_maxlen :: nat
  ut_nonideal_items :: nat
  ut_ineff_expands :: nat
  ut_noexpand :: bool

record ut_hash =
  ut_mem :: ut_memory
  ut_head :: "addr option"
  ut_tbl :: ut_table

datatype 'a ut_run = Fatal | Done 'a

definition HASH_INITIAL_NUM_BUCKETS :: nat where "HASH_INITIAL_NUM_BUCKETS = 32"
definition HASH_INITIAL_NUM_BUCKETS_LOG2 :: nat where "HASH_INITIAL_NUM_BUCKETS_LOG2 = 5"
definition HASH_BKT_CAPACITY_THRESH :: nat where "HASH_BKT_CAPACITY_THRESH = 10"

section \<open>The hash function\<close>

definition key_byte :: "bytes \<Rightarrow> nat \<Rightarrow> 32 word" where
  "key_byte key n = of_nat (of_char (key ! n))"

definition key_word :: "bytes \<Rightarrow> nat \<Rightarrow> 32 word" where
  "key_word key n = key_byte key n + push_bit 8 (key_byte key (n + 1)) +
     push_bit 16 (key_byte key (n + 2)) + push_bit 24 (key_byte key (n + 3))"

definition jen_mix :: "32 word \<times> 32 word \<times> 32 word \<Rightarrow> 32 word \<times> 32 word \<times> 32 word" where
  "jen_mix abc =
     (let (a, b, c) = abc;
          a = (a - b - c) XOR drop_bit 13 c;
          b = (b - c - a) XOR push_bit 8 a;
          c = (c - a - b) XOR drop_bit 13 b;
          a = (a - b - c) XOR drop_bit 12 c;
          b = (b - c - a) XOR push_bit 16 a;
          c = (c - a - b) XOR drop_bit 5 b;
          a = (a - b - c) XOR drop_bit 3 c;
          b = (b - c - a) XOR push_bit 10 a;
          c = (c - a - b) XOR drop_bit 15 b
      in (a, b, c))"

function jen_loop ::
  "bytes \<Rightarrow> 32 word \<times> 32 word \<times> 32 word \<Rightarrow> bytes \<times> 32 word \<times> 32 word \<times> 32 word" where
  "jen_loop key abc =
     (if 12 \<le> length key then
        let (a, b, c) = abc
        in jen_loop (drop 12 key) (jen_mix (a + key_word key 0, b + key_word key 4, c + key_word key 8))
      else (key, abc))"
  by pat_completeness auto
termination by (relation "measure (\<lambda>(key, abc). length key)") auto

declare jen_loop.simps [simp del]

text \<open>A case of the switch that falls through: the byte counts when the rest is that long.\<close>

definition jen_byte :: "bytes \<Rightarrow> nat \<Rightarrow> nat \<Rightarrow> 32 word \<Rightarrow> 32 word" where
  "jen_byte rest n s x = (if n < length rest then x + push_bit s (key_byte rest n) else x)"

definition hash_jen :: "bytes \<Rightarrow> 32 word" where
  "hash_jen key =
     (let (rest, a, b, c) = jen_loop key (0x9e3779b9, 0x9e3779b9, 0xfeedbeef);
          c = jen_byte rest 8 8 (jen_byte rest 9 16 (jen_byte rest 10 24 (c + of_nat (length key))));
          b = jen_byte rest 4 0 (jen_byte rest 5 8 (jen_byte rest 6 16 (jen_byte rest 7 24 b)));
          a = jen_byte rest 0 0 (jen_byte rest 1 8 (jen_byte rest 2 16 (jen_byte rest 3 24 a)))
      in snd (snd (jen_mix (a, b, c))))"

definition to_bkt :: "32 word \<Rightarrow> nat \<Rightarrow> nat" where
  "to_bkt hashv num = unat (hashv AND (of_nat num - 1))"

section \<open>Finding\<close>

partial_function (option) find_in_bkt :: "ut_memory \<Rightarrow> bytes \<Rightarrow> 32 word \<Rightarrow> addr option \<Rightarrow> addr option option" where
  "find_in_bkt m key hashv out =
     (if out = None then Some None
      else
        let a = the out
        in if hh_hashv (m a) = hashv \<and> length (hh_key (m a)) = length key \<and> hh_key (m a) = key
           then Some (Some a)
           else find_in_bkt m key hashv (hh_next (m a)))"

definition hash_find :: "ut_hash \<Rightarrow> bytes \<Rightarrow> addr option option" where
  "hash_find u key =
     (case ut_head u of
        None \<Rightarrow> Some None
      | Some h \<Rightarrow>
          let hashv = hash_jen key;
              b = ut_buckets (ut_tbl u) ! to_bkt hashv (ut_num_buckets (ut_tbl u))
          in find_in_bkt (ut_mem u) key hashv (bk_head b))"

section \<open>Adding\<close>

definition bucket0 :: ut_bucket where
  "bucket0 = \<lparr>bk_head = None, bk_count = 0, bk_expand_mult = 0\<rparr>"

definition hash_make_table :: "addr \<Rightarrow> ut_table" where
  "hash_make_table a =
     \<lparr>ut_buckets = replicate HASH_INITIAL_NUM_BUCKETS bucket0, ut_num_buckets = HASH_INITIAL_NUM_BUCKETS,
      ut_log2_num_buckets = HASH_INITIAL_NUM_BUCKETS_LOG2, ut_num_items = 0, ut_tail = a,
      ut_ideal_chain_maxlen = 0, ut_nonideal_items = 0, ut_ineff_expands = 0, ut_noexpand = False\<rparr>"

definition hash_append_list :: "ut_memory \<Rightarrow> ut_table \<Rightarrow> addr \<Rightarrow> ut_memory \<times> ut_table" where
  "hash_append_list m t a =
     (let m1 = m(a := (m a)\<lparr>hh_app_next := None, hh_app_prev := Some (ut_tail t)\<rparr>);
          m2 = m1(ut_tail t := (m1 (ut_tail t))\<lparr>hh_app_next := Some a\<rparr>)
      in (m2, t\<lparr>ut_tail := a\<rparr>))"

text \<open>
  Putting an element at the front of a chain. \<open>push_chain\<close> is the part that adding and doubling
  have in common.
\<close>

definition push_chain :: "ut_memory \<Rightarrow> addr option \<Rightarrow> addr \<Rightarrow> ut_memory" where
  "push_chain m head a =
     (let m1 = m(a := (m a)\<lparr>hh_next := head, hh_prev := None\<rparr>)
      in case head of
           None \<Rightarrow> m1
         | Some d \<Rightarrow> m1(d := (m1 d)\<lparr>hh_prev := Some a\<rparr>))"

partial_function (option) move_chain ::
  "nat \<Rightarrow> nat \<Rightarrow> addr option \<Rightarrow> ut_memory \<times> ut_bucket list \<times> nat \<Rightarrow>
   (ut_memory \<times> ut_bucket list \<times> nat) option" where
  "move_chain num ideal thh st =
     (if thh = None then Some st
      else
        let a = the thh; m = fst st; bs = fst (snd st); nonideal = snd (snd st);
            nxt = hh_next (m a);
            i = to_bkt (hh_hashv (m a)) num;
            b = bs ! i;
            count = bk_count b + 1;
            over = ideal < count;
            mult = (if over \<and> bk_expand_mult b * ideal < count then bk_expand_mult b + 1 else bk_expand_mult b)
        in move_chain num ideal nxt
             (push_chain m (bk_head b) a,
              bs[i := \<lparr>bk_head = Some a, bk_count = count, bk_expand_mult = mult\<rparr>],
              if over then nonideal + 1 else nonideal))"

fun move_buckets ::
  "nat \<Rightarrow> nat \<Rightarrow> ut_bucket list \<Rightarrow> ut_memory \<times> ut_bucket list \<times> nat \<Rightarrow>
   (ut_memory \<times> ut_bucket list \<times> nat) option" where
  "move_buckets num ideal [] st = Some st"
| "move_buckets num ideal (b # bs) st =
     (case move_chain num ideal (bk_head b) st of
        None \<Rightarrow> None
      | Some st' \<Rightarrow> move_buckets num ideal bs st')"

text \<open>The doubling. \<open>can n\<close> says whether \<open>n\<close> buckets can be allocated.\<close>

definition hash_expand ::
  "(nat \<Rightarrow> bool) \<Rightarrow> ut_memory \<Rightarrow> ut_table \<Rightarrow> (ut_memory \<times> ut_table) ut_run option" where
  "hash_expand can m t =
     (let num = ut_num_buckets t * 2
      in if \<not> can num then Some Fatal
         else
           let ideal = drop_bit (ut_log2_num_buckets t + 1) (ut_num_items t) +
                 (if ut_num_items t AND (num - 1) \<noteq> 0 then 1 else 0)
           in case move_buckets num ideal (ut_buckets t) (m, replicate num bucket0, 0) of
                None \<Rightarrow> None
              | Some (m', bs, nonideal) \<Rightarrow>
                  let ineff = (if drop_bit 1 (ut_num_items t) < nonideal then ut_ineff_expands t + 1 else 0)
                  in Some (Done (m', t\<lparr>ut_buckets := bs, ut_num_buckets := num,
                       ut_log2_num_buckets := ut_log2_num_buckets t + 1, ut_ideal_chain_maxlen := ideal,
                       ut_nonideal_items := nonideal, ut_ineff_expands := ineff,
                       ut_noexpand := (ut_noexpand t \<or> 1 < ineff)\<rparr>)))"

definition hash_add_to_bkt ::
  "(nat \<Rightarrow> bool) \<Rightarrow> ut_memory \<Rightarrow> ut_table \<Rightarrow> nat \<Rightarrow> addr \<Rightarrow> (ut_memory \<times> ut_table) ut_run option" where
  "hash_add_to_bkt can m t i a =
     (let b = ut_buckets t ! i;
          b' = b\<lparr>bk_count := bk_count b + 1, bk_head := Some a\<rparr>;
          m' = push_chain m (bk_head b) a;
          t' = t\<lparr>ut_buckets := (ut_buckets t)[i := b']\<rparr>
      in if (bk_expand_mult b' + 1) * HASH_BKT_CAPACITY_THRESH \<le> bk_count b' \<and> \<not> ut_noexpand t'
         then hash_expand can m' t' else Some (Done (m', t')))"

text \<open>The element is counted and put into its bucket; \<open>head\<close> is the first element of the list by now.\<close>

definition hash_add_to_table ::
  "(nat \<Rightarrow> bool) \<Rightarrow> ut_memory \<Rightarrow> addr \<Rightarrow> ut_table \<Rightarrow> 32 word \<Rightarrow> addr \<Rightarrow> ut_hash ut_run option" where
  "hash_add_to_table can m head t hashv a =
     (let t1 = t\<lparr>ut_num_items := ut_num_items t + 1\<rparr>
      in case hash_add_to_bkt can m t1 (to_bkt hashv (ut_num_buckets t1)) a of
           None \<Rightarrow> None
         | Some Fatal \<Rightarrow> Some Fatal
         | Some (Done (m', t')) \<Rightarrow> Some (Done \<lparr>ut_mem = m', ut_head = Some head, ut_tbl = t'\<rparr>))"

definition new_key :: "ut_memory \<Rightarrow> addr \<Rightarrow> bytes \<Rightarrow> ut_memory" where
  "new_key m a key = m(a := (m a)\<lparr>hh_hashv := hash_jen key, hh_key := key\<rparr>)"

text \<open>The first element of a table, for which it is made.\<close>

definition hash_add_first :: "(nat \<Rightarrow> bool) \<Rightarrow> ut_hash \<Rightarrow> addr \<Rightarrow> bytes \<Rightarrow> ut_hash ut_run option" where
  "hash_add_first can u a key =
     (if \<not> can HASH_INITIAL_NUM_BUCKETS then Some Fatal
      else
        let m = new_key (ut_mem u) a key
        in hash_add_to_table can (m(a := (m a)\<lparr>hh_app_next := None, hh_app_prev := None\<rparr>)) a (hash_make_table a) (hash_jen key) a)"

definition hash_add :: "(nat \<Rightarrow> bool) \<Rightarrow> ut_hash \<Rightarrow> addr \<Rightarrow> bytes \<Rightarrow> ut_hash ut_run option" where
  "hash_add can u a key =
     (case ut_head u of
        None \<Rightarrow> hash_add_first can u a key
      | Some h \<Rightarrow>
          let (m, t) = hash_append_list (new_key (ut_mem u) a key) (ut_tbl u) a
          in hash_add_to_table can m h t (hash_jen key) a)"

section \<open>Deleting and iterating\<close>

definition hash_del_in_bkt :: "ut_memory \<Rightarrow> ut_bucket \<Rightarrow> addr \<Rightarrow> ut_memory \<times> ut_bucket" where
  "hash_del_in_bkt m b a =
     (let b1 = b\<lparr>bk_count := bk_count b - 1\<rparr>;
          b2 = (if bk_head b1 = Some a then b1\<lparr>bk_head := hh_next (m a)\<rparr> else b1);
          m1 = (case hh_prev (m a) of None \<Rightarrow> m | Some p \<Rightarrow> m(p := (m p)\<lparr>hh_next := hh_next (m a)\<rparr>));
          m2 = (case hh_next (m1 a) of None \<Rightarrow> m1 | Some n \<Rightarrow> m1(n := (m1 n)\<lparr>hh_prev := hh_prev (m1 a)\<rparr>))
      in (m2, b2))"

text \<open>Deleting the last element frees the table; what is left of it is never read.\<close>

definition hash_delete :: "ut_hash \<Rightarrow> addr \<Rightarrow> ut_hash" where
  "hash_delete u a =
     (let m = ut_mem u; t = ut_tbl u
      in if hh_app_prev (m a) = None \<and> hh_app_next (m a) = None then u\<lparr>ut_head := None\<rparr>
         else
           let t1 = (if a = ut_tail t then t\<lparr>ut_tail := the (hh_app_prev (m a))\<rparr> else t);
               (m1, head) = (case hh_app_prev (m a) of
                    Some p \<Rightarrow> (m(p := (m p)\<lparr>hh_app_next := hh_app_next (m a)\<rparr>), ut_head u)
                  | None \<Rightarrow> (m, hh_app_next (m a)));
               m2 = (case hh_app_next (m1 a) of
                    Some n \<Rightarrow> m1(n := (m1 n)\<lparr>hh_app_prev := hh_app_prev (m1 a)\<rparr>)
                  | None \<Rightarrow> m1);
               i = to_bkt (hh_hashv (m2 a)) (ut_num_buckets t1);
               (m3, b) = hash_del_in_bkt m2 (ut_buckets t1 ! i) a
           in \<lparr>ut_mem = m3, ut_head = head,
               ut_tbl = t1\<lparr>ut_buckets := (ut_buckets t1)[i := b], ut_num_items := ut_num_items t1 - 1\<rparr>\<rparr>)"

definition hash_count :: "ut_hash \<Rightarrow> nat" where
  "hash_count u = (case ut_head u of None \<Rightarrow> 0 | Some h \<Rightarrow> ut_num_items (ut_tbl u))"

text \<open>\<^verbatim>\<open>HASH_ITER\<close>: the elements it visits; and the loops that delete each element they visit.\<close>

partial_function (option) hash_iter :: "ut_memory \<Rightarrow> addr option \<Rightarrow> addr list option" where
  "hash_iter m el =
     (if el = None then Some []
      else Option.bind (hash_iter m (hh_app_next (m (the el)))) (\<lambda>xs. Some (the el # xs)))"

partial_function (option) hash_drain :: "ut_hash \<Rightarrow> addr option \<Rightarrow> (addr list \<times> ut_hash) option" where
  "hash_drain u el =
     (if el = None then Some ([], u)
      else
        let tmp = hh_app_next (ut_mem u (the el))
        in Option.bind (hash_drain (hash_delete u (the el)) tmp) (\<lambda>(xs, u'). Some (the el # xs, u')))"

declare find_in_bkt.simps [code] move_chain.simps [code] hash_iter.simps [code] hash_drain.simps [code]

end
