(* ===== verification/UtPointers.thy ===== *)
theory UtPointers
  imports UtHash
begin

text \<open>
  What the pointers of the hash table keep: the list of all elements in the order they were added
  and the chain of every bucket are doubly linked, the element is in the chain of its hash value,
  and the counts are right. Every operation is shown to be the operation on the list of elements,
  the loops that follow pointers end, and a doubling of the buckets changes nothing that can be seen.
\<close>

section \<open>Doubly linked lists\<close>

text \<open>
  \<open>linked n p q xs r\<close>: following \<open>n\<close> from the head of \<open>xs\<close> goes through \<open>xs\<close> and
  ends at \<open>r\<close>, and \<open>p\<close> goes back to \<open>q\<close>.
\<close>

definition first :: "'a list \<Rightarrow> 'a option \<Rightarrow> 'a option" where
  "first xs r = (case xs of [] \<Rightarrow> r | x # _ \<Rightarrow> Some x)"

definition final :: "'a list \<Rightarrow> 'a option \<Rightarrow> 'a option" where
  "final xs q = (if xs = [] then q else Some (last xs))"

lemma first_simps [simp]:
  "first [] r = r" "first (x # xs) r = Some x" "first (xs @ ys) r = first xs (first ys r)"
  by (simp_all add: first_def split: list.split)

lemma final_simps [simp]:
  "final [] q = q" "final (x # xs) q = final xs (Some x)" "final (xs @ ys) q = final ys (final xs q)"
  by (simp_all add: final_def)

lemma first_None [simp]: "first xs None = None \<longleftrightarrow> xs = []"
  by (cases xs) simp_all

lemma first_Some: "first xs None = Some x \<longleftrightarrow> (\<exists>ys. xs = x # ys)"
  by (cases xs) auto

lemma final_Some: "xs \<noteq> [] \<Longrightarrow> final xs q = Some (last xs)"
  by (simp add: final_def)

lemma final_None [simp]: "final xs None = None \<longleftrightarrow> xs = []"
  by (simp add: final_def)

fun linked :: "('a \<Rightarrow> 'a option) \<Rightarrow> ('a \<Rightarrow> 'a option) \<Rightarrow> 'a option \<Rightarrow> 'a list \<Rightarrow> 'a option \<Rightarrow> bool" where
  "linked n p q [] r \<longleftrightarrow> True"
| "linked n p q (x # xs) r \<longleftrightarrow> p x = q \<and> n x = first xs r \<and> linked n p (Some x) xs r"

lemma linked_append [simp]:
  "linked n p q (xs @ ys) r \<longleftrightarrow> linked n p q xs (first ys r) \<and> linked n p (final xs q) ys r"
  by (induction xs arbitrary: q) auto

lemma linked_cong:
  "(\<And>x. x \<in> set xs \<Longrightarrow> n x = n' x \<and> p x = p' x) \<Longrightarrow> linked n p q xs r = linked n' p' q xs r"
  by (induction xs arbitrary: q) auto

lemma linked_frame:
  "linked n p q xs r \<Longrightarrow> (\<And>x. x \<in> set xs \<Longrightarrow> n' x = n x \<and> p' x = p x) \<Longrightarrow> linked n' p' q xs r"
  using linked_cong [of xs n n' p p'] by simp

text \<open>The end of a list may be redirected.\<close>

lemma linked_retarget:
  "distinct xs \<Longrightarrow> xs \<noteq> [] \<Longrightarrow> linked n p q xs r \<Longrightarrow> linked (n(last xs := r')) p q xs r'"
proof (induction xs arbitrary: q)
  case (Cons x xs)
  then show ?case by (cases xs) auto
qed simp

lemma linked_rehead:
  "distinct (x # xs) \<Longrightarrow> linked n p q (x # xs) r \<Longrightarrow> linked n (p(x := q')) q' (x # xs) r"
  by (auto elim: linked_frame)

section \<open>Buckets\<close>

abbreviation app_linked :: "ut_memory \<Rightarrow> addr list \<Rightarrow> bool" where
  "app_linked m xs \<equiv> linked (\<lambda>a. hh_app_next (m a)) (\<lambda>a. hh_app_prev (m a)) None xs None"

abbreviation chain_linked :: "ut_memory \<Rightarrow> addr list \<Rightarrow> bool" where
  "chain_linked m xs \<equiv> linked (\<lambda>a. hh_next (m a)) (\<lambda>a. hh_prev (m a)) None xs None"

definition bucket_ok :: "ut_memory \<Rightarrow> ut_bucket \<Rightarrow> addr list \<Rightarrow> bool" where
  "bucket_ok m b xs \<longleftrightarrow> bk_head b = first xs None \<and> bk_count b = length xs \<and> distinct xs \<and> chain_linked m xs"

text \<open>Changes of the chain pointers only.\<close>

definition same_rest :: "ut_handle \<Rightarrow> ut_handle \<Rightarrow> bool" where
  "same_rest h h' \<longleftrightarrow> hh_app_next h' = hh_app_next h \<and> hh_app_prev h' = hh_app_prev h \<and>
     hh_key h' = hh_key h \<and> hh_hashv h' = hh_hashv h"

definition chain_frame :: "addr set \<Rightarrow> ut_memory \<Rightarrow> ut_memory \<Rightarrow> bool" where
  "chain_frame A m m' \<longleftrightarrow> (\<forall>a. same_rest (m a) (m' a)) \<and> (\<forall>a. a \<notin> A \<longrightarrow> m' a = m a)"

lemma chain_frameD:
  assumes "chain_frame A m m'"
  shows "hh_app_next (m' a) = hh_app_next (m a)" "hh_app_prev (m' a) = hh_app_prev (m a)"
    "hh_key (m' a) = hh_key (m a)" "hh_hashv (m' a) = hh_hashv (m a)" "a \<notin> A \<Longrightarrow> m' a = m a"
  using assms by (auto simp: chain_frame_def same_rest_def)

lemma chain_frame_refl: "chain_frame A m m"
  by (simp add: chain_frame_def same_rest_def)

lemma chain_frame_trans: "chain_frame A m m' \<Longrightarrow> chain_frame B m' m'' \<Longrightarrow> chain_frame (A \<union> B) m m''"
  by (auto simp: chain_frame_def same_rest_def)

lemma chain_frame_mono: "chain_frame A m m' \<Longrightarrow> A \<subseteq> B \<Longrightarrow> chain_frame B m m'"
  unfolding chain_frame_def by blast

lemma push_chain_frame: "chain_frame (insert a (set_option h)) m (push_chain m h a)"
  by (cases h) (auto simp: chain_frame_def same_rest_def push_chain_def)

lemma bucket_ok_frame:
  assumes "bucket_ok m b xs" "chain_frame A m m'" "set xs \<inter> A = {}"
  shows "bucket_ok m' b xs"
proof -
  have "linked (\<lambda>a. hh_next (m' a)) (\<lambda>a. hh_prev (m' a)) None xs None = chain_linked m xs"
    by (rule linked_cong) (use assms(2,3) chain_frameD(5) in \<open>metis disjoint_iff\<close>)
  with assms(1) show ?thesis by (simp add: bucket_ok_def)
qed

lemma bucket_ok_push:
  assumes "bucket_ok m b xs" "a \<notin> set xs"
  shows "bucket_ok (push_chain m (bk_head b) a) \<lparr>bk_head = Some a, bk_count = bk_count b + 1, bk_expand_mult = e\<rparr> (a # xs)"
proof (cases xs)
  case Nil
  with assms show ?thesis by (simp add: bucket_ok_def push_chain_def)
next
  case (Cons x ys)
  let ?m = "push_chain m (bk_head b) a"
  have h: "bk_head b = Some x" and d: "distinct (x # ys)" and l: "chain_linked m (x # ys)" and "x \<noteq> a" "a \<notin> set ys"
    using assms Cons by (auto simp: bucket_ok_def)
  then have "linked (\<lambda>a. hh_next (?m a)) (\<lambda>a. hh_prev (?m a)) (Some x) ys None"
    by (auto simp: push_chain_def elim!: linked_frame)
  with h d l \<open>x \<noteq> a\<close> \<open>a \<notin> set ys\<close> assms(1) Cons show ?thesis
    by (simp add: bucket_ok_def push_chain_def)
qed

lemma bucket_head_in: "bucket_ok m b xs \<Longrightarrow> set_option (bk_head b) \<subseteq> set xs"
  by (cases xs) (auto simp: bucket_ok_def)

text \<open>The buckets hold the elements of \<open>A\<close>, each in the bucket of its hash value.\<close>

definition buckets_ok :: "ut_memory \<Rightarrow> nat \<Rightarrow> ut_bucket list \<Rightarrow> addr set \<Rightarrow> bool" where
  "buckets_ok m num bs A \<longleftrightarrow> length bs = num \<and>
     (\<forall>i<num. \<exists>xs. bucket_ok m (bs ! i) xs \<and> set xs = {a \<in> A. to_bkt (hh_hashv (m a)) num = i})"

lemma buckets_okE:
  assumes "buckets_ok m num bs A" "i < num"
  obtains xs where "bucket_ok m (bs ! i) xs" "set xs = {a \<in> A. to_bkt (hh_hashv (m a)) num = i}"
  using assms by (auto simp: buckets_ok_def)

lemma buckets_ok_empty: "buckets_ok m num (replicate num bucket0) {}"
  by (auto simp: buckets_ok_def bucket_ok_def bucket0_def)

lemma buckets_ok_push:
  assumes b: "buckets_ok m num bs A" "a \<notin> A" and i: "i = to_bkt (hh_hashv (m a)) num" "i < num"
  shows "buckets_ok (push_chain m (bk_head (bs ! i)) a) num
    (bs[i := \<lparr>bk_head = Some a, bk_count = bk_count (bs ! i) + 1, bk_expand_mult = e\<rparr>]) (insert a A)"
  unfolding buckets_ok_def
proof (intro conjI allI impI)
  let ?m = "push_chain m (bk_head (bs ! i)) a"
  let ?bs = "bs[i := \<lparr>bk_head = Some a, bk_count = bk_count (bs ! i) + 1, bk_expand_mult = e\<rparr>]"
  show "length ?bs = num" using b by (simp add: buckets_ok_def)
  note f = push_chain_frame [of a "bk_head (bs ! i)" m]
  obtain ys where ys: "bucket_ok m (bs ! i) ys" "set ys = {a \<in> A. to_bkt (hh_hashv (m a)) num = i}"
    using buckets_okE [OF b(1) i(2)] .
  fix j assume j: "j < num"
  show "\<exists>xs. bucket_ok ?m (?bs ! j) xs \<and> set xs = {x \<in> insert a A. to_bkt (hh_hashv (?m x)) num = j}"
  proof (cases "j = i")
    case True
    have "a \<notin> set ys" using ys(2) b(2) by simp
    from bucket_ok_push [OF ys(1) this, of e] show ?thesis
      using True ys(2) i b(1) chain_frameD(4) [OF f] by (intro exI [of _ "a # ys"]) (auto simp: buckets_ok_def)
  next
    case False
    obtain xs where xs: "bucket_ok m (bs ! j) xs" "set xs = {a \<in> A. to_bkt (hh_hashv (m a)) num = j}"
      using buckets_okE [OF b(1) j] .
    have "set xs \<inter> insert a (set_option (bk_head (bs ! i))) = {}"
      using bucket_head_in [OF ys(1)] ys(2) xs(2) b(2) False by auto
    from bucket_ok_frame [OF xs(1) f this] show ?thesis
      using False xs(2) i chain_frameD(4) [OF f] by (intro exI [of _ xs]) auto
  qed
qed

lemma first_linked: "linked n p q (x # xs) None \<Longrightarrow> n x = first xs None"
  by simp

lemma move_chain_spec:
  assumes "linked (\<lambda>a. hh_next (m a)) (\<lambda>a. hh_prev (m a)) q c None" "distinct c"
    and "buckets_ok m num bs A" "A \<inter> set c = {}" "\<And>w. to_bkt w num < num"
  shows "\<exists>m' bs' non'. move_chain num ideal (first c None) (m, bs, non) = Some (m', bs', non') \<and>
    buckets_ok m' num bs' (A \<union> set c) \<and> chain_frame (A \<union> set c) m m'"
  using assms(1-4)
proof (induction c arbitrary: m bs non A q)
  case Nil
  then show ?case by (simp add: move_chain.simps chain_frame_refl)
next
  case (Cons a c)
  define i where "i = to_bkt (hh_hashv (m a)) num"
  have i: "i < num" using assms(5) by (simp add: i_def)
  let ?h = "bk_head (bs ! i)" and ?count = "bk_count (bs ! i) + 1"
  define mult where "mult = (if ideal < ?count \<and> bk_expand_mult (bs ! i) * ideal < ?count
    then bk_expand_mult (bs ! i) + 1 else bk_expand_mult (bs ! i))"
  let ?m = "push_chain m ?h a"
  let ?bs = "bs[i := \<lparr>bk_head = Some a, bk_count = ?count, bk_expand_mult = mult\<rparr>]"
  let ?non = "if ideal < ?count then non + 1 else non"
  have a: "a \<notin> A" "a \<notin> set c" using Cons.prems by auto
  obtain ys where ys: "bucket_ok m (bs ! i) ys" "set ys = {a \<in> A. to_bkt (hh_hashv (m a)) num = i}"
    using buckets_okE [OF Cons.prems(3) i] .
  have h: "set_option ?h \<subseteq> A" using bucket_head_in [OF ys(1)] ys(2) by auto
  note f = push_chain_frame [of a ?h m]
  have step: "move_chain num ideal (first (a # c) None) (m, bs, non) = move_chain num ideal (first c None) (?m, ?bs, ?non)"
    using Cons.prems(1) by (simp add: move_chain.simps [of num ideal "Some a"] Let_def i_def mult_def)
  have "linked (\<lambda>a. hh_next (?m a)) (\<lambda>a. hh_prev (?m a)) (Some a) c None"
  proof (rule linked_frame)
    show "linked (\<lambda>a. hh_next (m a)) (\<lambda>a. hh_prev (m a)) (Some a) c None" using Cons.prems(1) by simp
    show "hh_next (?m x) = hh_next (m x) \<and> hh_prev (?m x) = hh_prev (m x)" if "x \<in> set c" for x
    proof -
      have "x \<notin> insert a (set_option ?h)" using that a(2) h Cons.prems(4) by (simp only: list.set insert_iff) blast
      from chain_frameD(5) [OF f this] show ?thesis by simp
    qed
  qed
  moreover have "buckets_ok ?m num ?bs (insert a A)"
    using buckets_ok_push [OF Cons.prems(3) a(1)] i by (simp add: i_def)
  ultimately obtain m' bs' non' where r:
    "move_chain num ideal (first c None) (?m, ?bs, ?non) = Some (m', bs', non')"
    "buckets_ok m' num bs' (insert a A \<union> set c)" "chain_frame (insert a A \<union> set c) ?m m'"
    using Cons.IH [of ?m "Some a" ?bs "insert a A" ?non] Cons.prems(2,4) a by auto
  have "insert a (set_option ?h) \<union> (insert a A \<union> set c) \<subseteq> A \<union> set (a # c)" using h by auto
  with chain_frame_trans [OF f r(3)] have "chain_frame (A \<union> set (a # c)) m m'" by (rule chain_frame_mono)
  moreover have "insert a A \<union> set c = A \<union> set (a # c)" by simp
  ultimately show ?case using r(1,2) unfolding step by metis
qed

lemma move_buckets_spec:
  assumes "list_all2 (bucket_ok m) os cs" "distinct (concat cs)"
    and "buckets_ok m num bs A" "A \<inter> set (concat cs) = {}" "\<And>w. to_bkt w num < num"
  shows "\<exists>m' bs' non'. move_buckets num ideal os (m, bs, non) = Some (m', bs', non') \<and>
    buckets_ok m' num bs' (A \<union> set (concat cs)) \<and> chain_frame (A \<union> set (concat cs)) m m'"
  using assms(1-4)
proof (induction cs arbitrary: os m bs non A rule: list.induct)
  case Nil
  have "os = []" using Nil.prems(1) by simp
  then show ?case using Nil.prems(3) chain_frame_refl [of A m] by simp
next
  case (Cons c cs)
  from Cons.prems(1) obtain b os' where os: "os = b # os'" "bucket_ok m b c" "list_all2 (bucket_ok m) os' cs"
    by (auto simp: list_all2_Cons2)
  then have c: "bk_head b = first c None" "chain_linked m c" "distinct c"
    by (auto simp: bucket_ok_def)
  obtain m1 bs1 non1 where r1: "move_chain num ideal (bk_head b) (m, bs, non) = Some (m1, bs1, non1)"
      "buckets_ok m1 num bs1 (A \<union> set c)" "chain_frame (A \<union> set c) m m1"
    using move_chain_spec [OF c(2,3) Cons.prems(3) _ assms(5), of ideal non] Cons.prems(4) c(1) by auto
  have d: "distinct (concat cs)" "(A \<union> set c) \<inter> set (concat cs) = {}" using Cons.prems(2,4) by auto
  have "list_all2 (bucket_ok m1) os' cs"
    using os(3)
  proof (rule list.rel_mono_strong)
    fix z xs assume "xs \<in> set cs" and "bucket_ok m z xs"
    have "set xs \<inter> (A \<union> set c) = {}" using d(2) \<open>xs \<in> set cs\<close> by auto
    with \<open>bucket_ok m z xs\<close> r1(3) show "bucket_ok m1 z xs" by (rule bucket_ok_frame)
  qed
  from Cons.IH [OF this d(1) r1(2) d(2), of non1] obtain m' bs' non' where r:
    "move_buckets num ideal os' (m1, bs1, non1) = Some (m', bs', non')"
    "buckets_ok m' num bs' (A \<union> set c \<union> set (concat cs))" "chain_frame (A \<union> set c \<union> set (concat cs)) m1 m'"
    by blast
  have "A \<union> set c \<union> set (concat cs) = A \<union> set (concat (c # cs))" by auto
  moreover have "chain_frame (A \<union> set (concat (c # cs))) m m'"
    by (rule chain_frame_mono [OF chain_frame_trans [OF r1(3) r(3)]]) auto
  moreover have "move_buckets num ideal os (m, bs, non) = Some (m', bs', non')" using r(1) r1(1) by (simp add: os(1))
  ultimately show ?case using r(2) by metis
qed

lemma buckets_ok_chains:
  assumes "buckets_ok m num bs A" "\<And>w. to_bkt w num < num"
  obtains cs where "list_all2 (bucket_ok m) bs cs" "distinct (concat cs)" "set (concat cs) = A"
proof -
  obtain f where f: "\<And>i. i < num \<Longrightarrow> bucket_ok m (bs ! i) (f i) \<and> set (f i) = {a \<in> A. to_bkt (hh_hashv (m a)) num = i}"
    using assms(1) unfolding buckets_ok_def by metis
  define cs where "cs = map f [0..<num]"
  have len: "length bs = num" using assms(1) by (simp add: buckets_ok_def)
  then have "list_all2 (bucket_ok m) bs cs" using f by (auto simp: cs_def list_all2_conv_all_nth)
  moreover have "distinct (concat (map f [0..<k])) \<and> set (concat (map f [0..<k])) = {a \<in> A. to_bkt (hh_hashv (m a)) num < k}"
    if "k \<le> num" for k
    using that
  proof (induction k)
    case (Suc k)
    then show ?case using f [of k] by (auto simp: bucket_ok_def less_Suc_eq)
  qed simp
  from this [of num] have "distinct (concat cs)" "set (concat cs) = A" using assms(2) by (auto simp: cs_def)
  ultimately show thesis by (rule that)
qed

text \<open>The number of buckets is a power of two, so the mask of \<open>to_bkt\<close> gives an index.\<close>

lemma to_bkt_less: "k \<le> 31 \<Longrightarrow> to_bkt w (2 ^ k) < 2 ^ k"
proof -
  assume "k \<le> 31"
  have "w AND (of_nat (2 ^ k) - 1) = take_bit k w"
    by (simp add: take_bit_eq_mask mask_eq_exp_minus_1)
  moreover have "unat (take_bit k w) < 2 ^ k"
    by (metis take_bit_nat_less_exp unsigned_take_bit_eq)
  ultimately show ?thesis by (simp add: to_bkt_def)
qed

definition table_sizes_ok :: "ut_table \<Rightarrow> bool" where
  "table_sizes_ok t \<longleftrightarrow> ut_num_buckets t = 2 ^ ut_log2_num_buckets t \<and> ut_log2_num_buckets t \<le> 31"

definition alloc_limit :: "(nat \<Rightarrow> bool) \<Rightarrow> bool" where
  "alloc_limit can \<longleftrightarrow> (\<forall>n. can n \<longrightarrow> n \<le> 2 ^ 31)"

lemma hash_expand_spec:
  assumes "buckets_ok m (ut_num_buckets t) (ut_buckets t) A" "table_sizes_ok t" "alloc_limit can"
  shows "\<not> can (ut_num_buckets t * 2) \<and> hash_expand can m t = Some Fatal \<or>
    (\<exists>m' t'. hash_expand can m t = Some (Done (m', t')) \<and> table_sizes_ok t' \<and>
      buckets_ok m' (ut_num_buckets t') (ut_buckets t') A \<and> chain_frame A m m' \<and>
      ut_num_items t' = ut_num_items t \<and> ut_tail t' = ut_tail t)"
proof (cases "can (ut_num_buckets t * 2)")
  case True
  let ?k = "ut_log2_num_buckets t" and ?num = "ut_num_buckets t * 2"
  have k: "ut_num_buckets t = 2 ^ ?k" "?k \<le> 31" using assms(2) by (auto simp: table_sizes_ok_def)
  have "(2::nat) ^ Suc ?k \<le> 2 ^ 31" using True assms(3) k(1) by (auto simp: alloc_limit_def)
  then have k': "Suc ?k \<le> 31" by (simp only: power_increasing_iff)
  have num: "?num = 2 ^ Suc ?k" using k by simp
  obtain cs where cs: "list_all2 (bucket_ok m) (ut_buckets t) cs" "distinct (concat cs)" "set (concat cs) = A"
    using buckets_ok_chains [OF assms(1)] to_bkt_less [OF k(2)] k(1) by metis
  define ideal where "ideal = drop_bit (?k + 1) (ut_num_items t) + (if ut_num_items t AND (?num - 1) \<noteq> 0 then 1 else 0)"
  have "\<exists>m' bs' non'. move_buckets ?num ideal (ut_buckets t) (m, replicate ?num bucket0, 0) = Some (m', bs', non') \<and>
      buckets_ok m' ?num bs' ({} \<union> set (concat cs)) \<and> chain_frame ({} \<union> set (concat cs)) m m'"
    using to_bkt_less [OF k'] unfolding num
    by (intro move_buckets_spec [OF cs(1,2) buckets_ok_empty]) simp_all
  then obtain m' bs' non' where r: "move_buckets ?num ideal (ut_buckets t) (m, replicate ?num bucket0, 0) = Some (m', bs', non')"
      "buckets_ok m' ?num bs' A" "chain_frame A m m'"
    unfolding cs(3) by auto
  define ineff where "ineff = (if drop_bit 1 (ut_num_items t) < non' then ut_ineff_expands t + 1 else 0)"
  have "hash_expand can m t = Some (Done (m', t\<lparr>ut_buckets := bs', ut_num_buckets := ?num,
      ut_log2_num_buckets := ?k + 1, ut_ideal_chain_maxlen := ideal, ut_nonideal_items := non',
      ut_ineff_expands := ineff, ut_noexpand := (ut_noexpand t \<or> 1 < ineff)\<rparr>))"
    using True by (simp only: hash_expand_def Let_def not_True_eq_False if_False ideal_def [symmetric] r(1)
        option.case prod.case ineff_def [symmetric] if_True)
  then show ?thesis using r(2,3) k k' by (simp add: table_sizes_ok_def)
next
  case False
  then show ?thesis by (simp add: hash_expand_def)
qed

section \<open>The table\<close>

definition hash_ok :: "ut_hash \<Rightarrow> addr list \<Rightarrow> bool" where
  "hash_ok u as \<longleftrightarrow> ut_head u = first as None \<and> distinct as \<and> app_linked (ut_mem u) as \<and>
     (\<forall>a\<in>set as. hh_hashv (ut_mem u a) = hash_jen (hh_key (ut_mem u a))) \<and>
     (as \<noteq> [] \<longrightarrow> ut_tail (ut_tbl u) = last as \<and> ut_num_items (ut_tbl u) = length as \<and>
        table_sizes_ok (ut_tbl u) \<and>
        buckets_ok (ut_mem u) (ut_num_buckets (ut_tbl u)) (ut_buckets (ut_tbl u)) (set as))"

lemma buckets_ok_frame:
  assumes "buckets_ok m num bs A"
    and "\<And>x. x \<in> A \<Longrightarrow> hh_next (m' x) = hh_next (m x) \<and> hh_prev (m' x) = hh_prev (m x) \<and> hh_hashv (m' x) = hh_hashv (m x)"
  shows "buckets_ok m' num bs A"
  unfolding buckets_ok_def
proof (intro conjI allI impI)
  show "length bs = num" using assms(1) by (simp add: buckets_ok_def)
  fix i assume "i < num"
  with assms(1) obtain xs where xs: "bucket_ok m (bs ! i) xs" "set xs = {a \<in> A. to_bkt (hh_hashv (m a)) num = i}"
    by (rule buckets_okE)
  have "chain_linked m' xs"
    by (rule linked_frame [of "\<lambda>a. hh_next (m a)" "\<lambda>a. hh_prev (m a)"]) (use xs assms(2) in \<open>auto simp: bucket_ok_def\<close>)
  then have "bucket_ok m' (bs ! i) xs" using xs(1) by (simp add: bucket_ok_def)
  moreover have "set xs = {a \<in> A. to_bkt (hh_hashv (m' a)) num = i}" using xs(2) assms(2) by auto
  ultimately show "\<exists>xs. bucket_ok m' (bs ! i) xs \<and> set xs = {a \<in> A. to_bkt (hh_hashv (m' a)) num = i}" by blast
qed

lemma sizes_bkt: "table_sizes_ok t \<Longrightarrow> to_bkt w (ut_num_buckets t) < ut_num_buckets t"
  by (auto simp: table_sizes_ok_def intro: to_bkt_less)

text \<open>Finding.\<close>

lemma find_in_bkt_spec:
  assumes "linked (\<lambda>a. hh_next (m a)) (\<lambda>a. hh_prev (m a)) q c None"
    and "\<And>a. a \<in> set c \<Longrightarrow> hh_key (m a) = key \<Longrightarrow> hh_hashv (m a) = hv"
  shows "\<exists>r. find_in_bkt m key hv (first c None) = Some r \<and>
    (case r of None \<Rightarrow> \<forall>a\<in>set c. hh_key (m a) \<noteq> key | Some a \<Rightarrow> a \<in> set c \<and> hh_key (m a) = key)"
  using assms
proof (induction c arbitrary: q)
  case Nil
  then show ?case by (simp add: find_in_bkt.simps)
next
  case (Cons a c)
  show ?case
  proof (cases "hh_key (m a) = key")
    case True
    with Cons.prems(2) show ?thesis by (simp add: find_in_bkt.simps [of m key hv "Some a"])
  next
    case False
    then have "find_in_bkt m key hv (first (a # c) None) = find_in_bkt m key hv (first c None)"
      using Cons.prems(1) by (simp add: find_in_bkt.simps [of m key hv "Some a"])
    moreover obtain r where "find_in_bkt m key hv (first c None) = Some r"
      "case r of None \<Rightarrow> \<forall>a\<in>set c. hh_key (m a) \<noteq> key | Some a \<Rightarrow> a \<in> set c \<and> hh_key (m a) = key"
      using Cons.IH [of "Some a"] Cons.prems by auto
    ultimately show ?thesis using False by (auto split: option.splits)
  qed
qed

lemma hash_find_spec:
  assumes "hash_ok u as"
  shows "\<exists>r. hash_find u key = Some r \<and>
    (case r of None \<Rightarrow> \<forall>a\<in>set as. hh_key (ut_mem u a) \<noteq> key
     | Some a \<Rightarrow> a \<in> set as \<and> hh_key (ut_mem u a) = key)"
proof (cases as)
  case Nil
  with assms show ?thesis by (simp add: hash_ok_def hash_find_def)
next
  case (Cons h hs)
  let ?t = "ut_tbl u" and ?m = "ut_mem u"
  let ?i = "to_bkt (hash_jen key) (ut_num_buckets ?t)"
  have ok: "table_sizes_ok ?t" "buckets_ok ?m (ut_num_buckets ?t) (ut_buckets ?t) (set as)" "ut_head u = Some h"
    and hv: "\<And>a. a \<in> set as \<Longrightarrow> hh_hashv (?m a) = hash_jen (hh_key (?m a))"
    using assms Cons by (auto simp: hash_ok_def)
  obtain c where c: "bucket_ok ?m (ut_buckets ?t ! ?i) c"
      "set c = {a \<in> set as. to_bkt (hh_hashv (?m a)) (ut_num_buckets ?t) = ?i}"
    using buckets_okE [OF ok(2) sizes_bkt [OF ok(1)]] .
  have "\<exists>r. find_in_bkt ?m key (hash_jen key) (first c None) = Some r \<and>
    (case r of None \<Rightarrow> \<forall>a\<in>set c. hh_key (?m a) \<noteq> key | Some a \<Rightarrow> a \<in> set c \<and> hh_key (?m a) = key)"
    by (rule find_in_bkt_spec [of _ None]) (use c hv in \<open>auto simp: bucket_ok_def\<close>)
  then obtain r where r: "find_in_bkt ?m key (hash_jen key) (first c None) = Some r"
    "case r of None \<Rightarrow> \<forall>a\<in>set c. hh_key (?m a) \<noteq> key | Some a \<Rightarrow> a \<in> set c \<and> hh_key (?m a) = key" by blast
  have "hash_find u key = Some r" using r(1) ok(3) c(1) by (simp add: hash_find_def bucket_ok_def)
  moreover have "a \<in> set c \<longleftrightarrow> a \<in> set as" if "hh_key (?m a) = key" for a
    using that hv [of a] unfolding c(2) by auto
  then have "case r of None \<Rightarrow> \<forall>a\<in>set as. hh_key (?m a) \<noteq> key | Some a \<Rightarrow> a \<in> set as \<and> hh_key (?m a) = key"
    using r(2) by (auto split: option.splits)
  ultimately show ?thesis by blast
qed

text \<open>Adding.\<close>

lemma bucket_count_le:
  assumes "buckets_ok m num bs A" "i < num" "finite A"
  shows "bk_count (bs ! i) \<le> card A"
proof -
  obtain xs where xs: "bucket_ok m (bs ! i) xs" "set xs = {a \<in> A. to_bkt (hh_hashv (m a)) num = i}"
    using buckets_okE [OF assms(1,2)] .
  then have "bk_count (bs ! i) = card (set xs)" using distinct_card [of xs] by (simp only: bucket_ok_def)
  also have "\<dots> \<le> card A" using xs(2) by (intro card_mono [OF assms(3)]) auto
  finally show ?thesis .
qed

lemma hash_add_to_bkt_spec:
  assumes "buckets_ok m (ut_num_buckets t) (ut_buckets t) A" "a \<notin> A" "table_sizes_ok t" "alloc_limit can"
    and "i = to_bkt (hh_hashv (m a)) (ut_num_buckets t)" and fin: "finite A"
  shows "HASH_BKT_CAPACITY_THRESH \<le> card A + 1 \<and> hash_add_to_bkt can m t i a = Some Fatal \<or>
    (\<exists>m' t'. hash_add_to_bkt can m t i a = Some (Done (m', t')) \<and> table_sizes_ok t' \<and>
      buckets_ok m' (ut_num_buckets t') (ut_buckets t') (insert a A) \<and> chain_frame (insert a A) m m' \<and>
      ut_num_items t' = ut_num_items t \<and> ut_tail t' = ut_tail t)"
proof -
  have i: "i < ut_num_buckets t" using sizes_bkt [OF assms(3)] by (simp add: assms(5))
  let ?b = "ut_buckets t ! i"
  define b' where "b' = ?b\<lparr>bk_count := bk_count ?b + 1, bk_head := Some a\<rparr>"
  define m' where "m' = push_chain m (bk_head ?b) a"
  define t' where "t' = t\<lparr>ut_buckets := (ut_buckets t)[i := b']\<rparr>"
  have "b' = \<lparr>bk_head = Some a, bk_count = bk_count ?b + 1, bk_expand_mult = bk_expand_mult ?b\<rparr>" by (simp add: b'_def)
  then have p: "buckets_ok m' (ut_num_buckets t') (ut_buckets t') (insert a A)"
    using buckets_ok_push [OF assms(1,2,5) i, of "bk_expand_mult ?b"] by (simp add: m'_def t'_def)
  obtain xs where "bucket_ok m ?b xs" "set xs = {a \<in> A. to_bkt (hh_hashv (m a)) (ut_num_buckets t) = i}"
    using buckets_okE [OF assms(1) i] .
  then have "insert a (set_option (bk_head ?b)) \<subseteq> insert a A" using bucket_head_in by blast
  with push_chain_frame have f: "chain_frame (insert a A) m m'" unfolding m'_def by (rule chain_frame_mono)
  have s: "table_sizes_ok t'" "ut_num_items t' = ut_num_items t" "ut_tail t' = ut_tail t"
    using assms(3) by (simp_all add: t'_def table_sizes_ok_def)
  have eq: "hash_add_to_bkt can m t i a =
      (if (bk_expand_mult b' + 1) * HASH_BKT_CAPACITY_THRESH \<le> bk_count b' \<and> \<not> ut_noexpand t'
       then hash_expand can m' t' else Some (Done (m', t')))"
    by (simp add: hash_add_to_bkt_def Let_def b'_def m'_def t'_def)
  show ?thesis
  proof (cases "(bk_expand_mult b' + 1) * HASH_BKT_CAPACITY_THRESH \<le> bk_count b' \<and> \<not> ut_noexpand t'")
    case False
    then have "hash_add_to_bkt can m t i a = Some (Done (m', t'))" unfolding eq by (simp only: if_False)
    with p f s show ?thesis by blast
  next
    case True
    then have e: "hash_add_to_bkt can m t i a = hash_expand can m' t'" unfolding eq by (simp only: simp_thms if_True)
    from hash_expand_spec [OF p s(1) assms(4)] show ?thesis
    proof
      assume "\<not> can (ut_num_buckets t' * 2) \<and> hash_expand can m' t' = Some Fatal"
      moreover have "bk_count b' \<le> card A + 1"
        using bucket_count_le [OF assms(1) i fin] by (simp add: b'_def)
      moreover have "HASH_BKT_CAPACITY_THRESH \<le> bk_count b'"
        using True le_trans [of HASH_BKT_CAPACITY_THRESH "(bk_expand_mult b' + 1) * HASH_BKT_CAPACITY_THRESH" "bk_count b'"]
        by simp
      ultimately show ?thesis unfolding e by linarith
    next
      assume "\<exists>m'' t''. hash_expand can m' t' = Some (Done (m'', t'')) \<and> table_sizes_ok t'' \<and>
        buckets_ok m'' (ut_num_buckets t'') (ut_buckets t'') (insert a A) \<and> chain_frame (insert a A) m' m'' \<and>
        ut_num_items t'' = ut_num_items t' \<and> ut_tail t'' = ut_tail t'"
      then obtain m'' t'' where r: "hash_expand can m' t' = Some (Done (m'', t''))" "table_sizes_ok t''"
        "buckets_ok m'' (ut_num_buckets t'') (ut_buckets t'') (insert a A)" "chain_frame (insert a A) m' m''"
        "ut_num_items t'' = ut_num_items t'" "ut_tail t'' = ut_tail t'" by blast
      have "chain_frame (insert a A) m m''" using chain_frame_trans [OF f r(4)] by simp
      with r(1-3,5,6) s(2,3) show ?thesis unfolding e by metis
    qed
  qed
qed

lemma app_linked_append:
  assumes "app_linked m as" "distinct as" "a \<notin> set as" "as \<noteq> []" "ut_tail t = last as"
    and "hash_append_list m t a = (m', t')"
  shows "app_linked m' (as @ [a])" "t' = t\<lparr>ut_tail := a\<rparr>"
    "hh_next (m' x) = hh_next (m x)" "hh_prev (m' x) = hh_prev (m x)" "hh_hashv (m' x) = hh_hashv (m x)"
    "hh_key (m' x) = hh_key (m x)"
proof -
  have m': "m' = (m(a := (m a)\<lparr>hh_app_next := None, hh_app_prev := Some (last as)\<rparr>))
      (last as := (m (last as))\<lparr>hh_app_next := Some a\<rparr>)" and "t' = t\<lparr>ut_tail := a\<rparr>"
    and l: "last as \<noteq> a" "last as \<in> set as"
    using assms by (auto simp: hash_append_list_def)
  then show "t' = t\<lparr>ut_tail := a\<rparr>" "hh_next (m' x) = hh_next (m x)" "hh_prev (m' x) = hh_prev (m x)"
    "hh_hashv (m' x) = hh_hashv (m x)" "hh_key (m' x) = hh_key (m x)" by simp_all
  have "linked ((\<lambda>x. hh_app_next (m x))(last as := Some a)) (\<lambda>x. hh_app_prev (m x)) None as (Some a)"
    by (rule linked_retarget [OF assms(2,4,1)])
  then have "linked (\<lambda>x. hh_app_next (m' x)) (\<lambda>x. hh_app_prev (m' x)) None as (Some a)"
    by (rule linked_frame) (use assms(3) in \<open>auto simp: m'\<close>)
  then show "app_linked m' (as @ [a])" using l assms(4) by (simp add: m' final_Some)
qed

text \<open>An element that is in the list already, wherever, is put into the table.\<close>

lemma hash_add_to_table_spec:
  assumes "app_linked m bs" "distinct bs" "set bs = insert a (set as)" "a \<notin> set as" "distinct as"
    and "first bs None = Some head" "ut_tail t = last bs" "ut_num_items t = length as" "table_sizes_ok t"
    and "buckets_ok m (ut_num_buckets t) (ut_buckets t) (set as)" "\<And>x. x \<in> set bs \<Longrightarrow> hh_hashv (m x) = hash_jen (hh_key (m x))"
    and "alloc_limit can" "hashv = hh_hashv (m a)"
  shows "9 \<le> length as \<and> hash_add_to_table can m head t hashv a = Some Fatal \<or>
    (\<exists>u'. hash_add_to_table can m head t hashv a = Some (Done u') \<and> hash_ok u' bs \<and> (\<forall>x. hh_key (ut_mem u' x) = hh_key (m x)))"
proof -
  let ?t = "t\<lparr>ut_num_items := ut_num_items t + 1\<rparr>"
  let ?r = "hash_add_to_bkt can m ?t (to_bkt hashv (ut_num_buckets ?t)) a"
  have "buckets_ok m (ut_num_buckets ?t) (ut_buckets ?t) (set as)" "table_sizes_ok ?t"
    using assms(9,10) by (simp_all add: table_sizes_ok_def)
  from hash_add_to_bkt_spec [OF this(1) assms(4) this(2) assms(12)]
  have "HASH_BKT_CAPACITY_THRESH \<le> card (set as) + 1 \<and> ?r = Some Fatal \<or>
    (\<exists>m' t'. ?r = Some (Done (m', t')) \<and> table_sizes_ok t' \<and>
      buckets_ok m' (ut_num_buckets t') (ut_buckets t') (insert a (set as)) \<and> chain_frame (insert a (set as)) m m' \<and>
      ut_num_items t' = length as + 1 \<and> ut_tail t' = last bs)"
    using assms(7,8) by (simp add: assms(13))
  then show ?thesis
  proof (elim disjE exE conjE)
    assume "HASH_BKT_CAPACITY_THRESH \<le> card (set as) + 1" "?r = Some Fatal"
    with assms(5) show ?thesis by (simp add: hash_add_to_table_def HASH_BKT_CAPACITY_THRESH_def distinct_card)
  next
    fix m' t'
    assume r: "?r = Some (Done (m', t'))" "table_sizes_ok t'" "buckets_ok m' (ut_num_buckets t') (ut_buckets t') (insert a (set as))"
      "chain_frame (insert a (set as)) m m'" "ut_num_items t' = length as + 1" "ut_tail t' = last bs"
    note f = chain_frameD [OF r(4)]
    have "app_linked m' bs" using assms(1) f(1,2) by simp
    moreover have "length bs = length as + 1"
      using assms(2-5) by (metis card_insert_disjoint distinct_card finite_set Suc_eq_plus1)
    ultimately have "hash_ok \<lparr>ut_mem = m', ut_head = Some head, ut_tbl = t'\<rparr> bs"
      using r(2,3,5,6) assms(2,3,6,11) by (simp add: hash_ok_def f(3,4))
    with r(1) show ?thesis by (simp add: hash_add_to_table_def f(3))
  qed
qed

lemma new_key_simps [simp]:
  "hh_key (new_key m a key a) = key" "hh_hashv (new_key m a key a) = hash_jen key" "x \<noteq> a \<Longrightarrow> new_key m a key x = m x"
  "hh_app_next (new_key m a key x) = hh_app_next (m x)" "hh_app_prev (new_key m a key x) = hh_app_prev (m x)"
  "hh_next (new_key m a key x) = hh_next (m x)" "hh_prev (new_key m a key x) = hh_prev (m x)"
  by (simp_all add: new_key_def)

text \<open>What adding an element must do, at the end of the list or elsewhere.\<close>

definition added :: "(nat \<Rightarrow> bool) \<Rightarrow> ut_hash \<Rightarrow> addr list \<Rightarrow> addr \<Rightarrow> bytes \<Rightarrow> addr list \<Rightarrow> ut_hash ut_run option \<Rightarrow> bool" where
  "added can u as a key bs r \<longleftrightarrow>
     (\<not> can 32 \<or> 9 \<le> length as) \<and> r = Some Fatal \<or>
     (\<exists>u'. r = Some (Done u') \<and> hash_ok u' bs \<and> hh_key (ut_mem u' a) = key \<and>
        (\<forall>x. x \<noteq> a \<longrightarrow> hh_key (ut_mem u' x) = hh_key (ut_mem u x)))"

lemma hash_add_first_spec:
  assumes "hash_ok u []" "alloc_limit can"
  shows "added can u [] a key [a] (hash_add_first can u a key)"
proof (cases "can HASH_INITIAL_NUM_BUCKETS")
  case True
  let ?m = "(new_key (ut_mem u) a key)(a := (new_key (ut_mem u) a key a)\<lparr>hh_app_next := None, hh_app_prev := None\<rparr>)"
  have "table_sizes_ok (hash_make_table a)" "ut_num_items (hash_make_table a) = 0" "ut_tail (hash_make_table a) = a"
    "buckets_ok ?m (ut_num_buckets (hash_make_table a)) (ut_buckets (hash_make_table a)) {}"
    using buckets_ok_empty [of ?m 32]
    by (simp_all add: hash_make_table_def table_sizes_ok_def HASH_INITIAL_NUM_BUCKETS_def HASH_INITIAL_NUM_BUCKETS_LOG2_def)
  then have "9 \<le> length ([] :: addr list) \<and> hash_add_to_table can ?m a (hash_make_table a) (hash_jen key) a = Some Fatal \<or>
    (\<exists>u'. hash_add_to_table can ?m a (hash_make_table a) (hash_jen key) a = Some (Done u') \<and> hash_ok u' [a] \<and>
      (\<forall>x. hh_key (ut_mem u' x) = hh_key (?m x)))"
    by (intro hash_add_to_table_spec [where as = "[]"]) (simp_all add: assms(2))
  with True show ?thesis by (auto simp: added_def hash_add_first_def)
next
  case False
  then show ?thesis by (simp add: added_def hash_add_first_def HASH_INITIAL_NUM_BUCKETS_def)
qed

lemma hash_add_added:
  assumes "hash_ok u as" "a \<notin> set as" "alloc_limit can"
  shows "added can u as a key (as @ [a]) (hash_add can u a key)"
proof (cases as)
  case Nil
  with hash_add_first_spec [of u can a key] assms show ?thesis by (simp add: hash_add_def hash_ok_def)
next
  case (Cons h hs)
  let ?t = "ut_tbl u" and ?m = "new_key (ut_mem u) a key"
  have ok: "ut_head u = Some h" "distinct as" "app_linked (ut_mem u) as" "ut_tail ?t = last as" "as \<noteq> []"
    "ut_num_items ?t = length as" "table_sizes_ok ?t" "buckets_ok (ut_mem u) (ut_num_buckets ?t) (ut_buckets ?t) (set as)"
    using assms(1) Cons by (auto simp: hash_ok_def)
  obtain m t where ap: "hash_append_list ?m ?t a = (m, t)" by fastforce
  have "app_linked ?m as" using ok(3) by simp
  note p = app_linked_append [OF this ok(2) assms(2) ok(5,4) ap]
  have hv: "hh_hashv (m x) = hash_jen (hh_key (m x))" if "x \<in> set (as @ [a])" for x
    using that assms(1) by (cases "x = a") (auto simp: p hash_ok_def)
  have old: "new_key (ut_mem u) a key x = ut_mem u x" if "x \<in> set as" for x using that assms(2) by (cases "x = a") auto
  have "buckets_ok m (ut_num_buckets ?t) (ut_buckets ?t) (set as)"
    by (rule buckets_ok_frame [OF ok(8)]) (simp add: p old)
  then have b: "buckets_ok m (ut_num_buckets t) (ut_buckets t) (set as)" by (simp add: p(2))
  have "9 \<le> length as \<and> hash_add_to_table can m h t (hash_jen key) a = Some Fatal \<or>
    (\<exists>u'. hash_add_to_table can m h t (hash_jen key) a = Some (Done u') \<and> hash_ok u' (as @ [a]) \<and> (\<forall>x. hh_key (ut_mem u' x) = hh_key (m x)))"
    by (rule hash_add_to_table_spec [OF p(1) _ _ assms(2) ok(2) _ _ _ _ b _ assms(3)])
      (use ok assms(2) hv Cons in \<open>auto simp: p table_sizes_ok_def\<close>)
  then show ?thesis by (auto simp: hash_add_def ok(1) ap added_def p(6))
qed

lemmas hash_add_spec = hash_add_added [unfolded added_def]

text \<open>Deleting.\<close>

lemma linked_remove:
  assumes "linked n p q (xs @ a # ys) r" "distinct (xs @ a # ys)"
    and "\<And>x. x \<in> set xs \<Longrightarrow> p' x = p x \<and> n' x = (if x = last xs then first ys r else n x)"
    and "\<And>y. y \<in> set ys \<Longrightarrow> n' y = n y \<and> p' y = (if y = hd ys then final xs q else p y)"
  shows "linked n' p' q (xs @ ys) r"
proof -
  have "linked n' p' q xs (first ys r)"
  proof (cases "xs = []")
    case False
    have "linked (n(last xs := first ys r)) p q xs (first ys r)"
      by (rule linked_retarget) (use assms(1,2) False in auto)
    then show ?thesis by (rule linked_frame) (use assms(3) in auto)
  qed simp
  moreover have "linked n' p' (final xs q) ys r"
  proof (cases ys)
    case (Cons y zs)
    have "linked n (p(y := final xs q)) (final xs q) (y # zs) r"
      by (rule linked_rehead [of _ _ _ _ "Some a"]) (use assms(1,2) Cons in auto)
    then show ?thesis unfolding Cons by (rule linked_frame) (use assms(4) Cons in auto)
  qed simp
  ultimately show ?thesis by simp
qed

lemma linked_middle: "linked n p q (xs @ a # ys) r \<Longrightarrow> n a = first ys r \<and> p a = final xs q"
  by simp

lemma first_in: "first xs None = Some x \<Longrightarrow> x \<in> set xs \<and> x = hd xs"
  by (cases xs) auto

lemma final_in: "final xs None = Some x \<Longrightarrow> x \<in> set xs \<and> x = last xs"
  by (auto simp: final_def split: if_splits)

lemma hash_del_in_bkt_spec:
  assumes b: "bucket_ok m b (xs @ a # ys)" and r: "hash_del_in_bkt m b a = (m', b')"
  shows "bucket_ok m' b' (xs @ ys) \<and> chain_frame (set xs \<union> set ys) m m'"
proof -
  have l: "chain_linked m (xs @ a # ys)" and d: "distinct (xs @ a # ys)"
    and hd: "bk_head b = first (xs @ a # ys) None" and cnt: "bk_count b = length xs + 1 + length ys"
    using b by (auto simp: bucket_ok_def)
  have na: "hh_next (m a) = first ys None" and pa: "hh_prev (m a) = final xs None" using linked_middle [OF l] by simp_all
  define m1 where "m1 = (case final xs None of None \<Rightarrow> m | Some p \<Rightarrow> m(p := (m p)\<lparr>hh_next := first ys None\<rparr>))"
  have "a \<notin> set xs" "a \<notin> set ys" "set xs \<inter> set ys = {}" using d by auto
  then have nl: "xs \<noteq> [] \<Longrightarrow> last xs \<notin> set ys" using last_in_set by blast
  have m1a: "m1 a = m a" using \<open>a \<notin> set xs\<close> by (auto simp: m1_def dest: final_in split: option.split)
  have m': "m' = (case first ys None of None \<Rightarrow> m1 | Some n \<Rightarrow> m1(n := (m1 n)\<lparr>hh_prev := final xs None\<rparr>))"
    using r unfolding hash_del_in_bkt_def Let_def pa na m1_def [symmetric] m1a by auto
  have b': "bk_head b' = first (xs @ ys) None" "bk_count b' = length xs + length ys"
    using r hd cnt d by (cases xs; auto simp: hash_del_in_bkt_def Let_def na)+
  have xs: "hh_prev (m' x) = hh_prev (m x) \<and> hh_next (m' x) = (if x = last xs then first ys None else hh_next (m x))"
    if "x \<in> set xs" for x
    using that \<open>set xs \<inter> set ys = {}\<close> nl
    by (cases ys; cases "xs = []") (auto simp: m' m1_def final_def)
  have ys: "hh_next (m' y) = hh_next (m y) \<and> hh_prev (m' y) = (if y = hd ys then final xs None else hh_prev (m y))"
    if "y \<in> set ys" for y
    using that \<open>set xs \<inter> set ys = {}\<close> nl
    by (cases ys; cases "xs = []") (auto simp: m' m1_def final_def)
  have "chain_linked m' (xs @ ys)"
    by (rule linked_remove [OF l d]) (use xs ys in auto)
  moreover have "chain_frame (set xs \<union> set ys) m m'"
    by (cases ys; cases "xs = []") (auto simp: chain_frame_def same_rest_def m' m1_def final_def)
  ultimately show ?thesis using d b' by (simp add: bucket_ok_def)
qed

lemma hash_delete_spec:
  assumes "hash_ok u (xs @ a # ys)"
  shows "hash_ok (hash_delete u a) (xs @ ys) \<and> (\<forall>x. hh_key (ut_mem (hash_delete u a) x) = hh_key (ut_mem u x))"
proof (cases "xs = [] \<and> ys = []")
  case True
  with assms show ?thesis by (auto simp: hash_ok_def hash_delete_def Let_def)
next
  case False
  let ?m = "ut_mem u" and ?t = "ut_tbl u" and ?as = "xs @ a # ys"
  have ok: "ut_head u = first ?as None" "distinct ?as" "app_linked ?m ?as" "ut_tail ?t = last ?as"
      "ut_num_items ?t = length ?as" "table_sizes_ok ?t" "buckets_ok ?m (ut_num_buckets ?t) (ut_buckets ?t) (set ?as)"
    and hv: "\<And>x. x \<in> set ?as \<Longrightarrow> hh_hashv (?m x) = hash_jen (hh_key (?m x))"
    using assms by (auto simp: hash_ok_def)
  have na: "hh_app_next (?m a) = first ys None" and pa: "hh_app_prev (?m a) = final xs None"
    using linked_middle [OF ok(3)] by simp_all
  have d: "a \<notin> set xs" "a \<notin> set ys" "set xs \<inter> set ys = {}" using ok(2) by auto
  then have nl: "xs \<noteq> [] \<Longrightarrow> last xs \<notin> set ys" using last_in_set by blast
  define m1 where "m1 = (case final xs None of None \<Rightarrow> ?m | Some p \<Rightarrow> ?m(p := (?m p)\<lparr>hh_app_next := first ys None\<rparr>))"
  define m2 where "m2 = (case first ys None of None \<Rightarrow> m1 | Some n \<Rightarrow> m1(n := (m1 n)\<lparr>hh_app_prev := final xs None\<rparr>))"
  have a: "m1 a = ?m a" "m2 a = ?m a"
    using d by (auto simp: m1_def m2_def dest: final_in first_in split: option.split)
  have rest: "hh_next (m2 x) = hh_next (?m x) \<and> hh_prev (m2 x) = hh_prev (?m x) \<and>
      hh_hashv (m2 x) = hh_hashv (?m x) \<and> hh_key (m2 x) = hh_key (?m x)" for x
    by (auto simp: m1_def m2_def split: option.split)
  have l: "app_linked m2 (xs @ ys)"
  proof (rule linked_remove [OF ok(3,2)])
    show "hh_app_prev (m2 x) = hh_app_prev (?m x) \<and> hh_app_next (m2 x) = (if x = last xs then first ys None else hh_app_next (?m x))"
      if "x \<in> set xs" for x
      using that d(3) nl by (cases ys; cases "xs = []") (auto simp: m2_def m1_def final_def)
    show "hh_app_next (m2 y) = hh_app_next (?m y) \<and> hh_app_prev (m2 y) = (if y = hd ys then final xs None else hh_app_prev (?m y))"
      if "y \<in> set ys" for y
      using that d(3) nl by (cases ys; cases "xs = []") (auto simp: m2_def m1_def final_def)
  qed
  define i where "i = to_bkt (hh_hashv (?m a)) (ut_num_buckets ?t)"
  obtain m3 b where db: "hash_del_in_bkt m2 (ut_buckets ?t ! i) a = (m3, b)" by fastforce
  define t1 where "t1 = (if a = ut_tail ?t then ?t\<lparr>ut_tail := the (final xs None)\<rparr> else ?t)"
  define t' where "t' = t1\<lparr>ut_buckets := (ut_buckets t1)[i := b], ut_num_items := ut_num_items t1 - 1\<rparr>"
  have t1: "ut_buckets t1 = ut_buckets ?t" "ut_num_buckets t1 = ut_num_buckets ?t" "ut_num_items t1 = ut_num_items ?t"
      "ut_log2_num_buckets t1 = ut_log2_num_buckets ?t"
    by (simp_all add: t1_def)
  have ne: "\<not> (hh_app_prev (?m a) = None \<and> hh_app_next (?m a) = None)" using False na pa by auto
  have head: "(case final xs None of Some p \<Rightarrow> (?m(p := (?m p)\<lparr>hh_app_next := first ys None\<rparr>), ut_head u)
      | None \<Rightarrow> (?m, first ys None)) = (m1, first (xs @ ys) None)"
    using ok(1) by (cases xs) (auto simp: m1_def final_def)
  have del: "hash_delete u a = \<lparr>ut_mem = m3, ut_head = first (xs @ ys) None, ut_tbl = t'\<rparr>"
    using ne unfolding hash_delete_def Let_def pa na t'_def
    unfolding t1_def [symmetric] t1 head prod.case a(1) pa na
    unfolding m2_def [symmetric] a(2)
    unfolding i_def [symmetric] db prod.case
    by (simp only: if_False simp_thms)
  have b2: "buckets_ok m2 (ut_num_buckets ?t) (ut_buckets ?t) (set ?as)"
    by (rule buckets_ok_frame [OF ok(7)]) (simp add: rest)
  have i: "i < ut_num_buckets ?t" using sizes_bkt [OF ok(6)] by (simp add: i_def)
  obtain cs where cs: "bucket_ok m2 (ut_buckets ?t ! i) cs"
      "set cs = {x \<in> set ?as. to_bkt (hh_hashv (m2 x)) (ut_num_buckets ?t) = i}"
    using buckets_okE [OF b2 i] .
  then have "a \<in> set cs" by (simp add: rest i_def)
  then obtain c1 c2 where c: "cs = c1 @ a # c2" by (meson split_list)
  have bk: "bucket_ok m3 b (c1 @ c2)" "chain_frame (set c1 \<union> set c2) m2 m3"
    using hash_del_in_bkt_spec [OF cs(1) [unfolded c] db] by simp_all
  note f = chain_frameD [OF bk(2)]
  have dc: "a \<notin> set c1" "a \<notin> set c2" using cs(1) by (auto simp: c bucket_ok_def)
  have "buckets_ok m3 (ut_num_buckets ?t) ((ut_buckets ?t)[i := b]) (set (xs @ ys))"
    unfolding buckets_ok_def
  proof (intro conjI allI impI)
    show "length ((ut_buckets ?t)[i := b]) = ut_num_buckets ?t" using b2 by (simp add: buckets_ok_def)
    fix j assume j: "j < ut_num_buckets ?t"
    show "\<exists>zs. bucket_ok m3 ((ut_buckets ?t)[i := b] ! j) zs \<and>
        set zs = {x \<in> set (xs @ ys). to_bkt (hh_hashv (m3 x)) (ut_num_buckets ?t) = j}"
    proof (cases "j = i")
      case True
      have "set (c1 @ c2) = {x \<in> set (xs @ ys). to_bkt (hh_hashv (m3 x)) (ut_num_buckets ?t) = i}"
        using cs(2) dc d by (auto simp: c f(4))
      then show ?thesis using True bk(1) i b2 by (auto simp: buckets_ok_def)
    next
      case False
      obtain zs where zs: "bucket_ok m2 (ut_buckets ?t ! j) zs"
          "set zs = {x \<in> set ?as. to_bkt (hh_hashv (m2 x)) (ut_num_buckets ?t) = j}"
        using buckets_okE [OF b2 j] .
      have "set zs \<inter> (set c1 \<union> set c2) = {}" using zs(2) cs(2) False by (auto simp: c)
      from bucket_ok_frame [OF zs(1) bk(2) this] have "bucket_ok m3 (ut_buckets ?t ! j) zs" .
      moreover have "set zs = {x \<in> set (xs @ ys). to_bkt (hh_hashv (m3 x)) (ut_num_buckets ?t) = j}"
        using zs(2) False by (auto simp: f(4) rest i_def)
      ultimately show ?thesis using False by auto
    qed
  qed
  moreover have "ut_tail t' = last (xs @ ys)"
  proof (cases "ys = []")
    case True
    with ok(4) False show ?thesis by (simp add: t'_def t1_def final_Some)
  next
    case False
    then have "last ys \<in> set ys" by simp
    with d(2) ok(4) False have "a \<noteq> ut_tail ?t" by auto
    with ok(4) False show ?thesis by (simp add: t'_def t1_def)
  qed
  moreover have "ut_num_items t' = length (xs @ ys)" "table_sizes_ok t'" "ut_num_buckets t' = ut_num_buckets ?t"
      "ut_buckets t' = (ut_buckets ?t)[i := b]"
    using ok(5,6) t1 by (simp_all add: t'_def table_sizes_ok_def)
  moreover have "app_linked m3 (xs @ ys)" using l f(1,2) by simp
  moreover have "\<forall>x\<in>set (xs @ ys). hh_hashv (m3 x) = hash_jen (hh_key (m3 x))" using hv f(3,4) rest by simp
  moreover have "\<forall>x. hh_key (m3 x) = hh_key (?m x)" using f(3) rest by simp
  moreover have "distinct (xs @ ys)" using ok(2) by simp
  ultimately show ?thesis unfolding hash_ok_def del by simp
qed

text \<open>Iterating, alone and with the deletion of every element visited.\<close>

lemma hash_iter_linked: "linked (\<lambda>a. hh_app_next (m a)) p q as None \<Longrightarrow> hash_iter m (first as None) = Some as"
proof (induction as arbitrary: q)
  case Nil
  then show ?case by (simp add: hash_iter.simps)
next
  case (Cons a as)
  then show ?case using Cons.IH [of "Some a"] by (simp add: hash_iter.simps [of m "Some a"])
qed

lemma hash_iter_spec: "hash_ok u as \<Longrightarrow> hash_iter (ut_mem u) (ut_head u) = Some as"
  using hash_iter_linked [of "ut_mem u" _ None as] by (auto simp: hash_ok_def)

lemma hash_count_spec: "hash_ok u as \<Longrightarrow> hash_count u = length as"
  by (cases as) (auto simp: hash_ok_def hash_count_def)

lemma hash_drain_spec:
  "hash_ok u as \<Longrightarrow> \<exists>u'. hash_drain u (ut_head u) = Some (as, u') \<and> hash_ok u' [] \<and>
    (\<forall>x. hh_key (ut_mem u' x) = hh_key (ut_mem u x))"
proof (induction as arbitrary: u)
  case Nil
  then show ?case by (simp add: hash_ok_def hash_drain.simps)
next
  case (Cons a as)
  have d: "hash_ok (hash_delete u a) as" "\<And>x. hh_key (ut_mem (hash_delete u a) x) = hh_key (ut_mem u x)"
    using hash_delete_spec [of u "[]" a as] Cons.prems by auto
  have "ut_head u = Some a" "hh_app_next (ut_mem u a) = first as None" "ut_head (hash_delete u a) = first as None"
    using Cons.prems d(1) by (auto simp: hash_ok_def)
  then show ?case using Cons.IH [OF d(1)] d(2) by (auto simp: hash_drain.simps [of u "Some a"])
qed

end
