(* ===== verification/UtSort.thy ===== *)
theory UtSort
  imports UtPointers
begin

text \<open>
  \<^verbatim>\<open>HASH_SRT\<close> of \<^verbatim>\<open>src/uthash.h\<close>: the merge sort from the bottom up on the list of all elements,
  with its pointers. Whatever the number of elements, its loops end, and where the comparison is an
  order that ranks any two elements, the table is the one of the stably sorted list; the chains of
  the buckets stay as they are.
\<close>

section \<open>The code\<close>

type_synonym ut_cmp = "addr \<Rightarrow> addr \<Rightarrow> int"

text \<open>
  The variables of the macro: \<open>p\<close> and \<open>q\<close> are where the two runs go on, \<open>psize\<close> and \<open>qsize\<close> what is
  left of them, \<open>list\<close> and \<open>tail\<close> the ends of what has been merged. The comparison is a function on
  elements, since sorting changes no field of them.
\<close>

record srt_state =
  sr_mem :: ut_memory
  sr_p :: "addr option"
  sr_q :: "addr option"
  sr_psize :: nat
  sr_qsize :: nat
  sr_list :: "addr option"
  sr_tail :: "addr option"

definition srt_next :: "ut_memory \<Rightarrow> addr option \<Rightarrow> addr option" where
  "srt_next m el = (case el of None \<Rightarrow> None | Some a \<Rightarrow> hh_app_next (m a))"

fun srt_skip :: "ut_memory \<Rightarrow> nat \<Rightarrow> addr option \<Rightarrow> addr option \<times> nat" where
  "srt_skip m 0 q = (q, 0)"
| "srt_skip m (Suc n) q =
     (case srt_next m q of
        None \<Rightarrow> (None, 1)
      | Some q' \<Rightarrow> (let (r, k) = srt_skip m n (Some q') in (r, k + 1)))"

definition srt_choose :: "ut_cmp \<Rightarrow> srt_state \<Rightarrow> addr option \<times> srt_state" where
  "srt_choose cmp s =
     (let from_p = (sr_p s, s\<lparr>sr_p := srt_next (sr_mem s) (sr_p s), sr_psize := sr_psize s - 1\<rparr>);
          from_q = (sr_q s, s\<lparr>sr_q := srt_next (sr_mem s) (sr_q s), sr_qsize := sr_qsize s - 1\<rparr>)
      in if sr_psize s = 0 then from_q
         else if sr_qsize s = 0 \<or> sr_q s = None then from_p
         else if cmp (the (sr_p s)) (the (sr_q s)) \<le> 0 then from_p else from_q)"

definition srt_link :: "addr option \<Rightarrow> srt_state \<Rightarrow> srt_state" where
  "srt_link e s =
     (let s1 = (case sr_tail s of
          Some t \<Rightarrow> s\<lparr>sr_mem := (sr_mem s)(t := (sr_mem s t)\<lparr>hh_app_next := e\<rparr>)\<rparr>
        | None \<Rightarrow> s\<lparr>sr_list := e\<rparr>);
          s2 = (case e of
          Some a \<Rightarrow> s1\<lparr>sr_mem := (sr_mem s1)(a := (sr_mem s1 a)\<lparr>hh_app_prev := sr_tail s1\<rparr>)\<rparr>
        | None \<Rightarrow> s1)
      in s2\<lparr>sr_tail := e\<rparr>)"

lemma srt_link_sizes [simp]:
  "sr_psize (srt_link e s) = sr_psize s" "sr_qsize (srt_link e s) = sr_qsize s"
  "sr_p (srt_link e s) = sr_p s" "sr_q (srt_link e s) = sr_q s" "sr_tail (srt_link e s) = e"
  by (simp_all add: srt_link_def Let_def split: option.split)

function srt_merge :: "ut_cmp \<Rightarrow> srt_state \<Rightarrow> srt_state" where
  "srt_merge cmp s =
     (if sr_psize s \<noteq> 0 \<or> sr_qsize s \<noteq> 0 \<and> sr_q s \<noteq> None
      then srt_merge cmp (srt_link (fst (srt_choose cmp s)) (snd (srt_choose cmp s)))
      else s)"
  by pat_completeness auto
termination
  by (relation "measure (\<lambda>(cmp, s). sr_psize s + sr_qsize s)") (auto simp: srt_choose_def Let_def)

declare srt_merge.simps [simp del]

partial_function (option) srt_pass :: "ut_cmp \<Rightarrow> nat \<Rightarrow> srt_state \<Rightarrow> nat \<Rightarrow> (srt_state \<times> nat) option" where
  "srt_pass cmp insize s nmerges =
     (if sr_p s = None then Some (s, nmerges)
      else
        let q = srt_skip (sr_mem s) insize (sr_p s);
            s' = srt_merge cmp (s\<lparr>sr_q := fst q, sr_psize := snd q, sr_qsize := insize\<rparr>)
        in srt_pass cmp insize (s'\<lparr>sr_p := sr_q s'\<rparr>) (nmerges + 1))"

definition srt_close :: "srt_state \<Rightarrow> srt_state" where
  "srt_close s =
     (case sr_tail s of
        Some t \<Rightarrow> s\<lparr>sr_mem := (sr_mem s)(t := (sr_mem s t)\<lparr>hh_app_next := None\<rparr>)\<rparr>
      | None \<Rightarrow> s)"

partial_function (option) srt_rounds :: "ut_cmp \<Rightarrow> nat \<Rightarrow> srt_state \<Rightarrow> srt_state option" where
  "srt_rounds cmp insize s =
     Option.bind (srt_pass cmp insize (s\<lparr>sr_p := sr_list s, sr_list := None, sr_tail := None\<rparr>) 0) (\<lambda>r.
       if snd r \<le> 1 then Some (srt_close (fst r)) else srt_rounds cmp (insize * 2) (srt_close (fst r)))"

definition hash_sort :: "ut_cmp \<Rightarrow> ut_hash \<Rightarrow> ut_hash option" where
  "hash_sort cmp u =
     (case ut_head u of
        None \<Rightarrow> Some u
      | Some h \<Rightarrow>
          (case srt_rounds cmp 1 \<lparr>sr_mem = ut_mem u, sr_p = None, sr_q = None, sr_psize = 0, sr_qsize = 0,
               sr_list = Some h, sr_tail = None\<rparr> of
             None \<Rightarrow> None
           | Some s \<Rightarrow> Some (u\<lparr>ut_mem := sr_mem s, ut_head := sr_list s, ut_tbl := (ut_tbl u)\<lparr>ut_tail := the (sr_tail s)\<rparr>\<rparr>)))"

declare srt_pass.simps [code] srt_rounds.simps [code]

section \<open>Merging lists\<close>

fun cmp_merge :: "('a \<Rightarrow> 'a \<Rightarrow> int) \<Rightarrow> 'a list \<Rightarrow> 'a list \<Rightarrow> 'a list" where
  "cmp_merge cmp [] ys = ys"
| "cmp_merge cmp xs [] = xs"
| "cmp_merge cmp (x # xs) (y # ys) =
     (if cmp x y \<le> 0 then x # cmp_merge cmp xs (y # ys) else y # cmp_merge cmp (x # xs) ys)"

lemma cmp_merge_Nil2 [simp]: "cmp_merge cmp xs [] = xs"
  by (cases xs) simp_all

lemma set_cmp_merge [simp]: "set (cmp_merge cmp xs ys) = set xs \<union> set ys"
  by (induction cmp xs ys rule: cmp_merge.induct) auto

lemma length_cmp_merge [simp]: "length (cmp_merge cmp xs ys) = length xs + length ys"
  by (induction cmp xs ys rule: cmp_merge.induct) auto

lemma distinct_cmp_merge: "distinct (xs @ ys) \<Longrightarrow> distinct (cmp_merge cmp xs ys)"
  by (induction cmp xs ys rule: cmp_merge.induct) auto

function merge_pass :: "('a \<Rightarrow> 'a \<Rightarrow> int) \<Rightarrow> nat \<Rightarrow> 'a list \<Rightarrow> 'a list" where
  "merge_pass cmp n xs =
     (if xs = [] \<or> n = 0 then []
      else cmp_merge cmp (take n xs) (take n (drop n xs)) @ merge_pass cmp n (drop (2 * n) xs))"
  by pat_completeness auto
termination by (relation "measure (\<lambda>(cmp, n, xs). length xs)") auto

function pass_merges :: "nat \<Rightarrow> 'a list \<Rightarrow> nat" where
  "pass_merges n xs = (if xs = [] \<or> n = 0 then 0 else 1 + pass_merges n (drop (2 * n) xs))"
  by pat_completeness auto
termination by (relation "measure (\<lambda>(n, xs). length xs)") auto

declare merge_pass.simps [simp del] pass_merges.simps [simp del]

lemma pass_merges_le_1: "0 < n \<Longrightarrow> pass_merges n xs \<le> 1 \<longleftrightarrow> length xs \<le> 2 * n"
  by (subst pass_merges.simps, subst pass_merges.simps) auto

text \<open>The reference: insertion from the right, before equal elements.\<close>

fun cmp_insert :: "('a \<Rightarrow> 'a \<Rightarrow> int) \<Rightarrow> 'a \<Rightarrow> 'a list \<Rightarrow> 'a list" where
  "cmp_insert cmp x [] = [x]"
| "cmp_insert cmp x (y # ys) = (if cmp x y \<le> 0 then x # y # ys else y # cmp_insert cmp x ys)"

fun cmp_sort :: "('a \<Rightarrow> 'a \<Rightarrow> int) \<Rightarrow> 'a list \<Rightarrow> 'a list" where
  "cmp_sort cmp [] = []"
| "cmp_sort cmp (x # xs) = cmp_insert cmp x (cmp_sort cmp xs)"

definition cmp_order :: "('a \<Rightarrow> 'a \<Rightarrow> int) \<Rightarrow> bool" where
  "cmp_order cmp \<longleftrightarrow> (\<forall>x y. cmp x y \<le> 0 \<or> cmp y x \<le> 0) \<and> (\<forall>x y z. cmp x y \<le> 0 \<and> cmp y z \<le> 0 \<longrightarrow> cmp x z \<le> 0)"

lemma cmp_insert_set [simp]: "set (cmp_insert cmp x ys) = insert x (set ys)" "length (cmp_insert cmp x ys) = Suc (length ys)"
  by (induction ys) auto

lemma cmp_sort_set [simp]: "set (cmp_sort cmp xs) = set xs" "length (cmp_sort cmp xs) = length xs"
  by (induction xs) auto


abbreviation cmp_sorted :: "('a \<Rightarrow> 'a \<Rightarrow> int) \<Rightarrow> 'a list \<Rightarrow> bool" where
  "cmp_sorted cmp \<equiv> sorted_wrt (\<lambda>x y. cmp x y \<le> 0)"

lemma cmp_orderD:
  assumes "cmp_order cmp"
  shows "\<not> cmp x y \<le> 0 \<Longrightarrow> cmp y x \<le> 0" "cmp x y \<le> 0 \<Longrightarrow> cmp y z \<le> 0 \<Longrightarrow> cmp x z \<le> 0"
  using assms unfolding cmp_order_def by blast+

lemma cmp_sorted_insert: "cmp_order cmp \<Longrightarrow> cmp_sorted cmp ys \<Longrightarrow> cmp_sorted cmp (cmp_insert cmp x ys)"
  by (induction ys) (auto dest: cmp_orderD)

lemma cmp_sorted_sort: "cmp_order cmp \<Longrightarrow> cmp_sorted cmp (cmp_sort cmp xs)"
  by (induction xs) (auto intro: cmp_sorted_insert)

lemma cmp_insert_first: "\<forall>y\<in>set ys. cmp x y \<le> 0 \<Longrightarrow> cmp_insert cmp x ys = x # ys"
  by (cases ys) auto

lemma cmp_merge_insert:
  "cmp_order cmp \<Longrightarrow> cmp_sorted cmp xs \<Longrightarrow> cmp_sorted cmp ys \<Longrightarrow>
   cmp_merge cmp (cmp_insert cmp x xs) ys = cmp_insert cmp x (cmp_merge cmp xs ys)"
proof (induction cmp xs ys rule: cmp_merge.induct)
  case (1 cmp ys)
  then show ?case by (induction ys) auto
next
  case (3 cmp a as b bs)
  note o = cmp_orderD [OF "3.prems"(1)]
  show ?case
  proof (cases "cmp a b \<le> 0")
    case True
    then show ?thesis using 3 o(2) [of x a b] by (simp split: if_splits)
  next
    case False
    then have "cmp x a \<le> 0 \<Longrightarrow> \<not> cmp x b \<le> 0 \<or> cmp x b \<le> 0" by simp
    then show ?thesis using 3 False o(1) [of a b] o(2) [of b a x] o(2) [of x b a] o(1) [of x b] by (simp split: if_splits)
  qed
qed simp

lemma cmp_merge_sort: "cmp_order cmp \<Longrightarrow> cmp_merge cmp (cmp_sort cmp xs) (cmp_sort cmp ys) = cmp_sort cmp (xs @ ys)"
  by (induction xs) (simp_all add: cmp_merge_insert cmp_sorted_sort)

text \<open>After a round the list consists of sorted runs, twice as long as before.\<close>

function sorted_runs :: "('a \<Rightarrow> 'a \<Rightarrow> int) \<Rightarrow> nat \<Rightarrow> 'a list \<Rightarrow> 'a list" where
  "sorted_runs cmp n xs =
     (if xs = [] \<or> n = 0 then [] else cmp_sort cmp (take n xs) @ sorted_runs cmp n (drop n xs))"
  by pat_completeness auto
termination by (relation "measure (\<lambda>(cmp, n, xs). length xs)") auto

declare sorted_runs.simps [simp del]

lemma sorted_runs_1: "sorted_runs cmp 1 xs = xs"
  by (induction xs) (simp_all add: sorted_runs.simps)

lemma sorted_runs_all: "length xs \<le> n \<Longrightarrow> 0 < n \<Longrightarrow> sorted_runs cmp n xs = cmp_sort cmp xs"
  by (cases "xs = []") (simp_all add: sorted_runs.simps)

lemma length_sorted_runs: "0 < n \<Longrightarrow> length (sorted_runs cmp n xs) = length xs"
proof (induction cmp n xs rule: sorted_runs.induct)
  case (1 cmp n xs)
  then show ?case by (subst sorted_runs.simps) auto
qed

lemma runs_take_drop:
  "0 < n \<Longrightarrow> take n (sorted_runs cmp n xs) = cmp_sort cmp (take n xs)"
  "0 < n \<Longrightarrow> drop n (sorted_runs cmp n xs) = sorted_runs cmp n (drop n xs)"
proof -
  assume n: "0 < n"
  show "take n (sorted_runs cmp n xs) = cmp_sort cmp (take n xs)"
    by (cases "length xs \<le> n"; subst sorted_runs.simps) (use n in \<open>simp_all add: sorted_runs_all\<close>)
  show "drop n (sorted_runs cmp n xs) = sorted_runs cmp n (drop n xs)"
    by (cases "length xs \<le> n"; subst sorted_runs.simps) (use n in \<open>simp_all add: sorted_runs_all\<close>)
qed

lemma merge_pass_runs: "cmp_order cmp \<Longrightarrow> 0 < n \<Longrightarrow> merge_pass cmp n (sorted_runs cmp n xs) = sorted_runs cmp (2 * n) xs"
proof (induction "length xs" arbitrary: xs rule: less_induct)
  case less
  note l = length_sorted_runs [OF less.prems(2), of cmp xs]
  show ?case
  proof (cases "xs = []")
    case True
    then show ?thesis by (simp add: sorted_runs.simps merge_pass.simps)
  next
    case False
    then have ne: "sorted_runs cmp n xs \<noteq> []" using l by auto
    have "drop (2 * n) (sorted_runs cmp n xs) = sorted_runs cmp n (drop (2 * n) xs)"
      using runs_take_drop(2) [OF less.prems(2)] by (metis drop_drop mult_2)
    moreover have "merge_pass cmp n (sorted_runs cmp n (drop (2 * n) xs)) = sorted_runs cmp (2 * n) (drop (2 * n) xs)"
      using less.hyps less.prems False by simp
    moreover have "cmp_merge cmp (cmp_sort cmp (take n xs)) (cmp_sort cmp (take n (drop n xs))) = cmp_sort cmp (take (2 * n) xs)"
      using less.prems(1) by (simp add: cmp_merge_sort mult_2 take_add)
    ultimately show ?thesis
      using ne False less.prems(2)
      by (subst merge_pass.simps, subst (2) sorted_runs.simps) (simp add: runs_take_drop)
  qed
qed

section \<open>The pointers of a merge\<close>

fun fwd :: "('a \<Rightarrow> 'a option) \<Rightarrow> 'a list \<Rightarrow> 'a option \<Rightarrow> bool" where
  "fwd n [] r \<longleftrightarrow> True"
| "fwd n (x # xs) r \<longleftrightarrow> n x = first xs r \<and> fwd n xs r"

lemma fwd_append [simp]: "fwd n (xs @ ys) r \<longleftrightarrow> fwd n xs (first ys r) \<and> fwd n ys r"
  by (induction xs) auto

lemma fwd_cong: "fwd n xs r \<Longrightarrow> (\<And>x. x \<in> set xs \<Longrightarrow> n' x = n x) \<Longrightarrow> fwd n' xs r"
  by (induction xs) auto

lemma linked_fwd: "linked n p q xs r \<Longrightarrow> fwd n xs r"
  by (induction xs arbitrary: q) auto

abbreviation app_next :: "ut_memory \<Rightarrow> addr \<Rightarrow> addr option" where
  "app_next m \<equiv> (\<lambda>a. hh_app_next (m a))"

abbreviation app_prev :: "ut_memory \<Rightarrow> addr \<Rightarrow> addr option" where
  "app_prev m \<equiv> (\<lambda>a. hh_app_prev (m a))"

text \<open>Changes of the pointers of the list of all elements only.\<close>

definition app_frame :: "addr set \<Rightarrow> ut_memory \<Rightarrow> ut_memory \<Rightarrow> bool" where
  "app_frame A m m' \<longleftrightarrow> (\<forall>a. hh_next (m' a) = hh_next (m a) \<and> hh_prev (m' a) = hh_prev (m a) \<and>
     hh_key (m' a) = hh_key (m a) \<and> hh_hashv (m' a) = hh_hashv (m a)) \<and> (\<forall>a. a \<notin> A \<longrightarrow> m' a = m a)"

lemma app_frame_refl: "app_frame A m m"
  by (simp add: app_frame_def)

lemma app_frame_trans: "app_frame A m m' \<Longrightarrow> app_frame B m' m'' \<Longrightarrow> A \<union> B \<subseteq> C \<Longrightarrow> app_frame C m m''"
  unfolding app_frame_def by (metis Un_iff subsetD)

lemma srt_next_first: "fwd (app_next m) (x # xs) r \<Longrightarrow> srt_next m (Some x) = first xs r"
  by (simp add: srt_next_def)

lemma srt_skip_spec:
  "fwd (app_next m) xs None \<Longrightarrow> xs \<noteq> [] \<Longrightarrow> srt_skip m n (first xs None) = (first (drop n xs) None, length (take n xs))"
proof (induction n arbitrary: xs)
  case (Suc n)
  then obtain x ys where xs: "xs = x # ys" by (cases xs) auto
  then show ?case
    using Suc.IH [of ys] Suc.prems by (cases ys) (auto simp: srt_next_def)
qed simp

text \<open>What has been merged so far: a list with both pointers, whose last element still points anywhere.\<close>

definition merged :: "srt_state \<Rightarrow> addr list \<Rightarrow> bool" where
  "merged s ds \<longleftrightarrow> (\<exists>r. linked (app_next (sr_mem s)) (app_prev (sr_mem s)) None ds r) \<and> distinct ds \<and>
     (ds \<noteq> [] \<longrightarrow> sr_list s = Some (hd ds)) \<and> sr_tail s = final ds None"

lemma merged_link:
  assumes "merged s ds" "e \<notin> set ds"
  shows "merged (srt_link (Some e) s) (ds @ [e])" "app_frame (insert e (set ds)) (sr_mem s) (sr_mem (srt_link (Some e) s))"
    "a \<notin> set ds \<Longrightarrow> hh_app_next (sr_mem (srt_link (Some e) s) a) = hh_app_next (sr_mem s a)"
proof -
  let ?s = "srt_link (Some e) s"
  obtain r where l: "linked (app_next (sr_mem s)) (app_prev (sr_mem s)) None ds r" and d: "distinct ds"
    and hd: "ds \<noteq> [] \<Longrightarrow> sr_list s = Some (hd ds)" and tl: "sr_tail s = final ds None"
    using assms(1) by (auto simp: merged_def split: if_splits)
  have m: "sr_mem ?s = (let m1 = (if ds = [] then sr_mem s else (sr_mem s)(last ds := (sr_mem s (last ds))\<lparr>hh_app_next := Some e\<rparr>))
      in m1(e := (m1 e)\<lparr>hh_app_prev := final ds None\<rparr>))"
    by (simp add: srt_link_def tl final_def Let_def)
  have last: "ds \<noteq> [] \<Longrightarrow> last ds \<in> set ds \<and> last ds \<noteq> e" using assms(2) last_in_set by metis
  show "app_frame (insert e (set ds)) (sr_mem s) (sr_mem ?s)"
    using last by (auto simp: app_frame_def m Let_def)
  show "a \<notin> set ds \<Longrightarrow> hh_app_next (sr_mem ?s a) = hh_app_next (sr_mem s a)"
    using last by (auto simp: m Let_def)
  have "linked (app_next (sr_mem ?s)) (app_prev (sr_mem ?s)) None ds (Some e)"
  proof (cases "ds = []")
    case False
    show ?thesis
      by (rule linked_frame [OF linked_retarget [OF d False l]]) (use assms(2) False in \<open>auto simp: m\<close>)
  qed simp
  moreover have "hh_app_prev (sr_mem ?s e) = final ds None" by (simp add: m Let_def)
  moreover have "sr_list ?s = Some (hd (ds @ [e]))"
    using hd tl by (cases "ds = []") (simp_all add: srt_link_def final_def)
  ultimately show "merged ?s (ds @ [e])" using d assms(2) by (auto simp: merged_def)
qed

lemma merged_cong: "merged s ds \<Longrightarrow> sr_mem s' = sr_mem s \<Longrightarrow> sr_list s' = sr_list s \<Longrightarrow> sr_tail s' = sr_tail s \<Longrightarrow> merged s' ds"
  unfolding merged_def by simp

text \<open>The two runs that are being merged, and what comes after them.\<close>

definition runs_at :: "srt_state \<Rightarrow> addr list \<Rightarrow> addr list \<Rightarrow> addr list \<Rightarrow> bool" where
  "runs_at s ps qs rest \<longleftrightarrow>
     (\<exists>r. fwd (app_next (sr_mem s)) ps r) \<and> (ps \<noteq> [] \<longrightarrow> sr_p s = Some (hd ps)) \<and> sr_psize s = length ps \<and>
     fwd (app_next (sr_mem s)) (qs @ rest) None \<and> sr_q s = first (qs @ rest) None \<and>
     length qs \<le> sr_qsize s \<and> (rest \<noteq> [] \<longrightarrow> length qs = sr_qsize s) \<and> distinct (ps @ qs @ rest)"

lemma choose_p:
  assumes "runs_at s (x # ps) qs rest" "qs = [] \<or> cmp x (hd qs) \<le> 0"
  shows "srt_choose cmp s = (Some x, s\<lparr>sr_p := srt_next (sr_mem s) (Some x), sr_psize := length ps\<rparr>)"
    "runs_at (s\<lparr>sr_p := srt_next (sr_mem s) (Some x), sr_psize := length ps\<rparr>) ps qs rest"
proof -
  show "srt_choose cmp s = (Some x, s\<lparr>sr_p := srt_next (sr_mem s) (Some x), sr_psize := length ps\<rparr>)"
    using assms by (cases qs; cases rest) (auto simp: srt_choose_def Let_def runs_at_def)
  show "runs_at (s\<lparr>sr_p := srt_next (sr_mem s) (Some x), sr_psize := length ps\<rparr>) ps qs rest"
    using assms(1) by (cases ps) (auto simp: runs_at_def srt_next_def)
qed

lemma choose_q:
  assumes "runs_at s ps (y # qs) rest" "ps = [] \<or> \<not> cmp (hd ps) y \<le> 0"
  shows "srt_choose cmp s = (Some y, s\<lparr>sr_q := srt_next (sr_mem s) (Some y), sr_qsize := sr_qsize s - 1\<rparr>)"
    "runs_at (s\<lparr>sr_q := srt_next (sr_mem s) (Some y), sr_qsize := sr_qsize s - 1\<rparr>) ps qs rest"
proof -
  show "srt_choose cmp s = (Some y, s\<lparr>sr_q := srt_next (sr_mem s) (Some y), sr_qsize := sr_qsize s - 1\<rparr>)"
    using assms by (cases ps) (auto simp: srt_choose_def Let_def runs_at_def)
  show "runs_at (s\<lparr>sr_q := srt_next (sr_mem s) (Some y), sr_qsize := sr_qsize s - 1\<rparr>) ps qs rest"
    using assms(1) by (auto simp: runs_at_def srt_next_def)
qed

lemma runs_at_link:
  assumes "runs_at s ps qs rest" "merged s ds" "e \<notin> set ds" "set ds \<inter> set (ps @ qs @ rest) = {}"
  shows "runs_at (srt_link (Some e) s) ps qs rest"
proof -
  have n: "hh_app_next (sr_mem (srt_link (Some e) s) a) = hh_app_next (sr_mem s a)" if "a \<in> set (ps @ qs @ rest)" for a
    using merged_link(3) [OF assms(2,3)] assms(4) that by blast
  have "fwd (app_next (sr_mem (srt_link (Some e) s))) zs r"
    if "fwd (app_next (sr_mem s)) zs r" "set zs \<subseteq> set (ps @ qs @ rest)" for zs r
    using that(1) by (rule fwd_cong) (use n that(2) in blast)
  from this [of ps] this [of "qs @ rest"] show ?thesis using assms(1) unfolding runs_at_def by auto
qed

lemma srt_merge_spec:
  assumes "runs_at s ps qs rest" "merged s ds" "set ds \<inter> set (ps @ qs @ rest) = {}"
  shows "merged (srt_merge cmp s) (ds @ cmp_merge cmp ps qs) \<and> sr_q (srt_merge cmp s) = first rest None \<and>
    app_frame (set ds \<union> set ps \<union> set qs) (sr_mem s) (sr_mem (srt_merge cmp s))"
  using assms
proof (induction "length ps + length qs" arbitrary: s ds ps qs rule: less_induct)
  case less
  let ?c = "srt_choose cmp s"
  have go: "?case" if e: "?c = (Some e, s1)" and run: "runs_at s1 ps1 qs1 rest"
      and same: "sr_mem s1 = sr_mem s" "sr_list s1 = sr_list s" "sr_tail s1 = sr_tail s"
      and parts: "insert e (set ps1 \<union> set qs1) = set ps \<union> set qs" "e \<notin> set ps1 \<union> set qs1"
      and m: "cmp_merge cmp ps qs = e # cmp_merge cmp ps1 qs1"
      and len: "length ps1 + length qs1 < length ps + length qs"
      and on: "sr_psize s \<noteq> 0 \<or> sr_qsize s \<noteq> 0 \<and> sr_q s \<noteq> None" for e s1 ps1 qs1
  proof -
    have ed: "e \<notin> set ds" "set ds \<inter> set (ps1 @ qs1 @ rest) = {}" using less.prems(3) parts by auto
    have mg: "merged s1 ds" by (rule merged_cong [OF less.prems(2) same])
    let ?s = "srt_link (Some e) s1"
    have run': "runs_at ?s ps1 qs1 rest" by (rule runs_at_link [OF run mg ed])
    have "e \<notin> set rest" using less.prems(1) parts unfolding runs_at_def by auto
    then have "set (ds @ [e]) \<inter> set (ps1 @ qs1 @ rest) = {}" using ed(2) parts(2) by auto
    from less.hyps [OF len run' merged_link(1) [OF mg ed(1)] this]
    have r: "merged (srt_merge cmp ?s) ((ds @ [e]) @ cmp_merge cmp ps1 qs1)" "sr_q (srt_merge cmp ?s) = first rest None"
      "app_frame (set (ds @ [e]) \<union> set ps1 \<union> set qs1) (sr_mem ?s) (sr_mem (srt_merge cmp ?s))" by auto
    have "srt_merge cmp s = srt_merge cmp ?s" by (subst srt_merge.simps) (use on e in simp)
    moreover have "app_frame (set ds \<union> set ps \<union> set qs) (sr_mem s) (sr_mem (srt_merge cmp ?s))"
      by (rule app_frame_trans [OF merged_link(2) [OF mg ed(1)] r(3), unfolded same]) (use parts(1) in auto)
    ultimately show ?thesis using r(1,2) m by simp
  qed
  note run = less.prems(1)
  have sz: "sr_psize s = length ps" "distinct (ps @ qs @ rest)" using run by (auto simp: runs_at_def)
  consider (stop) "ps = []" "qs = []" | (p) x ps1 where "ps = x # ps1" "qs = [] \<or> cmp x (hd qs) \<le> 0"
    | (q) y qs1 where "qs = y # qs1" "ps = [] \<or> \<not> cmp (hd ps) y \<le> 0"
    by (cases ps; cases qs) auto
  then show ?case
  proof cases
    case stop
    then have "srt_merge cmp s = s" using run by (subst srt_merge.simps) (auto simp: runs_at_def)
    then show ?thesis using stop less.prems(2) run by (auto simp: app_frame_refl runs_at_def)
  next
    case p
    show ?thesis
      by (rule go [OF choose_p [of s x ps1 qs rest cmp]]) (use p sz run in \<open>cases qs; auto\<close>)+
  next
    case q
    have "sr_qsize s \<noteq> 0 \<and> sr_q s \<noteq> None" using run q by (auto simp: runs_at_def)
    then show ?thesis
      by (intro go [OF choose_q [of s ps y qs1 rest cmp]]) (use q sz run in \<open>cases ps; auto\<close>)+
  qed
qed

section \<open>Rounds\<close>

lemma set_merge_pass: "0 < n \<Longrightarrow> set (merge_pass cmp n xs) = set xs"
proof (induction cmp n xs rule: merge_pass.induct)
  case (1 cmp n xs)
  show ?case
  proof (cases "xs = []")
    case False
    have "set xs = set (take n xs) \<union> (set (take n (drop n xs)) \<union> set (drop n (drop n xs)))"
      by (metis append_take_drop_id set_append)
    moreover have "drop n (drop n xs) = drop (2 * n) xs" by (simp add: mult_2)
    ultimately show ?thesis using 1 False by (subst merge_pass.simps) auto
  qed (simp add: merge_pass.simps)
qed

lemma srt_pass_spec:
  assumes "fwd (app_next (sr_mem s)) xs None" "sr_p s = first xs None" "merged s ds" "distinct xs" "set ds \<inter> set xs = {}" "0 < n"
  shows "\<exists>s'. srt_pass cmp n s k = Some (s', k + pass_merges n xs) \<and> merged s' (ds @ merge_pass cmp n xs) \<and>
    app_frame (set ds \<union> set xs) (sr_mem s) (sr_mem s')"
  using assms(1-5)
proof (induction "length xs" arbitrary: s xs ds k rule: less_induct)
  case less
  show ?case
  proof (cases "xs = []")
    case True
    with less.prems show ?thesis
      by (simp add: srt_pass.simps [of cmp n s] merge_pass.simps pass_merges.simps app_frame_refl)
  next
    case False
    define ps qs rest where "ps = take n xs" and "qs = take n (drop n xs)" and "rest = drop (2 * n) xs"
    have rest: "drop n (drop n xs) = rest" by (simp add: rest_def mult_2)
    then have xs: "xs = ps @ qs @ rest" by (metis append_take_drop_id ps_def qs_def)
    let ?s = "s\<lparr>sr_q := first (drop n xs) None, sr_psize := length ps, sr_qsize := n\<rparr>"
    have skip: "srt_skip (sr_mem s) n (sr_p s) = (first (drop n xs) None, length ps)"
      using srt_skip_spec [OF less.prems(1) False] by (simp add: less.prems(2) ps_def)
    have dn: "drop n xs = qs @ rest" using rest by (metis append_take_drop_id qs_def)
    have "ps \<noteq> []" using False assms(6) by (simp add: ps_def)
    have "length qs \<le> n" "rest \<noteq> [] \<Longrightarrow> length qs = n" by (simp_all add: qs_def rest_def)
    moreover have "fwd (app_next (sr_mem s)) (ps @ qs @ rest) None" "distinct (ps @ qs @ rest)" "sr_p s = first (ps @ qs @ rest) None"
      using less.prems(1,2,4) xs by metis+
    ultimately have run: "runs_at ?s ps qs rest"
      using \<open>ps \<noteq> []\<close> unfolding runs_at_def dn by (auto simp: neq_Nil_conv)
    have mg: "merged ?s ds" by (rule merged_cong [OF less.prems(3)]) simp_all
    have dj: "set ds \<inter> set (ps @ qs @ rest) = {}" using less.prems(5) by (simp add: xs [symmetric])
    let ?m = "srt_merge cmp ?s"
    have m: "merged ?m (ds @ cmp_merge cmp ps qs)" "sr_q ?m = first rest None"
      "app_frame (set ds \<union> set ps \<union> set qs) (sr_mem s) (sr_mem ?m)"
      using srt_merge_spec [OF run mg dj, of cmp] by simp_all
    have dist: "distinct (ps @ qs @ rest)" using less.prems(4) by (simp add: xs [symmetric])
    let ?n = "?m\<lparr>sr_p := sr_q ?m\<rparr>"
    have f: "fwd (app_next (sr_mem ?n)) rest None"
    proof (rule fwd_cong)
      show "fwd (app_next (sr_mem s)) rest None" using less.prems(1) by (simp add: xs)
      fix x assume "x \<in> set rest"
      then have "x \<notin> set ds \<union> set ps \<union> set qs" using dist dj by auto
      then show "hh_app_next (sr_mem ?n x) = hh_app_next (sr_mem s x)" using m(3) by (simp add: app_frame_def)
    qed
    have "merged ?n (ds @ cmp_merge cmp ps qs)" by (rule merged_cong [OF m(1)]) simp_all
    moreover have "length rest < length xs" using \<open>ps \<noteq> []\<close> by (simp add: xs)
    moreover have "set (ds @ cmp_merge cmp ps qs) \<inter> set rest = {}" using dist dj by auto
    ultimately obtain s' where r: "srt_pass cmp n ?n (k + 1) = Some (s', k + 1 + pass_merges n rest)"
      "merged s' ((ds @ cmp_merge cmp ps qs) @ merge_pass cmp n rest)"
      "app_frame (set (ds @ cmp_merge cmp ps qs) \<union> set rest) (sr_mem ?n) (sr_mem s')"
      using less.hyps [of rest ?n "ds @ cmp_merge cmp ps qs" "k + 1"] f m(2) dist by auto
    have "sr_p s \<noteq> None" using False less.prems(2) by simp
    then have "srt_pass cmp n s k = srt_pass cmp n ?n (k + 1)"
      by (subst srt_pass.simps) (simp only: if_False skip Let_def fst_conv snd_conv)
    moreover have "k + 1 + pass_merges n rest = k + pass_merges n xs"
      using False assms(6) by (simp add: pass_merges.simps [of n xs] rest_def)
    moreover have "merge_pass cmp n xs = cmp_merge cmp ps qs @ merge_pass cmp n rest"
      using False assms(6) by (simp add: merge_pass.simps [of cmp n xs] ps_def qs_def rest_def)
    moreover have "app_frame (set ds \<union> set xs) (sr_mem s) (sr_mem s')"
      by (rule app_frame_trans [OF m(3)]) (use r(3) in \<open>auto simp: xs\<close>)
    ultimately show ?thesis using r(1,2) by auto
  qed
qed

lemma merged_close:
  assumes "merged s ds"
  shows "linked (app_next (sr_mem (srt_close s))) (app_prev (sr_mem (srt_close s))) None ds None"
    "app_frame (set ds) (sr_mem s) (sr_mem (srt_close s))" "sr_list (srt_close s) = sr_list s" "sr_tail (srt_close s) = sr_tail s"
proof -
  obtain r where l: "linked (app_next (sr_mem s)) (app_prev (sr_mem s)) None ds r" and d: "distinct ds" and t: "sr_tail s = final ds None"
    using assms by (auto simp: merged_def)
  show "linked (app_next (sr_mem (srt_close s))) (app_prev (sr_mem (srt_close s))) None ds None"
  proof (cases "ds = []")
    case False
    show ?thesis
      by (rule linked_frame [OF linked_retarget [OF d False l]]) (use t False in \<open>auto simp: srt_close_def final_def\<close>)
  qed simp
  show "app_frame (set ds) (sr_mem s) (sr_mem (srt_close s))"
    using t by (auto simp: srt_close_def app_frame_def final_def split: option.split)
qed (simp_all add: srt_close_def split: option.split)

lemma length_merge_pass: "0 < n \<Longrightarrow> length (merge_pass cmp n xs) = length xs"
proof (induction cmp n xs rule: merge_pass.induct)
  case (1 cmp n xs)
  then show ?case by (subst merge_pass.simps) auto
qed

lemma srt_rounds_spec:
  assumes "cmp_order cmp" "as \<noteq> []" "0 < n" "sr_list s = first (sorted_runs cmp n as) None" "distinct (sorted_runs cmp n as)"
    and "fwd (app_next (sr_mem s)) (sorted_runs cmp n as) None" "set (sorted_runs cmp n as) = set as"
  shows "\<exists>s'. srt_rounds cmp n s = Some s' \<and> sr_list s' = first (cmp_sort cmp as) None \<and>
    sr_tail s' = Some (last (cmp_sort cmp as)) \<and> app_linked (sr_mem s') (cmp_sort cmp as) \<and>
    distinct (cmp_sort cmp as) \<and> app_frame (set as) (sr_mem s) (sr_mem s')"
  using assms(3-7)
proof (induction "length as - n" arbitrary: n s rule: less_induct)
  case less
  let ?xs = "sorted_runs cmp n as"
  let ?s = "s\<lparr>sr_p := sr_list s, sr_list := None, sr_tail := None\<rparr>"
  have "merged ?s []" by (simp add: merged_def)
  then obtain s' where s': "srt_pass cmp n ?s 0 = Some (s', pass_merges n ?xs)" "merged s' (merge_pass cmp n ?xs)"
    "app_frame (set ?xs) (sr_mem s) (sr_mem s')"
    using srt_pass_spec [of ?s ?xs "[]" n cmp 0] less.prems by auto
  note mp = merge_pass_runs [OF assms(1) less.prems(1), of as]
  note c = merged_close [OF s'(2)]
  have set2: "set (sorted_runs cmp (2 * n) as) = set as"
    using set_merge_pass [OF less.prems(1), of cmp ?xs] less.prems(5) by (simp add: mp)
  have fr: "app_frame (set as) (sr_mem s) (sr_mem (srt_close s'))"
    by (rule app_frame_trans [OF s'(3) c(2)]) (use set2 less.prems(5) in \<open>auto simp: mp\<close>)
  have "srt_rounds cmp n s = (if pass_merges n ?xs \<le> 1 then Some (srt_close s') else srt_rounds cmp (n * 2) (srt_close s'))"
    by (simp add: srt_rounds.simps [of cmp n s] s'(1))
  then have step: "srt_rounds cmp n s = (if length as \<le> 2 * n then Some (srt_close s') else srt_rounds cmp (n * 2) (srt_close s'))"
    unfolding pass_merges_le_1 [OF less.prems(1)] length_sorted_runs [OF less.prems(1)] .
  have l2: "length (sorted_runs cmp (2 * n) as) = length as" by (rule length_sorted_runs) (use less.prems(1) in simp)
  have ne: "sorted_runs cmp (2 * n) as \<noteq> []" using l2 assms(2) by auto
  have lst: "sr_list s' = first (sorted_runs cmp (2 * n) as) None" "sr_tail s' = Some (last (sorted_runs cmp (2 * n) as))"
    "distinct (sorted_runs cmp (2 * n) as)"
    using s'(2) ne by (auto simp: merged_def mp final_def neq_Nil_conv)
  show ?case
  proof (cases "length as \<le> 2 * n")
    case True
    have "sorted_runs cmp (2 * n) as = cmp_sort cmp as" by (rule sorted_runs_all [OF True]) (use less.prems(1) in simp)
    then show ?thesis
      using True step lst fr c by (simp add: mp)
  next
    case False
    let ?t = "srt_close s'"
    have more: "length as - 2 * n < length as - n" using False less.prems(1) by simp
    have "fwd (app_next (sr_mem ?t)) (sorted_runs cmp (2 * n) as) None" using linked_fwd [OF c(1)] by (simp add: mp)
    from less.hyps [OF more _ _ lst(3) this set2] less.prems(1) lst(1) c(3) obtain s2 where
      s2: "srt_rounds cmp (2 * n) ?t = Some s2" "sr_list s2 = first (cmp_sort cmp as) None"
        "sr_tail s2 = Some (last (cmp_sort cmp as))" "app_linked (sr_mem s2) (cmp_sort cmp as)" "distinct (cmp_sort cmp as)"
        "app_frame (set as) (sr_mem ?t) (sr_mem s2)" by auto
    have "app_frame (set as) (sr_mem s) (sr_mem s2)" by (rule app_frame_trans [OF fr s2(6)]) simp
    with s2(1-5) False step show ?thesis by (simp add: mult.commute)
  qed
qed

lemma app_frameD:
  assumes "app_frame A m m'"
  shows "hh_next (m' a) = hh_next (m a)" "hh_prev (m' a) = hh_prev (m a)" "hh_key (m' a) = hh_key (m a)"
    "hh_hashv (m' a) = hh_hashv (m a)"
  using assms by (simp_all add: app_frame_def)

lemma hash_sort_spec:
  assumes "hash_ok u as" "cmp_order cmp"
  shows "\<exists>u'. hash_sort cmp u = Some u' \<and> hash_ok u' (cmp_sort cmp as) \<and> (\<forall>x. hh_key (ut_mem u' x) = hh_key (ut_mem u x))"
proof (cases as)
  case Nil
  then show ?thesis using assms(1) by (simp add: hash_sort_def hash_ok_def)
next
  case (Cons h hs)
  let ?t = "ut_tbl u"
  have ok: "ut_head u = Some h" "distinct as" "app_linked (ut_mem u) as" "ut_num_items ?t = length as" "table_sizes_ok ?t"
    "buckets_ok (ut_mem u) (ut_num_buckets ?t) (ut_buckets ?t) (set as)" "as \<noteq> []"
    and hv: "\<And>a. a \<in> set as \<Longrightarrow> hh_hashv (ut_mem u a) = hash_jen (hh_key (ut_mem u a))"
    using assms(1) Cons by (auto simp: hash_ok_def)
  let ?s = "\<lparr>sr_mem = ut_mem u, sr_p = None, sr_q = None, sr_psize = 0, sr_qsize = 0, sr_list = Some h, sr_tail = None\<rparr>"
  obtain s where s: "srt_rounds cmp 1 ?s = Some s" "sr_list s = first (cmp_sort cmp as) None"
    "sr_tail s = Some (last (cmp_sort cmp as))" "app_linked (sr_mem s) (cmp_sort cmp as)" "distinct (cmp_sort cmp as)"
    "app_frame (set as) (ut_mem u) (sr_mem s)"
    using srt_rounds_spec [OF assms(2) ok(7), of 1 ?s, unfolded sorted_runs_1] ok(2) linked_fwd [OF ok(3)]
    by (auto simp: Cons)
  note f = app_frameD [OF s(6)]
  have b: "buckets_ok (sr_mem s) (ut_num_buckets ?t) (ut_buckets ?t) (set as)"
    by (rule buckets_ok_frame [OF ok(6)]) (simp add: f)
  let ?u = "u\<lparr>ut_mem := sr_mem s, ut_head := sr_list s, ut_tbl := ?t\<lparr>ut_tail := the (sr_tail s)\<rparr>\<rparr>"
  have "hash_sort cmp u = Some ?u" using s(1) by (simp add: hash_sort_def ok(1))
  moreover have "hash_ok ?u (cmp_sort cmp as)"
    unfolding hash_ok_def using s(2-5) ok(4,5) b hv by (simp add: f table_sizes_ok_def)
  ultimately show ?thesis using f(3) by auto
qed

end
