(* ===== verification/UtOrder.thy ===== *)
theory UtOrder
  imports UtSort
begin

text \<open>
  The other operations of \<^verbatim>\<open>src/uthash.h\<close> on one table: replacing the element with a key, adding
  at the place a comparison gives, clearing, the memory that the table takes, and the
  check of all pointers that is compiled in with \<^verbatim>\<open>HASH_DEBUG\<close>.
\<close>

section \<open>Replacing\<close>

definition hash_replace_by ::
  "(ut_hash \<Rightarrow> ut_hash ut_run option) \<Rightarrow> ut_hash \<Rightarrow> bytes \<Rightarrow> (addr option \<times> ut_hash) ut_run option" where
  "hash_replace_by add u key =
     (case hash_find u key of
        None \<Rightarrow> None
      | Some replaced \<Rightarrow>
          (case add (case replaced of None \<Rightarrow> u | Some b \<Rightarrow> hash_delete u b) of
             None \<Rightarrow> None
           | Some Fatal \<Rightarrow> Some Fatal
           | Some (Done u') \<Rightarrow> Some (Done (replaced, u'))))"

definition hash_replace :: "(nat \<Rightarrow> bool) \<Rightarrow> ut_hash \<Rightarrow> addr \<Rightarrow> bytes \<Rightarrow> (addr option \<times> ut_hash) ut_run option" where
  "hash_replace can u a key = hash_replace_by (\<lambda>u. hash_add can u a key) u key"

section \<open>Adding in order\<close>

text \<open>The loop stops at the first element that is greater than the new one, or behind the last.\<close>

partial_function (option) inorder_stop :: "ut_cmp \<Rightarrow> ut_memory \<Rightarrow> addr \<Rightarrow> addr \<Rightarrow> addr option option" where
  "inorder_stop cmp m a it =
     (if 0 < cmp it a then Some (Some it)
      else if hh_app_next (m it) = None then Some None
      else inorder_stop cmp m a (the (hh_app_next (m it))))"

declare inorder_stop.simps [code]

definition insert_before :: "ut_memory \<Rightarrow> addr \<Rightarrow> addr \<Rightarrow> addr \<Rightarrow> ut_memory \<times> addr" where
  "insert_before m head it a =
     (let m1 = m(a := (m a)\<lparr>hh_app_next := Some it, hh_app_prev := hh_app_prev (m it)\<rparr>);
          (m2, head') = (case hh_app_prev (m1 a) of
             Some p \<Rightarrow> (m1(p := (m1 p)\<lparr>hh_app_next := Some a\<rparr>), head)
           | None \<Rightarrow> (m1, a))
      in (m2(it := (m2 it)\<lparr>hh_app_prev := Some a\<rparr>), head'))"

definition hash_add_inorder :: "(nat \<Rightarrow> bool) \<Rightarrow> ut_cmp \<Rightarrow> ut_hash \<Rightarrow> addr \<Rightarrow> bytes \<Rightarrow> ut_hash ut_run option" where
  "hash_add_inorder can cmp u a key =
     (case ut_head u of
        None \<Rightarrow> hash_add_first can u a key
      | Some h \<Rightarrow>
          let m = new_key (ut_mem u) a key
          in case inorder_stop cmp m a h of
               None \<Rightarrow> None
             | Some None \<Rightarrow>
                 (let (m', t) = hash_append_list m (ut_tbl u) a in hash_add_to_table can m' h t (hash_jen key) a)
             | Some (Some it) \<Rightarrow>
                 (let (m', head) = insert_before m h it a in hash_add_to_table can m' head (ut_tbl u) (hash_jen key) a))"

definition hash_replace_inorder ::
  "(nat \<Rightarrow> bool) \<Rightarrow> ut_cmp \<Rightarrow> ut_hash \<Rightarrow> addr \<Rightarrow> bytes \<Rightarrow> (addr option \<times> ut_hash) ut_run option" where
  "hash_replace_inorder can cmp u a key = hash_replace_by (\<lambda>u. hash_add_inorder can cmp u a key) u key"

definition inorder_list :: "ut_cmp \<Rightarrow> addr \<Rightarrow> addr list \<Rightarrow> addr list" where
  "inorder_list cmp a xs = takeWhile (\<lambda>x. cmp x a \<le> 0) xs @ a # dropWhile (\<lambda>x. cmp x a \<le> 0) xs"

text \<open>In a sorted list this is the place that keeps it sorted, behind all equal elements.\<close>

lemma inorder_list_sort: "cmp_order cmp \<Longrightarrow> inorder_list cmp a (cmp_sort cmp xs) = cmp_sort cmp (xs @ [a])"
proof -
  assume o: "cmp_order cmp"
  have "inorder_list cmp a ys = cmp_merge cmp ys [a]" for ys
    by (induction ys) (simp_all add: inorder_list_def)
  then show ?thesis using cmp_merge_sort [OF o, of xs "[a]"] by simp
qed

lemma inorder_stop_spec:
  "fwd (app_next m) (x # xs) None \<Longrightarrow> inorder_stop cmp m a x = Some (first (dropWhile (\<lambda>x. cmp x a \<le> 0) (x # xs)) None)"
proof (induction xs arbitrary: x)
  case Nil
  then show ?case by (simp add: inorder_stop.simps [of cmp m a x])
next
  case (Cons y ys)
  then show ?case using Cons.IH [of y] by (simp add: inorder_stop.simps [of cmp m a x])
qed

lemma insert_before_spec:
  assumes "app_linked m (xs @ it # ys)" "distinct (xs @ it # ys)" "a \<notin> set (xs @ it # ys)"
    and "Some head = first (xs @ it # ys) None" "insert_before m head it a = (m', head')"
  shows "app_linked m' (xs @ a # it # ys)" "Some head' = first (xs @ a # it # ys) None"
    "hh_next (m' x) = hh_next (m x)" "hh_prev (m' x) = hh_prev (m x)" "hh_hashv (m' x) = hh_hashv (m x)" "hh_key (m' x) = hh_key (m x)"
proof -
  have p: "hh_app_prev (m it) = final xs None" using assms(1) by simp
  have ne: "it \<noteq> a" "xs \<noteq> [] \<Longrightarrow> last xs \<noteq> a \<and> last xs \<noteq> it"
    using assms(2,3) last_in_set [of xs] by auto
  define m1 where "m1 = m(a := (m a)\<lparr>hh_app_next := Some it, hh_app_prev := final xs None\<rparr>)"
  define m2 where "m2 = (if xs = [] then m1 else m1(last xs := (m1 (last xs))\<lparr>hh_app_next := Some a\<rparr>))"
  have h: "head' = (if xs = [] then a else head)" and m': "m' = m2(it := (m2 it)\<lparr>hh_app_prev := Some a\<rparr>)"
    using assms(5) ne by (auto simp: insert_before_def p final_def m1_def [symmetric] m2_def Let_def m1_def split: if_splits)
  show "Some head' = first (xs @ a # it # ys) None" using assms(4) by (cases xs) (simp_all add: h)
  show "hh_next (m' x) = hh_next (m x)" "hh_prev (m' x) = hh_prev (m x)" "hh_hashv (m' x) = hh_hashv (m x)" "hh_key (m' x) = hh_key (m x)"
    by (simp_all add: m' m2_def m1_def)
  have "linked (app_next m') (app_prev m') None xs (Some a)"
  proof (cases "xs = []")
    case False
    have "linked ((app_next m)(last xs := Some a)) (app_prev m) None xs (Some a)"
      by (rule linked_retarget [of _ _ _ _ "Some it"]) (use assms(1,2) False in auto)
    then show ?thesis by (rule linked_frame) (use assms(2,3) False in \<open>auto simp: m' m2_def m1_def\<close>)
  qed simp
  moreover have "linked (app_next m') (app_prev m') (Some it) ys None"
  proof (rule linked_frame)
    show "linked (app_next m) (app_prev m) (Some it) ys None" using assms(1) by simp
    fix y assume "y \<in> set ys"
    then have "y \<noteq> a" "y \<noteq> it" "y \<notin> set xs" using assms(2,3) by auto
    moreover from this have "xs \<noteq> [] \<Longrightarrow> y \<noteq> last xs" using last_in_set by blast
    ultimately show "hh_app_next (m' y) = hh_app_next (m y) \<and> hh_app_prev (m' y) = hh_app_prev (m y)"
      by (simp add: m' m2_def m1_def)
  qed
  moreover have "hh_app_next (m' it) = first ys None" using assms(1) ne by (cases "xs = []") (simp_all add: m' m2_def m1_def)
  moreover have "hh_app_prev (m' a) = final xs None" "hh_app_next (m' a) = Some it" using ne by (cases "xs = []"; simp add: m' m2_def m1_def)+
  moreover have "hh_app_prev (m' it) = Some a" by (simp add: m')
  ultimately show "app_linked m' (xs @ a # it # ys)" by simp
qed

lemma hash_add_inorder_spec:
  assumes "hash_ok u as" "a \<notin> set as" "alloc_limit can"
  shows "added can u as a key (inorder_list cmp a as) (hash_add_inorder can cmp u a key)"
proof (cases as)
  case Nil
  with hash_add_first_spec [of u can a key] assms show ?thesis
    by (simp add: hash_add_inorder_def hash_ok_def inorder_list_def)
next
  case (Cons h hs)
  let ?t = "ut_tbl u" and ?m = "new_key (ut_mem u) a key"
  have ok: "ut_head u = Some h" "distinct as" "app_linked ?m as" "ut_tail ?t = last as" "as \<noteq> []"
    "ut_num_items ?t = length as" "table_sizes_ok ?t" "buckets_ok (ut_mem u) (ut_num_buckets ?t) (ut_buckets ?t) (set as)"
    using assms(1) Cons by (auto simp: hash_ok_def)
  have stop: "inorder_stop cmp ?m a h = Some (first (dropWhile (\<lambda>x. cmp x a \<le> 0) as) None)"
    using inorder_stop_spec linked_fwd [OF ok(3)] by (simp add: Cons)
  show ?thesis
  proof (cases "dropWhile (\<lambda>x. cmp x a \<le> 0) as")
    case Nil
    then have "inorder_stop cmp ?m a h = Some None" by (simp only: stop first_simps)
    then have "hash_add_inorder can cmp u a key = hash_add can u a key"
      by (simp add: hash_add_inorder_def hash_add_def ok(1) Let_def)
    moreover have "inorder_list cmp a as = as @ [a]" using Nil by (simp add: inorder_list_def dropWhile_eq_Nil_conv takeWhile_eq_all_conv)
    ultimately show ?thesis using hash_add_added [OF assms] by simp
  next
    case (Cons it ys)
    define xs where "xs = takeWhile (\<lambda>x. cmp x a \<le> 0) as"
    have as: "as = xs @ it # ys" unfolding xs_def Cons [symmetric] by simp
    have bs: "inorder_list cmp a as = xs @ a # it # ys" by (simp add: inorder_list_def xs_def Cons)
    obtain m head where ib: "insert_before ?m h it a = (m, head)" by fastforce
    have hd: "Some h = first (xs @ it # ys) None" using \<open>as = h # hs\<close> as by (metis first_simps(2))
    note i = insert_before_spec [OF ok(3) [unfolded as] ok(2) [unfolded as] assms(2) [unfolded as] hd ib]
    have old: "new_key (ut_mem u) a key x = ut_mem u x" if "x \<in> set as" for x using that assms(2) by (cases "x = a") auto
    have b: "buckets_ok m (ut_num_buckets ?t) (ut_buckets ?t) (set as)"
      by (rule buckets_ok_frame [OF ok(8)]) (simp add: i old)
    have hv: "hh_hashv (m x) = hash_jen (hh_key (m x))" if "x \<in> set (xs @ a # it # ys)" for x
      using that assms(1) as by (cases "x = a") (auto simp: i hash_ok_def)
    have "9 \<le> length as \<and> hash_add_to_table can m head ?t (hash_jen key) a = Some Fatal \<or>
      (\<exists>u'. hash_add_to_table can m head ?t (hash_jen key) a = Some (Done u') \<and> hash_ok u' (xs @ a # it # ys) \<and>
        (\<forall>x. hh_key (ut_mem u' x) = hh_key (m x)))"
      by (rule hash_add_to_table_spec [OF i(1) _ _ assms(2) ok(2) _ _ ok(6,7) b hv assms(3)])
        (use ok assms(2) i(2) in \<open>auto simp: as i(5)\<close>)
    moreover have "hash_add_inorder can cmp u a key = hash_add_to_table can m head ?t (hash_jen key) a"
      by (simp add: hash_add_inorder_def ok(1) Let_def stop Cons ib)
    ultimately show ?thesis by (auto simp: added_def bs i(6))
  qed
qed

section \<open>Replacing on the list\<close>

text \<open>
  Where at most one element has the key, it is the one that goes. \<open>add\<close> is either way of adding.
\<close>

lemma find_middle: "\<forall>x\<in>set xs. \<not> P x \<Longrightarrow> P b \<Longrightarrow> find P (xs @ b # ys) = Some b"
  by (induction xs) auto

lemma hash_replace_by_spec:
  assumes ok: "hash_ok u as" and a: "a \<notin> set as" and one: "length (filter (\<lambda>x. hh_key (ut_mem u x) = key) as) \<le> 1"
    and add: "\<And>u bs. hash_ok u bs \<Longrightarrow> a \<notin> set bs \<Longrightarrow> added can u bs a key (ins bs) (add u)"
  shows "(\<not> can 32 \<or> 9 \<le> length as) \<and> hash_replace_by add u key = Some Fatal \<or>
    (\<exists>u'. hash_replace_by add u key = Some (Done (find (\<lambda>x. hh_key (ut_mem u x) = key) as, u')) \<and>
       hash_ok u' (ins (filter (\<lambda>x. hh_key (ut_mem u x) \<noteq> key) as)) \<and>
       hh_key (ut_mem u' a) = key \<and> (\<forall>x. x \<noteq> a \<longrightarrow> hh_key (ut_mem u' x) = hh_key (ut_mem u x)))"
proof -
  let ?P = "\<lambda>x. hh_key (ut_mem u x) = key" and ?bs = "filter (\<lambda>x. hh_key (ut_mem u x) \<noteq> key) as"
  obtain r where r: "hash_find u key = Some r" "case r of None \<Rightarrow> \<forall>x\<in>set as. \<not> ?P x | Some b \<Rightarrow> b \<in> set as \<and> ?P b"
    using hash_find_spec [OF ok, of key] by blast
  define v where "v = (case r of None \<Rightarrow> u | Some b \<Rightarrow> hash_delete u b)"
  have "r = find ?P as \<and> hash_ok v ?bs \<and> (\<forall>x. hh_key (ut_mem v x) = hh_key (ut_mem u x))"
  proof (cases r)
    case None
    with r(2) have "find ?P as = None" "?bs = as" by (simp_all add: find_None_iff)
    then show ?thesis using None ok by (simp add: v_def)
  next
    case (Some b)
    then obtain xs ys where as: "as = xs @ b # ys" "?P b" using r(2) by (auto dest: split_list)
    then have "filter ?P xs = []" "filter ?P ys = []" using one by auto
    then have n: "\<forall>x\<in>set xs \<union> set ys. \<not> ?P x" by (auto simp: filter_empty_conv)
    then have "filter (\<lambda>x. \<not> ?P x) xs = xs" "filter (\<lambda>x. \<not> ?P x) ys = ys" by simp_all
    then have "?bs = xs @ ys" using as by simp
    moreover have "find ?P as = Some b" using as n by (simp add: find_middle)
    ultimately show ?thesis using hash_delete_spec [of u xs b ys] ok as(1) by (simp add: v_def Some)
  qed
  then have v: "r = find ?P as" "hash_ok v ?bs" "\<And>x. hh_key (ut_mem v x) = hh_key (ut_mem u x)" by auto
  have "added can v ?bs a key (ins ?bs) (add v)" using add [OF v(2)] a by simp
  moreover have "hash_replace_by add u key =
      (case add v of None \<Rightarrow> None | Some Fatal \<Rightarrow> Some Fatal | Some (Done u') \<Rightarrow> Some (Done (r, u')))"
    by (simp add: hash_replace_by_def r(1) v_def)
  moreover have "9 \<le> length ?bs \<Longrightarrow> 9 \<le> length as" using length_filter_le [of "\<lambda>x. \<not> ?P x" as] by linarith
  ultimately show ?thesis unfolding added_def v(1,3) by auto
qed

lemma hash_replace_spec:
  assumes "hash_ok u as" "a \<notin> set as" "length (filter (\<lambda>x. hh_key (ut_mem u x) = key) as) \<le> 1" "alloc_limit can"
  shows "(\<not> can 32 \<or> 9 \<le> length as) \<and> hash_replace can u a key = Some Fatal \<or>
    (\<exists>u'. hash_replace can u a key = Some (Done (find (\<lambda>x. hh_key (ut_mem u x) = key) as, u')) \<and>
       hash_ok u' (filter (\<lambda>x. hh_key (ut_mem u x) \<noteq> key) as @ [a]) \<and>
       hh_key (ut_mem u' a) = key \<and> (\<forall>x. x \<noteq> a \<longrightarrow> hh_key (ut_mem u' x) = hh_key (ut_mem u x)))"
  unfolding hash_replace_def
  by (rule hash_replace_by_spec [OF assms(1-3), where ins = "\<lambda>bs. bs @ [a]"]) (rule hash_add_added [OF _ _ assms(4)])

lemma hash_replace_inorder_spec:
  assumes "hash_ok u as" "a \<notin> set as" "length (filter (\<lambda>x. hh_key (ut_mem u x) = key) as) \<le> 1" "alloc_limit can"
  shows "(\<not> can 32 \<or> 9 \<le> length as) \<and> hash_replace_inorder can cmp u a key = Some Fatal \<or>
    (\<exists>u'. hash_replace_inorder can cmp u a key = Some (Done (find (\<lambda>x. hh_key (ut_mem u x) = key) as, u')) \<and>
       hash_ok u' (inorder_list cmp a (filter (\<lambda>x. hh_key (ut_mem u x) \<noteq> key) as)) \<and>
       hh_key (ut_mem u' a) = key \<and> (\<forall>x. x \<noteq> a \<longrightarrow> hh_key (ut_mem u' x) = hh_key (ut_mem u x)))"
  unfolding hash_replace_inorder_def
  by (rule hash_replace_by_spec [OF assms(1-3), where ins = "inorder_list cmp a"]) (rule hash_add_inorder_spec [OF _ _ assms(4)])

section \<open>Clearing, and the memory of a table\<close>

definition hash_clear :: "ut_hash \<Rightarrow> ut_hash" where
  "hash_clear u = (case ut_head u of None \<Rightarrow> u | Some h \<Rightarrow> u\<lparr>ut_head := None\<rparr>)"

lemma hash_clear_spec: "hash_ok u as \<Longrightarrow> hash_ok (hash_clear u) [] \<and> ut_mem (hash_clear u) = ut_mem u"
  by (auto simp: hash_clear_def hash_ok_def split: option.split)

text \<open>The sizes of the three structures on a machine with pointers of eight bytes.\<close>

definition SIZEOF_HANDLE :: nat where "SIZEOF_HANDLE = 56"
definition SIZEOF_BUCKET :: nat where "SIZEOF_BUCKET = 16"
definition SIZEOF_TABLE :: nat where "SIZEOF_TABLE = 64"

definition hash_overhead :: "ut_hash \<Rightarrow> nat" where
  "hash_overhead u =
     (case ut_head u of
        None \<Rightarrow> 0
      | Some h \<Rightarrow> ut_num_items (ut_tbl u) * SIZEOF_HANDLE + ut_num_buckets (ut_tbl u) * SIZEOF_BUCKET + SIZEOF_TABLE)"

section \<open>The check of all pointers\<close>

text \<open>
  One list, a chain or the list of all elements: the number of its elements, or \<open>None\<close> where a
  pointer back is wrong, which ends the program.
\<close>

partial_function (option) fsck_list ::
  "(addr \<Rightarrow> addr option) \<Rightarrow> (addr \<Rightarrow> addr option) \<Rightarrow> addr option \<Rightarrow> addr option \<Rightarrow> nat \<Rightarrow> nat option option" where
  "fsck_list nxt prv before thh count =
     (if thh = None then Some (Some count)
      else if before \<noteq> prv (the thh) then Some None
      else fsck_list nxt prv thh (nxt (the thh)) (count + 1))"

fun fsck_buckets :: "ut_memory \<Rightarrow> ut_bucket list \<Rightarrow> nat \<Rightarrow> nat option option" where
  "fsck_buckets m [] count = Some (Some count)"
| "fsck_buckets m (b # bs) count =
     (case fsck_list (\<lambda>a. hh_next (m a)) (\<lambda>a. hh_prev (m a)) None (bk_head b) 0 of
        None \<Rightarrow> None
      | Some None \<Rightarrow> Some None
      | Some (Some n) \<Rightarrow> if bk_count b \<noteq> n then Some None else fsck_buckets m bs (count + n))"

definition hash_fsck :: "ut_hash \<Rightarrow> bool option" where
  "hash_fsck u =
     (case ut_head u of
        None \<Rightarrow> Some True
      | Some h \<Rightarrow>
          (case fsck_buckets (ut_mem u) (ut_buckets (ut_tbl u)) 0 of
             None \<Rightarrow> None
           | Some None \<Rightarrow> Some False
           | Some (Some count) \<Rightarrow>
               if count \<noteq> ut_num_items (ut_tbl u) then Some False
               else (case fsck_list (app_next (ut_mem u)) (app_prev (ut_mem u)) None (Some h) 0 of
                       None \<Rightarrow> None
                     | Some None \<Rightarrow> Some False
                     | Some (Some n) \<Rightarrow> Some (n = ut_num_items (ut_tbl u)))))"

declare fsck_list.simps [code]

lemma fsck_list_spec: "linked n p q xs None \<Longrightarrow> fsck_list n p q (first xs None) k = Some (Some (k + length xs))"
proof (induction xs arbitrary: q k)
  case Nil
  then show ?case by (simp add: fsck_list.simps)
next
  case (Cons x xs)
  then show ?case using Cons.IH [of "Some x" "k + 1"] by (simp add: fsck_list.simps [of n p q "Some x"])
qed

lemma fsck_buckets_spec: "list_all2 (bucket_ok m) bs cs \<Longrightarrow> fsck_buckets m bs k = Some (Some (k + length (concat cs)))"
proof (induction arbitrary: k rule: list_all2_induct)
  case (Cons b bs c cs)
  have "fsck_list (\<lambda>a. hh_next (m a)) (\<lambda>a. hh_prev (m a)) None (bk_head b) 0 = Some (Some (length c))"
    using Cons.hyps(1) fsck_list_spec [of _ _ None c 0] by (simp add: bucket_ok_def)
  then show ?case using Cons.IH [of "k + length c"] Cons.hyps(1) by (simp add: bucket_ok_def)
qed simp

lemma hash_fsck_spec: "hash_ok u as \<Longrightarrow> hash_fsck u = Some True"
proof -
  assume ok: "hash_ok u as"
  show ?thesis
  proof (cases as)
    case Nil
    then show ?thesis using ok by (simp add: hash_fsck_def hash_ok_def)
  next
    case (Cons h hs)
    let ?t = "ut_tbl u"
    have t: "ut_head u = Some h" "distinct as" "app_linked (ut_mem u) as" "ut_num_items ?t = length as" "table_sizes_ok ?t"
      "buckets_ok (ut_mem u) (ut_num_buckets ?t) (ut_buckets ?t) (set as)"
      using ok Cons by (auto simp: hash_ok_def)
    obtain cs where cs: "list_all2 (bucket_ok (ut_mem u)) (ut_buckets ?t) cs" "distinct (concat cs)" "set (concat cs) = set as"
      using buckets_ok_chains [OF t(6) sizes_bkt [OF t(5)]] by blast
    then have "length (concat cs) = length as" using t(2) by (metis distinct_card)
    then have "fsck_buckets (ut_mem u) (ut_buckets ?t) 0 = Some (Some (length as))" using fsck_buckets_spec [OF cs(1), of 0] by simp
    moreover have "fsck_list (app_next (ut_mem u)) (app_prev (ut_mem u)) None (Some h) 0 = Some (Some (length as))"
      using fsck_list_spec [OF t(3), of 0] by (simp add: Cons)
    ultimately show ?thesis by (simp add: hash_fsck_def t(1,4))
  qed
qed

lemma hash_overhead_spec:
  "hash_ok u as \<Longrightarrow> hash_overhead u = (if as = [] then 0 else
     length as * SIZEOF_HANDLE + 2 ^ ut_log2_num_buckets (ut_tbl u) * SIZEOF_BUCKET + SIZEOF_TABLE)"
  by (cases as) (auto simp: hash_overhead_def hash_ok_def table_sizes_ok_def)

end
