(* ===== verification/UtTable.thy ===== *)
theory UtTable
  imports UtOrder
begin

text \<open>
  What the hash table is: the list of its elements in the order they were added, each with its
  key. Every operation on the pointers is the operation on that list, the loops that follow
  pointers end, and a doubling of the buckets changes nothing that can be seen.
\<close>

section \<open>Runs\<close>

text \<open>A sequence of operations on a table that starts empty, and the same on a list of elements.\<close>

datatype ut_op =
    UtAdd addr bytes
  | UtAddInorder ut_cmp addr bytes
  | UtReplace addr bytes
  | UtReplaceInorder ut_cmp addr bytes
  | UtDel addr
  | UtFind bytes
  | UtIter
  | UtCount
  | UtDrain
  | UtSort ut_cmp
  | UtClear
  | UtOverhead
  | UtCheck

datatype ut_res = UtNothing | UtFound "addr option" | UtItems "addr list" | UtNumber nat

definition ut_empty :: "ut_memory \<Rightarrow> ut_hash" where
  "ut_empty m = \<lparr>ut_mem = m, ut_head = None, ut_tbl = hash_make_table 0\<rparr>"

text \<open>What an operation that may end the program leaves, with its answer.\<close>

definition ut_done :: "('a \<Rightarrow> ut_res \<times> ut_hash) \<Rightarrow> 'a ut_run option \<Rightarrow> (ut_res \<times> ut_hash) ut_run option" where
  "ut_done f r = (case r of None \<Rightarrow> None | Some Fatal \<Rightarrow> Some Fatal | Some (Done x) \<Rightarrow> Some (Done (f x)))"

fun ut_step :: "(nat \<Rightarrow> bool) \<Rightarrow> ut_op \<Rightarrow> ut_hash \<Rightarrow> (ut_res \<times> ut_hash) ut_run option" where
  "ut_step can (UtAdd a key) u = ut_done (Pair UtNothing) (hash_add can u a key)"
| "ut_step can (UtAddInorder cmp a key) u = ut_done (Pair UtNothing) (hash_add_inorder can cmp u a key)"
| "ut_step can (UtReplace a key) u = ut_done (\<lambda>(r, u'). (UtFound r, u')) (hash_replace can u a key)"
| "ut_step can (UtReplaceInorder cmp a key) u = ut_done (\<lambda>(r, u'). (UtFound r, u')) (hash_replace_inorder can cmp u a key)"
| "ut_step can (UtDel a) u = Some (Done (UtNothing, hash_delete u a))"
| "ut_step can (UtFind key) u = (case hash_find u key of None \<Rightarrow> None | Some r \<Rightarrow> Some (Done (UtFound r, u)))"
| "ut_step can UtIter u =
     (case hash_iter (ut_mem u) (ut_head u) of None \<Rightarrow> None | Some xs \<Rightarrow> Some (Done (UtItems xs, u)))"
| "ut_step can UtCount u = Some (Done (UtNumber (hash_count u), u))"
| "ut_step can UtDrain u =
     (case hash_drain u (ut_head u) of None \<Rightarrow> None | Some (xs, u') \<Rightarrow> Some (Done (UtItems xs, u')))"
| "ut_step can (UtSort cmp) u = map_option (\<lambda>u'. Done (UtNothing, u')) (hash_sort cmp u)"
| "ut_step can UtClear u = Some (Done (UtNothing, hash_clear u))"
| "ut_step can UtOverhead u = Some (Done (UtNumber (hash_overhead u), u))"
| "ut_step can UtCheck u = map_option (\<lambda>b. if b then Done (UtNothing, u) else Fatal) (hash_fsck u)"

fun ut_runs :: "(nat \<Rightarrow> bool) \<Rightarrow> ut_op list \<Rightarrow> ut_hash \<Rightarrow> ut_res list ut_run option" where
  "ut_runs can [] u = Some (Done [])"
| "ut_runs can (op # ops) u =
     (case ut_step can op u of
        None \<Rightarrow> None
      | Some Fatal \<Rightarrow> Some Fatal
      | Some (Done (r, u')) \<Rightarrow>
          (case ut_runs can ops u' of
             None \<Rightarrow> None | Some Fatal \<Rightarrow> Some Fatal | Some (Done rs) \<Rightarrow> Some (Done (r # rs))))"

fun is_add :: "ut_op \<Rightarrow> bool" where
  "is_add (UtAdd a key) \<longleftrightarrow> True"
| "is_add (UtAddInorder cmp a key) \<longleftrightarrow> True"
| "is_add (UtReplace a key) \<longleftrightarrow> True"
| "is_add (UtReplaceInorder cmp a key) \<longleftrightarrow> True"
| "is_add _ \<longleftrightarrow> False"

type_synonym ut_list = "(addr \<times> bytes) list"

fun list_allowed :: "ut_op \<Rightarrow> ut_list \<Rightarrow> bool" where
  "list_allowed (UtAdd a key) xs \<longleftrightarrow> a \<notin> fst ` set xs"
| "list_allowed (UtAddInorder cmp a key) xs \<longleftrightarrow> a \<notin> fst ` set xs"
| "list_allowed (UtReplace a key) xs \<longleftrightarrow> a \<notin> fst ` set xs \<and> length (filter (\<lambda>x. snd x = key) xs) \<le> 1"
| "list_allowed (UtReplaceInorder cmp a key) xs \<longleftrightarrow> a \<notin> fst ` set xs \<and> length (filter (\<lambda>x. snd x = key) xs) \<le> 1"
| "list_allowed (UtDel a) xs \<longleftrightarrow> a \<in> fst ` set xs"
| "list_allowed (UtSort cmp) xs \<longleftrightarrow> cmp_order cmp"
| "list_allowed _ xs \<longleftrightarrow> True"

definition add_inorder :: "ut_cmp \<Rightarrow> addr \<times> bytes \<Rightarrow> ut_list \<Rightarrow> ut_list" where
  "add_inorder cmp e xs =
     takeWhile (\<lambda>x. cmp (fst x) (fst e) \<le> 0) xs @ e # dropWhile (\<lambda>x. cmp (fst x) (fst e) \<le> 0) xs"

fun list_after :: "ut_op \<Rightarrow> ut_list \<Rightarrow> ut_list" where
  "list_after (UtAdd a key) xs = xs @ [(a, key)]"
| "list_after (UtDel a) xs = filter (\<lambda>x. fst x \<noteq> a) xs"
| "list_after (UtAddInorder cmp a key) xs = add_inorder cmp (a, key) xs"
| "list_after (UtReplace a key) xs = filter (\<lambda>x. snd x \<noteq> key) xs @ [(a, key)]"
| "list_after (UtReplaceInorder cmp a key) xs = add_inorder cmp (a, key) (filter (\<lambda>x. snd x \<noteq> key) xs)"
| "list_after (UtSort cmp) xs = cmp_sort (\<lambda>x y. cmp (fst x) (fst y)) xs"
| "list_after UtDrain xs = []"
| "list_after UtClear xs = []"
| "list_after _ xs = xs"

fun list_answer :: "ut_op \<Rightarrow> ut_list \<Rightarrow> ut_res \<Rightarrow> bool" where
  "list_answer (UtFind key) xs r \<longleftrightarrow> (\<exists>f. r = UtFound f \<and>
     (case f of None \<Rightarrow> key \<notin> snd ` set xs | Some a \<Rightarrow> (a, key) \<in> set xs))"
| "list_answer UtIter xs r \<longleftrightarrow> r = UtItems (map fst xs)"
| "list_answer UtDrain xs r \<longleftrightarrow> r = UtItems (map fst xs)"
| "list_answer UtCount xs r \<longleftrightarrow> r = UtNumber (length xs)"
| "list_answer (UtReplace a key) xs r \<longleftrightarrow> r = UtFound (map_option fst (find (\<lambda>x. snd x = key) xs))"
| "list_answer (UtReplaceInorder cmp a key) xs r \<longleftrightarrow> r = UtFound (map_option fst (find (\<lambda>x. snd x = key) xs))"
| "list_answer UtOverhead xs r \<longleftrightarrow>
     (\<exists>k. r = UtNumber (if xs = [] then 0 else length xs * SIZEOF_HANDLE + 2 ^ k * SIZEOF_BUCKET + SIZEOF_TABLE))"
| "list_answer _ xs r \<longleftrightarrow> r = UtNothing"

fun list_runs :: "ut_op list \<Rightarrow> ut_list \<Rightarrow> bool" where
  "list_runs [] xs \<longleftrightarrow> True"
| "list_runs (op # ops) xs \<longleftrightarrow> list_allowed op xs \<and> list_runs ops (list_after op xs)"

fun list_answers :: "ut_op list \<Rightarrow> ut_list \<Rightarrow> ut_res list \<Rightarrow> bool" where
  "list_answers [] xs rs \<longleftrightarrow> rs = []"
| "list_answers (op # ops) xs rs \<longleftrightarrow>
     (\<exists>r rs'. rs = r # rs' \<and> list_answer op xs r \<and> list_answers ops (list_after op xs) rs')"

text \<open>The elements of a table with their keys.\<close>

definition elements :: "ut_hash \<Rightarrow> addr list \<Rightarrow> ut_list" where
  "elements u as = map (\<lambda>a. (a, hh_key (ut_mem u a))) as"

lemma fst_elements [simp]: "map fst (elements u as) = as" "fst ` set (elements u as) = set as" "length (elements u as) = length as"
  by (auto simp: elements_def comp_def image_image)

lemma length_add_inorder [simp]: "length (add_inorder cmp e xs) = Suc (length xs)"
  by (induction xs) (simp_all add: add_inorder_def)

lemma length_list_after: "length (list_after op xs) \<le> length xs + of_bool (is_add op)"
  by (cases op) auto

text \<open>The operations of the list of addresses and of the list with the keys.\<close>

lemma filter_elements: "filter (\<lambda>x. P (snd x)) (elements u as) = elements u (filter (\<lambda>a. P (hh_key (ut_mem u a))) as)"
  by (simp add: elements_def filter_map comp_def)

lemma find_elements: "map_option fst (find (\<lambda>x. snd x = key) (elements u as)) = find (\<lambda>a. hh_key (ut_mem u a) = key) as"
  by (induction as) (simp_all add: elements_def)

lemma elements_cong: "(\<And>x. x \<in> set as \<Longrightarrow> hh_key (ut_mem u' x) = hh_key (ut_mem u x)) \<Longrightarrow> elements u' as = elements u as"
  by (simp add: elements_def)

lemma elements_inorder: "elements u (inorder_list cmp a as) = add_inorder cmp (a, hh_key (ut_mem u a)) (elements u as)"
  by (induction as) (simp_all add: elements_def inorder_list_def add_inorder_def)

lemma elements_insert:
  "cmp_insert (\<lambda>x y. cmp (fst x) (fst y)) (a, hh_key (ut_mem u a)) (elements u bs) = elements u (cmp_insert cmp a bs)"
  by (induction bs) (simp_all add: elements_def)

lemma elements_sort: "cmp_sort (\<lambda>x y. cmp (fst x) (fst y)) (elements u as) = elements u (cmp_sort cmp as)"
proof (induction as)
  case (Cons a as)
  then show ?case using elements_insert [of cmp a u] by (simp add: elements_def)
qed (simp add: elements_def)

lemma elements_added:
  assumes "set bs \<subseteq> set as" "a \<notin> set as" "hh_key (ut_mem u' a) = key" "\<forall>x. x \<noteq> a \<longrightarrow> hh_key (ut_mem u' x) = hh_key (ut_mem u x)"
  shows "elements u' (bs @ [a]) = elements u bs @ [(a, key)]" "elements u' (inorder_list cmp a bs) = add_inorder cmp (a, key) (elements u bs)"
proof -
  have "elements u' bs = elements u bs"
  proof (rule elements_cong)
    fix x assume "x \<in> set bs"
    with assms(1,2) have "x \<noteq> a" by blast
    with assms(4) show "hh_key (ut_mem u' x) = hh_key (ut_mem u x)" by simp
  qed
  note e = this
  show "elements u' (bs @ [a]) = elements u bs @ [(a, key)]" using e assms(3) by (simp add: elements_def)
  show "elements u' (inorder_list cmp a bs) = add_inorder cmp (a, key) (elements u bs)"
    using elements_inorder [of u' cmp a bs] by (simp only: e assms(3))
qed

lemma ut_step_refines:
  assumes "hash_ok u as" "list_allowed op (elements u as)" "alloc_limit can"
  shows "(\<not> can 32 \<or> 9 \<le> length as) \<and> is_add op \<and> ut_step can op u = Some Fatal \<or>
    (\<exists>r u' as'. ut_step can op u = Some (Done (r, u')) \<and> hash_ok u' as' \<and>
      elements u' as' = list_after op (elements u as) \<and> list_answer op (elements u as) r)"
proof (cases op)
  case (UtAdd a key)
  then have a: "a \<notin> set as" using assms(2) by simp
  from hash_add_spec [OF assms(1) this assms(3), of key] show ?thesis
  proof (elim disjE exE conjE)
    fix u' assume r: "hash_add can u a key = Some (Done u')" "hash_ok u' (as @ [a])"
    assume "hh_key (ut_mem u' a) = key" "\<forall>x. x \<noteq> a \<longrightarrow> hh_key (ut_mem u' x) = hh_key (ut_mem u x)"
    from elements_added(1) [OF subset_refl a this] r show ?thesis by (auto simp: UtAdd ut_done_def)
  qed (simp_all add: UtAdd ut_done_def)
next
  case (UtAddInorder cmp a key)
  then have a: "a \<notin> set as" using assms(2) by simp
  from hash_add_inorder_spec [OF assms(1) this assms(3), of key cmp] show ?thesis
    unfolding added_def
  proof (elim disjE exE conjE)
    fix u' assume r: "hash_add_inorder can cmp u a key = Some (Done u')" "hash_ok u' (inorder_list cmp a as)"
    assume "hh_key (ut_mem u' a) = key" "\<forall>x. x \<noteq> a \<longrightarrow> hh_key (ut_mem u' x) = hh_key (ut_mem u x)"
    from elements_added(2) [OF subset_refl a this, of cmp] r show ?thesis by (auto simp: UtAddInorder ut_done_def)
  qed (simp_all add: UtAddInorder ut_done_def)
next
  case (UtReplace a key)
  then have a: "a \<notin> set as" and one: "length (filter (\<lambda>x. hh_key (ut_mem u x) = key) as) \<le> 1"
    using assms(2) filter_elements [of "\<lambda>k. k = key"] by simp_all
  from hash_replace_spec [OF assms(1) a one assms(3)] show ?thesis
  proof (elim disjE exE conjE)
    let ?bs = "filter (\<lambda>x. hh_key (ut_mem u x) \<noteq> key) as"
    fix u' assume r: "hash_replace can u a key = Some (Done (find (\<lambda>x. hh_key (ut_mem u x) = key) as, u'))" "hash_ok u' (?bs @ [a])"
    assume "hh_key (ut_mem u' a) = key" "\<forall>x. x \<noteq> a \<longrightarrow> hh_key (ut_mem u' x) = hh_key (ut_mem u x)"
    from elements_added(1) [OF filter_is_subset a this] r show ?thesis
      by (auto simp: UtReplace ut_done_def find_elements filter_elements [of "\<lambda>k. k \<noteq> key"])
  qed (simp_all add: UtReplace ut_done_def)
next
  case (UtReplaceInorder cmp a key)
  then have a: "a \<notin> set as" and one: "length (filter (\<lambda>x. hh_key (ut_mem u x) = key) as) \<le> 1"
    using assms(2) filter_elements [of "\<lambda>k. k = key"] by simp_all
  from hash_replace_inorder_spec [OF assms(1) a one assms(3), of cmp] show ?thesis
  proof (elim disjE exE conjE)
    let ?bs = "filter (\<lambda>x. hh_key (ut_mem u x) \<noteq> key) as"
    fix u' assume r: "hash_replace_inorder can cmp u a key = Some (Done (find (\<lambda>x. hh_key (ut_mem u x) = key) as, u'))"
      "hash_ok u' (inorder_list cmp a ?bs)"
    assume "hh_key (ut_mem u' a) = key" "\<forall>x. x \<noteq> a \<longrightarrow> hh_key (ut_mem u' x) = hh_key (ut_mem u x)"
    from elements_added(2) [OF filter_is_subset a this, of cmp] r show ?thesis
      by (auto simp: UtReplaceInorder ut_done_def find_elements filter_elements [of "\<lambda>k. k \<noteq> key"])
  qed (simp_all add: UtReplaceInorder ut_done_def)
next
  case (UtSort cmp)
  then have "cmp_order cmp" using assms(2) by simp
  from hash_sort_spec [OF assms(1) this] obtain u' where u': "hash_sort cmp u = Some u'" "hash_ok u' (cmp_sort cmp as)"
    "\<And>x. hh_key (ut_mem u' x) = hh_key (ut_mem u x)" by blast
  have "elements u' (cmp_sort cmp as) = list_after op (elements u as)"
    by (simp add: UtSort elements_sort) (simp add: elements_def u'(3))
  with u'(1,2) show ?thesis by (auto simp: UtSort)
next
  case UtClear
  have "elements (hash_clear u) [] = []" by (simp add: elements_def)
  with hash_clear_spec [OF assms(1)] UtClear show ?thesis by auto
next
  case UtOverhead
  have "elements u as = [] \<longleftrightarrow> as = []" by (simp add: elements_def)
  with hash_overhead_spec [OF assms(1)] assms(1) UtOverhead show ?thesis by auto
next
  case UtCheck
  with hash_fsck_spec [OF assms(1)] assms(1) show ?thesis by auto
next
  case (UtDel a)
  then have "a \<in> set as" using assms(2) by simp
  then obtain xs ys where as: "as = xs @ a # ys" by (meson split_list)
  with assms(1) have "a \<notin> set xs" "a \<notin> set ys" by (auto simp: hash_ok_def)
  moreover have "filter (\<lambda>x. fst x \<noteq> a) (elements u zs) = elements u zs" if "a \<notin> set zs" for zs
    by (intro filter_True) (use that in \<open>auto simp: elements_def\<close>)
  moreover have "elements u as = elements u xs @ (a, hh_key (ut_mem u a)) # elements u ys" by (simp add: as elements_def)
  moreover have "elements (hash_delete u a) (xs @ ys) = elements u xs @ elements u ys"
    using hash_delete_spec [of u xs a ys] assms(1) by (simp add: as elements_def)
  ultimately show ?thesis using hash_delete_spec [of u xs a ys] assms(1) by (auto simp: UtDel as)
next
  case (UtFind key)
  with hash_find_spec [OF assms(1), of key] assms(1) show ?thesis
    by (fastforce simp: elements_def split: option.splits)
next
  case UtIter
  with hash_iter_spec [OF assms(1)] assms(1) show ?thesis by auto
next
  case UtCount
  with hash_count_spec [OF assms(1)] assms(1) show ?thesis by auto
next
  case UtDrain
  from hash_drain_spec [OF assms(1)] obtain u' where "hash_drain u (ut_head u) = Some (as, u')" "hash_ok u' []" by blast
  moreover have "elements u' [] = []" by (simp add: elements_def)
  ultimately show ?thesis by (auto simp: UtDrain)
qed

lemma ut_runs_refine:
  assumes "hash_ok u as" "list_runs ops (elements u as)" "alloc_limit can"
  shows "\<exists>r. ut_runs can ops u = Some r \<and>
    (case r of
       Fatal \<Rightarrow> \<not> can 32 \<or> 10 \<le> length as + length (filter is_add ops)
     | Done rs \<Rightarrow> list_answers ops (elements u as) rs)"
  using assms(1,2)
proof (induction ops arbitrary: u as)
  case (Cons op ops)
  then have "list_allowed op (elements u as)" by simp
  from ut_step_refines [OF Cons.prems(1) this assms(3)] show ?case
  proof (elim disjE exE conjE)
    fix r u' as'
    assume s: "ut_step can op u = Some (Done (r, u'))" "hash_ok u' as'" "elements u' as' = list_after op (elements u as)"
      "list_answer op (elements u as) r"
    with Cons.prems(2) have "list_runs ops (elements u' as')" by simp
    have "length as' \<le> length as + of_bool (is_add op)"
      using length_list_after [of op "elements u as"] arg_cong [OF s(3), of length] by simp
    with Cons.IH [OF s(2) \<open>list_runs ops (elements u' as')\<close>] s show ?thesis by (fastforce split: ut_run.splits)
  qed auto
qed simp

section \<open>Property\<close>

text \<open>
  C19. The hash table is a list. Started empty, any sequence of additions of new elements (at the end
  or at the place a comparison gives), replacements of the element with a key, deletions of elements,
  searches, counts, iterations, draining loops, sorting, clearing and checks ends and answers like
  the list of the elements in the order of the table: a search finds an element with the key exactly
  when there is one, iterations visit every element once in that order, sorting is stable sorting,
  and the check of all pointers never finds an error, whatever keys collide and whenever the buckets
  are doubled. It ends early only where the first 32 buckets, or more of them after ten additions,
  cannot be allocated.
\<close>

theorem uthash_refines_list:
  assumes "alloc_limit can" "list_runs ops []"
  shows "\<exists>r. ut_runs can ops (ut_empty m) = Some r \<and>
    (case r of
       Fatal \<Rightarrow> \<not> can 32 \<or> 10 \<le> length (filter is_add ops)
     | Done rs \<Rightarrow> list_answers ops [] rs)"
  using ut_runs_refine [of "ut_empty m" "[]" ops can] assms by (auto simp: hash_ok_def ut_empty_def elements_def split: ut_run.splits)

definition ut_memory0 :: ut_memory where
  "ut_memory0 = (\<lambda>_. \<lparr>hh_app_prev = None, hh_app_next = None, hh_prev = None, hh_next = None, hh_key = [], hh_hashv = 0\<rparr>)"

definition falling :: ut_cmp where
  "falling x y = int y - int x"

definition sample_ops :: "ut_op list" where
  "sample_ops = [UtAdd 1 ''a'', UtAdd 2 ''b'', UtFind ''b'', UtDel 1, UtFind ''a'', UtReplace 3 ''b'', UtAdd 4 ''c'',
     UtSort falling, UtCheck, UtIter, UtCount]"

theorem uthash_refines_list_witness:
  "ut_runs (\<lambda>n. n \<le> 64) sample_ops (ut_empty ut_memory0) =
     Some (Done [UtNothing, UtNothing, UtFound (Some 2), UtNothing, UtFound None, UtFound (Some 2), UtNothing,
       UtNothing, UtNothing, UtItems [4, 3], UtNumber 2])"
proof -
  have "alloc_limit (\<lambda>n. n \<le> 64)" by (auto simp: alloc_limit_def)
  moreover have "cmp_order falling" by (auto simp: cmp_order_def falling_def)
  then have "list_runs sample_ops []" by (simp add: sample_ops_def)
  ultimately obtain r where r: "ut_runs (\<lambda>n. n \<le> 64) sample_ops (ut_empty ut_memory0) = Some r"
    "case r of Fatal \<Rightarrow> \<not> (32::nat) \<le> 64 \<or> 10 \<le> length (filter is_add sample_ops)
     | Done rs \<Rightarrow> list_answers sample_ops [] rs"
    using uthash_refines_list by blast
  have "rs = [UtNothing, UtNothing, UtFound (Some 2), UtNothing, UtFound None, UtFound (Some 2), UtNothing,
       UtNothing, UtNothing, UtItems [4, 3], UtNumber 2]"
    if "list_answers sample_ops [] rs" for rs
    using that by (auto simp: sample_ops_def falling_def split: option.splits)
  with r show ?thesis by (auto simp: sample_ops_def split: ut_run.splits)
qed

end
