(* ===== verification/UtClients.thy ===== *)
theory UtClients
  imports UtTable Context
begin

text \<open>
  The program's hash tables on \<^verbatim>\<open>uthash.h\<close>. A table whose keys are never added twice is an
  association list in insertion order, which is how the inode cache, the generation states and the
  virtual tree are modelled. The keys are inode numbers (8 bytes) or strings.
\<close>

section \<open>The interface\<close>

text \<open>
  \<open>holds enc ok u ent as al\<close>: the elements \<open>as\<close> of the table, with the entries \<open>ent\<close>
  that memory holds for them, are the association list.
\<close>

definition holds ::
  "('k \<Rightarrow> bytes) \<Rightarrow> ('k \<Rightarrow> bool) \<Rightarrow> ut_hash \<Rightarrow> (addr \<Rightarrow> 'k \<times> 'v) \<Rightarrow> addr list \<Rightarrow> ('k, 'v) alist \<Rightarrow> bool" where
  "holds enc ok u ent as al \<longleftrightarrow> hash_ok u as \<and> DAList.impl_of al = map ent as \<and>
     (\<forall>a\<in>set as. hh_key (ut_mem u a) = enc (fst (ent a)) \<and> ok (fst (ent a)))"

lemma AList_update_absent: "k \<notin> fst ` set xs \<Longrightarrow> AList.update k v xs = xs @ [(k, v)]"
  by (induction xs) auto

lemma AList_update_present:
  "distinct (map fst xs) \<Longrightarrow> k \<in> fst ` set xs \<Longrightarrow> AList.update k v xs = map (\<lambda>p. if fst p = k then (k, v) else p) xs"
  by (induction xs) (force intro!: map_idI [symmetric])+

lemma AList_delete_filter: "AList.delete k xs = filter (\<lambda>p. fst p \<noteq> k) xs"
  by (auto simp: AList.delete_eq split_def intro: filter_cong)

locale hash_client =
  fixes enc :: "'k \<Rightarrow> bytes" and ok :: "'k \<Rightarrow> bool"
  assumes enc_inj: "ok j \<Longrightarrow> ok k \<Longrightarrow> enc j = enc k \<longleftrightarrow> j = k"
begin

lemma keys_of: "holds enc ok u ent as al \<Longrightarrow> fst ` set (DAList.impl_of al) = (fst \<circ> ent) ` set as"
  by (auto simp: holds_def image_comp)

lemma entry_unique:
  assumes "holds enc ok u ent as al" "a \<in> set as" "b \<in> set as" "fst (ent a) = fst (ent b)"
  shows "a = b"
proof -
  have "distinct (map fst (map ent as))" using assms(1) impl_of [of al] by (simp add: holds_def)
  then have "inj_on (fst \<circ> ent) (set as)" by (simp add: distinct_map)
  with assms(2-4) show ?thesis unfolding inj_on_def by simp
qed

lemma find:
  assumes "holds enc ok u ent as al" "ok k"
  shows "\<exists>r. hash_find u (enc k) = Some r \<and> map_option (snd \<circ> ent) r = DAList.lookup al k \<and>
    (\<forall>a. r = Some a \<longrightarrow> a \<in> set as \<and> fst (ent a) = k)"
proof -
  have h: "hash_ok u as" "DAList.impl_of al = map ent as"
    and keys: "\<And>a. a \<in> set as \<Longrightarrow> hh_key (ut_mem u a) = enc k \<longleftrightarrow> fst (ent a) = k"
    using assms enc_inj by (auto simp: holds_def)
  have l: "DAList.lookup al k = map_of (map ent as) k" using h(2) by (simp add: DAList.lookup.rep_eq)
  have d: "distinct (map fst (map ent as))" using h(2) impl_of [of al] by simp
  obtain r where r: "hash_find u (enc k) = Some r"
    "case r of None \<Rightarrow> \<forall>a\<in>set as. hh_key (ut_mem u a) \<noteq> enc k | Some a \<Rightarrow> a \<in> set as \<and> hh_key (ut_mem u a) = enc k"
    using hash_find_spec [OF h(1)] by blast
  show ?thesis
  proof (cases r)
    case None
    then have "k \<notin> fst ` set (map ent as)" using r(2) keys by auto
    then have "map_of (map ent as) k = None" by (simp only: map_of_eq_None_iff) simp
    with None r(1) l show ?thesis by auto
  next
    case (Some a)
    then have a: "a \<in> set as" "fst (ent a) = k" using r(2) keys by auto
    then have "(k, snd (ent a)) \<in> set (map ent as)" by (metis image_eqI list.set_map prod.collapse)
    then have "map_of (map ent as) k = Some (snd (ent a))" using d by simp
    with Some r(1) l a show ?thesis by auto
  qed
qed

lemma add:
  assumes "holds enc ok u ent as al" "ok k" "DAList.lookup al k = None" "a \<notin> set as" "alloc_limit can"
  shows "(\<not> can 32 \<or> 9 \<le> length as) \<and> hash_add can u a (enc k) = Some Fatal \<or>
    (\<exists>u'. hash_add can u a (enc k) = Some (Done u') \<and> holds enc ok u' (ent(a := (k, v))) (as @ [a]) (DAList.update k v al))"
proof -
  have h: "hash_ok u as" "DAList.impl_of al = map ent as"
    "\<forall>a\<in>set as. hh_key (ut_mem u a) = enc (fst (ent a)) \<and> ok (fst (ent a))"
    using assms(1) by (simp_all add: holds_def)
  have "k \<notin> fst ` set (DAList.impl_of al)" using assms(3) by (simp add: DAList.lookup.rep_eq map_of_eq_None_iff)
  from AList_update_absent [OF this, of v] have "DAList.impl_of (DAList.update k v al) = map ent as @ [(k, v)]"
    by (simp only: DAList.update.rep_eq h(2))
  also have "\<dots> = map (ent(a := (k, v))) (as @ [a])" using assms(4) by simp
  finally have al: "DAList.impl_of (DAList.update k v al) = map (ent(a := (k, v))) (as @ [a])" .
  from hash_add_spec [OF h(1) assms(4,5), of "enc k"] show ?thesis
  proof (elim disjE exE conjE)
    fix u' assume r: "hash_add can u a (enc k) = Some (Done u')" "hash_ok u' (as @ [a])" "hh_key (ut_mem u' a) = enc k"
      "\<forall>x. x \<noteq> a \<longrightarrow> hh_key (ut_mem u' x) = hh_key (ut_mem u x)"
    have "\<forall>x\<in>set (as @ [a]). hh_key (ut_mem u' x) = enc (fst ((ent(a := (k, v))) x)) \<and> ok (fst ((ent(a := (k, v))) x))"
      using r(3,4) h(3) assms(2) by auto
    with r(1,2) al show ?thesis unfolding holds_def by blast
  qed simp_all
qed

text \<open>The entry of an element is changed in place.\<close>

lemma change:
  assumes "holds enc ok u ent as al" "a \<in> set as" "fst (ent a) = k"
  shows "holds enc ok u (ent(a := (k, v))) as (DAList.update k v al)"
proof -
  have h: "DAList.impl_of al = map ent as" using assms(1) by (simp add: holds_def)
  have d: "distinct (map fst (DAList.impl_of al))" using impl_of [of al] by simp
  have "k \<in> fst ` set (DAList.impl_of al)" using assms h by auto
  from AList_update_present [OF d this, of v]
  have "DAList.impl_of (DAList.update k v al) = map ((\<lambda>p. if fst p = k then (k, v) else p) \<circ> ent) as"
    by (simp add: DAList.update.rep_eq h)
  also have "\<dots> = map (ent(a := (k, v))) as"
  proof (rule map_cong [OF refl])
    show "((\<lambda>p. if fst p = k then (k, v) else p) \<circ> ent) x = (ent(a := (k, v))) x" if "x \<in> set as" for x
      using entry_unique [OF assms(1,2) that] assms(3) by (cases "x = a") auto
  qed
  finally have "DAList.impl_of (DAList.update k v al) = map (ent(a := (k, v))) as" .
  moreover have "\<And>x. fst ((ent(a := (k, v))) x) = fst (ent x)" using assms(3) by simp
  ultimately show ?thesis using assms(1) by (simp only: holds_def simp_thms) blast
qed

lemma delete:
  assumes "holds enc ok u ent as al" "a \<in> set as" "fst (ent a) = k"
  shows "holds enc ok (hash_delete u a) ent (remove1 a as) (DAList.delete k al)"
proof -
  obtain xs ys where as: "as = xs @ a # ys" using assms(2) by (meson split_list)
  have "distinct as" using assms(1) by (simp add: holds_def hash_ok_def)
  then have na: "a \<notin> set xs" "a \<notin> set ys" by (simp_all add: as)
  have ne: "fst (ent x) \<noteq> k" if "x \<in> set xs \<union> set ys" for x
  proof
    assume k: "fst (ent x) = k"
    have "x \<in> set as" "x \<noteq> a" using that na by (auto simp: as)
    with entry_unique [OF assms(1,2), of x] assms(3) k show False by simp
  qed
  have "filter (\<lambda>p. fst p \<noteq> k) (map ent xs) = map ent xs" "filter (\<lambda>p. fst p \<noteq> k) (map ent ys) = map ent ys"
    by (rule filter_True, simp add: ne)+
  then have "DAList.impl_of (DAList.delete k al) = map ent (xs @ ys)"
    using assms(1,3) by (simp add: DAList.delete.rep_eq AList_delete_filter holds_def as)
  then show ?thesis using hash_delete_spec [of u xs a ys] assms(1) na by (simp add: holds_def as remove1_append)
qed

lemma iter: "holds enc ok u ent as al \<Longrightarrow> hash_iter (ut_mem u) (ut_head u) = Some as \<and> map ent as = DAList.impl_of al"
  by (simp add: holds_def hash_iter_spec)

lemma drain:
  "holds enc ok u ent as al \<Longrightarrow> \<exists>u'. hash_drain u (ut_head u) = Some (as, u') \<and> holds enc ok u' ent [] DAList.empty"
  using hash_drain_spec [of u as] by (auto simp: holds_def DAList.empty.rep_eq)

end

section \<open>Inode numbers and strings\<close>

definition ino_ok :: "nat \<Rightarrow> bool" where
  "ino_ok n \<longleftrightarrow> n < 18446744073709551616"

definition str_ok :: "string \<Rightarrow> bool" where
  "str_ok s \<longleftrightarrow> True"

interpretation ino_table: hash_client "le_bytes 8" ino_ok
proof unfold_locales
  show "le_bytes 8 j = le_bytes 8 k \<longleftrightarrow> j = k" if "ino_ok j" "ino_ok k" for j k
  proof
    assume "le_bytes 8 j = le_bytes 8 k"
    then have "le_val (le_bytes 8 j) = le_val (le_bytes 8 k)" by (rule arg_cong)
    with that show "j = k" unfolding le_val_bytes8 ino_ok_def by simp
  qed simp
qed

interpretation str_table: hash_client "\<lambda>s. s" str_ok
  by unfold_locales simp

end
