(* ===== verification/IcacheTable.thy ===== *)
theory IcacheTable
  imports UtClients Samples
begin

text \<open>
  The inode cache on its hash table: the critical sections of \<^verbatim>\<open>src/inode.c\<close> with pointers to
  cache items, as the code has them. They compute the same as the cache of \<^verbatim>\<open>Context\<close>, where a
  pointer is the inode number of its item and the table is an association list.
\<close>

section \<open>Operations\<close>

text \<open>The table and the items in memory, each with the number it was added under.\<close>

record icache_table =
  it_hash :: ut_hash
  it_items :: "addr \<Rightarrow> nat \<times> icentry"

definition item :: "icache_table \<Rightarrow> addr \<Rightarrow> icentry" where
  "item t a = snd (it_items t a)"

definition set_item :: "icache_table \<Rightarrow> addr \<Rightarrow> icentry \<Rightarrow> icache_table" where
  "set_item t a e = t\<lparr>it_items := (it_items t)(a := (fst (it_items t a), e))\<rparr>"

definition tab_find :: "icache_table \<Rightarrow> nat \<Rightarrow> addr option option" where
  "tab_find t ino = hash_find (it_hash t) (le_bytes 8 ino)"

definition tab_ref :: "icache_table \<Rightarrow> addr \<Rightarrow> addr option \<times> icache_table" where
  "tab_ref t a =
     (let e = item t a
      in if ic_deleted e then (None, t)
         else (Some a, set_item t a (e\<lparr>ic_refcount := ic_refcount e + 1\<rparr>)))"

text \<open>\<open>new\<close> is the address \<^verbatim>\<open>calloc\<close> gives. \<open>None\<close> for the whole would be a search without end.\<close>

definition tab_add ::
  "(nat \<Rightarrow> bool) \<Rightarrow> icache_table \<Rightarrow> addr \<Rightarrow> nat \<Rightarrow> icentry \<Rightarrow> icache_table ut_run option" where
  "tab_add can t new ino e =
     (case hash_add can (it_hash t) new (le_bytes 8 ino) of
        None \<Rightarrow> None
      | Some Fatal \<Rightarrow> Some Fatal
      | Some (Done u) \<Rightarrow> Some (Done \<lparr>it_hash = u, it_items = (it_items t)(new := (ino, e))\<rparr>))"

definition tab_get ::
  "(nat \<Rightarrow> bool) \<Rightarrow> icache_table \<Rightarrow> nat \<Rightarrow> kvbfs_inode option \<Rightarrow> addr \<Rightarrow>
   (addr option \<times> icache_table) ut_run option" where
  "tab_get can t ino img new =
     (case tab_find t ino of
        None \<Rightarrow> None
      | Some (Some a) \<Rightarrow> Some (Done (tab_ref t a))
      | Some None \<Rightarrow>
          (case img of
             None \<Rightarrow> Some (Done (None, t))
           | Some i \<Rightarrow>
               (case tab_find t ino of
                  None \<Rightarrow> None
                | Some (Some a) \<Rightarrow> Some (Done (tab_ref t a))
                | Some None \<Rightarrow>
                    (case tab_add can t new (i_ino i)
                        \<lparr>ic_inode = i, ic_refcount = 1, ic_dirty = False, ic_deleted = False\<rparr> of
                       None \<Rightarrow> None
                     | Some Fatal \<Rightarrow> Some Fatal
                     | Some (Done t') \<Rightarrow> Some (Done (Some new, t'))))))"

definition tab_del :: "icache_table \<Rightarrow> addr \<Rightarrow> icache_table" where
  "tab_del t a = t\<lparr>it_hash := hash_delete (it_hash t) a\<rparr>"

definition tab_put :: "icache_table \<Rightarrow> addr \<Rightarrow> icache_table" where
  "tab_put t a =
     (let e = item t a;
          e' = (if 0 < ic_refcount e then e\<lparr>ic_refcount := ic_refcount e - 1\<rparr> else e);
          t1 = set_item t a e'
      in if ic_refcount e' = 0 \<and> ic_deleted e' then tab_del t1 a else t1)"

definition tab_mark_deleted :: "icache_table \<Rightarrow> nat \<Rightarrow> icache_table option" where
  "tab_mark_deleted t ino =
     (case tab_find t ino of
        None \<Rightarrow> None
      | Some None \<Rightarrow> Some t
      | Some (Some a) \<Rightarrow>
          let e = (item t a)\<lparr>ic_deleted := True\<rparr>; t1 = set_item t a e
          in Some (if ic_refcount e = 0 then tab_del t1 a else t1))"

definition tab_clear :: "icache_table \<Rightarrow> icache_table option" where
  "tab_clear t =
     (case hash_drain (it_hash t) (ut_head (it_hash t)) of
        None \<Rightarrow> None
      | Some (xs, u) \<Rightarrow> Some (t\<lparr>it_hash := u\<rparr>))"

definition tab_dirty :: "icache_table \<Rightarrow> addr list option" where
  "tab_dirty t =
     (case hash_iter (ut_mem (it_hash t)) (ut_head (it_hash t)) of
        None \<Rightarrow> None
      | Some xs \<Rightarrow> Some (filter (\<lambda>a. ic_dirty (item t a) \<and> \<not> ic_deleted (item t a)) xs))"

section \<open>The same as the association list\<close>

definition tab_rel :: "icache_table \<Rightarrow> addr list \<Rightarrow> icache \<Rightarrow> bool" where
  "tab_rel t as ic \<longleftrightarrow> holds (le_bytes 8) ino_ok (it_hash t) (it_items t) as ic"

lemma tab_find_rel:
  assumes "tab_rel t as ic" "ino_ok ino"
  shows "\<exists>r. tab_find t ino = Some r \<and>
    (case r of None \<Rightarrow> DAList.lookup ic ino = None
     | Some a \<Rightarrow> DAList.lookup ic ino = Some (item t a) \<and> a \<in> set as \<and> fst (it_items t a) = ino)"
  using ino_table.find [of "it_hash t" "it_items t" as ic ino] assms
  by (auto simp: tab_rel_def tab_find_def item_def split: option.splits)

lemma set_item_rel:
  "tab_rel t as ic \<Longrightarrow> a \<in> set as \<Longrightarrow> fst (it_items t a) = ino \<Longrightarrow> tab_rel (set_item t a e) as (DAList.update ino e ic)"
  using ino_table.change [of "it_hash t" "it_items t" as ic a ino e] by (auto simp: tab_rel_def set_item_def)

lemma tab_del_rel:
  "tab_rel t as ic \<Longrightarrow> a \<in> set as \<Longrightarrow> fst (it_items t a) = ino \<Longrightarrow>
   tab_rel (tab_del t a) (remove1 a as) (DAList.delete ino ic)"
  using ino_table.delete [of "it_hash t" "it_items t" as ic a ino] by (auto simp: tab_rel_def tab_del_def)

lemma set_item_simps [simp]: "it_items (set_item t a e) a = (fst (it_items t a), e)" "item (set_item t a e) a = e"
  by (simp_all add: set_item_def item_def)

lemma dalist_delete_update: "DAList.delete k (DAList.update k v al) = DAList.delete k al"
  by transfer (rule AList.delete_update_same)

lemma set_del_rel:
  assumes "tab_rel t as ic" "a \<in> set as" "fst (it_items t a) = ino"
  shows "tab_rel (tab_del (set_item t a e) a) (remove1 a as) (DAList.delete ino ic)"
  using tab_del_rel [OF set_item_rel [OF assms] assms(2), of e ino] assms(3) by (simp add: dalist_delete_update)

lemma tab_ref_rel:
  assumes "tab_rel t as ic" "a \<in> set as" "fst (it_items t a) = ino" "tab_ref t a = (r, t')"
  shows "case ic_ref ic ino (item t a) of None \<Rightarrow> r = None \<and> t' = t
    | Some ic' \<Rightarrow> r = Some a \<and> fst (it_items t' a) = ino \<and> tab_rel t' as ic'"
  using assms set_item_rel [OF assms(1-3)] by (auto simp: tab_ref_def ic_ref_def Let_def split: if_splits)

lemma tab_add_rel:
  assumes "tab_rel t as ic" "ino_ok ino" "DAList.lookup ic ino = None" "new \<notin> set as" "alloc_limit can"
  shows "(\<not> can 32 \<or> 9 \<le> length as) \<and> tab_add can t new ino e = Some Fatal \<or>
    (\<exists>t'. tab_add can t new ino e = Some (Done t') \<and> fst (it_items t' new) = ino \<and>
      tab_rel t' (as @ [new]) (DAList.update ino e ic))"
  using ino_table.add [of "it_hash t" "it_items t" as ic ino new can e] assms
  by (auto simp: tab_rel_def tab_add_def)

lemma tab_get_rel:
  assumes t: "tab_rel t as (icache c)" "ino_ok ino" "new \<notin> set as" "alloc_limit can"
    and img: "\<And>i. inode_load K (db c) ino = Some i \<Longrightarrow> i_ino i = ino"
  shows "(\<not> can 32 \<or> 9 \<le> length as) \<and> tab_get can t ino (inode_load K (db c) ino) new = Some Fatal \<or>
    (\<exists>r t' as'. tab_get can t ino (inode_load K (db c) ino) new = Some (Done (r, t')) \<and>
      (case inode_get K c ino of
         None \<Rightarrow> r = None \<and> t' = t
       | Some c' \<Rightarrow> (\<exists>a\<in>set as'. r = Some a \<and> fst (it_items t' a) = ino \<and> tab_rel t' as' (icache c'))))"
proof -
  obtain f where f: "tab_find t ino = Some f"
    "case f of None \<Rightarrow> DAList.lookup (icache c) ino = None
     | Some a \<Rightarrow> DAList.lookup (icache c) ino = Some (item t a) \<and> a \<in> set as \<and> fst (it_items t a) = ino"
    using tab_find_rel [OF t(1,2)] by blast
  show ?thesis
  proof (cases f)
    case (Some a)
    obtain r t' where r: "tab_ref t a = (r, t')" by fastforce
    have "tab_get can t ino (inode_load K (db c) ino) new = Some (Done (r, t'))" using f(1) Some r by (simp add: tab_get_def)
    moreover have "case inode_get K c ino of None \<Rightarrow> r = None \<and> t' = t
        | Some c' \<Rightarrow> r = Some a \<and> fst (it_items t' a) = ino \<and> tab_rel t' as (icache c')"
      using tab_ref_rel [OF t(1) _ _ r, of ino] f(2) Some by (auto simp: inode_get_def split: option.splits)
    ultimately show ?thesis using f(2) Some by (fastforce split: option.splits)
  next
    case None
    show ?thesis
    proof (cases "inode_load K (db c) ino")
      case None
      with f \<open>f = None\<close> show ?thesis by (simp add: tab_get_def inode_get_def)
    next
      case (Some i)
      let ?e = "\<lparr>ic_inode = i, ic_refcount = 1, ic_dirty = False, ic_deleted = False\<rparr>"
      have l: "DAList.lookup (icache c) ino = None" using f(2) \<open>f = None\<close> by simp
      have "tab_get can t ino (inode_load K (db c) ino) new = (case tab_add can t new ino ?e of
          None \<Rightarrow> None | Some Fatal \<Rightarrow> Some Fatal | Some (Done t') \<Rightarrow> Some (Done (Some new, t')))"
        using f(1) \<open>f = None\<close> Some img by (simp add: tab_get_def)
      moreover have "inode_get K c ino = Some (c\<lparr>icache := DAList.update ino ?e (icache c)\<rparr>)"
        using l Some img by (simp add: inode_get_def inode_get_insert_def)
      ultimately show ?thesis using tab_add_rel [OF t(1,2) l t(3,4), of ?e] by auto
    qed
  qed
qed

lemma tab_put_rel:
  assumes "tab_rel t as ic" "a \<in> set as" "fst (it_items t a) = ino" "ino_ok ino"
  shows "\<exists>as'. tab_rel (tab_put t a) as' (ic_put ic ino)"
proof -
  have l: "DAList.lookup ic ino = Some (item t a)"
  proof -
    obtain f where "case f of None \<Rightarrow> DAList.lookup ic ino = None
     | Some b \<Rightarrow> DAList.lookup ic ino = Some (item t b) \<and> b \<in> set as \<and> fst (it_items t b) = ino"
     "hash_find (it_hash t) (le_bytes 8 ino) = Some f"
      using tab_find_rel [OF assms(1,4)] by (auto simp: tab_find_def)
    moreover have "(ino, item t a) \<in> set (DAList.impl_of ic)"
      using assms by (auto simp: tab_rel_def holds_def item_def image_iff intro!: bexI [of _ a] prod_eqI)
    then have "DAList.lookup ic ino = Some (item t a)"
      using impl_of [of ic] by (simp add: DAList.lookup.rep_eq)
    ultimately show ?thesis by simp
  qed
  define e where "e = (if 0 < ic_refcount (item t a) then (item t a)\<lparr>ic_refcount := ic_refcount (item t a) - 1\<rparr> else item t a)"
  have "tab_rel (set_item t a e) as (DAList.update ino e ic)" by (rule set_item_rel [OF assms(1-3)])
  moreover have "tab_rel (tab_del (set_item t a e) a) (remove1 a as) (DAList.delete ino ic)"
    by (rule set_del_rel [OF assms(1-3)])
  ultimately show ?thesis by (auto simp: tab_put_def ic_put_def l Let_def e_def [symmetric])
qed

lemma tab_mark_deleted_rel:
  assumes "tab_rel t as ic" "ino_ok ino"
  shows "\<exists>t' as'. tab_mark_deleted t ino = Some t' \<and> tab_rel t' as' (ic_mark_deleted ic ino)"
proof -
  obtain f where f: "tab_find t ino = Some f"
    "case f of None \<Rightarrow> DAList.lookup ic ino = None
     | Some a \<Rightarrow> DAList.lookup ic ino = Some (item t a) \<and> a \<in> set as \<and> fst (it_items t a) = ino"
    using tab_find_rel [OF assms] by blast
  show ?thesis
  proof (cases f)
    case None
    with f assms show ?thesis by (auto simp: tab_mark_deleted_def ic_mark_deleted_def)
  next
    case (Some a)
    define e where "e = (item t a)\<lparr>ic_deleted := True\<rparr>"
    have a: "a \<in> set as" "fst (it_items t a) = ino" "DAList.lookup ic ino = Some (item t a)" using f(2) Some by auto
    have "tab_rel (set_item t a e) as (DAList.update ino e ic)" by (rule set_item_rel [OF assms(1) a(1,2)])
    moreover have "tab_rel (tab_del (set_item t a e) a) (remove1 a as) (DAList.delete ino ic)"
      by (rule set_del_rel [OF assms(1) a(1,2)])
    ultimately show ?thesis using f(1) Some a(3)
      by (auto simp: tab_mark_deleted_def ic_mark_deleted_def Let_def e_def)
  qed
qed

lemma tab_clear_rel: "tab_rel t as ic \<Longrightarrow> \<exists>t'. tab_clear t = Some t' \<and> tab_rel t' [] DAList.empty"
  using ino_table.drain [of "it_hash t" "it_items t" as ic] by (auto simp: tab_rel_def tab_clear_def)

lemma tab_dirty_rel:
  "tab_rel t as ic \<Longrightarrow> \<exists>xs. tab_dirty t = Some xs \<and> map (\<lambda>a. fst (it_items t a)) xs = dirty_list ic"
  using ino_table.iter [of "it_hash t" "it_items t" as ic]
  by (auto simp: tab_rel_def tab_dirty_def dirty_list_def item_def filter_map comp_def split_def
      dest!: sym [of "map _ _"])

section \<open>Property\<close>

text \<open>
  The inode cache on pointers. As long as the table and the association list hold the same,
  getting an inode (found, loaded, or refused), giving it back, marking it deleted, clearing the
  cache and collecting the dirty items give the same result on both, and they hold the same
  afterwards: the pointer that a handler gets is the item of that inode number, the items are
  visited in the order they were added, and every search ends.
\<close>

theorem icache_on_table:
  assumes "tab_rel t as (icache c)" "ino_ok ino" "new \<notin> set as" "alloc_limit can"
    and "\<And>i. inode_load K (db c) ino = Some i \<Longrightarrow> i_ino i = ino"
  shows "((\<not> can 32 \<or> 9 \<le> length as) \<and> tab_get can t ino (inode_load K (db c) ino) new = Some Fatal \<or>
      (\<exists>r t' as'. tab_get can t ino (inode_load K (db c) ino) new = Some (Done (r, t')) \<and>
        (case inode_get K c ino of
           None \<Rightarrow> r = None \<and> t' = t
         | Some c' \<Rightarrow> (\<exists>a\<in>set as'. r = Some a \<and> fst (it_items t' a) = ino \<and> tab_rel t' as' (icache c'))))) \<and>
    (\<forall>a\<in>set as. fst (it_items t a) = ino \<longrightarrow> (\<exists>as'. tab_rel (tab_put t a) as' (icache (inode_put c ino)))) \<and>
    (\<exists>t' as'. tab_mark_deleted t ino = Some t' \<and> tab_rel t' as' (ic_mark_deleted (icache c) ino)) \<and>
    (\<exists>t'. tab_clear t = Some t' \<and> tab_rel t' [] (icache (inode_cache_clear c))) \<and>
    (\<exists>xs. tab_dirty t = Some xs \<and> map (\<lambda>a. fst (it_items t a)) xs = dirty_list (icache c))"
  using tab_get_rel [OF assms] tab_put_rel [OF assms(1)] tab_mark_deleted_rel [OF assms(1,2)] tab_clear_rel [OF assms(1)]
    tab_dirty_rel [OF assms(1)] assms(2)
  by (simp add: inode_put_def inode_cache_clear_def)

definition empty_table :: icache_table where
  "empty_table = \<lparr>it_hash = ut_empty ut_memory0, it_items = (\<lambda>_. (0, undefined))\<rparr>"

theorem icache_on_table_witness:
  "\<exists>a t' as' c'. tab_get (\<lambda>n. n \<le> 64) empty_table 5 (inode_load mem_ops (db sample) 5) 1 = Some (Done (Some a, t')) \<and>
     inode_get mem_ops sample 5 = Some c' \<and> tab_rel t' as' (icache c')"
proof -
  have "tab_rel empty_table [] (icache sample)"
    by (simp add: tab_rel_def holds_def empty_table_def ut_empty_def hash_ok_def DAList.empty.rep_eq)
  moreover have "ino_ok 5" "(1::nat) \<notin> set []" "alloc_limit (\<lambda>n. n \<le> 64)" by (simp_all add: ino_ok_def alloc_limit_def)
  moreover have "i_ino i = 5" if "inode_load mem_ops (db sample) 5 = Some i" for i
    using that sample_load by (auto simp: file_inode_def)
  ultimately have "(\<not> (32::nat) \<le> 64 \<or> 9 \<le> length ([] :: addr list)) \<and>
        tab_get (\<lambda>n. n \<le> 64) empty_table 5 (inode_load mem_ops (db sample) 5) 1 = Some Fatal \<or>
      (\<exists>r t' as'. tab_get (\<lambda>n. n \<le> 64) empty_table 5 (inode_load mem_ops (db sample) 5) 1 = Some (Done (r, t')) \<and>
        (case inode_get mem_ops sample 5 of
           None \<Rightarrow> r = None \<and> t' = empty_table
         | Some c' \<Rightarrow> (\<exists>a\<in>set as'. r = Some a \<and> fst (it_items t' a) = 5 \<and> tab_rel t' as' (icache c'))))"
    using icache_on_table [of empty_table "[]" sample 5 1 "\<lambda>n. n \<le> 64" mem_ops] by blast
  moreover have "inode_get mem_ops sample 5 \<noteq> None"
    using sample_load by (simp add: inode_get_def inode_get_insert_def)
  ultimately show ?thesis by (cases "inode_get mem_ops sample 5") auto
qed

end
