(* ===== verification/InodeRaces.thy ===== *)
theory InodeRaces
  imports IcacheTable
begin

text \<open>
  The functions of \<^verbatim>\<open>src/inode.c\<close> run by several threads at once. Each critical section and each
  access to the store is one step, so that a run is any interleaving of them: \<^verbatim>\<open>inode_get\<close> looks
  under the lock, loads without it and looks again; \<^verbatim>\<open>inode_delete\<close> marks under the lock and
  deletes the image without it; \<^verbatim>\<open>inode_create\<close> counts under its lock, then saves the superblock,
  the inode, and adds the item. The cache is the table with pointers of \<^verbatim>\<open>IcacheTable\<close>.
\<close>

declare encode.simps [simp del]

section \<open>State\<close>

text \<open>Where a thread is, with its local variables; \<open>Idle\<close> is outside the functions.\<close>

datatype inode_pc =
    Idle
  | GetMissed nat
  | GetLoaded nat kvbfs_inode
  | DelMarked nat
  | NewNumber nat
  | NewCopied nat bytes
  | NewStored nat
  | NewSaved kvbfs_inode

text \<open>\<open>rc_holds\<close> are the references the threads hold: those \<^verbatim>\<open>inode_get\<close> and \<^verbatim>\<open>inode_create\<close> gave them.\<close>

record 's racing =
  rc_db :: 's
  rc_super :: kvbfs_super
  rc_table :: icache_table
  rc_pc :: "nat \<Rightarrow> inode_pc"
  rc_holds :: "(nat \<times> addr) list"

definition tab_number :: "icache_table \<Rightarrow> addr \<Rightarrow> nat" where
  "tab_number t a = fst (it_items t a)"

definition tab_elems :: "icache_table \<Rightarrow> addr list option" where
  "tab_elems t = hash_iter (ut_mem (it_hash t)) (ut_head (it_hash t))"

definition new_item :: "kvbfs_inode \<Rightarrow> icentry" where
  "new_item i = \<lparr>ic_inode = i, ic_refcount = 1, ic_dirty = False, ic_deleted = False\<rparr>"

fun creating :: "inode_pc \<Rightarrow> nat option" where
  "creating (NewNumber n) = Some n"
| "creating (NewCopied n v) = Some n"
| "creating (NewStored n) = Some n"
| "creating (NewSaved i) = Some (i_ino i)"
| "creating _ = None"

fun using_ino :: "inode_pc \<Rightarrow> nat option" where
  "using_ino (GetMissed n) = Some n"
| "using_ino (GetLoaded n i) = Some n"
| "using_ino (DelMarked n) = Some n"
| "using_ino _ = None"

text \<open>
  The numbers a caller may use: those given out, except while the inode is being created (its
  number is not known outside \<^verbatim>\<open>inode_create\<close> before it returns).
\<close>

definition known_ino :: "'s racing \<Rightarrow> nat \<Rightarrow> bool" where
  "known_ino st n \<longleftrightarrow> n < s_next_ino (rc_super st) \<and> (\<forall>th. creating (rc_pc st th) \<noteq> Some n)"

definition at_pc :: "'s racing \<Rightarrow> nat \<Rightarrow> inode_pc \<Rightarrow> 's racing" where
  "at_pc st th p = st\<lparr>rc_pc := (rc_pc st)(th := p)\<rparr>"

definition hold :: "'s racing \<Rightarrow> nat \<Rightarrow> addr option \<Rightarrow> 's racing" where
  "hold st th r = (case r of None \<Rightarrow> st | Some a \<Rightarrow> st\<lparr>rc_holds := (th, a) # rc_holds st\<rparr>)"

section \<open>Steps\<close>

text \<open>
  With \<open>atomic\<close>, \<^verbatim>\<open>kv_put\<close> reads the superblock and stores it in one turn: the NVMe client sends it
  while it holds the lock of the connection. Without, it copies the superblock first, as RocksDB
  copies a value into its write batch. A new item gets an address that no item has. A table that
  cannot grow ends the program, so that step does not exist. The last number is never reached.
\<close>

inductive rc_step :: "'s kv_ops \<Rightarrow> (nat \<Rightarrow> bool) \<Rightarrow> bool \<Rightarrow> 's racing \<Rightarrow> 's racing \<Rightarrow> bool"
  for K :: "'s kv_ops" and can :: "nat \<Rightarrow> bool" and atomic :: bool where
  get_found: "rc_pc st th = Idle \<Longrightarrow> known_ino st ino \<Longrightarrow> tab_find (rc_table st) ino = Some (Some a) \<Longrightarrow>
    tab_ref (rc_table st) a = (r, t) \<Longrightarrow> rc_step K can atomic st (hold (st\<lparr>rc_table := t\<rparr>) th r)"
| get_missed: "rc_pc st th = Idle \<Longrightarrow> known_ino st ino \<Longrightarrow> tab_find (rc_table st) ino = Some None \<Longrightarrow>
    rc_step K can atomic st (at_pc st th (GetMissed ino))"
| get_loaded: "rc_pc st th = GetMissed ino \<Longrightarrow> inode_load K (rc_db st) ino = Some i \<Longrightarrow>
    rc_step K can atomic st (at_pc st th (GetLoaded ino i))"
| get_absent: "rc_pc st th = GetMissed ino \<Longrightarrow> inode_load K (rc_db st) ino = None \<Longrightarrow>
    rc_step K can atomic st (at_pc st th Idle)"
| get_again: "rc_pc st th = GetLoaded ino i \<Longrightarrow> tab_find (rc_table st) ino = Some (Some a) \<Longrightarrow>
    tab_ref (rc_table st) a = (r, t) \<Longrightarrow>
    rc_step K can atomic st (hold (at_pc (st\<lparr>rc_table := t\<rparr>) th Idle) th r)"
| get_added: "rc_pc st th = GetLoaded ino i \<Longrightarrow> tab_find (rc_table st) ino = Some None \<Longrightarrow>
    tab_elems (rc_table st) = Some as \<Longrightarrow> new \<notin> set as \<Longrightarrow>
    tab_add can (rc_table st) new (i_ino i) (new_item i) = Some (Done t) \<Longrightarrow>
    rc_step K can atomic st (hold (at_pc (st\<lparr>rc_table := t\<rparr>) th Idle) th (Some new))"
| put: "rc_pc st th = Idle \<Longrightarrow> (th, a) \<in> set (rc_holds st) \<Longrightarrow>
    rc_step K can atomic st (st\<lparr>rc_table := tab_put (rc_table st) a, rc_holds := remove1 (th, a) (rc_holds st)\<rparr>)"
| del_marked: "rc_pc st th = Idle \<Longrightarrow> known_ino st ino \<Longrightarrow> tab_mark_deleted (rc_table st) ino = Some t \<Longrightarrow>
    rc_step K can atomic st (at_pc (st\<lparr>rc_table := t\<rparr>) th (DelMarked ino))"
| del_stored: "rc_pc st th = DelMarked ino \<Longrightarrow> kv_delete K (rc_db st) (kvbfs_key_inode ino) = (b, s) \<Longrightarrow>
    rc_step K can atomic st (at_pc (st\<lparr>rc_db := s\<rparr>) th Idle)"
| new_number: "rc_pc st th = Idle \<Longrightarrow> n = s_next_ino (rc_super st) \<Longrightarrow> n + 1 < 2 ^ 64 \<Longrightarrow>
    rc_step K can atomic st
      (at_pc (st\<lparr>rc_super := (rc_super st)\<lparr>s_next_ino := u64 (n + 1)\<rparr>\<rparr>) th (NewNumber n))"
| new_copied: "\<not> atomic \<Longrightarrow> rc_pc st th = NewNumber n \<Longrightarrow>
    rc_step K can atomic st (at_pc st th (NewCopied n (super_bytes (rc_super st))))"
| new_written: "rc_pc st th = NewCopied n v \<Longrightarrow> kv_put K (rc_db st) KVBFS_KEY_SUPER v = (b, s) \<Longrightarrow>
    rc_step K can atomic st (at_pc (st\<lparr>rc_db := s\<rparr>) th (NewStored n))"
| new_stored: "atomic \<Longrightarrow> rc_pc st th = NewNumber n \<Longrightarrow>
    kv_put K (rc_db st) KVBFS_KEY_SUPER (super_bytes (rc_super st)) = (b, s) \<Longrightarrow>
    rc_step K can atomic st (at_pc (st\<lparr>rc_db := s\<rparr>) th (NewStored n))"
| new_saved: "rc_pc st th = NewStored n \<Longrightarrow> i = new_inode now n mode \<Longrightarrow> wf_inode i \<Longrightarrow>
    inode_save K (rc_db st) i = (True, s) \<Longrightarrow>
    rc_step K can atomic st (at_pc (st\<lparr>rc_db := s\<rparr>) th (NewSaved i))"
| new_failed: "rc_pc st th = NewStored n \<Longrightarrow> inode_save K (rc_db st) (new_inode now n mode) = (False, s) \<Longrightarrow>
    rc_step K can atomic st (at_pc (st\<lparr>rc_db := s\<rparr>) th Idle)"
| new_added: "rc_pc st th = NewSaved i \<Longrightarrow> tab_elems (rc_table st) = Some as \<Longrightarrow> new \<notin> set as \<Longrightarrow>
    tab_add can (rc_table st) new (i_ino i) (new_item i) = Some (Done t) \<Longrightarrow>
    rc_step K can atomic st (hold (at_pc (st\<lparr>rc_table := t\<rparr>) th Idle) th (Some new))"

inductive rc_reach :: "'s kv_ops \<Rightarrow> (nat \<Rightarrow> bool) \<Rightarrow> bool \<Rightarrow> 's racing \<Rightarrow> 's racing \<Rightarrow> bool"
  for K :: "'s kv_ops" and can :: "nat \<Rightarrow> bool" and atomic :: bool and st0 :: "'s racing" where
  start: "rc_reach K can atomic st0 st0"
| step: "rc_reach K can atomic st0 st \<Longrightarrow> rc_step K can atomic st st' \<Longrightarrow> rc_reach K can atomic st0 st'"

text \<open>The state a mount starts from.\<close>

definition rc_mounted :: "'s kv_ops \<Rightarrow> 's racing \<Rightarrow> bool" where
  "rc_mounted K st \<longleftrightarrow> ut_head (it_hash (rc_table st)) = None \<and> (\<forall>th. rc_pc st th = Idle) \<and> rc_holds st = [] \<and>
     images_ok K (rc_db st) \<and> wf_super (rc_super st)"

section \<open>The table, element by element\<close>

definition tab_ok :: "icache_table \<Rightarrow> addr list \<Rightarrow> bool" where
  "tab_ok t as \<longleftrightarrow> (\<exists>ic. tab_rel t as ic)"

lemma tab_okD:
  assumes "tab_ok t as"
  shows "tab_elems t = Some as" "distinct as" "inj_on (tab_number t) (set as)"
    "a \<in> set as \<Longrightarrow> ino_ok (tab_number t a)"
proof -
  obtain ic where h: "holds (le_bytes 8) ino_ok (it_hash t) (it_items t) as ic"
    using assms by (auto simp: tab_ok_def tab_rel_def)
  then show "tab_elems t = Some as" "distinct as" "a \<in> set as \<Longrightarrow> ino_ok (tab_number t a)"
    using ino_table.iter [OF h] by (auto simp: tab_elems_def tab_number_def holds_def hash_ok_def)
  show "inj_on (tab_number t) (set as)"
    using ino_table.entry_unique [OF h] by (auto simp: inj_on_def tab_number_def)
qed

lemma tab_ok_find:
  assumes "tab_ok t as" "ino_ok ino" "tab_find t ino = Some r"
  shows "case r of None \<Rightarrow> \<forall>a\<in>set as. tab_number t a \<noteq> ino | Some a \<Rightarrow> a \<in> set as \<and> tab_number t a = ino"
proof -
  obtain ic where h: "tab_rel t as ic" using assms(1) by (auto simp: tab_ok_def)
  from tab_find_rel [OF this assms(2)] assms(3)
  have c: "case r of None \<Rightarrow> DAList.lookup ic ino = None
     | Some a \<Rightarrow> DAList.lookup ic ino = Some (item t a) \<and> a \<in> set as \<and> fst (it_items t a) = ino" by simp
  show ?thesis
  proof (cases r)
    case None
    then have "ino \<notin> fst ` set (DAList.impl_of ic)" using c by (simp add: DAList.lookup.rep_eq map_of_eq_None_iff)
    moreover have "fst ` set (DAList.impl_of ic) = (fst \<circ> it_items t) ` set as"
      using h unfolding tab_rel_def by (rule ino_table.keys_of)
    ultimately show ?thesis using None by (auto simp: tab_number_def)
  qed (use c in \<open>simp add: tab_number_def\<close>)
qed

lemma tab_ok_finds:
  assumes "tab_ok t as" "ino_ok ino"
  shows "\<exists>r. tab_find t ino = Some r"
  using assms tab_find_rel by (fastforce simp: tab_ok_def)

lemma tab_ok_set: "tab_ok t as \<Longrightarrow> a \<in> set as \<Longrightarrow> tab_ok (set_item t a e) as"
  using set_item_rel unfolding tab_ok_def by blast

lemma tab_ok_del: "tab_ok t as \<Longrightarrow> a \<in> set as \<Longrightarrow> tab_ok (tab_del t a) (remove1 a as)"
  using tab_del_rel unfolding tab_ok_def by blast

lemma tab_ok_add:
  assumes "tab_ok t as" "ino_ok ino" "\<forall>a\<in>set as. tab_number t a \<noteq> ino" "new \<notin> set as" "alloc_limit can"
  shows "(\<not> can 32 \<or> 9 \<le> length as) \<and> tab_add can t new ino e = Some Fatal \<or>
    (\<exists>t'. tab_add can t new ino e = Some (Done t') \<and> tab_ok t' (as @ [new]))"
proof -
  obtain ic where h: "tab_rel t as ic" using assms(1) by (auto simp: tab_ok_def)
  have "fst ` set (DAList.impl_of ic) = (fst \<circ> it_items t) ` set as"
    using h unfolding tab_rel_def by (rule ino_table.keys_of)
  then have "DAList.lookup ic ino = None"
    using assms(3) by (auto simp: DAList.lookup.rep_eq map_of_eq_None_iff tab_number_def)
  from tab_add_rel [OF h assms(2) this assms(4,5)] show ?thesis unfolding tab_ok_def by blast
qed

lemma tab_add_items: "tab_add can t new ino e = Some (Done t') \<Longrightarrow> it_items t' = (it_items t)(new := (ino, e))"
  by (auto simp: tab_add_def split: option.splits ut_run.splits)

lemma tab_simps [simp]:
  "it_items (tab_del t a) = it_items t" "item (tab_del t a) b = item t b" "tab_number (tab_del t a) = tab_number t"
  "tab_number (set_item t a e) = tab_number t" "item (set_item t a e) b = (if b = a then e else item t b)"
  by (auto simp: tab_del_def set_item_def item_def tab_number_def)

section \<open>The invariant\<close>

text \<open>
  The cache: the reference count of every item is the number of references the threads hold, they
  hold only items of the table, and an item marked deleted is still held.
\<close>

definition cache_inv :: "icache_table \<Rightarrow> addr list \<Rightarrow> (nat \<times> addr) list \<Rightarrow> bool" where
  "cache_inv t as hs \<longleftrightarrow> tab_ok t as \<and> snd ` set hs \<subseteq> set as \<and>
     (\<forall>a\<in>set as. ic_refcount (item t a) = count_list (map snd hs) a) \<and>
     (\<forall>a\<in>set as. ic_deleted (item t a) \<longrightarrow> a \<in> snd ` set hs)"

lemma cache_inv_ref:
  assumes "cache_inv t as hs" "a \<in> set as" "tab_ref t a = (r, t')"
  shows "case r of None \<Rightarrow> t' = t \<and> ic_deleted (item t a)
    | Some b \<Rightarrow> b = a \<and> \<not> ic_deleted (item t a) \<and> cache_inv t' as ((th, a) # hs) \<and> tab_number t' = tab_number t"
  using assms tab_ok_set [of t as a] by (auto simp: cache_inv_def tab_ref_def Let_def split: if_splits)

lemma count_remove1: "p \<in> set ps \<Longrightarrow> count_list (map f ps) x = count_list (map f (remove1 p ps)) x + of_bool (f p = x)"
  by (induction ps) auto

lemma held_counted: "0 < count_list xs a \<longleftrightarrow> a \<in> set xs"
  by (simp add: neq0_conv [symmetric] count_list_0_iff)

lemma in_remove1: "x \<in> f ` set ps \<Longrightarrow> x \<noteq> f p \<Longrightarrow> x \<in> f ` set (remove1 p ps)"
proof (erule imageE)
  fix q assume "x = f q" "q \<in> set ps" "x \<noteq> f p"
  then have "q \<in> set (remove1 p ps)" using in_set_remove1 [of q p ps] by blast
  then show "x \<in> f ` set (remove1 p ps)" by (simp add: \<open>x = f q\<close>)
qed

lemma cache_inv_put:
  assumes "cache_inv t as hs" "(th, a) \<in> set hs"
  shows "\<exists>as'. cache_inv (tab_put t a) as' (remove1 (th, a) hs) \<and> set as' \<subseteq> set as" "tab_number (tab_put t a) = tab_number t"
proof -
  let ?e = "(item t a)\<lparr>ic_refcount := ic_refcount (item t a) - 1\<rparr>" and ?hs = "remove1 (th, a) hs"
  have inv: "tab_ok t as" "snd ` set hs \<subseteq> set as" "\<And>b. b \<in> set as \<Longrightarrow> ic_refcount (item t b) = count_list (map snd hs) b"
    "\<And>b. b \<in> set as \<Longrightarrow> ic_deleted (item t b) \<Longrightarrow> b \<in> snd ` set hs" "distinct as"
    using assms(1) tab_okD [of t as] by (auto simp: cache_inv_def)
  have a: "a \<in> set as" "a \<in> set (map snd hs)" using assms(2) inv(2) by force+
  then have "0 < ic_refcount (item t a)" using inv(3) held_counted by metis
  then have put: "tab_put t a = (let t1 = set_item t a ?e in
      if ic_refcount ?e = 0 \<and> ic_deleted (item t a) then tab_del t1 a else t1)"
    by (simp add: tab_put_def Let_def)
  then show "tab_number (tab_put t a) = tab_number t" by (simp add: Let_def)
  have c: "ic_refcount (item (set_item t a ?e) b) = count_list (map snd ?hs) b" if "b \<in> set as" for b
    using inv(3) [OF that] count_remove1 [OF assms(2), of snd b] by (cases "b = a") simp_all
  then have c': "ic_refcount (item t b) = count_list (map snd ?hs) b" if "b \<in> set as" "b \<noteq> a" for b
    using that by force
  have s: "tab_ok (set_item t a ?e) as" by (rule tab_ok_set [OF inv(1) a(1)])
  have sub: "snd ` set ?hs \<subseteq> set as" using inv(2) set_remove1_subset [of "(th, a)" hs] by blast
  have del: "b \<in> snd ` set ?hs" if "b \<in> set as" "ic_deleted (item t b)" "b \<noteq> a" for b
    using in_remove1 [OF inv(4) [OF that(1,2)], of "(th, a)"] that(3) by simp
  show "\<exists>as'. cache_inv (tab_put t a) as' ?hs \<and> set as' \<subseteq> set as"
  proof (cases "ic_refcount ?e = 0 \<and> ic_deleted (item t a)")
    case True
    then have "a \<notin> set (map snd ?hs)" using c [OF a(1)] held_counted [of "map snd ?hs" a] by simp
    then have sub': "snd ` set ?hs \<subseteq> set (remove1 a as)" using sub inv(5) by auto
    have t': "tab_put t a = tab_del (set_item t a ?e) a" using True put by simp
    have "cache_inv (tab_put t a) (remove1 a as) ?hs"
      unfolding cache_inv_def t' using tab_ok_del [OF s a(1)] sub' c' del inv(5) by simp
    then show ?thesis using set_remove1_subset by metis
  next
    case False
    have "cache_inv (set_item t a ?e) as ?hs"
      unfolding cache_inv_def
    proof (intro conjI ballI impI)
      show "b \<in> snd ` set ?hs" if "b \<in> set as" "ic_deleted (item (set_item t a ?e) b)" for b
      proof (cases "b = a")
        case True
        with that False c [OF a(1)] have "0 < count_list (map snd ?hs) a" by simp
        then show ?thesis using held_counted [of "map snd ?hs" a] True by simp
      qed (use that del in simp)
    qed (use s sub c in auto)
    moreover have "tab_put t a = set_item t a ?e" using False put by auto
    ultimately show ?thesis by auto
  qed
qed

lemma cache_inv_mark:
  assumes "cache_inv t as hs" "ino_ok ino" "tab_mark_deleted t ino = Some t'"
  shows "\<exists>as'. cache_inv t' as' hs \<and> set as' \<subseteq> set as" "tab_number t' = tab_number t"
proof -
  have inv: "tab_ok t as" "snd ` set hs \<subseteq> set as" "\<And>b. b \<in> set as \<Longrightarrow> ic_refcount (item t b) = count_list (map snd hs) b"
    "\<And>b. b \<in> set as \<Longrightarrow> ic_deleted (item t b) \<Longrightarrow> b \<in> snd ` set hs" "distinct as"
    using assms(1) tab_okD [of t as] by (auto simp: cache_inv_def)
  obtain r where r: "tab_find t ino = Some r" using assms(3) by (auto simp: tab_mark_deleted_def split: option.splits)
  show "tab_number t' = tab_number t" using assms(3) r by (auto simp: tab_mark_deleted_def Let_def split: option.splits if_splits)
  show "\<exists>as'. cache_inv t' as' hs \<and> set as' \<subseteq> set as"
  proof (cases r)
    case None
    with assms r show ?thesis by (auto simp: tab_mark_deleted_def)
  next
    case (Some a)
    let ?e = "(item t a)\<lparr>ic_deleted := True\<rparr>"
    have a: "a \<in> set as" using tab_ok_find [OF inv(1) assms(2) r] Some by simp
    have s: "tab_ok (set_item t a ?e) as" by (rule tab_ok_set [OF inv(1) a])
    have "a \<in> set (map snd hs) \<longleftrightarrow> ic_refcount (item t a) \<noteq> 0" using inv(3) [OF a] held_counted [of "map snd hs" a] by simp
    then have held: "a \<in> snd ` set hs \<longleftrightarrow> ic_refcount (item t a) \<noteq> 0" by simp
    show ?thesis
    proof (cases "ic_refcount (item t a) = 0")
      case True
      then have t': "t' = tab_del (set_item t a ?e) a" using assms(3) r Some by (simp add: tab_mark_deleted_def Let_def)
      have "snd ` set hs \<subseteq> set (remove1 a as)" using held True inv(2,5) by auto
      then have "cache_inv t' (remove1 a as) hs"
        unfolding cache_inv_def t' using tab_ok_del [OF s a] inv(3-5) by simp
      then show ?thesis using set_remove1_subset by metis
    next
      case False
      then have t': "t' = set_item t a ?e" using assms(3) r Some by (simp add: tab_mark_deleted_def Let_def)
      have "cache_inv t' as hs" unfolding cache_inv_def t' using s inv(2-4) held False by auto
      then show ?thesis by blast
    qed
  qed
qed

lemma cache_inv_add:
  assumes "cache_inv t as hs" "ino_ok ino" "\<forall>a\<in>set as. tab_number t a \<noteq> ino" "new \<notin> set as" "alloc_limit can"
    and add: "tab_add can t new ino (new_item i) = Some (Done t')"
  shows "cache_inv t' (as @ [new]) ((th, new) # hs)" "tab_number t' = (tab_number t)(new := ino)"
proof -
  have "tab_ok t' (as @ [new])"
    using tab_ok_add [OF _ assms(2-5), of "new_item i"] assms(1) add by (auto simp: cache_inv_def)
  moreover have "new \<notin> snd ` set hs" using assms(1,4) by (auto simp: cache_inv_def)
  then have "count_list (map snd hs) new = 0" by (simp add: count_list_0_iff)
  ultimately show "cache_inv t' (as @ [new]) ((th, new) # hs)"
    using assms(1,4) tab_add_items [OF add] by (auto simp: cache_inv_def item_def new_item_def)
  show "tab_number t' = (tab_number t)(new := ino)"
    using tab_add_items [OF add] by (simp add: tab_number_def fun_eq_iff)
qed

text \<open>
  The numbers: every number in the table and every number a caller uses has been given out and its
  inode created, and no number is given to two threads.
\<close>

definition number_inv :: "'s kv_ops \<Rightarrow> 's racing \<Rightarrow> addr list \<Rightarrow> bool" where
  "number_inv K st as \<longleftrightarrow> wf_super (rc_super st) \<and> images_ok K (rc_db st) \<and>
     (\<forall>a\<in>set as. known_ino st (tab_number (rc_table st) a)) \<and>
     (\<forall>th n. using_ino (rc_pc st th) = Some n \<longrightarrow> known_ino st n) \<and>
     (\<forall>th n. creating (rc_pc st th) = Some n \<longrightarrow> n < s_next_ino (rc_super st) \<and>
        (\<forall>th'. creating (rc_pc st th') = Some n \<longrightarrow> th' = th)) \<and>
     (\<forall>th n i. rc_pc st th = GetLoaded n i \<longrightarrow> i_ino i = n)"

definition rc_inv :: "'s kv_ops \<Rightarrow> 's racing \<Rightarrow> addr list \<Rightarrow> bool" where
  "rc_inv K st as \<longleftrightarrow> cache_inv (rc_table st) as (rc_holds st) \<and> number_inv K st as"

lemma known_ok: "number_inv K st as \<Longrightarrow> known_ino st n \<Longrightarrow> ino_ok n"
  by (simp add: number_inv_def known_ino_def wf_super_def ino_ok_def)

lemma racing_simps [simp]:
  "rc_db (at_pc st th p) = rc_db st" "rc_super (at_pc st th p) = rc_super st" "rc_table (at_pc st th p) = rc_table st"
  "rc_holds (at_pc st th p) = rc_holds st" "rc_pc (at_pc st th p) = (rc_pc st)(th := p)"
  "rc_db (hold st th r) = rc_db st" "rc_super (hold st th r) = rc_super st" "rc_table (hold st th r) = rc_table st"
  "rc_pc (hold st th r) = rc_pc st"
  "rc_holds (hold st th r) = (case r of None \<Rightarrow> rc_holds st | Some a \<Rightarrow> (th, a) # rc_holds st)"
  by (simp_all add: at_pc_def hold_def split: option.splits)

lemma known_simps [simp]:
  "known_ino (hold st th r) = known_ino st" "known_ino (st\<lparr>rc_table := t\<rparr>) = known_ino st"
  "known_ino (st\<lparr>rc_db := s\<rparr>) = known_ino st" "known_ino (st\<lparr>rc_holds := hs\<rparr>) = known_ino st"
  by (simp_all add: known_ino_def fun_eq_iff)

text \<open>A thread moves on, without a new number.\<close>

lemma number_inv_pc:
  assumes "number_inv K st as" "creating p = None \<or> creating p = creating (rc_pc st th)"
    and "\<And>n. using_ino p = Some n \<Longrightarrow> known_ino st n" "\<And>n i. p = GetLoaded n i \<Longrightarrow> i_ino i = n"
  shows "number_inv K (at_pc st th p) as"
proof -
  have k: "known_ino st n \<Longrightarrow> known_ino (at_pc st th p) n" for n
    using assms(2) by (auto simp: known_ino_def)
  have cr: "creating (((rc_pc st)(th := p)) th') = Some n \<Longrightarrow> creating (rc_pc st th') = Some n" for th' n
    using assms(2) by (auto split: if_splits)
  show ?thesis
    unfolding number_inv_def
  proof (intro conjI allI impI ballI)
    show "i_ino i = n" if "rc_pc (at_pc st th p) th' = GetLoaded n i" for th' n i
      using that assms(1,4) by (auto simp: number_inv_def split: if_splits)
    show "known_ino (at_pc st th p) n" if "using_ino (rc_pc (at_pc st th p) th') = Some n" for th' n
      using that assms(1,3) k by (auto simp: number_inv_def split: if_splits)
    show "th' = th''" if "creating (rc_pc (at_pc st th p) th'') = Some n" "creating (rc_pc (at_pc st th p) th') = Some n" for th' th'' n
      using that cr assms(1) unfolding number_inv_def racing_simps by metis
    show "n < s_next_ino (rc_super (at_pc st th p))" if "creating (rc_pc (at_pc st th p) th') = Some n" for th' n
      using that cr assms(1) unfolding number_inv_def racing_simps by metis
  qed (use assms(1) k in \<open>auto simp: number_inv_def\<close>)
qed

lemma at_pc_table: "at_pc (st\<lparr>rc_table := t\<rparr>) th p = (at_pc st th p)\<lparr>rc_table := t\<rparr>"
  by (simp add: at_pc_def)

lemma number_inv_hold [simp]: "number_inv K (hold st th r) as = number_inv K st as"
  by (simp add: number_inv_def)

lemma number_inv_holds [simp]: "number_inv K (st\<lparr>rc_holds := hs\<rparr>) as = number_inv K st as"
  by (simp add: number_inv_def)

lemma number_inv_table:
  "number_inv K st as \<Longrightarrow> (\<And>a. a \<in> set as' \<Longrightarrow> known_ino st (tab_number t a)) \<Longrightarrow> number_inv K (st\<lparr>rc_table := t\<rparr>) as'"
  by (simp add: number_inv_def)

lemma number_inv_db: "number_inv K st as \<Longrightarrow> images_ok K s \<Longrightarrow> number_inv K (st\<lparr>rc_db := s\<rparr>) as"
  by (simp add: number_inv_def)

text \<open>A thread gets a new number.\<close>

lemma number_inv_new:
  assumes "number_inv K st as" "n = s_next_ino (rc_super st)" "n + 1 < 2 ^ 64" "rc_pc st th = Idle"
  shows "number_inv K (at_pc (st\<lparr>rc_super := (rc_super st)\<lparr>s_next_ino := u64 (n + 1)\<rparr>\<rparr>) th (NewNumber n)) as"
proof -
  let ?st = "at_pc (st\<lparr>rc_super := (rc_super st)\<lparr>s_next_ino := u64 (n + 1)\<rparr>\<rparr>) th (NewNumber n)"
  have u: "u64 (n + 1) = n + 1" using assms(3) by (simp add: u64_def)
  have k: "known_ino st m \<Longrightarrow> known_ino ?st m" for m
    using assms(2) u by (auto simp: known_ino_def)
  have lt: "creating (rc_pc st th') = Some m \<Longrightarrow> m < n" for th' m
    using assms(1,2) by (simp add: number_inv_def)
  show ?thesis
    unfolding number_inv_def
  proof (intro conjI allI impI ballI)
    show "wf_super (rc_super ?st)" using assms(1,3) u by (simp add: number_inv_def wf_super_def)
    show "i_ino i = m" if "rc_pc ?st th' = GetLoaded m i" for th' m i
      using that assms(1) by (auto simp: number_inv_def split: if_splits)
    show "known_ino ?st m" if "using_ino (rc_pc ?st th') = Some m" for th' m
      using that assms(1) k by (auto simp: number_inv_def split: if_splits)
    show "m < s_next_ino (rc_super ?st)" if "creating (rc_pc ?st th') = Some m" for th' m
      using that lt [of th' m] u by (auto split: if_splits)
    show "th' = th''" if "creating (rc_pc ?st th'') = Some m" "creating (rc_pc ?st th') = Some m" for th' th'' m
      using that lt assms(1) unfolding number_inv_def by (auto split: if_splits)
  qed (use assms(1) k in \<open>auto simp: number_inv_def\<close>)
qed

context kv_store
begin

lemma images_ok_contents:
  assumes "images_ok K s" "\<And>n. contents s' (encode (KInode n)) = contents s (encode (KInode n))"
  shows "images_ok K s'"
proof -
  have "inode_load K s' n = inode_load K s n" for n using assms(2) by (rule inode_load_cong)
  with assms(1) show ?thesis by (simp add: images_ok_def)
qed

lemma images_ok_super:
  assumes "images_ok K s" "kv_put K s KVBFS_KEY_SUPER v = (b, s')"
  shows "images_ok K s'"
proof (rule images_ok_contents [OF assms(1)])
  show "contents s' (encode (KInode n)) = contents s (encode (KInode n))" for n
    using put_frame [of "encode (KInode n)" "encode KSuper" s v] assms(2) by (simp add: super_key_encode)
qed

lemma inode_load_save:
  assumes "inode_save K s i = (b, s')" "wf_inode i"
  shows "inode_load K s' n = (if b \<and> n = i_ino i then Some i else inode_load K s n)"
  using put_ok [of s "encode (KInode (i_ino i))" "inode_bytes i" s'] put_err [of s "encode (KInode (i_ino i))" "inode_bytes i" s']
    assms
  by (cases b) (auto simp: inode_load_contents inode_save_def inode_key_encode)

lemma images_ok_save:
  "images_ok K s \<Longrightarrow> inode_save K s i = (b, s') \<Longrightarrow> wf_inode i \<Longrightarrow> images_ok K s'"
  by (auto simp: images_ok_def inode_load_save split: if_splits)

lemma images_ok_failed:
  "images_ok K s \<Longrightarrow> inode_save K s i = (False, s') \<Longrightarrow> images_ok K s'"
  by (rule images_ok_contents) (simp_all add: inode_save_def put_err)

lemma images_ok_delete:
  assumes "images_ok K s" "kv_delete K s (kvbfs_key_inode ino) = (b, s')"
  shows "images_ok K s'"
proof -
  have "contents s' (encode (KInode n)) = (if b \<and> n = ino then None else contents s (encode (KInode n)))" for n
    using delete_ok [of s _ s'] delete_err [of s _ s'] assms(2) by (cases b) (auto simp: inode_key_encode)
  then show ?thesis
    using assms(1) by (auto simp: images_ok_def inode_load_contents split: if_splits)
qed

lemma rc_step_inv:
  assumes "rc_step K can atomic st st'" "rc_inv K st as" "alloc_limit can"
  shows "\<exists>as'. rc_inv K st' as'"
proof -
  have c: "cache_inv (rc_table st) as (rc_holds st)" and n: "number_inv K st as" and t: "tab_ok (rc_table st) as"
    using assms(2) by (auto simp: rc_inv_def cache_inv_def)
  have known: "known_ino st (tab_number (rc_table st) a)" if "a \<in> set as" for a
    using n that by (simp add: number_inv_def)
  have used: "known_ino st m" if "using_ino (rc_pc st th) = Some m" for th m
    using n that by (auto simp: number_inv_def)
  have im: "images_ok K (rc_db st)" using n by (simp add: number_inv_def)
  have find: "a \<in> set as \<and> tab_number (rc_table st) a = m"
    if "tab_find (rc_table st) m = Some (Some a)" "known_ino st m" for m a
    using tab_ok_find [OF t known_ok [OF n that(2)] that(1)] by simp
  have ref: "\<exists>as'. rc_inv K (hold (st1\<lparr>rc_table := t'\<rparr>) th r) as'"
    if "tab_ref (rc_table st) a = (r, t')" "a \<in> set as" "number_inv K st1 as" "rc_table st1 = rc_table st"
      "rc_holds st1 = rc_holds st" for a r t' th st1
    using cache_inv_ref [OF c that(2,1), of th] that(3-5) c
    by (auto simp: rc_inv_def number_inv_def cong: if_cong split: option.splits intro!: exI [of _ as])
  have add: "\<exists>as'. rc_inv K (hold (st1\<lparr>rc_table := t'\<rparr>) th (Some new)) as'"
    if "tab_elems (rc_table st) = Some as1" "new \<notin> set as1" "tab_add can (rc_table st) new m (new_item i) = Some (Done t')"
      "ino_ok m" "\<forall>a\<in>set as. tab_number (rc_table st) a \<noteq> m" "number_inv K st1 as" "known_ino st1 m"
      "rc_table st1 = rc_table st" "rc_holds st1 = rc_holds st" for as1 new m i t' th st1
  proof -
    have new: "new \<notin> set as" using that(1,2) tab_okD(1) [OF t] by simp
    note a = cache_inv_add [OF c that(4,5) new assms(3) that(3)]
    have "number_inv K (st1\<lparr>rc_table := t'\<rparr>) (as @ [new])"
      by (rule number_inv_table [OF that(6)]) (use that(6,7,8) new in \<open>auto simp: a(2) number_inv_def\<close>)
    with a(1) that(9) show ?thesis by (auto simp: rc_inv_def)
  qed
  from assms(1) show ?thesis
  proof cases
    case (get_found th ino a r t')
    with ref [of a r t' st th] find n show ?thesis by auto
  next
    case (get_missed th ino)
    then have "number_inv K (at_pc st th (GetMissed ino)) as" by (intro number_inv_pc [OF n]) auto
    with c get_missed show ?thesis by (auto simp: rc_inv_def)
  next
    case (get_loaded th ino i)
    then have "number_inv K (at_pc st th (GetLoaded ino i)) as"
      using im used [of th] by (intro number_inv_pc [OF n]) (auto simp: images_ok_def)
    with c get_loaded show ?thesis by (auto simp: rc_inv_def)
  next
    case (get_absent th ino)
    have "number_inv K (at_pc st th Idle) as" by (intro number_inv_pc [OF n]) auto
    with c get_absent show ?thesis by (auto simp: rc_inv_def)
  next
    case (get_again th ino i a r t')
    have "number_inv K (at_pc st th Idle) as" by (intro number_inv_pc [OF n]) auto
    with ref [of a r t' "at_pc st th Idle" th] find [of ino a] used [of th ino] get_again show ?thesis
      by (simp add: at_pc_table)
  next
    case (get_added th ino i as1 new t')
    have k: "known_ino st ino" "i_ino i = ino" using used [of th ino] n get_added(2) by (auto simp: number_inv_def)
    have "number_inv K (at_pc st th Idle) as" by (intro number_inv_pc [OF n]) auto
    moreover have "known_ino (at_pc st th Idle) ino" using k(1) by (simp add: known_ino_def)
    moreover have "\<forall>a\<in>set as. tab_number (rc_table st) a \<noteq> ino"
      using tab_ok_find [OF t known_ok [OF n k(1)] get_added(3)] by simp
    ultimately show ?thesis
      using add [of as1 new ino i t' "at_pc st th Idle" th] get_added k known_ok [OF n k(1)] by (simp add: at_pc_table)
  next
    case (put th a)
    from cache_inv_put [OF c put(3)] obtain as' where p:
      "cache_inv (tab_put (rc_table st) a) as' (remove1 (th, a) (rc_holds st))" "set as' \<subseteq> set as"
      "tab_number (tab_put (rc_table st) a) = tab_number (rc_table st)" by blast
    have "number_inv K (st\<lparr>rc_table := tab_put (rc_table st) a\<rparr>) as'"
      by (rule number_inv_table [OF n]) (use p known in auto)
    then have "rc_inv K st' as'" using p(1) put(1) by (simp add: rc_inv_def)
    then show ?thesis ..
  next
    case (del_marked th ino t')
    from cache_inv_mark [OF c known_ok [OF n del_marked(3)] del_marked(4)] obtain as' where m:
      "cache_inv t' as' (rc_holds st)" "set as' \<subseteq> set as" "tab_number t' = tab_number (rc_table st)" by blast
    have "number_inv K (st\<lparr>rc_table := t'\<rparr>) as'"
      by (rule number_inv_table [OF n]) (use m known in auto)
    then have "number_inv K (at_pc (st\<lparr>rc_table := t'\<rparr>) th (DelMarked ino)) as'"
      by (rule number_inv_pc) (use del_marked in auto)
    with m(1) del_marked show ?thesis by (auto simp: rc_inv_def)
  next
    case (del_stored th ino b s)
    have "number_inv K (at_pc (st\<lparr>rc_db := s\<rparr>) th Idle) as"
      by (rule number_inv_pc [OF number_inv_db [OF n images_ok_delete [OF im del_stored(3)]]]) auto
    with c del_stored show ?thesis by (auto simp: rc_inv_def)
  next
    case (new_number th m)
    from c number_inv_new [OF n new_number(3,4,2)] new_number(1) show ?thesis by (auto simp: rc_inv_def)
  next
    case (new_copied th m)
    have "number_inv K (at_pc st th (NewCopied m (super_bytes (rc_super st)))) as"
      by (rule number_inv_pc [OF n]) (use new_copied in auto)
    with c new_copied show ?thesis by (auto simp: rc_inv_def)
  next
    case (new_written th m v b s)
    have "number_inv K (at_pc (st\<lparr>rc_db := s\<rparr>) th (NewStored m)) as"
      by (rule number_inv_pc [OF number_inv_db [OF n images_ok_super [OF im new_written(3)]]]) (use new_written in auto)
    with c new_written show ?thesis by (auto simp: rc_inv_def)
  next
    case (new_stored th m b s)
    have "number_inv K (at_pc (st\<lparr>rc_db := s\<rparr>) th (NewStored m)) as"
      by (rule number_inv_pc [OF number_inv_db [OF n images_ok_super [OF im new_stored(4)]]]) (use new_stored in auto)
    with c new_stored show ?thesis by (auto simp: rc_inv_def)
  next
    case (new_saved th m i now mode s)
    have "number_inv K (at_pc (st\<lparr>rc_db := s\<rparr>) th (NewSaved i)) as"
      by (rule number_inv_pc [OF number_inv_db [OF n images_ok_save [OF im new_saved(5,4)]]])
        (use new_saved in \<open>auto simp: new_inode_def\<close>)
    with c new_saved show ?thesis by (auto simp: rc_inv_def)
  next
    case (new_failed th m now mode s)
    have "number_inv K (at_pc (st\<lparr>rc_db := s\<rparr>) th Idle) as"
      by (rule number_inv_pc [OF number_inv_db [OF n images_ok_failed [OF im new_failed(3)]]]) auto
    with c new_failed show ?thesis by (auto simp: rc_inv_def)
  next
    case (new_added th i as1 new t')
    have cr: "creating (rc_pc st th) = Some (i_ino i)" using new_added by simp
    have lt: "i_ino i < s_next_ino (rc_super st)" and un: "creating (rc_pc st th') = Some (i_ino i) \<Longrightarrow> th' = th" for th'
      using n cr unfolding number_inv_def by blast+
    have "number_inv K (at_pc st th Idle) as" by (intro number_inv_pc [OF n]) auto
    moreover have "known_ino (at_pc st th Idle) (i_ino i)" using lt un by (auto simp: known_ino_def)
    moreover have "\<forall>a\<in>set as. tab_number (rc_table st) a \<noteq> i_ino i" using known cr unfolding known_ino_def by metis
    moreover have "ino_ok (i_ino i)" using lt n by (simp add: number_inv_def wf_super_def ino_ok_def)
    ultimately show ?thesis
      using add [of as1 new "i_ino i" i t' "at_pc st th Idle" th] new_added by (simp add: at_pc_table)
  qed
qed

lemma rc_reach_inv:
  assumes "rc_reach K can atomic st0 st" "rc_mounted K st0" "alloc_limit can"
  shows "\<exists>as. rc_inv K st as"
  using assms(1)
proof induction
  case start
  have "tab_rel (rc_table st0) [] DAList.empty"
    using assms(2) by (simp add: tab_rel_def holds_def hash_ok_def rc_mounted_def DAList.empty.rep_eq)
  then have "rc_inv K st0 []"
    using assms(2) by (auto simp: rc_inv_def cache_inv_def number_inv_def tab_ok_def rc_mounted_def)
  then show ?case ..
next
  case (step st st')
  then show ?case using rc_step_inv [OF step(2) _ assms(3)] by blast
qed

end

end
