(* ===== verification/RaceRuns.thy ===== *)
theory RaceRuns
  imports InodeRaces
begin

text \<open>
  What interleaved threads do to the inodes: runs that lose a deletion and a number, the stored
  counter where storing the superblock is one turn, and the properties of \<^verbatim>\<open>src/inode.c\<close> under
  threads.
\<close>

declare encode.simps [simp del]

section \<open>Runs of two threads\<close>

text \<open>The states of runs in which only the threads \<open>x\<close> and \<open>y\<close> move.\<close>

definition duo ::
  "'s racing \<Rightarrow> nat \<Rightarrow> nat \<Rightarrow> kvbfs_super \<Rightarrow> 's \<Rightarrow> icache_table \<Rightarrow> inode_pc \<Rightarrow> inode_pc \<Rightarrow> (nat \<times> addr) list \<Rightarrow> 's racing" where
  "duo st x y sp d t p q hs =
     st\<lparr>rc_super := sp, rc_db := d, rc_table := t, rc_pc := (\<lambda>_. Idle)(y := q, x := p), rc_holds := hs\<rparr>"

lemma duo_start: "rc_mounted K st \<Longrightarrow> st = duo st x y (rc_super st) (rc_db st) (rc_table st) Idle Idle []"
  by (simp add: duo_def rc_mounted_def fun_upd_idem_iff fun_eq_iff)

lemma duo_simps [simp]:
  "rc_super (duo st x y sp d t p q hs) = sp" "rc_db (duo st x y sp d t p q hs) = d"
  "rc_table (duo st x y sp d t p q hs) = t" "rc_holds (duo st x y sp d t p q hs) = hs"
  "rc_pc (duo st x y sp d t p q hs) = (\<lambda>_. Idle)(y := q, x := p)"
  "(duo st x y sp d t p q hs)\<lparr>rc_super := sp'\<rparr> = duo st x y sp' d t p q hs"
  "(duo st x y sp d t p q hs)\<lparr>rc_db := d'\<rparr> = duo st x y sp d' t p q hs"
  "(duo st x y sp d t p q hs)\<lparr>rc_table := t'\<rparr> = duo st x y sp d t' p q hs"
  "(duo st x y sp d t p q hs)\<lparr>rc_holds := hs'\<rparr> = duo st x y sp d t p q hs'"
  "at_pc (duo st x y sp d t p q hs) x p' = duo st x y sp d t p' q hs"
  "x \<noteq> y \<Longrightarrow> at_pc (duo st x y sp d t p q hs) y q' = duo st x y sp d t p q' hs"
  "hold (duo st x y sp d t p q hs) z (Some a) = duo st x y sp d t p q ((z, a) # hs)"
  by (simp_all add: duo_def at_pc_def hold_def fun_upd_twist)

lemma known_duo [simp]:
  "known_ino (duo st x y sp d t p q hs) n \<longleftrightarrow>
     n < s_next_ino sp \<and> creating p \<noteq> Some n \<and> (x \<noteq> y \<longrightarrow> creating q \<noteq> Some n)"
  by (auto simp: known_ino_def)

lemma mounted_table: "rc_mounted K st \<Longrightarrow> tab_ok (rc_table st) []"
  by (auto simp: tab_ok_def tab_rel_def holds_def hash_ok_def rc_mounted_def DAList.empty.rep_eq intro: exI [of _ DAList.empty])

text \<open>An inode enters the empty cache and its reference is given back; it is deleted again.\<close>

lemma tab_enter:
  assumes "tab_ok t []" "ino_ok n" "alloc_limit can" "can 32"
  obtains t' where "tab_add can t 0 n (new_item i) = Some (Done t')" "tab_ok t' [0]" "tab_number t' 0 = n"
    "tab_ok (tab_put t' 0) [0]" "tab_number (tab_put t' 0) 0 = n" "item (tab_put t' 0) 0 = (new_item i)\<lparr>ic_refcount := 0\<rparr>"
    "tab_find (tab_put t' 0) n = Some (Some 0)"
proof -
  obtain t' where a: "tab_add can t 0 n (new_item i) = Some (Done t')" "tab_ok t' [0]"
    using tab_ok_add [OF assms(1,2) _ _ assms(3), of 0 "new_item i"] assms(4) by auto
  then have e: "item t' 0 = new_item i" "tab_number t' 0 = n" by (simp_all add: tab_add_items item_def tab_number_def)
  then have p: "tab_put t' 0 = set_item t' 0 ((new_item i)\<lparr>ic_refcount := 0\<rparr>)" by (simp add: tab_put_def new_item_def)
  have ok: "tab_ok (tab_put t' 0) [0]" unfolding p by (rule tab_ok_set [OF a(2)]) simp
  obtain r where "tab_find (tab_put t' 0) n = Some r" using tab_ok_finds [OF ok assms(2)] by blast
  with tab_ok_find [OF ok assms(2) this] e p have "tab_find (tab_put t' 0) n = Some (Some 0)" by (cases r) auto
  with that [OF a(1)] a(2) ok e p show thesis by simp
qed

lemma tab_leave:
  assumes "tab_ok t [0]" "tab_find t n = Some (Some 0)" "ic_refcount (item t 0) = 0"
  obtains t' where "tab_mark_deleted t n = Some t'" "tab_ok t' []"
proof -
  let ?t = "set_item t 0 ((item t 0)\<lparr>ic_deleted := True\<rparr>)"
  have "tab_ok (tab_del ?t 0) []" using tab_ok_del [OF tab_ok_set [OF assms(1)], of 0] by simp
  with assms that show thesis by (simp add: tab_mark_deleted_def Let_def)
qed

lemma tab_absent: "tab_ok t [] \<Longrightarrow> ino_ok n \<Longrightarrow> tab_find t n = Some None"
  using tab_ok_finds [of t "[]" n] tab_ok_find [of t "[]" n] by (fastforce split: option.splits)


context kv_store_live
begin

lemma duo_delete:
  obtains s where "kv_delete K d (kvbfs_key_inode n) = (True, s)" "inode_load K s n = None"
proof -
  obtain b s where d: "kv_delete K d (kvbfs_key_inode n) = (b, s)" by fastforce
  then have "b \<and> contents s = (contents d)(encode (KInode n) := None)" 
    using delete_eq [of d "encode (KInode n)" b s] by (simp add: inode_key_encode)
  with d that show thesis by (simp add: inode_load_contents)
qed

lemma deleted_inode_run:
  assumes st0: "rc_mounted K st0" and can: "alloc_limit can" "can 32" and xy: "x \<noteq> y"
    and n: "n < s_next_ino (rc_super st0)" "inode_load K (rc_db st0) n = Some i"
  shows "\<exists>s t. rc_reach K can atomic st0 (duo st0 x y (rc_super st0) s t Idle Idle []) \<and>
    inode_load K s n = None \<and> tab_ok t [0] \<and> tab_find t n = Some (Some 0) \<and> \<not> ic_deleted (item t 0) \<and>
    ic_refcount (item t 0) = 0"
proof -
  let ?S = "duo st0 x y (rc_super st0)" and ?d = "rc_db st0" and ?t = "rc_table st0" and ?R = "rc_reach K can atomic st0"
  have ok: "ino_ok n" using n(1) st0 by (simp add: rc_mounted_def wf_super_def ino_ok_def)
  have ino: "i_ino i = n" using n(2) st0 by (simp add: rc_mounted_def images_ok_def)
  have t0: "tab_ok ?t []" by (rule mounted_table [OF st0])
  note find0 = tab_absent [OF t0 ok]
  obtain t1 where t1: "tab_add can ?t 0 n (new_item i) = Some (Done t1)" "tab_ok (tab_put t1 0) [0]"
    "item (tab_put t1 0) 0 = (new_item i)\<lparr>ic_refcount := 0\<rparr>" "tab_find (tab_put t1 0) n = Some (Some 0)"
    using tab_enter [OF t0 ok can, of i] by metis
  obtain t2 where t2: "tab_mark_deleted (tab_put t1 0) n = Some t2" "tab_ok t2 []"
    using tab_leave [OF t1(2,4)] t1(3) by auto
  obtain t3 where t3: "tab_add can t2 0 n (new_item i) = Some (Done t3)" "tab_ok t3 [0]" "tab_ok (tab_put t3 0) [0]"
    "item (tab_put t3 0) 0 = (new_item i)\<lparr>ic_refcount := 0\<rparr>" "tab_find (tab_put t3 0) n = Some (Some 0)"
    using tab_enter [OF t2(2) ok can, of i] by metis
  obtain s where s: "kv_delete K ?d (kvbfs_key_inode n) = (True, s)" "inode_load K s n = None"
    using duo_delete .
  have "?R (?S ?d ?t Idle Idle [])" using rc_reach.start duo_start [OF st0, of x y] by metis
  then have "?R (?S ?d ?t (GetMissed n) Idle [])"
    using rc_reach.step [OF _ rc_step.get_missed [of _ x n]] xy n find0 by fastforce
  then have "?R (?S ?d ?t (GetLoaded n i) Idle [])"
    using rc_reach.step [OF _ rc_step.get_loaded [of _ x n]] xy n by fastforce
  then have "?R (?S ?d ?t (GetLoaded n i) (GetMissed n) [])"
    using rc_reach.step [OF _ rc_step.get_missed [of _ y n]] xy n find0 by fastforce
  then have "?R (?S ?d ?t (GetLoaded n i) (GetLoaded n i) [])"
    using rc_reach.step [OF _ rc_step.get_loaded [of _ y n]] xy n by fastforce
  then have "?R (?S ?d t1 (GetLoaded n i) Idle [(y, 0)])"
    using rc_reach.step [OF _ rc_step.get_added [of _ y n i "[]" 0]] xy find0 t1(1) tab_okD(1) [OF t0] ino by fastforce
  then have "?R (?S ?d (tab_put t1 0) (GetLoaded n i) Idle [])"
    using rc_reach.step [OF _ rc_step.put [of _ y 0]] xy by fastforce
  then have "?R (?S ?d t2 (GetLoaded n i) (DelMarked n) [])"
    using rc_reach.step [OF _ rc_step.del_marked [of _ y n]] xy n t2(1) by fastforce
  then have "?R (?S s t2 (GetLoaded n i) Idle [])"
    using rc_reach.step [OF _ rc_step.del_stored [of _ y n]] xy s(1) by fastforce
  then have "?R (?S s t3 Idle Idle [(x, 0)])"
    using rc_reach.step [OF _ rc_step.get_added [of _ x n i "[]" 0]] xy tab_absent [OF t2(2) ok] t3(1) tab_okD(1) [OF t2(2)] ino
    by fastforce
  then have "?R (?S s (tab_put t3 0) Idle Idle [])"
    using rc_reach.step [OF _ rc_step.put [of _ x 0]] xy by fastforce
  with s(2) t3(3-5) show ?thesis
    by (intro exI [of _ s] exI [of _ "tab_put t3 0"]) (simp add: new_item_def)
qed

end

context kv_store_live
begin

lemma duo_put:
  obtains s where "kv_put K d k v = (True, s)" "contents s = (contents d)(k \<mapsto> v)"
proof -
  obtain b s where d: "kv_put K d k v = (b, s)" by fastforce
  with put_eq [OF d] that show thesis by simp
qed

lemma stored_counter:
  assumes "contents (db c) (encode KSuper) = Some (super_bytes sp)" "wf_super sp" "s_magic sp = KVBFS_MAGIC"
  shows "super_load K now c = (True, c\<lparr>super := sp\<rparr>)"
  using assms by (simp add: super_load_def get super_key_encode [symmetric])

lemma same_number_run:
  fixes st0 :: "'a racing" and now :: timespec and mode x y :: nat
  defines "n \<equiv> s_next_ino (rc_super st0)"
  defines "i \<equiv> \<lambda>m. new_inode now m mode"
  assumes st0: "rc_mounted K st0" and can: "alloc_limit can" "can 32" and xy: "x \<noteq> y"
    and n: "n + 2 < 2 ^ 64" and wf: "wf_timespec now" "mode < 2 ^ 32"
  shows "\<exists>s t hs. rc_reach K can False st0 (duo st0 x y ((rc_super st0)\<lparr>s_next_ino := n + 2\<rparr>) s t Idle Idle hs) \<and>
    inode_load K s (n + 1) = Some (i (n + 1)) \<and>
    contents s (encode KSuper) = Some (super_bytes ((rc_super st0)\<lparr>s_next_ino := n + 1\<rparr>))"
proof -
  let ?S = "duo st0 x y" and ?d = "rc_db st0" and ?t = "rc_table st0" and ?R = "rc_reach K can False st0"
  let ?sp = "rc_super st0" and ?sp1 = "(rc_super st0)\<lparr>s_next_ino := n + 1\<rparr>" and ?sp2 = "(rc_super st0)\<lparr>s_next_ino := n + 2\<rparr>"
  have u: "u64 (Suc n) = n + 1" "u64 (Suc (n + 1)) = n + 2" using n by (simp_all add: u64_def)
  have wfi: "wf_inode (i n)" "wf_inode (i (n + 1))" using n wf by (simp_all add: i_def wf_inode_def new_inode_def)
  have nos: "i_ino (i m) = m" for m by (simp add: i_def new_inode_def)
  have ok: "ino_ok n" "ino_ok (n + 1)" using n by (simp_all add: ino_ok_def)
  have t0: "tab_ok ?t []" by (rule mounted_table [OF st0])
  obtain t1 where t1: "tab_add can ?t 0 n (new_item (i n)) = Some (Done t1)" "tab_ok t1 [0]" "tab_number t1 0 = n"
    using tab_enter [OF t0 ok(1) can, of "i n"] by metis
  obtain t2 where t2: "tab_add can t1 1 (n + 1) (new_item (i (n + 1))) = Some (Done t2)"
    using tab_ok_add [OF t1(2) ok(2) _ _ can(1), of 1 "new_item (i (n + 1))"] t1(3) can(2) by auto
  obtain d1 where d1: "kv_put K ?d KVBFS_KEY_SUPER (super_bytes ?sp2) = (True, d1)" using duo_put by metis
  obtain d2 where d2: "kv_put K d1 KVBFS_KEY_SUPER (super_bytes ?sp1) = (True, d2)"
    "contents d2 = (contents d1)(KVBFS_KEY_SUPER \<mapsto> super_bytes ?sp1)" using duo_put by metis
  obtain d3 where d3: "inode_save K d2 (i n) = (True, d3)"
    "contents d3 = (contents d2)(encode (KInode n) \<mapsto> inode_bytes (i n))"
    using duo_put [of d2 "encode (KInode n)" "inode_bytes (i n)"] nos by (metis inode_save_def inode_key_encode)
  obtain d4 where d4: "inode_save K d3 (i (n + 1)) = (True, d4)"
    "contents d4 = (contents d3)(encode (KInode (n + 1)) \<mapsto> inode_bytes (i (n + 1)))"
    using duo_put [of d3 "encode (KInode (n + 1))" "inode_bytes (i (n + 1))"] nos by (metis inode_save_def inode_key_encode)
  have "?R (?S ?sp ?d ?t Idle Idle [])" using rc_reach.start duo_start [OF st0, of x y] by metis
  then have "?R (?S ?sp1 ?d ?t (NewNumber n) Idle [])"
    using rc_reach.step [OF _ rc_step.new_number [of _ x n]] n u(1) by (fastforce simp: n_def)
  then have "?R (?S ?sp1 ?d ?t (NewCopied n (super_bytes ?sp1)) Idle [])"
    using rc_reach.step [OF _ rc_step.new_copied [of _ _ x n]] by fastforce
  then have "?R (?S ?sp2 ?d ?t (NewCopied n (super_bytes ?sp1)) (NewNumber (n + 1)) [])"
    using rc_reach.step [OF _ rc_step.new_number [of _ y "n + 1"]] xy n u(2) by fastforce
  then have "?R (?S ?sp2 ?d ?t (NewCopied n (super_bytes ?sp1)) (NewCopied (n + 1) (super_bytes ?sp2)) [])"
    using rc_reach.step [OF _ rc_step.new_copied [of _ _ y "n + 1"]] xy by fastforce
  then have "?R (?S ?sp2 d1 ?t (NewCopied n (super_bytes ?sp1)) (NewStored (n + 1)) [])"
    using rc_reach.step [OF _ rc_step.new_written [of _ y "n + 1"]] xy d1 by fastforce
  then have "?R (?S ?sp2 d2 ?t (NewStored n) (NewStored (n + 1)) [])"
    using rc_reach.step [OF _ rc_step.new_written [of _ x n]] xy d2(1) by fastforce
  then have "?R (?S ?sp2 d3 ?t (NewSaved (i n)) (NewStored (n + 1)) [])"
    using rc_reach.step [OF _ rc_step.new_saved [of _ x n "i n" now mode]] xy d3(1) wfi(1) by (fastforce simp: i_def)
  then have "?R (?S ?sp2 d3 t1 Idle (NewStored (n + 1)) [(x, 0)])"
    using rc_reach.step [OF _ rc_step.new_added [of _ x "i n" "[]" 0]] xy t1(1) tab_okD(1) [OF t0] nos by fastforce
  then have "?R (?S ?sp2 d4 t1 Idle (NewSaved (i (n + 1))) [(x, 0)])"
    using rc_reach.step [OF _ rc_step.new_saved [of _ y "n + 1" "i (n + 1)" now mode]] xy d4(1) wfi(2) by (fastforce simp: i_def)
  then have R: "?R (?S ?sp2 d4 t2 Idle Idle [(y, 1), (x, 0)])"
    using rc_reach.step [OF _ rc_step.new_added [of _ y "i (n + 1)" "[0]" 1]] xy t2 tab_okD(1) [OF t1(2)] nos by fastforce
  have "inode_load K d4 (n + 1) = Some (i (n + 1))" using inode_load_save [OF d4(1) wfi(2)] nos by simp
  moreover have "contents d4 (encode KSuper) = Some (super_bytes ?sp1)"
    by (simp add: d4(2) d3(2) d2(2) super_key_encode)
  ultimately show ?thesis using R by blast
qed

end

section \<open>The stored counter\<close>

fun saving :: "inode_pc \<Rightarrow> nat option" where
  "saving (NewStored n) = Some n"
| "saving (NewSaved i) = Some (i_ino i)"
| "saving _ = None"

fun copied :: "inode_pc \<Rightarrow> bool" where
  "copied (NewCopied n v) \<longleftrightarrow> True"
| "copied _ \<longleftrightarrow> False"

text \<open>
  With one turn for reading and storing the superblock, the stored counter is above every number
  that has an image or is about to have one.
\<close>

definition counter_ok :: "'s kv_ops \<Rightarrow> 's \<Rightarrow> (nat \<Rightarrow> inode_pc) \<Rightarrow> kvbfs_super \<Rightarrow> kvbfs_super \<Rightarrow> bool" where
  "counter_ok K d pc sp mem_sp \<longleftrightarrow> kv_get K d KVBFS_KEY_SUPER = Some (super_bytes sp) \<and> wf_super sp \<and>
     s_magic sp = KVBFS_MAGIC \<and> s_magic mem_sp = KVBFS_MAGIC \<and> s_next_ino sp \<le> s_next_ino mem_sp \<and>
     (\<forall>n. inode_load K d n \<noteq> None \<longrightarrow> n < s_next_ino sp) \<and>
     (\<forall>th n. saving (pc th) = Some n \<longrightarrow> n < s_next_ino sp) \<and> (\<forall>th. \<not> copied (pc th))"

lemma counter_ok_pc:
  "counter_ok K d pc sp m \<Longrightarrow> saving p = None \<or> saving p = saving (pc th) \<Longrightarrow> \<not> copied p \<Longrightarrow>
   counter_ok K d (pc(th := p)) sp m"
  by (auto simp: counter_ok_def)

context kv_store_live
begin

lemma counter_ok_save:
  assumes "counter_ok K d pc sp m" "saving (pc th) = Some (i_ino i)" "wf_inode i" "inode_save K d i = (b, s)"
  shows "counter_ok K s pc sp m"
proof -
  have "contents s = (contents d)(encode (KInode (i_ino i)) \<mapsto> inode_bytes i)"
    using put_eq [of d "encode (KInode (i_ino i))" "inode_bytes i" b s] assms(4) by (simp add: inode_save_def inode_key_encode)
  then have "kv_get K s KVBFS_KEY_SUPER = kv_get K d KVBFS_KEY_SUPER" by (simp add: get super_key_encode)
  with assms(1,2) show ?thesis by (auto simp: counter_ok_def inode_load_save [OF assms(4,3)])
qed

lemma counter_ok_delete:
  assumes "counter_ok K d pc sp m" "kv_delete K d (kvbfs_key_inode ino) = (b, s)"
  shows "counter_ok K s pc sp m"
proof -
  have s: "contents s = (contents d)(encode (KInode ino) := None)"
    using delete_eq [of d "encode (KInode ino)" b s] assms(2) by (simp add: inode_key_encode)
  then have "kv_get K s KVBFS_KEY_SUPER = kv_get K d KVBFS_KEY_SUPER" by (simp add: get super_key_encode)
  moreover have "inode_load K s n = (if n = ino then None else inode_load K d n)" for n
    by (simp add: inode_load_contents s)
  ultimately show ?thesis using assms(1) by (simp add: counter_ok_def)
qed

lemma counter_ok_super:
  assumes "counter_ok K d pc sp m" "kv_put K d KVBFS_KEY_SUPER (super_bytes m) = (b, s)" "wf_super m"
  shows "counter_ok K s pc m m"
proof -
  have s: "contents s = (contents d)(encode KSuper \<mapsto> super_bytes m)"
    using put_eq [OF assms(2)] by (simp add: super_key_encode)
  have "inode_load K s n = inode_load K d n" for n by (rule inode_load_cong) (simp add: s)
  with assms(1,3) show ?thesis by (fastforce simp: counter_ok_def get s super_key_encode)
qed

lemma counter_step:
  assumes "rc_step K can True st st'" "counter_ok K (rc_db st) (rc_pc st) sp (rc_super st)" "rc_inv K st as"
  shows "\<exists>sp'. counter_ok K (rc_db st') (rc_pc st') sp' (rc_super st')"
proof -
  have wf: "wf_super (rc_super st)" using assms(3) by (simp add: rc_inv_def number_inv_def)
  note c = assms(2)
  note move = counter_ok_pc [OF c]
  from assms(1) show ?thesis
  proof cases
    case (new_number th n)
    then have "counter_ok K (rc_db st) (rc_pc st) sp ((rc_super st)\<lparr>s_next_ino := u64 (n + 1)\<rparr>)"
      using c by (auto simp: counter_ok_def u64_def)
    from counter_ok_pc [OF this, of "NewNumber n" th] new_number show ?thesis by auto
  next
    case (new_stored th n b s)
    have "creating (rc_pc st th) = Some n" using new_stored(3) by simp
    then have "n < s_next_ino (rc_super st)" using assms(3) unfolding rc_inv_def number_inv_def by blast
    with counter_ok_super [OF c new_stored(4) wf] have "counter_ok K s ((rc_pc st)(th := NewStored n)) (rc_super st) (rc_super st)"
      by (simp add: counter_ok_def)
    with new_stored show ?thesis by auto
  next
    case (new_written th n v b s)
    then have "copied (rc_pc st th)" by simp
    with c show ?thesis unfolding counter_ok_def by blast
  next
    case (new_saved th n i now mode s)
    then have "counter_ok K s (rc_pc st) sp (rc_super st)"
      by (intro counter_ok_save [OF c, of th i]) (simp_all add: new_inode_def)
    from counter_ok_pc [OF this, of "NewSaved i" th] new_saved show ?thesis by (auto simp: new_inode_def)
  next
    case (new_failed th n now mode s)
    then show ?thesis
      using put_eq [of "rc_db st" "encode (KInode n)" "inode_bytes (new_inode now n mode)" False s]
      by (simp add: inode_save_def inode_key_encode new_inode_def)
  next
    case (del_stored th ino b s)
    from counter_ok_pc [OF counter_ok_delete [OF c del_stored(3)], of Idle th] del_stored show ?thesis by auto
  next
    case (get_missed th ino)
    with move [of "GetMissed ino" th] show ?thesis by auto
  next
    case (get_loaded th ino i)
    with move [of "GetLoaded ino i" th] show ?thesis by auto
  next
    case (get_absent th ino)
    with move [of Idle th] show ?thesis by auto
  next
    case (get_again th ino i a r t)
    with move [of Idle th] show ?thesis by auto
  next
    case (get_added th ino i as new t)
    with move [of Idle th] show ?thesis by auto
  next
    case (del_marked th ino t)
    with move [of "DelMarked ino" th] show ?thesis by auto
  next
    case (new_added th i as new t)
    with move [of Idle th] show ?thesis by auto
  qed (use c in auto)
qed

lemma counter_reach:
  assumes "rc_reach K can True st0 st" "rc_mounted K st0" "alloc_limit can"
    and "counter_ok K (rc_db st0) (rc_pc st0) (rc_super st0) (rc_super st0)"
  shows "\<exists>sp. counter_ok K (rc_db st) (rc_pc st) sp (rc_super st)"
  using assms(1)
proof induction
  case start
  then show ?case using assms(4) by blast
next
  case (step st st')
  then show ?case using counter_step rc_reach_inv [OF step(1) assms(2,3)] by blast
qed

end

section \<open>Properties\<close>

text \<open>
  C8. Threads share the inodes safely. However the threads interleave, the reference count of
  every cached inode is the number of references the threads hold, a thread never holds an inode
  that was freed, an inode marked deleted lives exactly as long as it is held, no number has two
  items in the table, no number is given to two threads, and every search of the table ends.
\<close>

theorem inode_cache_threads:
  assumes "kv_store K contents" "alloc_limit can" "rc_mounted K st0" "rc_reach K can atomic st0 st"
  shows "\<exists>as. tab_elems (rc_table st) = Some as \<and> distinct as \<and> inj_on (tab_number (rc_table st)) (set as) \<and>
    (\<forall>a\<in>set as. ic_refcount (item (rc_table st) a) = count_list (map snd (rc_holds st)) a \<and>
       (ic_deleted (item (rc_table st) a) \<longrightarrow> a \<in> snd ` set (rc_holds st)) \<and>
       known_ino st (tab_number (rc_table st) a)) \<and>
    snd ` set (rc_holds st) \<subseteq> set as \<and>
    (\<forall>th th' n. creating (rc_pc st th) = Some n \<and> creating (rc_pc st th') = Some n \<longrightarrow> th = th') \<and>
    (\<forall>n. known_ino st n \<longrightarrow> tab_find (rc_table st) n \<noteq> None)"
proof -
  obtain as where i: "rc_inv K st as" using kv_store.rc_reach_inv [OF assms(1,4,3,2)] by blast
  then have n: "number_inv K st as" and t: "tab_ok (rc_table st) as" by (auto simp: rc_inv_def cache_inv_def)
  have "creating (rc_pc st th) = Some m \<and> creating (rc_pc st th') = Some m \<longrightarrow> th = th'" for th th' m
    using n unfolding number_inv_def by metis
  moreover have "tab_find (rc_table st) m \<noteq> None" if "known_ino st m" for m
    using tab_ok_finds [OF t known_ok [OF n that]] by blast
  ultimately show ?thesis
    using i tab_okD(1-3) [OF t] by (intro exI [of _ as]) (simp add: rc_inv_def cache_inv_def number_inv_def)
qed

text \<open>
  C9. A deleted inode comes back. When one thread has missed an inode in the cache and loaded it,
  and another gets it, gives it back and deletes it, the first adds it to the cache again without
  the mark: the image is gone and no thread is at work, but the next \<^verbatim>\<open>inode_get\<close> finds the inode.
  The second look under the lock only helps while the deleted item is still in the table.
\<close>

theorem deleted_inode_returns:
  assumes "kv_store_live K contents" "alloc_limit can" "can 32" "rc_mounted K st0"
    and "n < s_next_ino (rc_super st0)" "inode_load K (rc_db st0) n = Some i"
  shows "\<exists>st a. rc_reach K can atomic st0 st \<and> (\<forall>th. rc_pc st th = Idle) \<and> rc_holds st = [] \<and>
    inode_load K (rc_db st) n = None \<and> tab_find (rc_table st) n = Some (Some a) \<and>
    fst (tab_ref (rc_table st) a) = Some a"
  using kv_store_live.deleted_inode_run [OF assms(1,4,2,3) _ assms(5,6), of 0 1 atomic]
  by (fastforce simp: tab_ref_def Let_def)

text \<open>
  C10. A number is given out twice. Where \<^verbatim>\<open>kv_put\<close> copies the superblock before its turn, two
  creations at once can leave the older counter in the store. When both have returned, the second
  inode is stored under a number that the next mount gives out again.
\<close>

theorem inode_number_given_twice:
  assumes "kv_store_live K contents" "alloc_limit can" "can 32" "rc_mounted K st0"
    and "s_magic (rc_super st0) = KVBFS_MAGIC" "s_next_ino (rc_super st0) + 2 < 2 ^ 64"
    and "wf_timespec now" "(mode :: nat) < 2 ^ 32"
  shows "\<exists>st m. rc_reach K can False st0 st \<and> (\<forall>th. rc_pc st th = Idle) \<and> inode_load K (rc_db st) m \<noteq> None \<and>
    (\<forall>c. db c = rc_db st \<longrightarrow> (\<exists>c'. super_load K now c = (True, c') \<and> fst (inode_alloc K c') = m))"
proof -
  let ?n = "s_next_ino (rc_super st0)" and ?sp = "(rc_super st0)\<lparr>s_next_ino := s_next_ino (rc_super st0) + 1\<rparr>"
  obtain s t hs where r: "rc_reach K can False st0 (duo st0 0 1 ((rc_super st0)\<lparr>s_next_ino := ?n + 2\<rparr>) s t Idle Idle hs)"
    "inode_load K s (?n + 1) = Some (new_inode now (?n + 1) mode)" "contents s (encode KSuper) = Some (super_bytes ?sp)"
    using kv_store_live.same_number_run [OF assms(1,4,2,3) _ assms(6-8), of 0 1] by auto
  have "wf_super ?sp" using assms(4,6) by (simp add: rc_mounted_def wf_super_def)
  then have "super_load K now c = (True, c\<lparr>super := ?sp\<rparr>)" if "db c = s" for c
    using kv_store_live.stored_counter [OF assms(1), of c ?sp now] r(3) that assms(5) by simp
  then have "\<exists>c'. super_load K now c = (True, c') \<and> fst (inode_alloc K c') = ?n + 1" if "db c = s" for c
    using that by (auto simp: inode_alloc_def inode_alloc_bump_def split_def Let_def)
  with r(1,2) show ?thesis
    by (intro exI [of _ "duo st0 0 1 ((rc_super st0)\<lparr>s_next_ino := ?n + 2\<rparr>) s t Idle Idle hs"] exI [of _ "?n + 1"]) auto
qed

text \<open>
  C14. Where \<^verbatim>\<open>kv_put\<close> reads the superblock and stores it in one turn, no number is given twice:
  in every state that threads reach the store mounts again, and the first number given out then is
  above the number of every stored inode, whichever thread was where when the program stopped.
\<close>

theorem inode_numbers_not_reused:
  assumes "kv_store_live K contents" "alloc_limit can" "rc_mounted K st0" "rc_reach K can True st0 st"
    and "kv_get K (rc_db st0) KVBFS_KEY_SUPER = Some (super_bytes (rc_super st0))" "s_magic (rc_super st0) = KVBFS_MAGIC"
    and "\<forall>n. inode_load K (rc_db st0) n \<noteq> None \<longrightarrow> n < s_next_ino (rc_super st0)" "db c = rc_db st"
  shows "\<exists>c'. super_load K now c = (True, c') \<and>
    (\<forall>n. inode_load K (rc_db st) n \<noteq> None \<longrightarrow> n < fst (inode_alloc K c'))"
proof -
  have "counter_ok K (rc_db st0) (rc_pc st0) (rc_super st0) (rc_super st0)"
    using assms(3,5-7) by (simp add: counter_ok_def rc_mounted_def)
  from kv_store_live.counter_reach [OF assms(1,4,3,2) this] obtain sp where
    sp: "counter_ok K (rc_db st) (rc_pc st) sp (rc_super st)" ..
  then have "super_load K now c = (True, c\<lparr>super := sp\<rparr>)"
    using assms(8) by (simp add: super_load_def counter_ok_def)
  with sp show ?thesis
    by (auto simp: inode_alloc_def inode_alloc_bump_def split_def Let_def counter_ok_def)
qed

section \<open>Witnesses\<close>

definition race_sample :: "(string, bytes) alist racing" where
  "race_sample = \<lparr>rc_db = store_of sample_entries, rc_super = sample_super, rc_table = empty_table,
     rc_pc = (\<lambda>_. Idle), rc_holds = []\<rparr>"

lemma race_sample_simps [simp]:
  "rc_db race_sample = store_of sample_entries" "rc_super race_sample = sample_super"
  "rc_table race_sample = empty_table" "rc_pc race_sample = (\<lambda>_. Idle)" "rc_holds race_sample = []"
  by (simp_all add: race_sample_def)

lemma race_sample_mounted: "rc_mounted mem_ops race_sample"
  using sample_ok ok_images [of mem_ops sample] by (simp add: rc_mounted_def empty_table_def ut_empty_def)

lemma limit_64: "alloc_limit (\<lambda>n. n \<le> 64)"
  by (simp add: alloc_limit_def)

lemma race_sample_load: "inode_load mem_ops (rc_db race_sample) 5 = Some file_inode"
  by (simp add: sample_load)

lemma mem_live: "kv_store_live mem_ops DAList.lookup"
  by unfold_locales

theorem inode_cache_threads_witness:
  "\<exists>st as. rc_reach mem_ops (\<lambda>n. n \<le> 64) False race_sample st \<and> tab_find (rc_table st) 5 = Some (Some 0) \<and>
     tab_elems (rc_table st) = Some as \<and> distinct as \<and>
     (\<forall>a\<in>set as. ic_refcount (item (rc_table st) a) = count_list (map snd (rc_holds st)) a)"
proof -
  obtain s t where r: "rc_reach mem_ops (\<lambda>n. n \<le> 64) False race_sample
      (duo race_sample 0 1 (rc_super race_sample) s t Idle Idle [])" "tab_find t 5 = Some (Some 0)"
    using kv_store_live.deleted_inode_run [OF mem_live race_sample_mounted limit_64 _ _ _ race_sample_load, of 0 1 False]
    by auto
  from inode_cache_threads [OF kv_store_live.axioms(1) [OF mem_live] limit_64 race_sample_mounted r(1)] r
  show ?thesis by (intro exI [of _ "duo race_sample 0 1 (rc_super race_sample) s t Idle Idle []"]) auto
qed

theorem deleted_inode_returns_witness:
  "\<exists>st a. rc_reach mem_ops (\<lambda>n. n \<le> 64) True race_sample st \<and> (\<forall>th. rc_pc st th = Idle) \<and> rc_holds st = [] \<and>
     inode_load mem_ops (rc_db race_sample) 5 = Some file_inode \<and> inode_load mem_ops (rc_db st) 5 = None \<and>
     tab_find (rc_table st) 5 = Some (Some a) \<and> fst (tab_ref (rc_table st) a) = Some a"
  using deleted_inode_returns [OF mem_live limit_64 _ race_sample_mounted _ race_sample_load, of True] race_sample_load
  by simp

theorem inode_number_given_twice_witness:
  "\<exists>st m. rc_reach mem_ops (\<lambda>n. n \<le> 64) False race_sample st \<and> inode_load mem_ops (rc_db st) m \<noteq> None \<and>
     (\<forall>c. db c = rc_db st \<longrightarrow> (\<exists>c'. super_load mem_ops t0 c = (True, c') \<and> fst (inode_alloc mem_ops c') = m))"
  using inode_number_given_twice [OF mem_live limit_64 _ race_sample_mounted, of t0 0] by (auto simp: sample_super_def)

theorem inode_numbers_not_reused_witness:
  "\<exists>st c'. rc_reach mem_ops (\<lambda>n. n \<le> 64) True race_sample st \<and> creating (rc_pc st 3) = Some 6 \<and>
     super_load mem_ops t0 (sample\<lparr>db := rc_db st\<rparr>) = (True, c') \<and> 5 < fst (inode_alloc mem_ops c')"
proof -
  let ?st = "at_pc (race_sample\<lparr>rc_super := sample_super\<lparr>s_next_ino := u64 (6 + 1)\<rparr>\<rparr>) 3 (NewNumber 6)"
  have r: "rc_reach mem_ops (\<lambda>n. n \<le> 64) True race_sample ?st"
    using rc_reach.step [OF rc_reach.start rc_step.new_number [of race_sample 3 6]] by simp
  have "kv_get mem_ops (store_of sample_entries) KVBFS_KEY_SUPER = Some (super_bytes sample_super)"
    unfolding mem.get super_key_encode lookup_store_of by (simp add: sample_entries_def)
  moreover have "n < 6" if "inode_load mem_ops (store_of sample_entries) n \<noteq> None" for n
    using that by (auto simp: sample_load split: if_splits)
  ultimately obtain c' where "super_load mem_ops t0 (sample\<lparr>db := rc_db ?st\<rparr>) = (True, c')"
      "\<forall>n. inode_load mem_ops (rc_db ?st) n \<noteq> None \<longrightarrow> n < fst (inode_alloc mem_ops c')"
    using inode_numbers_not_reused [OF mem_live limit_64 race_sample_mounted r, of "sample\<lparr>db := rc_db ?st\<rparr>" t0]
    by (auto simp: sample_super_def)
  with r race_sample_load show ?thesis by (intro exI [of _ ?st] exI [of _ c']) auto
qed

end
