(* ===== verification/KvMemTable.thy ===== *)
theory KvMemTable
  imports UtClients
begin

text \<open>
  The store of the simulator on its hash table: the functions of \<^verbatim>\<open>sim/kv_mem.c\<close> with pointers to
  the entries. They answer like the association list of \<^verbatim>\<open>KvMem\<close>, which the storage contract is
  proved for.
\<close>

section \<open>Operations\<close>

text \<open>The table and the entries in memory. \<open>None\<close> for the whole would be a search without end.\<close>

record kv_table =
  kt_hash :: ut_hash
  kt_entry :: "addr \<Rightarrow> string \<times> bytes"

definition kt_create :: "ut_memory \<Rightarrow> kv_table" where
  "kt_create m = \<lparr>kt_hash = ut_empty m, kt_entry = (\<lambda>_. ([], []))\<rparr>"

definition kt_store :: "(nat \<Rightarrow> bool) \<Rightarrow> kv_table \<Rightarrow> addr \<Rightarrow> string \<Rightarrow> bytes \<Rightarrow> kv_table ut_run option" where
  "kt_store can t new k v =
     (case hash_find (kt_hash t) k of
        None \<Rightarrow> None
      | Some (Some a) \<Rightarrow> Some (Done (t\<lparr>kt_entry := (kt_entry t)(a := (fst (kt_entry t a), v))\<rparr>))
      | Some None \<Rightarrow>
          (case hash_add can (kt_hash t) new k of
             None \<Rightarrow> None
           | Some Fatal \<Rightarrow> Some Fatal
           | Some (Done u) \<Rightarrow> Some (Done \<lparr>kt_hash = u, kt_entry = (kt_entry t)(new := (k, v))\<rparr>)))"

definition kt_retrieve :: "kv_table \<Rightarrow> string \<Rightarrow> bytes option option" where
  "kt_retrieve t k = map_option (map_option (\<lambda>a. snd (kt_entry t a))) (hash_find (kt_hash t) k)"

definition kt_delete :: "kv_table \<Rightarrow> string \<Rightarrow> kv_table option" where
  "kt_delete t k =
     (case hash_find (kt_hash t) k of
        None \<Rightarrow> None
      | Some None \<Rightarrow> Some t
      | Some (Some a) \<Rightarrow> Some (t\<lparr>kt_hash := hash_delete (kt_hash t) a\<rparr>))"

definition kt_exist :: "kv_table \<Rightarrow> string \<Rightarrow> bool option" where
  "kt_exist t k = map_option (\<lambda>r. r \<noteq> None) (hash_find (kt_hash t) k)"

definition kt_list_prefix :: "kv_table \<Rightarrow> string \<Rightarrow> (string \<times> bytes) list option" where
  "kt_list_prefix t p =
     (case hash_iter (ut_mem (kt_hash t)) (ut_head (kt_hash t)) of
        None \<Rightarrow> None
      | Some as \<Rightarrow> Some (qsort_by entry_cmp
          (map (kt_entry t) (filter (\<lambda>a. length p \<le> length (fst (kt_entry t a)) \<and>
             memcmp (length p) (fst (kt_entry t a)) p = 0) as))))"

text \<open>The end of a store: its entries, in the order in which they are freed, and the empty table.\<close>

definition kt_destroy :: "kv_table \<Rightarrow> (addr list \<times> kv_table) option" where
  "kt_destroy t =
     (case hash_drain (kt_hash t) (ut_head (kt_hash t)) of
        None \<Rightarrow> None
      | Some (freed, u) \<Rightarrow> Some (freed, t\<lparr>kt_hash := u\<rparr>))"

section \<open>The same as the association list\<close>

definition kt_rel :: "kv_table \<Rightarrow> addr list \<Rightarrow> kv_mem \<Rightarrow> bool" where
  "kt_rel t as al \<longleftrightarrow> holds (\<lambda>s. s) str_ok (kt_hash t) (kt_entry t) as al"

lemma kt_find:
  assumes "kt_rel t as al"
  shows "\<exists>r. hash_find (kt_hash t) k = Some r \<and> map_option (snd \<circ> kt_entry t) r = DAList.lookup al k \<and>
    (\<forall>a. r = Some a \<longrightarrow> a \<in> set as \<and> fst (kt_entry t a) = k)"
  using str_table.find [of "kt_hash t" "kt_entry t" as al k] assms by (simp add: kt_rel_def str_ok_def)

text \<open>Which entry is at which address, in the order of the table.\<close>

definition owners :: "kv_table \<Rightarrow> addr list \<Rightarrow> (string \<times> addr) list" where
  "owners t as = map (\<lambda>a. (fst (kt_entry t a), a)) as"

lemma owners_simps [simp]:
  "snd ` set (owners t as) = set as" "fst ` set (owners t as) = (fst \<circ> kt_entry t) ` set as"
  "length (owners t as) = length as"
  by (force simp: owners_def)+

lemma kt_store_rel:
  assumes "kt_rel t as al" "k \<in> fst ` set (owners t as) \<or> new \<notin> set as" "alloc_limit can"
  shows "(\<not> can 32 \<or> 9 \<le> length as) \<and> kt_store can t new k v = Some Fatal \<or>
    (\<exists>t' as'. kt_store can t new k v = Some (Done t') \<and>
      owners t' as' = (if k \<in> fst ` set (owners t as) then owners t as else owners t as @ [(k, new)]) \<and>
      kt_rel t' as' (snd (kv_mem_store al k v)))"
proof -
  obtain r where r: "hash_find (kt_hash t) k = Some r" "map_option (snd \<circ> kt_entry t) r = DAList.lookup al k"
    "\<forall>a. r = Some a \<longrightarrow> a \<in> set as \<and> fst (kt_entry t a) = k"
    using kt_find [OF assms(1)] by blast
  show ?thesis
  proof (cases r)
    case (Some a)
    then have a: "a \<in> set as" "fst (kt_entry t a) = k" using r(3) by simp_all
    have "holds (\<lambda>s. s) str_ok (kt_hash t) ((kt_entry t)(a := (k, v))) as (DAList.update k v al)"
      by (rule str_table.change [OF assms(1) [unfolded kt_rel_def] a])
    then have "kt_rel (t\<lparr>kt_entry := (kt_entry t)(a := (k, v))\<rparr>) as (DAList.update k v al)" by (simp add: kt_rel_def)
    moreover have "k \<in> fst ` set (owners t as)" using a by auto
    moreover have "owners (t\<lparr>kt_entry := (kt_entry t)(a := (k, v))\<rparr>) as = owners t as"
      using a(2) by (auto simp: owners_def)
    ultimately show ?thesis using r(1) Some a(2) by (auto simp: kt_store_def kv_mem_store_def)
  next
    case None
    then have l: "DAList.lookup al k = None" using r(2) by simp
    then have k: "k \<notin> fst ` set (owners t as)"
      using str_table.keys_of [OF assms(1) [unfolded kt_rel_def]] by (simp add: DAList.lookup.rep_eq map_of_eq_None_iff)
    then have new: "new \<notin> set as" using assms(2) by blast
    have o: "owners \<lparr>kt_hash = u, kt_entry = (kt_entry t)(new := (k, v))\<rparr> (as @ [new]) = owners t as @ [(k, new)]" for u
      using new by (auto simp: owners_def)
    have "str_ok k" by (simp add: str_ok_def)
    from str_table.add [OF assms(1) [unfolded kt_rel_def] this l new assms(3), of v] show ?thesis
    proof (elim disjE exE conjE)
      fix u assume "hash_add can (kt_hash t) new k = Some (Done u)"
        "holds (\<lambda>s. s) str_ok u ((kt_entry t)(new := (k, v))) (as @ [new]) (DAList.update k v al)"
      with o [of u] r(1) None k show ?thesis
        by (intro disjI2 exI [of _ "\<lparr>kt_hash = u, kt_entry = (kt_entry t)(new := (k, v))\<rparr>"] exI [of _ "as @ [new]"])
          (simp add: kt_store_def kv_mem_store_def kt_rel_def)
    qed (use r(1) None in \<open>simp_all add: kt_store_def\<close>)
  qed
qed

lemma kt_retrieve_rel:
  assumes "kt_rel t as al"
  shows "kt_retrieve t k = Some (kv_mem_retrieve al k)" "kt_exist t k = Some (kv_mem_exist al k)"
  using kt_find [OF assms, of k] 
  by (auto simp: kt_retrieve_def kv_mem_retrieve_def kt_exist_def kv_mem_exist_def comp_def dest!: sym [of _ "DAList.lookup al _"])

lemma dalist_delete_absent: "DAList.lookup al k = None \<Longrightarrow> DAList.delete k al = al"
  by transfer (simp add: AList.delete_idem map_of_eq_None_iff)

lemma kt_delete_rel:
  assumes "kt_rel t as al"
  shows "\<exists>t' as'. kt_delete t k = Some t' \<and> owners t' as' = filter (\<lambda>e. fst e \<noteq> k) (owners t as) \<and>
    kt_rel t' as' (snd (kv_mem_delete al k))"
proof -
  obtain r where r: "hash_find (kt_hash t) k = Some r" "map_option (snd \<circ> kt_entry t) r = DAList.lookup al k"
    "\<forall>a. r = Some a \<longrightarrow> a \<in> set as \<and> fst (kt_entry t a) = k"
    using kt_find [OF assms] by blast
  show ?thesis
  proof (cases r)
    case (Some a)
    then have a: "a \<in> set as" "fst (kt_entry t a) = k" using r(3) by simp_all
    have "holds (\<lambda>s. s) str_ok (hash_delete (kt_hash t) a) (kt_entry t) (remove1 a as) (DAList.delete k al)"
      by (rule str_table.delete [OF assms(1) [unfolded kt_rel_def] a])
    moreover have "remove1 a as = filter (\<lambda>x. fst (kt_entry t x) \<noteq> k) as"
    proof -
      have "distinct as" using assms by (simp add: kt_rel_def holds_def hash_ok_def)
      then have "remove1 a as = filter (\<lambda>x. x \<noteq> a) as"
        by (simp add: distinct_remove1_removeAll removeAll_filter_not_eq) (rule filter_cong, auto)
      also have "\<dots> = filter (\<lambda>x. fst (kt_entry t x) \<noteq> k) as"
        using str_table.entry_unique [OF assms [unfolded kt_rel_def] a(1)] a(2) by (intro filter_cong) fastforce+
      finally show ?thesis .
    qed
    then have "owners (t\<lparr>kt_hash := hash_delete (kt_hash t) a\<rparr>) (remove1 a as) = filter (\<lambda>e. fst e \<noteq> k) (owners t as)"
      by (simp add: owners_def filter_map comp_def)
    ultimately show ?thesis using r(1) Some
      by (intro exI [of _ "t\<lparr>kt_hash := hash_delete (kt_hash t) a\<rparr>"] exI [of _ "remove1 a as"])
        (simp add: kt_delete_def kv_mem_delete_def kt_rel_def)
  next
    case None
    then have l: "DAList.lookup al k = None" using r(2) by simp
    then have "k \<notin> fst ` set (owners t as)"
      using str_table.keys_of [OF assms [unfolded kt_rel_def]] by (simp add: DAList.lookup.rep_eq map_of_eq_None_iff)
    then have "filter (\<lambda>e. fst e \<noteq> k) (owners t as) = owners t as" by (auto simp: filter_id_conv simp del: owners_simps(2))
    then show ?thesis using r(1) None assms dalist_delete_absent [OF l] by (auto simp: kt_delete_def kv_mem_delete_def)
  qed
qed

lemma kt_list_rel: "kt_rel t as al \<Longrightarrow> kt_list_prefix t p = Some (kv_mem_list_prefix al p)"
  using str_table.iter [of "kt_hash t" "kt_entry t" as al]
  by (auto simp: kt_rel_def kt_list_prefix_def kv_mem_list_prefix_def filter_map comp_def dest!: sym [of "map _ _"])

text \<open>Destroying the store frees every entry once.\<close>

lemma kt_destroy_rel: "kt_rel t as al \<Longrightarrow> distinct as \<and> (\<exists>t'. kt_destroy t = Some (as, t') \<and> kt_rel t' [] DAList.empty)"
  using str_table.drain [of "kt_hash t" "kt_entry t" as al]
  by (auto simp: kt_rel_def kt_destroy_def holds_def hash_ok_def)

section \<open>Property\<close>

text \<open>A sequence of calls. A store carries the address that \<^verbatim>\<open>malloc\<close> gives if it needs a new entry.\<close>

datatype kv_call = KvStore addr string bytes | KvRetrieve string | KvDelete string | KvExist string | KvList string

datatype kv_answer = AnsDone | AnsValue "bytes option" | AnsBool bool | AnsList "(string \<times> bytes) list"

fun kt_call :: "(nat \<Rightarrow> bool) \<Rightarrow> kv_call \<Rightarrow> kv_table \<Rightarrow> (kv_answer \<times> kv_table) ut_run option" where
  "kt_call can (KvStore new k v) t =
     (case kt_store can t new k v of
        None \<Rightarrow> None | Some Fatal \<Rightarrow> Some Fatal | Some (Done t') \<Rightarrow> Some (Done (AnsDone, t')))"
| "kt_call can (KvRetrieve k) t = map_option (\<lambda>r. Done (AnsValue r, t)) (kt_retrieve t k)"
| "kt_call can (KvDelete k) t = map_option (\<lambda>t'. Done (AnsDone, t')) (kt_delete t k)"
| "kt_call can (KvExist k) t = map_option (\<lambda>b. Done (AnsBool b, t)) (kt_exist t k)"
| "kt_call can (KvList p) t = map_option (\<lambda>es. Done (AnsList es, t)) (kt_list_prefix t p)"

fun kt_run :: "(nat \<Rightarrow> bool) \<Rightarrow> kv_call list \<Rightarrow> kv_table \<Rightarrow> kv_answer list ut_run option" where
  "kt_run can [] t = Some (Done [])"
| "kt_run can (c # cs) t =
     (case kt_call can c t of
        None \<Rightarrow> None
      | Some Fatal \<Rightarrow> Some Fatal
      | Some (Done (r, t')) \<Rightarrow>
          (case kt_run can cs t' of
             None \<Rightarrow> None | Some Fatal \<Rightarrow> Some Fatal | Some (Done rs) \<Rightarrow> Some (Done (r # rs))))"

fun kv_mem_call :: "kv_call \<Rightarrow> kv_mem \<Rightarrow> kv_answer \<times> kv_mem" where
  "kv_mem_call (KvStore new k v) al = (AnsDone, snd (kv_mem_store al k v))"
| "kv_mem_call (KvRetrieve k) al = (AnsValue (kv_mem_retrieve al k), al)"
| "kv_mem_call (KvDelete k) al = (AnsDone, snd (kv_mem_delete al k))"
| "kv_mem_call (KvExist k) al = (AnsBool (kv_mem_exist al k), al)"
| "kv_mem_call (KvList p) al = (AnsList (kv_mem_list_prefix al p), al)"

fun kv_mem_run :: "kv_call list \<Rightarrow> kv_mem \<Rightarrow> kv_answer list" where
  "kv_mem_run [] al = []"
| "kv_mem_run (c # cs) al = (let (r, al') = kv_mem_call c al in r # kv_mem_run cs al')"

text \<open>
  The entries that are alive and their addresses, call by call: a store of a new key allocates one,
  a deletion frees it. \<^verbatim>\<open>malloc\<close> never gives the address of a live entry; that of a freed one it
  may give again.
\<close>

fun owners_after :: "kv_call \<Rightarrow> (string \<times> addr) list \<Rightarrow> (string \<times> addr) list" where
  "owners_after (KvStore new k v) L = (if k \<in> fst ` set L then L else L @ [(k, new)])"
| "owners_after (KvDelete k) L = filter (\<lambda>e. fst e \<noteq> k) L"
| "owners_after c L = L"

fun malloc_ok :: "kv_call \<Rightarrow> (string \<times> addr) list \<Rightarrow> bool" where
  "malloc_ok (KvStore new k v) L \<longleftrightarrow> k \<in> fst ` set L \<or> new \<notin> snd ` set L"
| "malloc_ok c L \<longleftrightarrow> True"

fun mallocs_ok :: "kv_call list \<Rightarrow> (string \<times> addr) list \<Rightarrow> bool" where
  "mallocs_ok [] L \<longleftrightarrow> True"
| "mallocs_ok (c # cs) L \<longleftrightarrow> malloc_ok c L \<and> mallocs_ok cs (owners_after c L)"

fun is_store :: "kv_call \<Rightarrow> bool" where
  "is_store (KvStore new k v) \<longleftrightarrow> True"
| "is_store c \<longleftrightarrow> False"

lemma kt_call_rel:
  assumes "kt_rel t as al" "malloc_ok c (owners t as)" "alloc_limit can"
  shows "(\<not> can 32 \<or> 9 \<le> length as) \<and> is_store c \<and> kt_call can c t = Some Fatal \<or>
    (\<exists>t' as'. kt_call can c t = Some (Done (fst (kv_mem_call c al), t')) \<and>
      owners t' as' = owners_after c (owners t as) \<and> kt_rel t' as' (snd (kv_mem_call c al)))"
proof (cases c)
  case (KvStore new k v)
  then have "k \<in> fst ` set (owners t as) \<or> new \<notin> set as" using assms(2) by simp
  from kt_store_rel [OF assms(1) this assms(3), of v] show ?thesis
  proof (elim disjE exE conjE)
    fix t' as' assume "kt_store can t new k v = Some (Done t')" "kt_rel t' as' (snd (kv_mem_store al k v))"
      "owners t' as' = (if k \<in> fst ` set (owners t as) then owners t as else owners t as @ [(k, new)])"
    then show ?thesis by (intro disjI2 exI [of _ t'] exI [of _ as'])
        (simp add: KvStore del: owners_simps(2))
  qed (simp_all add: KvStore)
next
  case (KvDelete k)
  with kt_delete_rel [OF assms(1), of k] show ?thesis by auto
qed (use assms(1) in \<open>auto simp: kt_retrieve_rel kt_list_rel intro: exI [of _ as]\<close>)

lemma owners_after_length: "length (owners_after c L) \<le> length L + (if is_store c then 1 else 0)"
  by (cases c) auto

lemma kt_run_rel:
  assumes "kt_rel t as al" "mallocs_ok cs (owners t as)" "alloc_limit can"
  shows "kt_run can cs t = Some (Done (kv_mem_run cs al)) \<or>
    kt_run can cs t = Some Fatal \<and> (\<not> can 32 \<or> 10 \<le> length as + length (filter is_store cs))"
  using assms(1,2)
proof (induction cs arbitrary: t as al)
  case (Cons c cs)
  from Cons.prems(2) have d: "malloc_ok c (owners t as)" "mallocs_ok cs (owners_after c (owners t as))" by simp_all
  from kt_call_rel [OF Cons.prems(1) d(1) assms(3)] show ?case
  proof (elim disjE exE conjE)
    fix t' as'
    assume r: "kt_call can c t = Some (Done (fst (kv_mem_call c al), t'))" "owners t' as' = owners_after c (owners t as)"
      "kt_rel t' as' (snd (kv_mem_call c al))"
    have "length as' \<le> length as + (if is_store c then 1 else 0)"
      using owners_after_length [of c "owners t as"] arg_cong [OF r(2), of length] by simp
    with Cons.IH [OF r(3)] d(2) r(1,2) show ?thesis
      by (auto simp: split_def Let_def split: if_splits)
  qed simp_all
qed simp

text \<open>
  C20. The store of the simulator on pointers. Any sequence of stores, reads, deletions, tests and
  prefix lists on the hash table, started empty, ends and answers like the association list that the
  storage contract is proved for, also when a new entry gets the address of one that was freed; it
  stops early only where the first 32 buckets, or more of them after ten stores, cannot be allocated.
\<close>

theorem simulator_store_on_table:
  assumes "alloc_limit can" "mallocs_ok cs []"
  shows "kt_run can cs (kt_create m) = Some (Done (kv_mem_run cs kv_mem_create)) \<or>
    kt_run can cs (kt_create m) = Some Fatal \<and> (\<not> can 32 \<or> 10 \<le> length (filter is_store cs))"
proof -
  have "kt_rel (kt_create m) [] kv_mem_create"
    by (simp add: kt_rel_def kt_create_def kv_mem_create_def holds_def hash_ok_def ut_empty_def DAList.empty.rep_eq)
  from kt_run_rel [OF this _ assms(1), of cs] assms(2) show ?thesis by (simp add: owners_def)
qed

theorem simulator_store_on_table_witness:
  "kt_run (\<lambda>n. n \<le> 64) [KvStore 1 ''a'' ''x'', KvStore 2 ''a'' ''y'', KvRetrieve ''a'', KvDelete ''a'', KvStore 1 ''b'' ''z'', KvExist ''a'']
     (kt_create ut_memory0) = Some (Done [AnsDone, AnsDone, AnsValue (Some ''y''), AnsDone, AnsDone, AnsBool False])"
proof -
  let ?cs = "[KvStore 1 ''a'' ''x'', KvStore 2 ''a'' ''y'', KvRetrieve ''a'', KvDelete ''a'', KvStore 1 ''b'' ''z'', KvExist ''a'']"
  have "alloc_limit (\<lambda>n. n \<le> 64)" by (simp add: alloc_limit_def)
  from simulator_store_on_table [OF this, of ?cs ut_memory0]
  have "kt_run (\<lambda>n. n \<le> 64) ?cs (kt_create ut_memory0) = Some (Done (kv_mem_run ?cs kv_mem_create))" by simp
  then show ?thesis
    by (simp add: kv_mem_store_def kv_mem_create_def kv_mem_retrieve_def kv_mem_delete_def kv_mem_exist_def
        DAList.lookup_update DAList.lookup_delete)
qed

end
