(* ===== verification/UtSelect.thy ===== *)
theory UtSelect
  imports UtOrder
begin

text \<open>
  \<^verbatim>\<open>HASH_SELECT\<close> of \<^verbatim>\<open>src/uthash.h\<close>: the elements that meet a condition are entered into a second
  table through a second handle in each of them. The handles of the second table are a memory of
  their own. Selecting into an empty table gives a table whose chains, counts and list are right and
  whose \<^verbatim>\<open>tail\<close> is its first element; the next element that is added cuts the list off behind it.
\<close>

section \<open>The code\<close>

text \<open>An element of the source that meets the condition. The state is the second table and \<^verbatim>\<open>_last_elt\<close>.\<close>

definition select_element ::
  "(nat \<Rightarrow> bool) \<Rightarrow> ut_memory \<Rightarrow> addr \<Rightarrow> ut_hash \<times> addr option \<Rightarrow> (ut_hash \<times> addr option) ut_run option" where
  "select_element can src a st =
     (let dst = fst st; last_elt = snd st; h = src a;
          m1 = (ut_mem dst)(a := (ut_mem dst a)\<lparr>hh_key := hh_key h, hh_hashv := hh_hashv h, hh_app_prev := last_elt, hh_app_next := None\<rparr>);
          m2 = (case last_elt of None \<Rightarrow> m1 | Some l \<Rightarrow> m1(l := (m1 l)\<lparr>hh_app_next := Some a\<rparr>))
      in if ut_head dst = None \<and> \<not> can HASH_INITIAL_NUM_BUCKETS then Some Fatal
         else
           let head = (case ut_head dst of None \<Rightarrow> a | Some d \<Rightarrow> d);
               t = (case ut_head dst of None \<Rightarrow> hash_make_table a | Some d \<Rightarrow> ut_tbl dst)
           in case hash_add_to_bkt can m2 t (to_bkt (hh_hashv (m2 a)) (ut_num_buckets t)) a of
                None \<Rightarrow> None
              | Some Fatal \<Rightarrow> Some Fatal
              | Some (Done (m3, t3)) \<Rightarrow>
                  Some (Done (\<lparr>ut_mem = m3, ut_head = Some head, ut_tbl = t3\<lparr>ut_num_items := ut_num_items t3 + 1\<rparr>\<rparr>, Some a)))"

partial_function (option) select_chain ::
  "(nat \<Rightarrow> bool) \<Rightarrow> (addr \<Rightarrow> bool) \<Rightarrow> ut_memory \<Rightarrow> addr option \<Rightarrow> ut_hash \<times> addr option \<Rightarrow>
   (ut_hash \<times> addr option) ut_run option" where
  "select_chain can cond src el st =
     (if el = None then Some (Done st)
      else Option.bind (if cond (the el) then select_element can src (the el) st else Some (Done st)) (\<lambda>r.
        case r of
          Fatal \<Rightarrow> Some Fatal
        | Done st' \<Rightarrow> select_chain can cond src (hh_next (src (the el))) st'))"

declare select_chain.simps [code]

fun select_buckets ::
  "(nat \<Rightarrow> bool) \<Rightarrow> (addr \<Rightarrow> bool) \<Rightarrow> ut_memory \<Rightarrow> ut_bucket list \<Rightarrow> ut_hash \<times> addr option \<Rightarrow>
   (ut_hash \<times> addr option) ut_run option" where
  "select_buckets can cond src [] st = Some (Done st)"
| "select_buckets can cond src (b # bs) st =
     (case select_chain can cond src (bk_head b) st of
        None \<Rightarrow> None
      | Some Fatal \<Rightarrow> Some Fatal
      | Some (Done st') \<Rightarrow> select_buckets can cond src bs st')"

definition hash_select :: "(nat \<Rightarrow> bool) \<Rightarrow> (addr \<Rightarrow> bool) \<Rightarrow> ut_hash \<Rightarrow> ut_hash \<Rightarrow> ut_hash ut_run option" where
  "hash_select can cond src dst =
     (case ut_head src of
        None \<Rightarrow> Some (Done dst)
      | Some h \<Rightarrow>
          (case select_buckets can cond (ut_mem src) (ut_buckets (ut_tbl src)) (dst, None) of
             None \<Rightarrow> None
           | Some Fatal \<Rightarrow> Some Fatal
           | Some (Done st) \<Rightarrow> Some (Done (fst st))))"

section \<open>The table of the selected elements\<close>

text \<open>All of \<open>hash_ok\<close> but \<^verbatim>\<open>tail\<close>, which still is the first element.\<close>

definition selected :: "ut_memory \<Rightarrow> ut_hash \<Rightarrow> addr list \<Rightarrow> bool" where
  "selected src u ss \<longleftrightarrow> ut_head u = first ss None \<and> distinct ss \<and> app_linked (ut_mem u) ss \<and>
     (\<forall>a\<in>set ss. hh_key (ut_mem u a) = hh_key (src a) \<and> hh_hashv (ut_mem u a) = hh_hashv (src a)) \<and>
     (ss \<noteq> [] \<longrightarrow> ut_tail (ut_tbl u) = hd ss \<and> ut_num_items (ut_tbl u) = length ss \<and> table_sizes_ok (ut_tbl u) \<and>
        buckets_ok (ut_mem u) (ut_num_buckets (ut_tbl u)) (ut_buckets (ut_tbl u)) (set ss))"

text \<open>What a selection leaves, or that the buckets could not be allocated.\<close>

definition selects :: "(nat \<Rightarrow> bool) \<Rightarrow> ut_memory \<Rightarrow> addr list \<Rightarrow> (ut_hash \<times> addr option) ut_run option \<Rightarrow> bool" where
  "selects can src ss r \<longleftrightarrow> (\<not> can 32 \<or> 10 \<le> length ss) \<and> r = Some Fatal \<or>
     (\<exists>u. r = Some (Done (u, final ss None)) \<and> selected src u ss)"

lemma select_element_spec:
  assumes "selected src u ss" "a \<notin> set ss" "alloc_limit can"
  shows "selects can src (ss @ [a]) (select_element can src a (u, final ss None))"
proof (cases "ut_head u = None \<and> \<not> can HASH_INITIAL_NUM_BUCKETS")
  case True
  then show ?thesis by (simp add: selects_def select_element_def Let_def HASH_INITIAL_NUM_BUCKETS_def)
next
  case False
  let ?m = "ut_mem u"
  define m1 where "m1 = ?m(a := (?m a)\<lparr>hh_key := hh_key (src a), hh_hashv := hh_hashv (src a), hh_app_prev := final ss None, hh_app_next := None\<rparr>)"
  define m2 where "m2 = (case final ss None of None \<Rightarrow> m1 | Some l \<Rightarrow> m1(l := (m1 l)\<lparr>hh_app_next := Some a\<rparr>))"
  define head where "head = (case ut_head u of None \<Rightarrow> a | Some d \<Rightarrow> d)"
  define t where "t = (case ut_head u of None \<Rightarrow> hash_make_table a | Some d \<Rightarrow> ut_tbl u)"
  have ok: "ut_head u = first ss None" "distinct ss" "app_linked ?m ss"
    and key: "\<And>x. x \<in> set ss \<Longrightarrow> hh_key (?m x) = hh_key (src x) \<and> hh_hashv (?m x) = hh_hashv (src x)"
    using assms(1) by (auto simp: selected_def)
  have last: "ss \<noteq> [] \<Longrightarrow> last ss \<noteq> a" using assms(2) last_in_set by metis
  have old: "hh_next (m2 x) = hh_next (?m x) \<and> hh_prev (m2 x) = hh_prev (?m x) \<and> hh_key (m2 x) = hh_key (?m x) \<and> hh_hashv (m2 x) = hh_hashv (?m x)"
    if "x \<noteq> a" for x
    using that by (auto simp: m2_def m1_def split: option.split)
  have new: "hh_key (m2 a) = hh_key (src a)" "hh_hashv (m2 a) = hh_hashv (src a)" "hh_app_prev (m2 a) = final ss None" "hh_app_next (m2 a) = None"
    using last by (auto simp: m2_def m1_def final_def)
  have link: "app_linked m2 (ss @ [a])"
  proof -
    have "linked (app_next m2) (app_prev m2) None ss (Some a)"
    proof (cases "ss = []")
      case False
      show ?thesis
        by (rule linked_frame [OF linked_retarget [OF ok(2) False ok(3)]]) (use assms(2) False in \<open>auto simp: m2_def m1_def final_def\<close>)
    qed simp
    then show ?thesis using new by simp
  qed
  have t: "table_sizes_ok t" "ut_num_items t = length ss" "buckets_ok m2 (ut_num_buckets t) (ut_buckets t) (set ss)"
    "ut_tail t = hd (ss @ [a])" "Some head = first (ss @ [a]) None"
  proof -
    have "table_sizes_ok t \<and> ut_num_items t = length ss \<and> buckets_ok m2 (ut_num_buckets t) (ut_buckets t) (set ss) \<and>
      ut_tail t = hd (ss @ [a]) \<and> Some head = first (ss @ [a]) None"
    proof (cases ss)
      case Nil
      then show ?thesis using ok(1) buckets_ok_empty [of m2 32]
        by (simp add: t_def head_def hash_make_table_def table_sizes_ok_def HASH_INITIAL_NUM_BUCKETS_def HASH_INITIAL_NUM_BUCKETS_LOG2_def)
    next
      case (Cons s ss')
      then have "buckets_ok ?m (ut_num_buckets (ut_tbl u)) (ut_buckets (ut_tbl u)) (set ss)" using assms(1) by (simp add: selected_def)
      then have "buckets_ok m2 (ut_num_buckets (ut_tbl u)) (ut_buckets (ut_tbl u)) (set ss)"
        by (rule buckets_ok_frame) (use old assms(2) in metis)
      then show ?thesis using assms(1) Cons by (simp add: selected_def t_def head_def)
    qed
    then show "table_sizes_ok t" "ut_num_items t = length ss" "buckets_ok m2 (ut_num_buckets t) (ut_buckets t) (set ss)"
      "ut_tail t = hd (ss @ [a])" "Some head = first (ss @ [a]) None" by simp_all
  qed
  let ?r = "hash_add_to_bkt can m2 t (to_bkt (hh_hashv (m2 a)) (ut_num_buckets t)) a"
  have run: "select_element can src a (u, final ss None) =
      (case ?r of None \<Rightarrow> None | Some Fatal \<Rightarrow> Some Fatal
       | Some (Done (m3, t3)) \<Rightarrow> Some (Done (\<lparr>ut_mem = m3, ut_head = Some head, ut_tbl = t3\<lparr>ut_num_items := ut_num_items t3 + 1\<rparr>\<rparr>, Some a)))"
    unfolding select_element_def Let_def fst_conv snd_conv m1_def [symmetric] m2_def [symmetric] head_def [symmetric] t_def [symmetric]
    by (simp only: False if_False)
  from hash_add_to_bkt_spec [OF t(3) assms(2) t(1) assms(3) refl finite_set] show ?thesis
  proof (elim disjE exE conjE)
    assume "HASH_BKT_CAPACITY_THRESH \<le> card (set ss) + 1" "?r = Some Fatal"
    then show ?thesis using ok(2) by (simp add: run selects_def HASH_BKT_CAPACITY_THRESH_def distinct_card)
  next
    fix m' t'
    assume r: "?r = Some (Done (m', t'))" "table_sizes_ok t'" "buckets_ok m' (ut_num_buckets t') (ut_buckets t') (insert a (set ss))"
      "chain_frame (insert a (set ss)) m2 m'" "ut_num_items t' = ut_num_items t" "ut_tail t' = ut_tail t"
    note f = chain_frameD [OF r(4)]
    let ?u = "\<lparr>ut_mem = m', ut_head = Some head, ut_tbl = t'\<lparr>ut_num_items := ut_num_items t' + 1\<rparr>\<rparr>"
    have k: "hh_key (m' x) = hh_key (src x) \<and> hh_hashv (m' x) = hh_hashv (src x)" if "x \<in> set (ss @ [a])" for x
      using that key old [of x] new by (cases "x = a") (auto simp: f(3,4))
    have "app_linked m' (ss @ [a])" using link by (simp add: f(1,2))
    then have "selected src ?u (ss @ [a])"
      using t(2,4,5) r(2,3,5,6) ok(2) assms(2) k by (simp add: selected_def table_sizes_ok_def)
    then show ?thesis by (simp add: run r(1) selects_def)
  qed
qed

lemma select_chain_spec:
  assumes "linked (\<lambda>a. hh_next (src a)) (\<lambda>a. hh_prev (src a)) q c None" "distinct c" "selected src u ss" "set ss \<inter> set c = {}"
    and "alloc_limit can"
  shows "selects can src (ss @ filter cond c) (select_chain can cond src (first c None) (u, final ss None))"
  using assms(1-4)
proof (induction c arbitrary: q u ss)
  case Nil
  then show ?case by (simp add: select_chain.simps selects_def)
next
  case (Cons a c)
  let ?rest = "\<lambda>st. select_chain can cond src (first c None) st"
  have unf: "select_chain can cond src (first (a # c) None) st =
      Option.bind (if cond a then select_element can src a st else Some (Done st))
        (\<lambda>r. case r of Fatal \<Rightarrow> Some Fatal | Done st' \<Rightarrow> ?rest st')" for st
    using Cons.prems(1) by (simp add: select_chain.simps [of can cond src "Some a"])
  have rest: "linked (\<lambda>a. hh_next (src a)) (\<lambda>a. hh_prev (src a)) (Some a) c None" "distinct c" using Cons.prems(1,2) by simp_all
  show ?case
  proof (cases "cond a")
    case True
    have "a \<notin> set ss" using Cons.prems(4) by auto
    from select_element_spec [OF Cons.prems(3) this assms(5)] show ?thesis
      unfolding selects_def [of can src "ss @ [a]"] unf
    proof (elim disjE exE conjE)
      fix v assume v: "select_element can src a (u, final ss None) = Some (Done (v, final (ss @ [a]) None))" "selected src v (ss @ [a])"
      have "set (ss @ [a]) \<inter> set c = {}" using Cons.prems(2,4) by auto
      from Cons.IH [OF rest v(2) this] True v(1)
      show "selects can src (ss @ filter cond (a # c)) (Option.bind (if cond a then select_element can src a (u, final ss None) else Some (Done (u, final ss None)))
        (\<lambda>r. case r of Fatal \<Rightarrow> Some Fatal | Done st' \<Rightarrow> ?rest st'))" by simp
    qed (use True in \<open>auto simp: selects_def\<close>)
  next
    case False
    have "set ss \<inter> set c = {}" using Cons.prems(4) by auto
    from Cons.IH [OF rest Cons.prems(3) this] show ?thesis using False unfolding unf by simp
  qed
qed

lemma select_buckets_spec:
  assumes "list_all2 (bucket_ok src) bs cs" "distinct (concat cs)" "selected src u ss" "set ss \<inter> set (concat cs) = {}" "alloc_limit can"
  shows "selects can src (ss @ filter cond (concat cs)) (select_buckets can cond src bs (u, final ss None))"
  using assms(1-4)
proof (induction arbitrary: u ss rule: list_all2_induct)
  case (Cons b bs c cs)
  have c: "bk_head b = first c None" "chain_linked src c" "distinct c" using Cons.hyps(1) by (simp_all add: bucket_ok_def)
  have dj: "set ss \<inter> set c = {}" using Cons.prems(3) by auto
  from select_chain_spec [OF c(2,3) Cons.prems(2) dj assms(5), of cond] show ?case
    unfolding selects_def [of can src "ss @ filter cond c"]
  proof (elim disjE exE conjE)
    fix v assume v: "select_chain can cond src (first c None) (u, final ss None) = Some (Done (v, final (ss @ filter cond c) None))"
      "selected src v (ss @ filter cond c)"
    have "distinct (concat cs)" "set (ss @ filter cond c) \<inter> set (concat cs) = {}" using Cons.prems(1,3) by auto
    from Cons.IH [OF this(1) v(2) this(2)] show ?case using v(1) by (simp add: c(1))
  qed (auto simp: c(1) selects_def)
qed (simp add: selects_def)

lemma hash_select_spec:
  assumes "hash_ok src as" "ut_head dst = None" "alloc_limit can"
  obtains ss where "distinct ss" "set ss = {a \<in> set as. cond a}"
    "(\<not> can 32 \<or> 10 \<le> length ss) \<and> hash_select can cond src dst = Some Fatal \<or>
     (\<exists>u. hash_select can cond src dst = Some (Done u) \<and> selected (ut_mem src) u ss)"
proof (cases as)
  case Nil
  then have "hash_select can cond src dst = Some (Done dst)" "selected (ut_mem src) dst []"
    using assms(1,2) by (simp_all add: hash_select_def hash_ok_def selected_def)
  then show thesis using that [of "[]"] Nil by auto
next
  case (Cons h hs)
  let ?t = "ut_tbl src"
  have t: "ut_head src = Some h" "table_sizes_ok ?t" "buckets_ok (ut_mem src) (ut_num_buckets ?t) (ut_buckets ?t) (set as)"
    using assms(1) Cons by (auto simp: hash_ok_def)
  obtain cs where cs: "list_all2 (bucket_ok (ut_mem src)) (ut_buckets ?t) cs" "distinct (concat cs)" "set (concat cs) = set as"
    using buckets_ok_chains [OF t(3) sizes_bkt [OF t(2)]] by blast
  have "selected (ut_mem src) dst []" using assms(2) by (simp add: selected_def)
  from select_buckets_spec [OF cs(1,2) this _ assms(3), of cond]
  have r: "selects can (ut_mem src) (filter cond (concat cs)) (select_buckets can cond (ut_mem src) (ut_buckets ?t) (dst, None))" by simp
  show thesis
  proof (rule that)
    show "distinct (filter cond (concat cs))" using cs(2) by (rule distinct_filter)
    show "set (filter cond (concat cs)) = {a \<in> set as. cond a}" using cs(3) by auto
    show "(\<not> can 32 \<or> 10 \<le> length (filter cond (concat cs))) \<and> hash_select can cond src dst = Some Fatal \<or>
     (\<exists>u. hash_select can cond src dst = Some (Done u) \<and> selected (ut_mem src) u (filter cond (concat cs)))"
      using r unfolding selects_def by (auto simp: hash_select_def t(1))
  qed
qed

section \<open>The next addition\<close>

text \<open>
  After at least two elements were selected, an addition is linked behind the first of them: the
  iteration visits the first and the new one, although all are counted, and the check of the pointers
  fails.
\<close>

lemma fsck_list_app: "linked n p q xs None \<Longrightarrow> xs \<noteq> [] \<Longrightarrow> fsck_list n p q (Some (hd xs)) 0 = Some (Some (length xs))"
  using fsck_list_spec [of n p q xs 0] by (cases xs) auto

lemma add_after_select:
  assumes sel: "selected src u (s # s' # ss)" and a: "a \<notin> set (s # s' # ss)" and can: "alloc_limit can"
    and few: "length (s # s' # ss) < 9"
  shows "\<exists>u'. hash_add can u a key = Some (Done u') \<and> hash_iter (ut_mem u') (ut_head u') = Some [s, a] \<and>
    hash_count u' = length (s # s' # ss) + 1 \<and> hash_fsck u' = Some False"
proof -
  let ?ss = "s # s' # ss" and ?t = "ut_tbl u" and ?m = "new_key (ut_mem u) a key"
  have ok: "ut_head u = Some s" "distinct ?ss" "app_linked (ut_mem u) ?ss" "ut_tail ?t = s" "ut_num_items ?t = length ?ss"
    "table_sizes_ok ?t" "buckets_ok (ut_mem u) (ut_num_buckets ?t) (ut_buckets ?t) (set ?ss)"
    using sel by (simp_all add: selected_def)
  define m where "m = (?m(a := (?m a)\<lparr>hh_app_next := None, hh_app_prev := Some s\<rparr>))(s := (?m s)\<lparr>hh_app_next := Some a\<rparr>)"
  let ?t1 = "?t\<lparr>ut_tail := a\<rparr>" and ?t2 = "?t\<lparr>ut_tail := a, ut_num_items := length ?ss + 1\<rparr>"
  have ap: "hash_append_list ?m ?t a = (m, ?t1)" using a by (simp add: hash_append_list_def ok(4) m_def Let_def)
  have old: "hh_next (m x) = hh_next (ut_mem u x) \<and> hh_prev (m x) = hh_prev (ut_mem u x) \<and> hh_hashv (m x) = hh_hashv (ut_mem u x)"
    if "x \<in> set ?ss" for x
    using that a by (auto simp: m_def new_key_def)
  have "table_sizes_ok ?t2" using ok(6) by (simp add: table_sizes_ok_def)
  have "buckets_ok m (ut_num_buckets ?t2) (ut_buckets ?t2) (set ?ss)"
    using buckets_ok_frame [OF ok(7), of m] old by simp
  note spec = hash_add_to_bkt_spec [OF this(1) a _ can refl finite_set]
  have "card (set ?ss) = length ?ss" by (rule distinct_card [OF ok(2)])
  then have "\<not> HASH_BKT_CAPACITY_THRESH \<le> card (set ?ss) + 1" using few by (simp only: HASH_BKT_CAPACITY_THRESH_def)
  with spec \<open>table_sizes_ok ?t2\<close> obtain m' t' where
    d: "hash_add_to_bkt can m ?t2 (to_bkt (hh_hashv (m a)) (ut_num_buckets ?t2)) a = Some (Done (m', t'))"
    "table_sizes_ok t'" "buckets_ok m' (ut_num_buckets t') (ut_buckets t') (insert a (set ?ss))"
    "chain_frame (insert a (set ?ss)) m m'" "ut_num_items t' = length ?ss + 1" by auto
  let ?u = "\<lparr>ut_mem = m', ut_head = Some s, ut_tbl = t'\<rparr>"
  have "hh_hashv (m a) = hash_jen key" using a by (simp add: m_def)
  then have add: "hash_add can u a key = Some (Done ?u)"
    using d(1) by (simp add: hash_add_def ok(1,5) ap hash_add_to_table_def)
  note f = chain_frameD [OF d(4)]
  have n: "hh_app_next (m' s) = Some a" "hh_app_next (m' a) = None" "hh_app_prev (m' a) = Some s" "hh_app_prev (m' s) = None"
    using a ok(3) by (auto simp: f(1,2) m_def)
  have l: "app_linked m' [s, a]" using n by simp
  have "hash_iter m' (Some s) = Some [s, a]" using hash_iter_linked [OF l] by simp
  moreover obtain cs where cs: "list_all2 (bucket_ok m') (ut_buckets t') cs" "distinct (concat cs)" "set (concat cs) = insert a (set ?ss)"
    using buckets_ok_chains [OF d(3) sizes_bkt [OF d(2)]] by blast
  then have "length (concat cs) = length ?ss + 1"
    using a ok(2) by (metis card_insert_disjoint distinct_card finite_set Suc_eq_plus1)
  then have "fsck_buckets m' (ut_buckets t') 0 = Some (Some (length ?ss + 1))" using fsck_buckets_spec [OF cs(1), of 0] by simp
  moreover have "fsck_list (app_next m') (app_prev m') None (Some s) 0 = Some (Some 2)" using fsck_list_app [OF l] by simp
  ultimately show ?thesis using d(5) add by (simp add: hash_count_def hash_fsck_def)
qed

text \<open>From the selection to the addition, where the buckets can be allocated.\<close>

lemma select_then_add_loses:
  assumes "hash_ok src as" "ut_head dst = None" "alloc_limit can" "can 32" "card {a \<in> set as. cond a} \<in> {2..<9}"
    and "a \<notin> set as"
  shows "\<exists>u u' s. hash_select can cond src dst = Some (Done u) \<and> hash_add can u a key = Some (Done u') \<and>
    hash_iter (ut_mem u') (ut_head u') = Some [s, a] \<and> hash_count u' = card {a \<in> set as. cond a} + 1 \<and> hash_fsck u' = Some False"
proof -
  obtain ss where ss: "distinct ss" "set ss = {a \<in> set as. cond a}"
    "(\<not> can 32 \<or> 10 \<le> length ss) \<and> hash_select can cond src dst = Some Fatal \<or>
     (\<exists>u. hash_select can cond src dst = Some (Done u) \<and> selected (ut_mem src) u ss)"
    using hash_select_spec [OF assms(1-3)] .
  have len: "length ss = card {a \<in> set as. cond a}" using ss(1,2) by (metis distinct_card)
  then have "\<not> 10 \<le> length ss" using assms(5) by simp
  then obtain u where u: "hash_select can cond src dst = Some (Done u)" "selected (ut_mem src) u ss" using ss(3) assms(4) by blast
  have "2 \<le> length ss" "length ss < 9" using len assms(5) by auto
  then obtain s s' rest where c: "ss = s # s' # rest" by (cases ss; cases "tl ss") auto
  have a: "a \<notin> set (s # s' # rest)" using ss(2) assms(6) unfolding c by blast
  have "length (s # s' # rest) < 9" using \<open>length ss < 9\<close> by (simp only: c)
  from add_after_select [OF u(2) [unfolded c] a assms(3) this, of key] obtain u' where
    "hash_add can u a key = Some (Done u')" "hash_iter (ut_mem u') (ut_head u') = Some [s, a]"
    "hash_count u' = length ss + 1" "hash_fsck u' = Some False" by (auto simp: c)
  then show ?thesis using u(1) len by auto
qed

end
