(* ===== verification/UtFunctions.thy ===== *)
theory UtFunctions
  imports UtPointers
begin

text \<open>
  The other hash functions of \<^verbatim>\<open>src/uthash.h\<close> that \<^verbatim>\<open>HASH_FUNCTION\<close> may be defined as, on 32-bit
  words: Bernstein, SAX, FNV-1a, one at a time, and Hsieh. Three of them take the key byte by byte with a
  step that loses nothing, so that keys of one length which differ in a single byte never collide.
  Then the Bloom filter that \<^verbatim>\<open>HASH_BLOOM\<close> puts before a search, which never hides an element.
\<close>

section \<open>The functions\<close>

definition hash_byte :: "char \<Rightarrow> 32 word" where
  "hash_byte c = of_nat (of_char c)"

definition ber_step :: "32 word \<Rightarrow> char \<Rightarrow> 32 word" where
  "ber_step h c = push_bit 5 h + h + hash_byte c"

definition hash_ber :: "bytes \<Rightarrow> 32 word" where
  "hash_ber key = foldl ber_step 0 key"

definition sax_step :: "32 word \<Rightarrow> char \<Rightarrow> 32 word" where
  "sax_step h c = h XOR (push_bit 5 h + drop_bit 2 h + hash_byte c)"

definition hash_sax :: "bytes \<Rightarrow> 32 word" where
  "hash_sax key = foldl sax_step 0 key"

definition fnv_step :: "32 word \<Rightarrow> char \<Rightarrow> 32 word" where
  "fnv_step h c = (h XOR hash_byte c) * 16777619"

definition hash_fnv :: "bytes \<Rightarrow> 32 word" where
  "hash_fnv key = foldl fnv_step 2166136261 key"

definition oat_step :: "32 word \<Rightarrow> char \<Rightarrow> 32 word" where
  "oat_step h c =
     (let h = h + hash_byte c;
          h = h + push_bit 10 h
      in h XOR drop_bit 6 h)"

definition oat_end :: "32 word \<Rightarrow> 32 word" where
  "oat_end h =
     (let h = h + push_bit 3 h;
          h = h XOR drop_bit 11 h
      in h + push_bit 15 h)"

definition hash_oat :: "bytes \<Rightarrow> 32 word" where
  "hash_oat key = oat_end (foldl oat_step 0 key)"

definition get16bits :: "bytes \<Rightarrow> nat \<Rightarrow> 32 word" where
  "get16bits key n = push_bit 8 (key_byte key (n + 1)) + key_byte key n"

function sfh_loop :: "bytes \<Rightarrow> 32 word \<Rightarrow> bytes \<times> 32 word" where
  "sfh_loop key h =
     (if 4 \<le> length key then
        let h = h + get16bits key 0;
            tmp = push_bit 11 (get16bits key 2) XOR h;
            h = push_bit 16 h XOR tmp
        in sfh_loop (drop 4 key) (h + drop_bit 11 h)
      else (key, h))"
  by pat_completeness auto
termination by (relation "measure (\<lambda>(key, h). length key)") auto

declare sfh_loop.simps [simp del]

definition sfh_rest :: "bytes \<Rightarrow> 32 word \<Rightarrow> 32 word" where
  "sfh_rest key h =
     (if length key = 3 then
        let h = h + get16bits key 0; h = h XOR push_bit 16 h; h = h XOR push_bit 18 (key_byte key 2) in h + drop_bit 11 h
      else if length key = 2 then
        let h = h + get16bits key 0; h = h XOR push_bit 11 h in h + drop_bit 17 h
      else if length key = 1 then
        let h = h + key_byte key 0; h = h XOR push_bit 10 h in h + drop_bit 1 h
      else h)"

definition sfh_end :: "32 word \<Rightarrow> 32 word" where
  "sfh_end h =
     (let h = h XOR push_bit 3 h; h = h + drop_bit 5 h;
          h = h XOR push_bit 4 h; h = h + drop_bit 17 h;
          h = h XOR push_bit 25 h
      in h + drop_bit 6 h)"

definition hash_sfh :: "bytes \<Rightarrow> 32 word" where
  "hash_sfh key = (let (rest, h) = sfh_loop key 0xcafebabe in sfh_end (sfh_rest rest h))"

section \<open>Steps that lose nothing\<close>

locale byte_hash =
  fixes step :: "32 word \<Rightarrow> char \<Rightarrow> 32 word"
  assumes step_state: "step h c = step h' c \<Longrightarrow> h = h'"
    and step_byte: "step h c = step h d \<Longrightarrow> c = d"
begin

lemma fold_state: "foldl step h xs = foldl step h' xs \<Longrightarrow> h = h'"
  by (induction xs arbitrary: h h') (auto dest: step_state)

lemma one_byte: "c \<noteq> d \<Longrightarrow> foldl step h (xs @ c # ys) \<noteq> foldl step h (xs @ d # ys)"
proof
  assume "c \<noteq> d" "foldl step h (xs @ c # ys) = foldl step h (xs @ d # ys)"
  then have "foldl step (step (foldl step h xs) c) ys = foldl step (step (foldl step h xs) d) ys" by simp
  from step_byte [OF fold_state [OF this]] \<open>c \<noteq> d\<close> show False by simp
qed

end

lemma hash_byte_inj [simp]: "hash_byte c = hash_byte d \<longleftrightarrow> c = d"
proof
  have lt: "(of_char x :: nat) < 2 ^ 32" for x :: char proof -
    have "(of_char x :: nat) < 256" by simp
    also have "(256 :: nat) \<le> 2 ^ 32" by simp
    finally show ?thesis .
  qed
  assume "hash_byte c = hash_byte d"
  then have "unat (of_nat (of_char c) :: 32 word) = unat (of_nat (of_char d) :: 32 word)" by (simp add: hash_byte_def)
  then have "(of_char c :: nat) = of_char d" using lt [of c] lt [of d] by (simp add: unsigned_of_nat take_bit_nat_eq_self)
  then show "c = d" by simp
qed simp

text \<open>A factor with an inverse, and a shift that is folded in, can be undone.\<close>

lemma times_cancel: "(p :: 32 word) * q = 1 \<Longrightarrow> x * p = y * p \<Longrightarrow> x = y"
proof -
  assume e: "p * q = 1" "x * p = y * p"
  have "x = x * p * q" by (simp add: mult.assoc e(1))
  also have "\<dots> = y" by (simp add: e(2) mult.assoc e(1))
  finally show ?thesis .
qed

lemma xor_cancel_word: "(x :: 32 word) XOR c = y XOR c \<longleftrightarrow> x = y"
proof
  assume "x XOR c = y XOR c"
  then have "(x XOR c) XOR c = (y XOR c) XOR c" by (rule arg_cong)
  then show "x = y" by (simp add: xor.assoc)
qed simp

lemma shifted_xor_cancel:
  assumes "(x :: 32 word) XOR drop_bit n x = y XOR drop_bit n y" "0 < n"
  shows "x = y"
proof -
  have step: "bit x i = bit y i" if "bit x (n + i) = bit y (n + i)" for i
    using arg_cong [OF assms(1), of "\<lambda>w. bit w i"] that by (auto simp: bit_xor_iff bit_drop_bit_eq)
  have "bit x i = bit y i" for i
  proof (induction "32 - i" arbitrary: i rule: less_induct)
    case less
    show ?case
    proof (cases "i < 32")
      case True
      then have "bit x (n + i) = bit y (n + i)" using less [of "n + i"] assms(2) by simp
      then show ?thesis by (rule step)
    qed (auto dest: bit_imp_le_length)
  qed
  then show ?thesis by (simp add: bit_eq_iff)
qed

text \<open>Multiplying by an odd number, as each of the three steps does.\<close>

lemma times_33: "push_bit 5 h + h = h * (33 :: 32 word)"
  by (simp add: push_bit_eq_mult)

lemma times_1025: "h + push_bit 10 h = h * (1025 :: 32 word)"
  by (simp add: push_bit_eq_mult)

interpretation ber: byte_hash ber_step
proof
  show "h = h'" if "ber_step h c = ber_step h' c" for h h' c
  proof (rule times_cancel)
    show "(33 :: 32 word) * 0x3E0F83E1 = 1" by simp
    show "h * 33 = h' * 33" using that by (simp add: ber_step_def times_33)
  qed
qed (simp add: ber_step_def)

interpretation fnv: byte_hash fnv_step
proof
  fix h h' c d
  have p: "(16777619 :: 32 word) * 0x359C449B = 1" by simp
  show "h = h'" if "fnv_step h c = fnv_step h' c"
    using times_cancel [OF p that [unfolded fnv_step_def]] by (simp only: xor_cancel_word)
  show "c = d" if "fnv_step h c = fnv_step h d"
  proof -
    have "hash_byte c XOR h = hash_byte d XOR h"
      using times_cancel [OF p that [unfolded fnv_step_def]] by (simp only: xor.commute)
    then show ?thesis by (simp only: xor_cancel_word hash_byte_inj)
  qed
qed

interpretation oat: byte_hash oat_step
proof
  fix h h' c d
  have p: "(1025 :: 32 word) * 0xC00FFC01 = 1" by simp
  have s: "oat_step h c = oat_step h' d \<Longrightarrow> h + hash_byte c = h' + hash_byte d" for h h' c d
    unfolding oat_step_def Let_def times_1025 by (blast dest: times_cancel [OF p] shifted_xor_cancel [of _ 6, simplified])
  show "h = h'" if "oat_step h c = oat_step h' c" using s [OF that] by simp
  show "c = d" if "oat_step h c = oat_step h d" using s [OF that] by simp
qed

lemma oat_end_cancel: "oat_end x = oat_end y \<Longrightarrow> x = y"
proof -
  assume e: "oat_end x = oat_end y"
  have m: "h + push_bit 3 h = h * (9 :: 32 word)" "h + push_bit 15 h = h * (32769 :: 32 word)" for h
    by (simp_all add: push_bit_eq_mult)
  have "(32769 :: 32 word) * 0x3FFF8001 = 1" "(9 :: 32 word) * 0x38E38E39 = 1" by simp_all
  with e show ?thesis
    unfolding oat_end_def Let_def m by (blast dest: times_cancel shifted_xor_cancel [of _ 11, simplified])
qed

text \<open>The contract, for the whole functions.\<close>

lemma one_byte_apart:
  assumes "c \<noteq> d"
  shows "hash_ber (xs @ c # ys) \<noteq> hash_ber (xs @ d # ys)" "hash_fnv (xs @ c # ys) \<noteq> hash_fnv (xs @ d # ys)"
    "hash_oat (xs @ c # ys) \<noteq> hash_oat (xs @ d # ys)"
  using ber.one_byte [OF assms] fnv.one_byte [OF assms] oat.one_byte [OF assms]
  by (auto simp: hash_ber_def hash_fnv_def hash_oat_def dest: oat_end_cancel)

text \<open>Bernstein's function is the key read to the base 33.\<close>

lemma hash_ber_append: "hash_ber (xs @ ys) = hash_ber xs * 33 ^ length ys + hash_ber ys"
proof -
  have "foldl ber_step h ys = h * 33 ^ length ys + foldl ber_step 0 ys" for h
  proof (induction ys arbitrary: h)
    case (Cons y ys)
    have step: "ber_step h y = h * 33 + ber_step 0 y" by (simp add: ber_step_def times_33)
    have "foldl ber_step h (y # ys) = ber_step h y * 33 ^ length ys + foldl ber_step 0 ys"
      by (simp only: foldl_Cons Cons.IH [of "ber_step h y"])
    also have "\<dots> = h * 33 ^ length (y # ys) + (ber_step 0 y * 33 ^ length ys + foldl ber_step 0 ys)"
      unfolding step by (simp add: distrib_right mult.assoc)
    also have "ber_step 0 y * 33 ^ length ys + foldl ber_step 0 ys = foldl ber_step 0 (y # ys)"
      by (simp only: foldl_Cons Cons.IH [of "ber_step 0 y"])
    finally show ?case .
  qed simp
  then show ?thesis unfolding hash_ber_def foldl_append .
qed

text \<open>Published values of the functions.\<close>

lemma hash_fnv_a: "hash_fnv ''a'' = 0xE40C292C" "hash_ber ''ab'' = 97 * 33 + 98"
  by (simp_all add: hash_fnv_def fnv_step_def hash_ber_def ber_step_def hash_byte_def)

section \<open>The Bloom filter\<close>

text \<open>The filter of a table made with \<^verbatim>\<open>HASH_BLOOM\<close> defined as \<open>n\<close>, at most 32: \<open>2 ^ n\<close> bits in bytes.\<close>

definition bloom_bytelen :: "nat \<Rightarrow> nat" where
  "bloom_bytelen n = 2 ^ n div 8 + (if 2 ^ n mod 8 \<noteq> (0 :: nat) then 1 else 0)"

definition bloom_make :: "nat \<Rightarrow> 8 word list" where
  "bloom_make n = replicate (bloom_bytelen n) 0"

definition bloom_bitset :: "8 word list \<Rightarrow> nat \<Rightarrow> 8 word list" where
  "bloom_bitset bv idx = bv[idx div 8 := bv ! (idx div 8) OR push_bit (idx mod 8) 1]"

definition bloom_bittest :: "8 word list \<Rightarrow> nat \<Rightarrow> bool" where
  "bloom_bittest bv idx \<longleftrightarrow> bv ! (idx div 8) AND push_bit (idx mod 8) 1 \<noteq> 0"

definition bloom_index :: "nat \<Rightarrow> 32 word \<Rightarrow> nat" where
  "bloom_index n hashv = unat (hashv AND (of_nat (2 ^ n) - 1))"

definition bloom_add :: "nat \<Rightarrow> 8 word list \<Rightarrow> 32 word \<Rightarrow> 8 word list" where
  "bloom_add n bv hashv = bloom_bitset bv (bloom_index n hashv)"

definition bloom_test :: "nat \<Rightarrow> 8 word list \<Rightarrow> 32 word \<Rightarrow> bool" where
  "bloom_test n bv hashv \<longleftrightarrow> bloom_bittest bv (bloom_index n hashv)"

text \<open>The search behind the filter.\<close>

definition hash_find_bloom :: "nat \<Rightarrow> 8 word list \<Rightarrow> ut_hash \<Rightarrow> bytes \<Rightarrow> addr option option" where
  "hash_find_bloom n bv u key =
     (if ut_head u = None then Some None
      else if bloom_test n bv (hash_jen key) then hash_find u key else Some None)"

lemma bloom_index_less: "n \<le> 32 \<Longrightarrow> bloom_index n h div 8 < bloom_bytelen n"
proof -
  assume n: "n \<le> 32"
  have "(of_nat (2 ^ n) :: 32 word) - 1 = mask n" by (simp add: mask_eq_exp_minus_1)
  then have "bloom_index n h = unat (take_bit n h)" by (simp add: bloom_index_def take_bit_eq_mask)
  then have "bloom_index n h < 2 ^ n" by (metis take_bit_nat_less_exp unsigned_take_bit_eq)
  then show ?thesis unfolding bloom_bytelen_def by (auto intro: less_mult_imp_div_less)
qed

lemma bloom_bit: "bloom_bittest bv i \<longleftrightarrow> bit (bv ! (i div 8)) (i mod 8)"
  by (simp add: bloom_bittest_def and_exp_eq_0_iff_not_bit)

lemma bloom_bitset:
  assumes "i div 8 < length bv"
  shows "bloom_bittest (bloom_bitset bv i) j \<longleftrightarrow> j = i \<or> bloom_bittest bv j"
proof (cases "j div 8 = i div 8")
  case True
  have "bit (w OR push_bit (i mod 8) 1) (j mod 8) \<longleftrightarrow> bit w (j mod 8) \<or> j mod 8 = i mod 8" for w :: "8 word"
    by (auto simp: bit_or_iff bit_exp_iff possible_bit_word)
  moreover have "j = i \<longleftrightarrow> j mod 8 = i mod 8" using True by (metis div_mult_mod_eq)
  ultimately show ?thesis using assms True by (auto simp: bloom_bit bloom_bitset_def)
next
  case False
  then show ?thesis by (auto simp: bloom_bit bloom_bitset_def)
qed

lemma bloom_test_add:
  "length bv = bloom_bytelen n \<Longrightarrow> n \<le> 32 \<Longrightarrow>
   bloom_test n (bloom_add n bv h) h' \<longleftrightarrow> bloom_index n h' = bloom_index n h \<or> bloom_test n bv h'"
  unfolding bloom_test_def bloom_add_def by (rule bloom_bitset) (simp add: bloom_index_less)

lemma length_bloom_add [simp]: "length (bloom_add n bv h) = length bv"
  by (simp add: bloom_add_def bloom_bitset_def)

text \<open>
  The filter never hides an element: it holds the hash value of every element that was added, and a
  deletion takes nothing out of it.
\<close>

lemma bloom_adds: "length bv = bloom_bytelen n \<Longrightarrow> n \<le> 32 \<Longrightarrow> h \<in> set hs \<or> bloom_test n bv h \<Longrightarrow> bloom_test n (foldl (bloom_add n) bv hs) h"
  by (induction hs arbitrary: bv) (auto simp: bloom_test_add)

lemma hash_find_bloom:
  assumes "hash_ok u as" "n \<le> 32" "\<forall>a\<in>set as. hh_hashv (ut_mem u a) \<in> set hs"
  shows "\<exists>r. hash_find_bloom n (foldl (bloom_add n) (bloom_make n) hs) u key = Some r \<and>
    (case r of None \<Rightarrow> \<forall>a\<in>set as. hh_key (ut_mem u a) \<noteq> key
     | Some a \<Rightarrow> a \<in> set as \<and> hh_key (ut_mem u a) = key)"
proof (cases "bloom_test n (foldl (bloom_add n) (bloom_make n) hs) (hash_jen key)")
  case True
  then have "hash_find_bloom n (foldl (bloom_add n) (bloom_make n) hs) u key = hash_find u key"
    by (simp add: hash_find_bloom_def hash_find_def)
  with hash_find_spec [OF assms(1), of key] show ?thesis by simp
next
  case False
  have "hash_jen key \<notin> set hs"
    using False bloom_adds [of "bloom_make n" n "hash_jen key" hs] assms(2) by (auto simp: bloom_make_def)
  then have "\<forall>a\<in>set as. hh_key (ut_mem u a) \<noteq> key" using assms(1,3) by (auto simp: hash_ok_def)
  with False show ?thesis by (auto simp: hash_find_bloom_def)
qed

end
