(* ===== verification/DataRaces.thy ===== *)
theory DataRaces
  imports Workers
begin

text \<open>
  The data of one file while several threads write it: \<^verbatim>\<open>kvbfs_write\<close> of \<^verbatim>\<open>src/fuse_ops.c\<close> and
  \<^verbatim>\<open>file_append\<close> of \<^verbatim>\<open>src/llm.c\<close>, which the inference thread calls while FUSE serves requests.
  Only the size is read and set under the lock of the inode; every block is read, changed and
  written back without it. A step is one critical section or one call of the store.
\<close>

section \<open>State\<close>

text \<open>What a thread is writing: the offset and the length of a write, or of an appended answer.\<close>

datatype write_job = UserJob nat nat | AppendJob nat nat

text \<open>
  Between two calls of the store a thread has the number of its block, the offset in it and the
  bytes that are left, and after the \<^verbatim>\<open>kv_get\<close> also what the block held.
\<close>

datatype data_pc =
    Out
  | AtBlock write_job nat nat bytes
  | GotBlock write_job nat nat bytes "bytes option"

record 's file_threads =
  ft_db :: 's
  ft_inode :: kvbfs_inode
  ft_pc :: "nat \<Rightarrow> data_pc"

section \<open>Steps\<close>

definition start_job :: "write_job \<Rightarrow> bytes \<Rightarrow> data_pc" where
  "start_job j data =
     (let off = (case j of UserJob off n \<Rightarrow> off | AppendJob off n \<Rightarrow> off)
      in AtBlock j (off div KVBFS_BLOCK_SIZE) (off mod KVBFS_BLOCK_SIZE) data)"

definition chunk_size :: "nat \<Rightarrow> bytes \<Rightarrow> nat" where
  "chunk_size boff rest = min (KVBFS_BLOCK_SIZE - boff) (length rest)"

definition sized_inode :: "timespec \<Rightarrow> write_job \<Rightarrow> kvbfs_inode \<Rightarrow> kvbfs_inode" where
  "sized_inode now j i =
     (let sz = (case j of
                  UserJob off n \<Rightarrow> if i_size i < u64 (off + n) then u64 (off + n) else i_size i
                | AppendJob off n \<Rightarrow> u64 (off + n))
      in i\<lparr>i_size := sz, i_blocks := blocks_of sz, i_mtime := now, i_ctime := now\<rparr>)"

definition ft_at :: "'s file_threads \<Rightarrow> nat \<Rightarrow> data_pc \<Rightarrow> 's file_threads" where
  "ft_at st th p = st\<lparr>ft_pc := (ft_pc st)(th := p)\<rparr>"

text \<open>The steps inside the two functions, from the first block to the new size.\<close>

inductive job_step :: "'s kv_ops \<Rightarrow> nat \<Rightarrow> 's file_threads \<Rightarrow> 's file_threads \<Rightarrow> bool"
  for K :: "'s kv_ops" and ino :: nat where
  load: "ft_pc st th = AtBlock j blk boff rest \<Longrightarrow> rest \<noteq> [] \<Longrightarrow>
    job_step K ino st (ft_at st th (GotBlock j blk boff rest (kv_get K (ft_db st) (kvbfs_key_block ino blk))))"
| store: "ft_pc st th = GotBlock j blk boff rest e \<Longrightarrow> m = chunk_size boff rest \<Longrightarrow>
    kv_put K (ft_db st) (kvbfs_key_block ino blk) (write_block e boff (take m rest)) = (True, s) \<Longrightarrow>
    job_step K ino st (ft_at (st\<lparr>ft_db := s\<rparr>) th (AtBlock j (blk + 1) 0 (drop m rest)))"
| failed: "ft_pc st th = GotBlock j blk boff rest e \<Longrightarrow> m = chunk_size boff rest \<Longrightarrow>
    kv_put K (ft_db st) (kvbfs_key_block ino blk) (write_block e boff (take m rest)) = (False, s) \<Longrightarrow>
    job_step K ino st (ft_at (st\<lparr>ft_db := s\<rparr>) th Out)"
| sized: "ft_pc st th = AtBlock j blk boff [] \<Longrightarrow>
    job_step K ino st (ft_at (st\<lparr>ft_inode := sized_inode now j (ft_inode st)\<rparr>) th Out)"

text \<open>
  A run also has the calls: a write has its offset from the kernel, an appended answer takes the
  size of the file at that moment, read under the lock.
\<close>

inductive ft_reach :: "'s kv_ops \<Rightarrow> nat \<Rightarrow> 's file_threads \<Rightarrow> 's file_threads \<Rightarrow> bool"
  for K :: "'s kv_ops" and ino :: nat and st0 :: "'s file_threads" where
  start: "ft_reach K ino st0 st0"
| call_write: "ft_reach K ino st0 st \<Longrightarrow> ft_pc st th = Out \<Longrightarrow>
    ft_reach K ino st0 (ft_at st th (start_job (UserJob off (length data)) data))"
| call_append: "ft_reach K ino st0 st \<Longrightarrow> ft_pc st th = Out \<Longrightarrow>
    ft_reach K ino st0 (ft_at st th (start_job (AppendJob (i_size (ft_inode st)) (length data)) data))"
| step: "ft_reach K ino st0 st \<Longrightarrow> job_step K ino st st' \<Longrightarrow> ft_reach K ino st0 st'"

inductive_cases job_stepE: "job_step K ino st st'"

lemma ft_at_simps [simp]:
  "ft_db (ft_at st th p) = ft_db st" "ft_inode (ft_at st th p) = ft_inode st"
  "ft_pc (ft_at st th p) = (ft_pc st)(th := p)" "ft_at (ft_at st th p) th q = ft_at st th q"
  "(ft_at st th p)\<lparr>ft_db := s\<rparr> = ft_at (st\<lparr>ft_db := s\<rparr>) th p"
  "(ft_at st th p)\<lparr>ft_inode := i\<rparr> = ft_at (st\<lparr>ft_inode := i\<rparr>) th p"
  by (simp_all add: ft_at_def)

lemma ft_reach_steps: "(job_step K ino)\<^sup>*\<^sup>* st st' \<Longrightarrow> ft_reach K ino st0 st \<Longrightarrow> ft_reach K ino st0 st'"
  by (induction rule: rtranclp_induct) (auto intro: ft_reach.step)

section \<open>A thread that is not disturbed\<close>

text \<open>Alone, the steps are the loop \<^verbatim>\<open>write_blocks\<close> that the two functions are modelled with.\<close>

lemma job_alone:
  assumes "write_blocks K (ft_db st) ino blk boff rest = (True, s)" "boff < KVBFS_BLOCK_SIZE"
    and "ft_pc st th = AtBlock j blk boff rest"
  shows "(job_step K ino)\<^sup>*\<^sup>* st (ft_at (st\<lparr>ft_db := s, ft_inode := sized_inode now j (ft_inode st)\<rparr>) th Out)"
  using assms
proof (induction rest arbitrary: st blk boff rule: measure_induct_rule [of length])
  case (less rest)
  show ?case
  proof (cases "rest = []")
    case True
    then have s: "s = ft_db st" using less.prems(1) by (simp add: write_blocks.simps)
    have "st\<lparr>ft_db := ft_db st, ft_inode := i\<rparr> = st\<lparr>ft_inode := i\<rparr>" for i by simp
    then show ?thesis using job_step.sized [of st th j blk boff K ino now] True less.prems(3) by (simp add: s r_into_rtranclp)
  next
    case False
    define m where "m = chunk_size boff rest"
    have m: "0 < m" using False less.prems(2) by (simp add: m_def chunk_size_def)
    let ?e = "kv_get K (ft_db st) (kvbfs_key_block ino blk)"
    obtain s1 where s1: "kv_put K (ft_db st) (kvbfs_key_block ino blk) (write_block ?e boff (take m rest)) = (True, s1)"
      "write_blocks K s1 ino (blk + 1) 0 (drop m rest) = (True, s)"
      using less.prems(1,2) False
      by (subst (asm) write_blocks.simps) (auto simp: m_def chunk_size_def Let_def split: prod.splits if_splits)
    let ?st1 = "ft_at st th (GotBlock j blk boff rest ?e)"
      and ?st2 = "ft_at (st\<lparr>ft_db := s1\<rparr>) th (AtBlock j (blk + 1) 0 (drop m rest))"
    have "job_step K ino st ?st1" by (rule job_step.load [OF less.prems(3) False])
    moreover have "job_step K ino ?st1 ?st2"
      using job_step.store [of ?st1 th j blk boff rest ?e m K ino s1] s1(1) by (simp add: m_def)
    moreover have "(job_step K ino)\<^sup>*\<^sup>* ?st2 (ft_at (?st2\<lparr>ft_db := s, ft_inode := sized_inode now j (ft_inode ?st2)\<rparr>) th Out)"
      using less.IH [of "drop m rest" ?st2 "blk + 1" 0] m False s1(2) by simp
    ultimately show ?thesis by (auto intro: converse_rtranclp_into_rtranclp)
  qed
qed


section \<open>Writes laid over each other\<close>

text \<open>The bytes of a file as a function, and one write laid over it.\<close>

definition covers :: "nat \<times> bytes \<Rightarrow> nat \<Rightarrow> bool" where
  "covers w j \<longleftrightarrow> fst w \<le> j \<and> j < fst w + length (snd w)"

definition overlay :: "nat \<times> bytes \<Rightarrow> (nat \<Rightarrow> char) \<Rightarrow> nat \<Rightarrow> char" where
  "overlay w b = (\<lambda>j. if covers w j then snd w ! (j - fst w) else b j)"

definition lay_all :: "(nat \<times> bytes) list \<Rightarrow> bytes \<Rightarrow> bytes" where
  "lay_all ws f = fold (\<lambda>w f. abs_write f (fst w) (snd w)) ws f"

definition touched :: "nat \<times> bytes \<Rightarrow> nat set" where
  "touched w = (\<lambda>j. j div KVBFS_BLOCK_SIZE) ` {fst w..<fst w + length (snd w)}"

text \<open>Writes of which no two touch a common block.\<close>

definition apart :: "(nat \<times> bytes) list \<Rightarrow> bool" where
  "apart ws \<longleftrightarrow> (\<forall>x<length ws. \<forall>y<length ws. x \<noteq> y \<longrightarrow> touched (ws ! x) \<inter> touched (ws ! y) = {})"

lemma covers_touched: "covers w j \<Longrightarrow> j div KVBFS_BLOCK_SIZE \<in> touched w"
  by (auto simp: covers_def touched_def)

lemma apart_covers: "apart ws \<Longrightarrow> x < length ws \<Longrightarrow> y < length ws \<Longrightarrow> covers (ws ! x) j \<Longrightarrow> covers (ws ! y) j \<Longrightarrow> x = y"
  using covers_touched unfolding apart_def by blast

lemma overlay_file:
  assumes "\<And>j. sz \<le> j \<Longrightarrow> b j = NUL"
  shows "abs_write (map b [0..<sz]) (fst w) (snd w) = map (overlay w b) [0..<max sz (fst w + length (snd w))]"
proof (rule nth_equalityI)
  let ?g = "map b [0..<sz] @ zeros (fst w - sz)"
  show len: "length (abs_write (map b [0..<sz]) (fst w) (snd w)) = length (map (overlay w b) [0..<max sz (fst w + length (snd w))])"
    by (simp add: abs_write_def Let_def)
  fix j assume "j < length (abs_write (map b [0..<sz]) (fst w) (snd w))"
  then have j: "j < max sz (fst w + length (snd w))" using len by simp
  have "?g ! j = b j" if "j < length ?g" using that assms by (auto simp: nth_append)
  with j nth_overlay [of "fst w" ?g j "snd w"]
  show "abs_write (map b [0..<sz]) (fst w) (snd w) ! j = map (overlay w b) [0..<max sz (fst w + length (snd w))] ! j"
    by (auto simp: abs_write_def Let_def overlay_def covers_def)
qed

lemma lay_all_overlay:
  assumes "\<And>j. sz \<le> j \<Longrightarrow> b j = NUL"
  shows "lay_all ws (map b [0..<sz]) = map (fold overlay ws b) [0..<fold (\<lambda>w. max (fst w + length (snd w))) ws sz]"
  using assms
proof (induction ws arbitrary: b sz)
  case Nil
  then show ?case by (simp add: lay_all_def)
next
  case (Cons w ws)
  have "overlay w b j = NUL" if "max (fst w + length (snd w)) sz \<le> j" for j
    using that Cons.prems by (auto simp: overlay_def covers_def)
  note ih = Cons.IH [of "max (fst w + length (snd w)) sz" "overlay w b", OF this]
  from ih overlay_file [of sz b w] Cons.prems show ?case
    by (simp add: lay_all_def max.commute [of sz])
qed

lemma fold_overlay_none: "(\<And>w. w \<in> set ws \<Longrightarrow> \<not> covers w j) \<Longrightarrow> fold overlay ws b j = b j"
  by (induction ws arbitrary: b) (auto simp: overlay_def)

lemma fold_overlay_one:
  assumes "x < length ws" "covers (ws ! x) j" "\<And>y. y < length ws \<Longrightarrow> covers (ws ! y) j \<Longrightarrow> y = x"
  shows "fold overlay ws b j = snd (ws ! x) ! (j - fst (ws ! x))"
proof -
  have "\<not> covers w j" if "w \<in> set (drop (Suc x) ws)" for w
  proof -
    obtain k where "k < length ws - Suc x" "w = ws ! (Suc x + k)" using \<open>w \<in> _\<close> by (auto simp: in_set_conv_nth)
    then show ?thesis using assms(3) [of "Suc x + k"] by (auto simp: less_diff_conv)
  qed
  then have rest: "fold overlay (drop (Suc x) ws) c j = c j" for c by (rule fold_overlay_none)
  have "fold overlay (take x ws @ ws ! x # drop (Suc x) ws) b j = overlay (ws ! x) (fold overlay (take x ws) b) j"
    by (simp add: rest)
  with assms(2) show ?thesis unfolding id_take_nth_drop [OF assms(1), symmetric] by (simp add: overlay_def)
qed

lemma fold_max: "m = fold (\<lambda>w. max (f w)) ws (sz :: nat) \<longleftrightarrow> sz \<le> m \<and> (\<forall>w\<in>set ws. f w \<le> m) \<and> (m = sz \<or> (\<exists>w\<in>set ws. m = f w))"
  by (induction ws arbitrary: sz) (auto simp: max_def)

section \<open>Writes that touch no common block\<close>

fun bytes_left :: "data_pc \<Rightarrow> nat" where
  "bytes_left Out = 0"
| "bytes_left (AtBlock j blk boff rest) = length rest"
| "bytes_left (GotBlock j blk boff rest e) = length rest"

text \<open>How far a write has come, and where its thread is.\<close>

definition done_of :: "nat \<times> bytes \<Rightarrow> data_pc \<Rightarrow> nat \<times> bytes" where
  "done_of w p = (fst w, take (length (snd w) - bytes_left p) (snd w))"

definition at_ok :: "nat \<times> bytes \<Rightarrow> write_job \<Rightarrow> nat \<Rightarrow> nat \<Rightarrow> bytes \<Rightarrow> bool" where
  "at_ok w j blk boff rest \<longleftrightarrow>
     j = UserJob (fst w) (length (snd w)) \<and> boff < KVBFS_BLOCK_SIZE \<and> (\<exists>d. snd w = d @ rest \<and>
       (rest \<noteq> [] \<longrightarrow> blk * KVBFS_BLOCK_SIZE + boff = fst w + length d))"

fun pc_ok :: "(string \<Rightarrow> bytes option) \<Rightarrow> nat \<Rightarrow> nat \<times> bytes \<Rightarrow> data_pc \<Rightarrow> bool" where
  "pc_ok M ino w Out \<longleftrightarrow> True"
| "pc_ok M ino w (AtBlock j blk boff rest) \<longleftrightarrow> at_ok w j blk boff rest"
| "pc_ok M ino w (GotBlock j blk boff rest e) \<longleftrightarrow>
     at_ok w j blk boff rest \<and> rest \<noteq> [] \<and> e = M (encode (KBlock ino blk))"

definition ws_inv ::
  "(nat \<times> bytes) list \<Rightarrow> ('s \<Rightarrow> string \<Rightarrow> bytes option) \<Rightarrow> nat \<Rightarrow> (nat \<Rightarrow> char) \<Rightarrow> nat \<Rightarrow> 's file_threads \<Rightarrow> bool" where
  "ws_inv ws contents ino b0 sz0 st \<longleftrightarrow>
     full_blocks (contents (ft_db st)) ino \<and>
     (\<forall>th<length ws. pc_ok (contents (ft_db st)) ino (ws ! th) (ft_pc st th)) \<and>
     (\<forall>th\<ge>length ws. ft_pc st th = Out) \<and>
     byte_at (contents (ft_db st)) ino = fold overlay (map (\<lambda>th. done_of (ws ! th) (ft_pc st th)) [0..<length ws]) b0 \<and>
     i_blocks (ft_inode st) = blocks_of (i_size (ft_inode st)) \<and> sz0 \<le> i_size (ft_inode st) \<and>
     (\<forall>th<length ws. ft_pc st th = Out \<longrightarrow> fst (ws ! th) + length (snd (ws ! th)) \<le> i_size (ft_inode st)) \<and>
     (i_size (ft_inode st) = sz0 \<or> (\<exists>w\<in>set ws. i_size (ft_inode st) = fst w + length (snd w)))"


lemma done_of_Out [simp]: "done_of w Out = w"
  by (simp add: done_of_def)

lemma covers_done: "covers (done_of w p) j \<Longrightarrow> covers w j"
  by (auto simp: covers_def done_of_def)

lemma at_ok_touched: "at_ok w j blk boff rest \<Longrightarrow> rest \<noteq> [] \<Longrightarrow> blk \<in> touched w"
proof -
  assume a: "at_ok w j blk boff rest" "rest \<noteq> []"
  then obtain d where d: "boff < KVBFS_BLOCK_SIZE" "snd w = d @ rest" "blk * KVBFS_BLOCK_SIZE + boff = fst w + length d"
    by (auto simp: at_ok_def)
  have "covers w (blk * KVBFS_BLOCK_SIZE + boff)" using d(2,3) a(2) by (simp add: covers_def)
  from covers_touched [OF this] show ?thesis using d(1) by (simp add: block_addr)
qed

lemma laid_one:
  assumes "apart ws" "x < length ws" "covers (done_of (ws ! x) (p x)) j"
  shows "fold overlay (map (\<lambda>x. done_of (ws ! x) (p x)) [0..<length ws]) b j = snd (ws ! x) ! (j - fst (ws ! x))"
proof -
  let ?ds = "map (\<lambda>x. done_of (ws ! x) (p x)) [0..<length ws]"
  have "y = x" if "y < length ?ds" "covers (?ds ! y) j" for y
    using apart_covers [OF assms(1), of y x j] that assms(2,3) covers_done by auto
  then have "fold overlay ?ds b j = snd (?ds ! x) ! (j - fst (?ds ! x))"
  proof (rule fold_overlay_one [rotated 2])
    show "x < length ?ds" using assms(2) by simp
    show "covers (?ds ! x) j" using assms(2,3) by simp
  qed
  also have "\<dots> = snd (ws ! x) ! (j - fst (ws ! x))"
    using assms(2,3) by (auto simp: done_of_def covers_def intro!: nth_take)
  finally show ?thesis .
qed

lemma laid_none:
  assumes "\<And>x. x < length ws \<Longrightarrow> \<not> covers (done_of (ws ! x) (p x)) j"
  shows "fold overlay (map (\<lambda>x. done_of (ws ! x) (p x)) [0..<length ws]) b j = b j"
proof (rule fold_overlay_none)
  fix w assume "w \<in> set (map (\<lambda>x. done_of (ws ! x) (p x)) [0..<length ws])"
  then obtain x where "x < length ws" "w = done_of (ws ! x) (p x)" by auto
  with assms show "\<not> covers w j" by blast
qed

lemma laid_cong:
  assumes "apart ws" "\<And>x. x < length ws \<Longrightarrow> covers (done_of (ws ! x) (p x)) j = covers (done_of (ws ! x) (q x)) j"
  shows "fold overlay (map (\<lambda>x. done_of (ws ! x) (p x)) [0..<length ws]) b j =
    fold overlay (map (\<lambda>x. done_of (ws ! x) (q x)) [0..<length ws]) b j"
proof (cases "\<exists>x<length ws. covers (done_of (ws ! x) (p x)) j")
  case True
  then obtain x where x: "x < length ws" "covers (done_of (ws ! x) (p x)) j" "covers (done_of (ws ! x) (q x)) j"
    using assms(2) by blast
  show ?thesis by (simp only: laid_one [where p = p, OF assms(1) x(1,2)] laid_one [where p = q, OF assms(1) x(1,3)])
next
  case False
  then have n: "\<not> covers (done_of (ws ! x) (p x)) j" "\<not> covers (done_of (ws ! x) (q x)) j" if "x < length ws" for x
    using assms(2) that by blast+
  show ?thesis by (simp only: laid_none [where p = p, OF n(1)] laid_none [where p = q, OF n(2)])
qed

context kv_store_live
begin

lemma store_inv:
  assumes inv: "ws_inv ws contents ino b0 sz0 st" and apart: "apart ws"
    and pc: "ft_pc st th = GotBlock j blk boff rest e" and m: "m = chunk_size boff rest"
    and put: "kv_put K (ft_db st) (kvbfs_key_block ino blk) (write_block e boff (take m rest)) = (True, s)"
  shows "ws_inv ws contents ino b0 sz0 (ft_at (st\<lparr>ft_db := s\<rparr>) th (AtBlock j (blk + 1) 0 (drop m rest)))"
proof -
  let ?M = "contents (ft_db st)" and ?w = "ws ! th" and ?p = "(ft_pc st)(th := AtBlock j (blk + 1) 0 (drop m rest))"
  have th: "th < length ws"
  proof (rule ccontr)
    assume "\<not> th < length ws"
    then show False using inv pc unfolding ws_inv_def by (metis data_pc.distinct(3) not_le)
  qed
  have "pc_ok ?M ino ?w (ft_pc st th)" using inv th unfolding ws_inv_def by blast
  then have at: "at_ok ?w j blk boff rest" and ne: "rest \<noteq> []" and e: "e = ?M (encode (KBlock ino blk))"
    using pc by auto
  then obtain d where d: "boff < KVBFS_BLOCK_SIZE" "snd ?w = d @ rest" "blk * KVBFS_BLOCK_SIZE + boff = fst ?w + length d"
    and j: "j = UserJob (fst ?w) (length (snd ?w))"
    by (auto simp: at_ok_def)
  have mm: "0 < m" "m \<le> length rest" "boff + m \<le> KVBFS_BLOCK_SIZE" "length (take m rest) = m"
    "drop m rest \<noteq> [] \<Longrightarrow> boff + m = KVBFS_BLOCK_SIZE"
    using ne d(1) by (auto simp: m chunk_size_def)
  have M': "contents s = ?M(encode (KBlock ino blk) \<mapsto> write_block (?M (encode (KBlock ino blk))) boff (take m rest))"
    using put_eq [OF put] by (simp add: e block_key_encode)
  have bytes: "byte_at (contents s) ino i = (if fst ?w + length d \<le> i \<and> i < fst ?w + length d + m
      then take m rest ! (i - (fst ?w + length d)) else byte_at ?M ino i)" for i
    using byte_at_write [of boff "take m rest" "contents s" ?M ino blk i] mm(3,4) M' by (simp add: d(3))
  have full: "full_blocks (contents s) ino"
    using inv mm(3,4) by (auto simp: ws_inv_def M' full_blocks_def length_write_block)
  have others: "pc_ok (contents s) ino (ws ! x) (?p x)" if x: "x < length ws" for x
  proof (cases "x = th")
    case True
    have "at_ok ?w j (blk + 1) 0 (drop m rest)"
      unfolding at_ok_def
      by (intro conjI exI [of _ "d @ take m rest"]) (use j d mm in auto)
    with True show ?thesis by simp
  next
    case False
    have "pc_ok ?M ino (ws ! x) (ft_pc st x)" using inv x unfolding ws_inv_def by blast
    moreover have "blk' \<noteq> blk" if "at_ok (ws ! x) j' blk' boff' rest'" "rest' \<noteq> []" for j' blk' boff' rest'
      using at_ok_touched [OF that] at_ok_touched [OF at ne] apart False x th unfolding apart_def by blast
    ultimately show ?thesis using False by (cases "ft_pc st x") (auto simp: M')
  qed
  have "byte_at (contents s) ino i = fold overlay (map (\<lambda>x. done_of (ws ! x) (?p x)) [0..<length ws]) b0 i" for i
  proof -
    have dn: "done_of ?w (?p th) = (fst ?w, d @ take m rest)" "done_of ?w (ft_pc st th) = (fst ?w, d)"
      using d(2) mm(2) by (simp_all add: done_of_def pc)
    show ?thesis
    proof (cases "fst ?w + length d \<le> i \<and> i < fst ?w + length d + m")
      case True
      then have "covers (done_of ?w (?p th)) i" using dn(1) mm(4) by (simp add: covers_def)
      moreover obtain k where "i = fst ?w + length d + k" "k < m"
        using True le_Suc_ex [of "fst ?w + length d" i] by auto
      ultimately show ?thesis
        using laid_one [where p = ?p, OF apart th, of i] d(2) by (simp add: bytes nth_append add.assoc)
    next
      case False
      have "covers (done_of ?w (?p th)) i = covers (done_of ?w (ft_pc st th)) i"
        using False mm(4) unfolding dn by (auto simp: covers_def)
      then have "covers (done_of (ws ! x) (?p x)) i = covers (done_of (ws ! x) (ft_pc st x)) i" for x
        by (cases "x = th") auto
      note same = laid_cong [where b = b0, OF apart this]
      have "byte_at ?M ino i = fold overlay (map (\<lambda>x. done_of (ws ! x) (ft_pc st x)) [0..<length ws]) b0 i"
        using inv unfolding ws_inv_def by metis
      with False show ?thesis by (simp only: bytes if_False same)
    qed
  qed
  with full others inv th show ?thesis by (auto simp: ws_inv_def)
qed

end


definition in_range :: "(nat \<times> bytes) list \<Rightarrow> bool" where
  "in_range ws \<longleftrightarrow> (\<forall>w\<in>set ws. fst w + length (snd w) + KVBFS_BLOCK_SIZE \<le> 18446744073709551616)"

text \<open>The steps that are left: two for every byte at most, and one for the size.\<close>

fun pc_work :: "data_pc \<Rightarrow> nat" where
  "pc_work Out = 0"
| "pc_work (AtBlock j blk boff rest) = 2 * length rest + 1"
| "pc_work (GotBlock j blk boff rest e) = 2 * length rest"

definition ft_work :: "nat \<Rightarrow> 's file_threads \<Rightarrow> nat" where
  "ft_work n st = (\<Sum>th<n. pc_work (ft_pc st th))"

lemma ft_work_at: "th < n \<Longrightarrow> pc_work p < pc_work (ft_pc st th) \<Longrightarrow> ft_work n (ft_at st th p) < ft_work n st"
  unfolding ft_work_def by (rule sum_strict_mono_ex1) auto

lemma ws_inv_thread: "ws_inv ws contents ino b0 sz0 st \<Longrightarrow> ft_pc st th \<noteq> Out \<Longrightarrow> th < length ws"
  unfolding ws_inv_def by (metis not_le)

lemma ws_inv_pc:
  assumes "ws_inv ws contents ino b0 sz0 st" "ft_pc st th \<noteq> Out"
  shows "pc_ok (contents (ft_db st)) ino (ws ! th) (ft_pc st th)"
  using assms(1) ws_inv_thread [OF assms] unfolding ws_inv_def by blast

text \<open>A step that leaves the store alone and does not write a byte.\<close>

lemma ws_inv_at:
  assumes inv: "ws_inv ws contents ino b0 sz0 st" and th: "th < length ws" "bytes_left p = bytes_left (ft_pc st th)"
    and ok: "pc_ok (contents (ft_db st)) ino (ws ! th) p"
    and i: "i_blocks i = blocks_of (i_size i)" "i_size (ft_inode st) \<le> i_size i"
      "i_size i = i_size (ft_inode st) \<or> (\<exists>w\<in>set ws. i_size i = fst w + length (snd w))"
      "p = Out \<Longrightarrow> fst (ws ! th) + length (snd (ws ! th)) \<le> i_size i"
  shows "ws_inv ws contents ino b0 sz0 (ft_at (st\<lparr>ft_inode := i\<rparr>) th p)"
proof -
  have "done_of w p = done_of w (ft_pc st th)" for w using th(2) by (simp add: done_of_def)
  then have "done_of (ws ! x) (((ft_pc st)(th := p)) x) = done_of (ws ! x) (ft_pc st x)" for x by simp
  moreover have "sz0 \<le> i_size i" using inv i(2) by (simp add: ws_inv_def)
  moreover have "fst (ws ! x) + length (snd (ws ! x)) \<le> i_size i" if "x < length ws" "((ft_pc st)(th := p)) x = Out" for x
    using inv i(2,4) that unfolding ws_inv_def by (cases "x = th") (auto intro: order_trans)
  moreover have "i_size i = sz0 \<or> (\<exists>w\<in>set ws. i_size i = fst w + length (snd w))"
    using inv i(3) unfolding ws_inv_def by metis
  ultimately show ?thesis using inv th(1) ok i(1) unfolding ws_inv_def by (simp only: ft_at_simps file_threads.simps) auto
qed

context kv_store_live
begin

lemma job_step_inv:
  assumes step: "job_step K ino st st'" and inv: "ws_inv ws contents ino b0 sz0 st" and ws: "apart ws" "in_range ws"
  shows "ws_inv ws contents ino b0 sz0 st' \<and> ft_work (length ws) st' < ft_work (length ws) st"
  using step
proof cases
  case (load th j blk boff rest)
  let ?p = "GotBlock j blk boff rest (kv_get K (ft_db st) (kvbfs_key_block ino blk))"
  have th: "th < length ws" using ws_inv_thread [OF inv, of th] load by simp
  have "pc_ok (contents (ft_db st)) ino (ws ! th) ?p"
    using ws_inv_pc [OF inv, of th] load by (simp add: get block_key_encode)
  from ws_inv_at [OF inv th _ this, of "ft_inode st"] load inv ft_work_at [OF th, of ?p st]
  show ?thesis by (simp add: ws_inv_def)
next
  case (store th j blk boff rest e m s)
  have th: "th < length ws" using ws_inv_thread [OF inv, of th] store by simp
  have "at_ok (ws ! th) j blk boff rest" "rest \<noteq> []" using ws_inv_pc [OF inv, of th] store by simp_all
  then have "0 < m" using store(3) by (auto simp: chunk_size_def at_ok_def)
  then have less: "pc_work (AtBlock j (blk + 1) 0 (drop m rest)) < pc_work (ft_pc st th)"
    using \<open>rest \<noteq> []\<close> store(2) by (cases rest) auto
  then show ?thesis
    using store_inv [OF inv ws(1) store(2-4)] ft_work_at [OF th less] store(1) by (simp add: ft_work_def)
next
  case (failed th j blk boff rest e m s)
  then show ?thesis using put_eq by blast
next
  case (sized th j blk boff now)
  let ?i = "sized_inode now j (ft_inode st)"
  have th: "th < length ws" using ws_inv_thread [OF inv, of th] sized by simp
  have j: "j = UserJob (fst (ws ! th)) (length (snd (ws ! th)))"
    using ws_inv_pc [OF inv, of th] sized by (simp add: at_ok_def)
  have w: "ws ! th \<in> set ws" using th by simp
  then have "fst (ws ! th) + length (snd (ws ! th)) < 2 ^ 64"
    using ws(2) by (fastforce simp: in_range_def KVBFS_BLOCK_SIZE_def)
  then have u: "u64 (fst (ws ! th) + length (snd (ws ! th))) = fst (ws ! th) + length (snd (ws ! th))" by simp
  have "ws_inv ws contents ino b0 sz0 (ft_at (st\<lparr>ft_inode := ?i\<rparr>) th Out)"
    by (rule ws_inv_at [OF inv th]) (use sized w in \<open>auto simp: sized_inode_def j u Let_def\<close>)
  with sized ft_work_at [OF th, of Out "st\<lparr>ft_inode := ?i\<rparr>"] show ?thesis by (simp add: ft_work_def)
qed

lemma job_steps_inv:
  assumes "(job_step K ino ^^ k) st st'" "ws_inv ws contents ino b0 sz0 st" "apart ws" "in_range ws"
  shows "ws_inv ws contents ino b0 sz0 st' \<and> ft_work (length ws) st' + k \<le> ft_work (length ws) st"
  using assms(1)
proof (induction k arbitrary: st')
  case 0
  then show ?case using assms(2) by simp
next
  case (Suc k)
  then obtain st1 where "(job_step K ino ^^ k) st st1" "job_step K ino st1 st'" by auto
  with Suc.IH [of st1] job_step_inv [OF _ _ assms(3,4)] show ?case by fastforce
qed

text \<open>A thread inside the functions can always go on.\<close>

lemma job_progress: "ft_pc st th \<noteq> Out \<Longrightarrow> \<exists>st'. job_step K ino st st'"
proof (cases "ft_pc st th")
  case (AtBlock j blk boff rest)
  then show ?thesis using job_step.load [OF AtBlock] job_step.sized [of st th j blk boff] by (cases "rest = []") blast+
next
  case (GotBlock j blk boff rest e)
  obtain b s where "kv_put K (ft_db st) (kvbfs_key_block ino blk) (write_block e boff (take (chunk_size boff rest) rest)) = (b, s)"
    by fastforce
  then show ?thesis
    using job_step.store [OF GotBlock refl, of K ino s] job_step.failed [OF GotBlock refl, of K ino s]
    by (cases b) (simp_all, blast+)
qed simp

lemma ws_inv_start:
  assumes "file_ok (contents (ft_db st)) ino (ft_inode st)"
    and "\<And>th. ft_pc st th = (if th < length ws then start_job (UserJob (fst (ws ! th)) (length (snd (ws ! th)))) (snd (ws ! th)) else Out)"
  shows "ws_inv ws contents ino (byte_at (contents (ft_db st)) ino) (i_size (ft_inode st)) st"
proof -
  let ?b0 = "byte_at (contents (ft_db st)) ino"
  have "\<not> covers (done_of (ws ! x) (ft_pc st x)) j" if "x < length ws" for x j
    using assms(2) [of x] that by (simp add: covers_def done_of_def start_job_def Let_def)
  then have "fold overlay (map (\<lambda>x. done_of (ws ! x) (ft_pc st x)) [0..<length ws]) ?b0 j = ?b0 j" for j
    by (rule laid_none)
  then have "?b0 = fold overlay (map (\<lambda>th. done_of (ws ! th) (ft_pc st th)) [0..<length ws]) ?b0" by (rule ext [symmetric])
  moreover have "pc_ok M ino w (start_job (UserJob (fst w) (length (snd w))) (snd w))" for w :: "nat \<times> bytes" and M
    by (simp add: start_job_def at_ok_def Let_def)
  ultimately show ?thesis
    using assms(1) unfolding ws_inv_def by (simp add: assms(2) file_ok_def) (simp add: start_job_def Let_def)
qed

lemma ws_inv_end:
  assumes inv: "ws_inv ws contents ino (byte_at M ino) sz0 st" and "\<forall>th. ft_pc st th = Out" and "zero_beyond M ino sz0"
    and "sz0 + KVBFS_BLOCK_SIZE \<le> 18446744073709551616" "in_range ws"
  shows "file_of (contents (ft_db st)) ino (ft_inode st) = lay_all ws (file_bytes M ino sz0)"
    and "file_ok (contents (ft_db st)) ino (ft_inode st)"
proof -
  have ws: "map (\<lambda>th. done_of (ws ! th) (ft_pc st th)) [0..<length ws] = ws"
    using assms(2) by (simp add: map_nth)
  have ends: "\<forall>w\<in>set ws. fst w + length (snd w) \<le> i_size (ft_inode st)"
  proof
    fix w assume "w \<in> set ws"
    then obtain k where "k < length ws" "w = ws ! k" by (auto simp: in_set_conv_nth)
    with inv assms(2) show "fst w + length (snd w) \<le> i_size (ft_inode st)" unfolding ws_inv_def by blast
  qed
  have sz: "i_size (ft_inode st) = fold (\<lambda>w. max (fst w + length (snd w))) ws sz0"
    unfolding fold_max using inv ends unfolding ws_inv_def by blast
  have b: "byte_at (contents (ft_db st)) ino = fold overlay ws (byte_at M ino)"
    using inv unfolding ws_inv_def ws by blast
  have z: "sz0 \<le> j \<Longrightarrow> byte_at M ino j = NUL" for j using assms(3) by (simp add: zero_beyond_def)
  show "file_of (contents (ft_db st)) ino (ft_inode st) = lay_all ws (file_bytes M ino sz0)"
    unfolding file_of_def file_bytes_def sz b by (rule lay_all_overlay [symmetric]) (rule z)
  have all: "\<forall>w\<in>set ws. fst w + length (snd w) \<le> i_size (ft_inode st)" "sz0 \<le> i_size (ft_inode st)"
    using sz unfolding fold_max by blast+
  have "byte_at (contents (ft_db st)) ino j = NUL" if "i_size (ft_inode st) \<le> j" for j
  proof -
    have "\<not> covers w j" if "w \<in> set ws" for w using all \<open>i_size (ft_inode st) \<le> j\<close> that by (fastforce simp: covers_def)
    then show ?thesis unfolding b using fold_overlay_none [of ws j] z [of j] all(2) that by auto
  qed
  moreover have "i_size (ft_inode st) + KVBFS_BLOCK_SIZE \<le> 18446744073709551616"
    using inv assms(4,5) by (auto simp: ws_inv_def in_range_def)
  ultimately show "file_ok (contents (ft_db st)) ino (ft_inode st)"
    using inv by (simp add: file_ok_def zero_beyond_def ws_inv_def)
qed

end


section \<open>The order does not matter\<close>

lemma overlay_commute:
  assumes "apart ws" "v \<in> set ws" "w \<in> set ws"
  shows "overlay v \<circ> overlay w = overlay w \<circ> overlay v"
proof -
  obtain x y where x: "x < length ws" "v = ws ! x" and y: "y < length ws" "w = ws ! y"
    using assms(2,3) by (auto simp: in_set_conv_nth)
  have "v = w \<or> \<not> (covers v j \<and> covers w j)" for j
    using apart_covers [OF assms(1) x(1) y(1), of j] x(2) y(2) by blast
  then show ?thesis by (fastforce simp: overlay_def)
qed

lemma lay_all_any_order:
  assumes "apart ws" "mset vs = mset ws"
  shows "lay_all vs f = lay_all ws f"
proof -
  define b where "b = (\<lambda>j. if j < length f then f ! j else NUL)"
  have f: "f = map b [0..<length f]" by (rule nth_equalityI) (simp_all add: b_def)
  have over: "fold overlay ws = fold overlay vs"
    using overlay_commute [OF assms(1)] assms(2) by (intro fold_multiset_equiv) auto
  have "set vs = set ws" using assms(2) by (rule mset_eq_setD)
  then have "fold (\<lambda>w. max (fst w + length (snd w))) vs n = fold (\<lambda>w. max (fst w + length (snd w))) ws n" for n
    unfolding fold_max using fold_max [of "fold (\<lambda>w. max (fst w + length (snd w))) vs n" "\<lambda>w. fst w + length (snd w)" vs n] by auto
  moreover have "length f \<le> j \<Longrightarrow> b j = NUL" for j by (simp add: b_def)
  ultimately show ?thesis
    using lay_all_overlay [of "length f" b ws] lay_all_overlay [of "length f" b vs] by (simp add: f [symmetric] over)
qed

context kv_store_live
begin

lemma block_writes:
  assumes f: "file_ok (contents (ft_db st)) ino (ft_inode st)" and ws: "apart ws" "in_range ws"
    and pcs: "\<And>th. ft_pc st th = (if th < length ws then start_job (UserJob (fst (ws ! th)) (length (snd (ws ! th)))) (snd (ws ! th)) else Out)"
    and run: "(job_step K ino ^^ k) st st'"
  shows "k \<le> ft_work (length ws) st \<and>
    ((\<exists>st2. job_step K ino st' st2) \<or> (\<forall>th. ft_pc st' th = Out) \<and> file_ok (contents (ft_db st')) ino (ft_inode st') \<and>
      (\<forall>vs. mset vs = mset ws \<longrightarrow>
         file_of (contents (ft_db st')) ino (ft_inode st') = lay_all vs (file_of (contents (ft_db st)) ino (ft_inode st))))"
proof -
  note inv = job_steps_inv [OF run ws_inv_start [OF f pcs] ws]
  show ?thesis
  proof (cases "\<forall>th. ft_pc st' th = Out")
    case True
    have "zero_beyond (contents (ft_db st)) ino (i_size (ft_inode st))"
      "i_size (ft_inode st) + KVBFS_BLOCK_SIZE \<le> 18446744073709551616"
      using f by (simp_all add: file_ok_def)
    note e = ws_inv_end [OF conjunct1 [OF inv] True this ws(2)]
    have "\<forall>vs. mset vs = mset ws \<longrightarrow>
        file_of (contents (ft_db st')) ino (ft_inode st') = lay_all vs (file_of (contents (ft_db st)) ino (ft_inode st))"
      unfolding e(1) file_of_def [of "contents (ft_db st)"] using lay_all_any_order [OF ws(1)] by metis
    moreover have "k \<le> ft_work (length ws) st" using inv by linarith
    ultimately show ?thesis using True e(2) by blast
  next
    case False
    then show ?thesis using inv job_progress [of st'] by auto
  qed
qed

lemma block_writes_end:
  assumes f: "file_ok (contents (ft_db st)) ino (ft_inode st)" and ws: "apart ws" "in_range ws"
    and pcs: "\<And>th. ft_pc st th = (if th < length ws then start_job (UserJob (fst (ws ! th)) (length (snd (ws ! th)))) (snd (ws ! th)) else Out)"
  shows "\<exists>k st'. (job_step K ino ^^ k) st st' \<and> (\<forall>th. ft_pc st' th = Out)"
proof (rule ccontr)
  assume no: "\<not> ?thesis"
  have "\<exists>st'. (job_step K ino ^^ k) st st'" for k
  proof (induction k)
    case (Suc k)
    then obtain st' where s: "(job_step K ino ^^ k) st st'" by blast
    with no obtain th where "ft_pc st' th \<noteq> Out" by blast
    from job_progress [OF this] obtain st2 where "job_step K ino st' st2" by blast
    with s have "(job_step K ino ^^ Suc k) st st2" unfolding relpowp.simps by (rule relcomppI)
    then show ?case ..
  qed auto
  then obtain st' where "(job_step K ino ^^ Suc (ft_work (length ws) st)) st st'" by blast
  from block_writes [OF f ws pcs this] show False by simp
qed

section \<open>An answer that is appended while the user writes\<close>

lemma answer_races:
  assumes f: "file_ok (contents (ft_db st0)) ino (ft_inode st0)" and pcs: "\<forall>th. ft_pc st0 th = Out" and xy: "x \<noteq> y"
    and len: "i_size (ft_inode st0) + max (length ans) (length msg) + KVBFS_BLOCK_SIZE \<le> 18446744073709551616"
  shows "\<exists>st1 st2. ft_reach K ino st0 st1 \<and> ft_pc st1 y = Out \<and>
    file_of (contents (ft_db st1)) ino (ft_inode st1) = file_of (contents (ft_db st0)) ino (ft_inode st0) @ msg \<and>
    ft_reach K ino st1 st2 \<and> (\<forall>th. ft_pc st2 th = Out) \<and>
    file_of (contents (ft_db st2)) ino (ft_inode st2) = file_of (contents (ft_db st0)) ino (ft_inode st0) @ ans"
proof -
  let ?sz = "i_size (ft_inode st0)" and ?now = "i_mtime (ft_inode st0)"
  let ?b = "?sz div KVBFS_BLOCK_SIZE" and ?o = "?sz mod KVBFS_BLOCK_SIZE"
  have o: "?o < KVBFS_BLOCK_SIZE" by simp
  obtain s1 where s1: "write_blocks K (ft_db st0) ino ?b ?o msg = (True, s1)" "full_blocks (contents s1) ino"
    "\<And>i. byte_at (contents s1) ino i = (if ?sz \<le> i \<and> i < ?sz + length msg then msg ! (i - ?sz) else byte_at (contents (ft_db st0)) ino i)"
    using write_blocks_live [OF file_ok_full [OF f] o, of ?b msg] unfolding block_split by blast
  obtain s2 where s2: "write_blocks K s1 ino ?b ?o ans = (True, s2)"
    "\<And>i. byte_at (contents s2) ino i = (if ?sz \<le> i \<and> i < ?sz + length ans then ans ! (i - ?sz) else byte_at (contents s1) ino i)"
    using write_blocks_live [OF s1(2) o, of ?b ans] unfolding block_split by blast
  let ?A = "AppendJob ?sz (length ans)" and ?U = "UserJob ?sz (length msg)"
  define i1 where "i1 = sized_inode ?now ?U (ft_inode st0)"
  define i2 where "i2 = sized_inode ?now ?A i1"
  define sa where "sa = ft_at st0 x (start_job ?A ans)"
  define sb where "sb = ft_at sa y (start_job ?U msg)"
  define st1 where "st1 = ft_at (sb\<lparr>ft_db := s1, ft_inode := i1\<rparr>) y Out"
  define st2 where "st2 = ft_at (st1\<lparr>ft_db := s2, ft_inode := i2\<rparr>) x Out"
  have "ft_reach K ino st0 sa" unfolding sa_def using ft_reach.call_append [OF ft_reach.start] pcs by blast
  then have "ft_reach K ino st0 sb"
    unfolding sb_def using xy pcs by (intro ft_reach.call_write) (simp_all add: sa_def)
  moreover have "(job_step K ino)\<^sup>*\<^sup>* sb st1"
    using job_alone [of K sb ino ?b ?o msg s1 y ?U ?now] s1(1)
    by (simp add: st1_def i1_def) (simp add: sb_def sa_def start_job_def Let_def)
  ultimately have r1: "ft_reach K ino st0 st1" by (rule ft_reach_steps [rotated])
  have "(job_step K ino)\<^sup>*\<^sup>* st1 st2"
    using job_alone [of K st1 ino ?b ?o ans s2 x ?A ?now] s2(1) xy
    by (simp add: st2_def i2_def) (simp add: st1_def sb_def sa_def start_job_def Let_def)
  then have r2: "ft_reach K ino st1 st2" by (rule ft_reach_steps [OF _ ft_reach.start])
  have u: "u64 (?sz + length msg) = ?sz + length msg" "u64 (?sz + length ans) = ?sz + length ans"
    using len by (simp_all add: KVBFS_BLOCK_SIZE_def)
  have sz: "i_size i1 = ?sz + length msg" "i_size i2 = ?sz + length ans"
    by (simp_all add: i1_def i2_def sized_inode_def u Let_def)
  have obs: "ft_db st1 = s1" "ft_inode st1 = i1" "ft_pc st1 y = Out" "ft_db st2 = s2" "ft_inode st2 = i2" "\<forall>th. ft_pc st2 th = Out"
    using pcs by (simp_all add: st1_def st2_def sb_def sa_def)
  have 1: "file_of (contents s1) ino i1 = file_of (contents (ft_db st0)) ino (ft_inode st0) @ msg"
    unfolding file_of_def sz by (rule file_bytes_eqI) (auto simp: s1(3) nth_append file_bytes_def)
  have 2: "file_of (contents s2) ino i2 = file_of (contents (ft_db st0)) ino (ft_inode st0) @ ans"
    unfolding file_of_def sz by (rule file_bytes_eqI) (auto simp: s2(2) s1(3) nth_append file_bytes_def)
  show ?thesis using r1 r2 obs 1 2 by (intro exI [of _ st1] exI [of _ st2]) simp
qed

end


section \<open>Properties\<close>

text \<open>
  C2. Writes of one file by any number of threads at once, in any interleaving of their calls of the
  store, are serializable as long as no two of them touch a common block: the run ends after a bounded number of steps, at every moment
  before that some thread can go on, and at the end the file is what the writes make of it one after
  another, in whatever order they are put.
\<close>

theorem block_writes_serialize:
  assumes "kv_store_live K contents" "file_ok (contents (ft_db st)) ino (ft_inode st)" "apart ws" "in_range ws"
    and "\<And>th. ft_pc st th = (if th < length ws then start_job (UserJob (fst (ws ! th)) (length (snd (ws ! th)))) (snd (ws ! th)) else Out)"
    and "(job_step K ino ^^ k) st st'"
  shows "k \<le> ft_work (length ws) st \<and>
    ((\<exists>st2. job_step K ino st' st2) \<or> (\<forall>th. ft_pc st' th = Out) \<and> file_ok (contents (ft_db st')) ino (ft_inode st') \<and>
      (\<forall>vs. mset vs = mset ws \<longrightarrow>
         file_of (contents (ft_db st')) ino (ft_inode st') = lay_all vs (file_of (contents (ft_db st)) ino (ft_inode st))))"
  by (rule kv_store_live.block_writes [OF assms])

definition two_writes :: "(nat \<times> bytes) list" where
  "two_writes = [(4, ''p''), (4096, ''c'')]"

definition two_writers :: "kv_mem file_threads" where
  "two_writers = \<lparr>ft_db = store_of sample_entries, ft_inode = file_inode,
     ft_pc = (\<lambda>th. if th < 2 then start_job (UserJob (fst (two_writes ! th)) (length (snd (two_writes ! th)))) (snd (two_writes ! th)) else Out)\<rparr>"

lemma two_writers:
  "file_ok (DAList.lookup (ft_db two_writers)) 5 (ft_inode two_writers)" "apart two_writes" "in_range two_writes"
  "ft_pc two_writers th = (if th < length two_writes
     then start_job (UserJob (fst (two_writes ! th)) (length (snd (two_writes ! th)))) (snd (two_writes ! th)) else Out)"
proof -
  have "touched (n, [ch]) = {n div KVBFS_BLOCK_SIZE}" for n ch by (simp add: touched_def)
  then show "apart two_writes" by (simp add: apart_def two_writes_def less_Suc_eq nth_Cons' KVBFS_BLOCK_SIZE_def)
qed (simp_all add: two_writers_def sample_file_ok two_writes_def in_range_def KVBFS_BLOCK_SIZE_def)

theorem block_writes_serialize_witness:
  "\<exists>k st'. (job_step mem_ops 5 ^^ k) two_writers st' \<and> (\<forall>th. ft_pc st' th = Out) \<and>
     take 7 (file_of (DAList.lookup (ft_db st')) 5 (ft_inode st')) = ''hellp!'' @ [NUL]"
proof -
  obtain k st' where run: "(job_step mem_ops 5 ^^ k) two_writers st'" "\<forall>th. ft_pc st' th = Out"
    using mem.block_writes_end [OF two_writers] by blast
  have no: "\<not> (\<exists>st2. job_step mem_ops 5 st' st2)"
    using run(2) by (auto elim: job_stepE)
  from block_writes_serialize [OF mem.kv_store_live_axioms two_writers run(1)] no
  have "file_of (DAList.lookup (ft_db st')) 5 (ft_inode st') = lay_all two_writes ''hello!''"
    using sample_file_of by (auto simp: two_writers_def)
  moreover have "take 7 (lay_all two_writes ''hello!'') = ''hellp!'' @ [NUL]"
    by (simp add: lay_all_def two_writes_def abs_write_def zeros_def numeral_eq_Suc)
  ultimately show ?thesis using run by metis
qed

text \<open>
  C11. An answer can take the place of what the user writes. The inference thread reads the size of
  the file, then the user's write at the end of the file runs and is over, the file is the old one
  and the message; then the answer is stored at the size read before and the size set from it: at
  the end the file is the old one and the answer, and the message is gone.
\<close>

theorem answer_replaces_message:
  assumes "kv_store_live K contents" "file_ok (contents (ft_db st0)) ino (ft_inode st0)" "\<forall>th. ft_pc st0 th = Out" "x \<noteq> y"
    and "i_size (ft_inode st0) + max (length ans) (length msg) + KVBFS_BLOCK_SIZE \<le> 18446744073709551616"
  shows "\<exists>st1 st2. ft_reach K ino st0 st1 \<and> ft_pc st1 y = Out \<and>
    file_of (contents (ft_db st1)) ino (ft_inode st1) = file_of (contents (ft_db st0)) ino (ft_inode st0) @ msg \<and>
    ft_reach K ino st1 st2 \<and> (\<forall>th. ft_pc st2 th = Out) \<and>
    file_of (contents (ft_db st2)) ino (ft_inode st2) = file_of (contents (ft_db st0)) ino (ft_inode st0) @ ans"
  by (rule kv_store_live.answer_races [OF assms])

theorem answer_replaces_message_witness:
  "\<exists>st1 st2. file_of (DAList.lookup (ft_db st1)) 5 (ft_inode st1) = ''hello!mine'' \<and> ft_reach mem_ops 5 st1 st2 \<and>
     file_of (DAList.lookup (ft_db st2)) 5 (ft_inode st2) = ''hello!yours''"
proof -
  let ?st = "two_writers\<lparr>ft_pc := (\<lambda>_. Out)\<rparr>"
  have f: "file_ok (DAList.lookup (ft_db ?st)) 5 (ft_inode ?st)" "\<forall>th. ft_pc ?st th = Out"
    "i_size (ft_inode ?st) + max (length ''yours'') (length ''mine'') + KVBFS_BLOCK_SIZE \<le> 18446744073709551616"
    by (simp_all add: two_writers_def sample_file_ok KVBFS_BLOCK_SIZE_def)
  from answer_replaces_message [OF mem.kv_store_live_axioms f(1,2) _ f(3), of 0 1]
  show ?thesis using sample_file_of by (auto simp: two_writers_def)
qed

end
