(* ===== verification/WorkQueue.thy ===== *)
theory WorkQueue
  imports Workers
begin

text \<open>
  The queue between the threads that ask for work and a worker thread, as \<^verbatim>\<open>src/mem.c\<close> and
  \<^verbatim>\<open>src/llm.c\<close> both have it: a list under a mutex, a condition variable, a shutdown flag, and the
  join. A step is one critical section, or what a thread does between two of them. The two queues
  differ in what a submission does to the list; the locale states what the protocol needs of it.
\<close>

section \<open>State\<close>

text \<open>
  The worker is before its lock, asleep in \<^verbatim>\<open>pthread_cond_wait\<close>, working on a task outside the lock,
  or has returned. The stopping thread has not begun, waits in \<^verbatim>\<open>pthread_join\<close>, or is through.
\<close>

datatype 't worker_pc = Ready | Waiting | Working 't | Ended

datatype stop_pc = Up | Joining | Stopped

text \<open>
  What has happened, in order: a task was asked for, taken from the queue, freed by the drain, or the
  worker returned.
\<close>

datatype 't task_event = Submitted 't | Taken 't | Dropped 't | Returned

record 't work_queue =
  wq_queue :: "'t list"
  wq_shutdown :: bool
  wq_worker :: "'t worker_pc"
  wq_stop :: stop_pc
  wq_log :: "'t task_event list"

section \<open>Steps\<close>

text \<open>\<^verbatim>\<open>pthread_cond_signal\<close>: a sleeping worker wakes up; without one the signal is lost.\<close>

definition cond_signal :: "'t worker_pc \<Rightarrow> 't worker_pc" where
  "cond_signal w = (case w of Waiting \<Rightarrow> Ready | _ \<Rightarrow> w)"

text \<open>
  \<open>enq\<close> is the submission under the lock: the new list, or \<open>None\<close> when the task is not added and
  nothing is signalled. The last critical section of \<^verbatim>\<open>mem_destroy\<close> and \<^verbatim>\<open>llm_destroy\<close> sets the flag
  and signals; after the join the rest of the list is freed. A sleeping worker may also wake up
  without a signal.
\<close>

inductive wq_step :: "('t list \<Rightarrow> 't \<Rightarrow> 't list option) \<Rightarrow> 't work_queue \<Rightarrow> 't work_queue \<Rightarrow> bool"
  for enq :: "'t list \<Rightarrow> 't \<Rightarrow> 't list option" where
  submit_added: "wq_stop q \<noteq> Stopped \<Longrightarrow> enq (wq_queue q) t = Some ts \<Longrightarrow>
    wq_step enq q (q\<lparr>wq_queue := ts, wq_worker := cond_signal (wq_worker q), wq_log := wq_log q @ [Submitted t]\<rparr>)"
| submit_skipped: "wq_stop q \<noteq> Stopped \<Longrightarrow> enq (wq_queue q) t = None \<Longrightarrow>
    wq_step enq q (q\<lparr>wq_log := wq_log q @ [Submitted t]\<rparr>)"
| sleeps: "wq_worker q = Ready \<Longrightarrow> wq_queue q = [] \<Longrightarrow> \<not> wq_shutdown q \<Longrightarrow> wq_step enq q (q\<lparr>wq_worker := Waiting\<rparr>)"
| wakes: "wq_worker q = Waiting \<Longrightarrow> wq_step enq q (q\<lparr>wq_worker := Ready\<rparr>)"
| takes: "wq_worker q = Ready \<Longrightarrow> wq_queue q = t # ts \<Longrightarrow>
    wq_step enq q (q\<lparr>wq_queue := ts, wq_worker := Working t, wq_log := wq_log q @ [Taken t]\<rparr>)"
| works: "wq_worker q = Working t \<Longrightarrow> wq_step enq q (q\<lparr>wq_worker := Ready\<rparr>)"
| ends: "wq_worker q = Ready \<Longrightarrow> wq_queue q = [] \<Longrightarrow> wq_shutdown q \<Longrightarrow> 
    wq_step enq q (q\<lparr>wq_worker := Ended, wq_log := wq_log q @ [Returned]\<rparr>)"
| asks: "wq_stop q = Up \<Longrightarrow>
    wq_step enq q (q\<lparr>wq_shutdown := True, wq_worker := cond_signal (wq_worker q), wq_stop := Joining\<rparr>)"
| joins: "wq_stop q = Joining \<Longrightarrow> wq_worker q = Ended \<Longrightarrow>
    wq_step enq q (q\<lparr>wq_queue := [], wq_stop := Stopped, wq_log := wq_log q @ map Dropped (wq_queue q)\<rparr>)"

definition wq_start :: "'t work_queue" where
  "wq_start = \<lparr>wq_queue = [], wq_shutdown = False, wq_worker = Ready, wq_stop = Up, wq_log = []\<rparr>"

definition wq_reach :: "('t list \<Rightarrow> 't \<Rightarrow> 't list option) \<Rightarrow> 't work_queue \<Rightarrow> bool" where
  "wq_reach enq q \<longleftrightarrow> (wq_step enq)\<^sup>*\<^sup>* wq_start q"

section \<open>The two queues\<close>

definition mem_enqueue :: "mem_task list \<Rightarrow> mem_task \<Rightarrow> mem_task list option" where
  "mem_enqueue q t = Some (q @ [t])"

definition llm_enqueue :: "nat list \<Rightarrow> nat \<Rightarrow> nat list option" where
  "llm_enqueue q ino = (if ino \<in> set q then None else Some (q @ [ino]))"

text \<open>They are what \<^verbatim>\<open>mem_memorize\<close> and \<^verbatim>\<open>llm_submit\<close> do to their lists.\<close>

lemma mem_memorize_enqueue:
  "mem_running (mem c) \<Longrightarrow> mem_memorize K c ino text role = (r, c') \<Longrightarrow>
   \<exists>t. mem_enqueue (mem_queue (mem c)) t = Some (mem_queue (mem c')) \<and> mt_ino t = ino \<and> mt_text t = cstr text \<and> mt_role t = role"
  by (auto simp: mem_memorize_def mem_enqueue_def Let_def split: prod.splits)

lemma llm_submit_enqueue:
  "llm_queue (llm_submit l ino) = (case llm_enqueue (llm_queue l) ino of None \<Rightarrow> llm_queue l | Some q \<Rightarrow> q)"
  by (simp add: llm_submit_def llm_enqueue_def)

section \<open>What every such queue gives\<close>

definition task_known :: "'t work_queue \<Rightarrow> 't \<Rightarrow> 't task_event list \<Rightarrow> bool" where
  "task_known q t es \<longleftrightarrow> t \<in> set (wq_queue q) \<or> Taken t \<in> set es \<or> Dropped t \<in> set es"

fun submitted_task :: "'t task_event \<Rightarrow> 't list" where
  "submitted_task (Submitted t) = [t]"
| "submitted_task _ = []"

fun taken_task :: "'t task_event \<Rightarrow> 't list" where
  "taken_task (Taken t) = [t]"
| "taken_task _ = []"

fun dropped_task :: "'t task_event \<Rightarrow> 't list" where
  "dropped_task (Dropped t) = [t]"
| "dropped_task _ = []"

abbreviation submitted_tasks :: "'t task_event list \<Rightarrow> 't list" where
  "submitted_tasks es \<equiv> concat (map submitted_task es)"

abbreviation taken_tasks :: "'t task_event list \<Rightarrow> 't list" where
  "taken_tasks es \<equiv> concat (map taken_task es)"

abbreviation dropped_tasks :: "'t task_event list \<Rightarrow> 't list" where
  "dropped_tasks es \<equiv> concat (map dropped_task es)"

lemma drop_events [simp]:
  "concat (map (dropped_task \<circ> Dropped) ts) = ts" "concat (map (taken_task \<circ> Dropped) ts) = []"
  "concat (map (submitted_task \<circ> Dropped) ts) = []"
  by (simp_all add: comp_def)

lemma cond_signal_simps [simp]:
  "cond_signal w \<noteq> Waiting" "cond_signal w = Ended \<longleftrightarrow> w = Ended" "cond_signal w = Working t \<longleftrightarrow> w = Working t"
  by (cases w; simp add: cond_signal_def)+

text \<open>
  The invariant: a worker that sleeps has nothing to do, one that has ended was asked to, the flag
  is set exactly when a shutdown has begun, and after the join the worker is gone.
\<close>

definition wq_inv :: "'t work_queue \<Rightarrow> bool" where
  "wq_inv q \<longleftrightarrow>
     (wq_worker q = Waiting \<longrightarrow> wq_queue q = [] \<and> \<not> wq_shutdown q) \<and>
     (wq_shutdown q \<longleftrightarrow> wq_stop q \<noteq> Up) \<and> (wq_worker q = Ended \<longrightarrow> wq_shutdown q) \<and>
     (wq_stop q = Stopped \<longrightarrow> wq_worker q = Ended \<and> wq_queue q = []) \<and>
     (wq_stop q \<noteq> Stopped \<longrightarrow> dropped_tasks (wq_log q) = [])"

lemma wq_inv_step: "wq_step enq q q' \<Longrightarrow> wq_inv q \<Longrightarrow> wq_inv q'"
  by (induction rule: wq_step.induct) (auto simp: wq_inv_def)

lemma wq_reach_induct [consumes 1, case_names start step]:
  assumes "wq_reach enq q" "P wq_start" "\<And>q q'. wq_reach enq q \<Longrightarrow> P q \<Longrightarrow> wq_step enq q q' \<Longrightarrow> P q'"
  shows "P q"
  using assms(1) unfolding wq_reach_def
  by (induction rule: rtranclp_induct) (auto intro: assms(2,3) simp: wq_reach_def)

lemma wq_reach_inv: "wq_reach enq q \<Longrightarrow> wq_inv q"
proof (induction rule: wq_reach_induct)
  case start
  then show ?case by (simp add: wq_inv_def wq_start_def)
qed (rule wq_inv_step)

text \<open>Work that waits is never waited for in vain: the worker itself can go on.\<close>

definition quiet_step :: "('t list \<Rightarrow> 't \<Rightarrow> 't list option) \<Rightarrow> 't work_queue \<Rightarrow> 't work_queue \<Rightarrow> bool" where
  "quiet_step enq q q' \<longleftrightarrow> wq_step enq q q' \<and> submitted_tasks (wq_log q') = submitted_tasks (wq_log q)"

lemma quiet_steps:
  "wq_worker q = Ready \<Longrightarrow> wq_queue q = t # ts \<Longrightarrow>
   quiet_step enq q (q\<lparr>wq_queue := ts, wq_worker := Working t, wq_log := wq_log q @ [Taken t]\<rparr>)"
  "wq_worker q = Working t \<Longrightarrow> quiet_step enq q (q\<lparr>wq_worker := Ready\<rparr>)"
  "wq_worker q = Ready \<Longrightarrow> wq_queue q = [] \<Longrightarrow> wq_shutdown q \<Longrightarrow>
   quiet_step enq q (q\<lparr>wq_worker := Ended, wq_log := wq_log q @ [Returned]\<rparr>)"
  "wq_stop q = Joining \<Longrightarrow> wq_worker q = Ended \<Longrightarrow>
   quiet_step enq q (q\<lparr>wq_queue := [], wq_stop := Stopped, wq_log := wq_log q @ map Dropped (wq_queue q)\<rparr>)"
  by (simp_all add: quiet_step_def wq_step.intros)

lemma worker_goes_on:
  assumes "wq_inv q" "wq_worker q \<noteq> Ended" "wq_queue q \<noteq> [] \<or> wq_shutdown q"
  shows "\<exists>q'. quiet_step enq q q' \<and> wq_worker q' \<noteq> wq_worker q \<and> wq_worker q' \<noteq> Waiting"
proof (cases "wq_worker q")
  case Ready
  then show ?thesis
    using quiet_steps(1,3) [OF Ready] assms(3) by (cases "wq_queue q") fastforce+
next
  case Waiting
  with assms show ?thesis by (auto simp: wq_inv_def)
next
  case (Working t)
  then show ?thesis using quiet_steps(2) [OF Working, of enq] by fastforce
qed (use assms in simp)

section \<open>A shutdown comes to its end\<close>

fun worker_work :: "'t worker_pc \<Rightarrow> nat" where
  "worker_work Ended = 0"
| "worker_work Ready = 1"
| "worker_work _ = 2"

definition stop_work :: "'t work_queue \<Rightarrow> nat" where
  "stop_work q = 2 * length (wq_queue q) + worker_work (wq_worker q) + (if wq_stop q = Stopped then 0 else 1)"

text \<open>With the flag set, every step but a submission brings the end nearer and loses no task that waits.\<close>

lemma quiet_step_work:
  assumes "quiet_step enq q q'" "wq_inv q" "wq_stop q \<noteq> Up"
  shows "stop_work q' < stop_work q" "wq_stop q' \<noteq> Up"
    "wq_worker q \<noteq> Ended \<Longrightarrow> taken_tasks (wq_log q') @ wq_queue q' = taken_tasks (wq_log q) @ wq_queue q \<and>
       dropped_tasks (wq_log q') = dropped_tasks (wq_log q) \<and> (wq_worker q' = Ended \<longrightarrow> wq_queue q' = [])"
    "wq_worker q = Ended \<Longrightarrow> wq_queue q = [] \<Longrightarrow>
       taken_tasks (wq_log q') = taken_tasks (wq_log q) \<and> dropped_tasks (wq_log q') = dropped_tasks (wq_log q) \<and>
       wq_queue q' = [] \<and> wq_worker q' = Ended"
  using assms by (auto simp: quiet_step_def wq_inv_def stop_work_def elim!: wq_step.cases)

lemma quiet_goes_on:
  assumes "wq_inv q" "wq_stop q \<noteq> Up" "wq_stop q \<noteq> Stopped"
  shows "\<exists>q'. quiet_step enq q q'"
proof (cases "wq_worker q = Ended")
  case True
  have "wq_stop q = Joining" using assms(2,3) by (cases "wq_stop q") simp_all
  from quiet_steps(4) [OF this True] show ?thesis by blast
next
  case False
  have "wq_shutdown q" using assms(1,2) by (simp add: wq_inv_def)
  with worker_goes_on [OF assms(1) False] show ?thesis by blast
qed

lemma quiet_run:
  assumes "(quiet_step enq ^^ k) q q'" "wq_inv q" "wq_stop q \<noteq> Up"
  shows "stop_work q' + k \<le> stop_work q \<and> wq_inv q' \<and> wq_stop q' \<noteq> Up \<and>
    (wq_worker q \<noteq> Ended \<or> wq_queue q = [] \<longrightarrow>
       taken_tasks (wq_log q') @ wq_queue q' = taken_tasks (wq_log q) @ wq_queue q \<and>
       dropped_tasks (wq_log q') = dropped_tasks (wq_log q) \<and> (wq_worker q' = Ended \<longrightarrow> wq_queue q' = []))"
  using assms(1)
proof (induction k arbitrary: q')
  case 0
  then show ?case using assms(2,3) by auto
next
  case (Suc k)
  then obtain q1 where q1: "(quiet_step enq ^^ k) q q1" "quiet_step enq q1 q'" by auto
  note ih = Suc.IH [OF q1(1)]
  note w = quiet_step_work [OF q1(2)]
  have "wq_inv q'" using ih q1(2) wq_inv_step by (auto simp: quiet_step_def)
  with ih w show ?case by (cases "wq_worker q1 = Ended") fastforce+
qed


section \<open>The contract of a submission\<close>

text \<open>A submission puts the task at the end of the list, or leaves the list alone when the task is in it.\<close>

locale task_queue =
  fixes enq :: "'t list \<Rightarrow> 't \<Rightarrow> 't list option"
  assumes added: "enq q t = Some q' \<Longrightarrow> q' = q @ [t]"
    and skipped: "enq q t = None \<Longrightarrow> t \<in> set q"
begin

lemma known_step:
  assumes "wq_step enq q q'" "wq_log q = as @ bs" "task_known q t bs"
  shows "\<exists>cs. wq_log q' = as @ cs \<and> task_known q' t cs"
  using assms by (induction rule: wq_step.induct) (auto simp: task_known_def dest: added)

lemma submitted_step:
  assumes "wq_step enq q q'" "\<And>as bs. wq_log q = as @ Submitted t # bs \<Longrightarrow> task_known q t bs"
    and "wq_log q' = as @ Submitted t # bs"
  shows "task_known q' t bs"
proof -
  from assms(1) obtain es where es: "wq_log q' = wq_log q @ es" "Submitted t \<in> set es \<longrightarrow> es = [Submitted t] \<and> t \<in> set (wq_queue q')"
    by (induction rule: wq_step.induct) (auto dest: added skipped)
  consider (old) cs where "wq_log q = as @ Submitted t # cs" "bs = cs @ es" | (new) "Submitted t \<in> set es"
    using assms(3) es(1) by (force simp: append_eq_append_conv2 Cons_eq_append_conv append_eq_Cons_conv)
  then show ?thesis
  proof cases
    case old
    from assms(2) [OF old(1)] have "task_known q t cs" .
    from known_step [OF assms(1) _ this, of "as @ [Submitted t]"] old assms(3) show ?thesis by auto
  next
    case new
    then show ?thesis using es(2) by (simp add: task_known_def)
  qed
qed

lemma submitted_known:
  "wq_reach enq q \<Longrightarrow> wq_log q = as @ Submitted t # bs \<Longrightarrow> task_known q t bs"
proof (induction arbitrary: as bs rule: wq_reach_induct)
  case start
  then show ?case by (simp add: wq_start_def)
next
  case (step q q')
  then show ?case using submitted_step by blast
qed

end

text \<open>
  Before the worker returns, what was asked for is what was taken and what waits; what is asked for
  after that waits for the drain.
\<close>

definition order_inv :: "'t work_queue \<Rightarrow> bool" where
  "order_inv q \<longleftrightarrow>
     (if wq_worker q = Ended then
        \<exists>as bs. wq_log q = as @ Returned # bs \<and> submitted_tasks as = taken_tasks as \<and> taken_tasks bs = [] \<and>
          submitted_tasks bs = dropped_tasks bs @ wq_queue q
      else submitted_tasks (wq_log q) = taken_tasks (wq_log q) @ wq_queue q)"

text \<open>A queue that takes every task keeps their order.\<close>

locale full_queue = task_queue +
  assumes never_skips: "enq q t \<noteq> None"
begin

lemma order_step: "wq_step enq q q' \<Longrightarrow> wq_inv q \<Longrightarrow> order_inv q \<Longrightarrow> order_inv q'"
proof (induction rule: wq_step.induct)
  case (submit_added q t ts)
  from added [OF submit_added(2)] show ?case
    using submit_added(1,3,4)
    by (cases "wq_worker q = Ended") (fastforce simp: order_inv_def wq_inv_def)+
next
  case (submit_skipped q t)
  then show ?case using never_skips by simp
next
  case (joins q)
  then show ?case by (fastforce simp: order_inv_def wq_inv_def)
next
  case (ends q)
  then have "submitted_tasks (wq_log q) = taken_tasks (wq_log q)" by (simp add: order_inv_def)
  with ends show ?case
    unfolding order_inv_def by simp (rule exI [of _ "wq_log q"], rule exI [of _ "[]"], simp)
qed (auto simp: order_inv_def)

lemma order_reach: "wq_reach enq q \<Longrightarrow> order_inv q"
proof (induction rule: wq_reach_induct)
  case start
  then show ?case by (simp add: order_inv_def wq_start_def)
next
  case (step q q')
  then show ?case using order_step wq_reach_inv by blast
qed

end

text \<open>A queue that skips exactly the tasks in it never holds one twice.\<close>

locale set_queue = task_queue +
  assumes only_new: "enq q t = Some q' \<Longrightarrow> t \<notin> set q"
begin

lemma added_new: "enq q t = Some q' \<Longrightarrow> q' = q @ [t] \<and> t \<notin> set q"
  using added only_new by blast

lemma queue_distinct: "wq_reach enq q \<Longrightarrow> distinct (wq_queue q)"
proof (induction rule: wq_reach_induct)
  case start
  then show ?case by (simp add: wq_start_def)
next
  case (step q q')
  from step(2,3) show ?case by (induction rule: wq_step.induct) (auto dest: added_new)
qed

end

interpretation mem_q: full_queue mem_enqueue
  by unfold_locales (auto simp: mem_enqueue_def)

interpretation llm_q: set_queue llm_enqueue
  by unfold_locales (auto simp: llm_enqueue_def split: if_splits)


section \<open>Runs\<close>

lemma quiet_end:
  assumes "wq_inv q" "wq_stop q \<noteq> Up"
  shows "\<exists>k q'. (quiet_step enq ^^ k) q q' \<and> wq_stop q' = Stopped"
proof (rule ccontr)
  assume no: "\<not> ?thesis"
  have "\<exists>q'. (quiet_step enq ^^ k) q q'" for k
  proof (induction k)
    case (Suc k)
    then obtain q1 where q1: "(quiet_step enq ^^ k) q q1" by blast
    with no quiet_run [OF q1 assms] quiet_goes_on obtain q2 where "quiet_step enq q1 q2" by blast
    with q1 have "(quiet_step enq ^^ Suc k) q q2" unfolding relpowp.simps by (rule relcomppI)
    then show ?case ..
  qed auto
  then obtain q' where "(quiet_step enq ^^ Suc (stop_work q)) q q'" by blast
  from quiet_run [OF this assms] show False by simp
qed

lemma wq_reach_step: "wq_reach enq q \<Longrightarrow> wq_step enq q q' \<Longrightarrow> wq_reach enq q'"
  unfolding wq_reach_def by (rule rtranclp.rtrancl_into_rtrancl)

lemma wq_reach_start: "wq_reach enq wq_start"
  by (simp add: wq_reach_def)

section \<open>Properties\<close>

text \<open>
  C16. No request for a session is lost. Whatever the threads do, a session that was asked for is
  taken by the inference thread after that request (also when it was only found in the queue, or is
  being answered at that moment), or still waits; it waits once only, and while something waits the
  thread does not sleep: it has a next step of its own. A request is dropped only by the end of the
  program.
\<close>

theorem sessions_queue_delivers:
  assumes "wq_reach llm_enqueue q" "wq_log q = as @ Submitted ino # bs"
  shows "distinct (wq_queue q) \<and> (wq_queue q \<noteq> [] \<longrightarrow> wq_worker q \<noteq> Waiting) \<and>
    (Taken ino \<in> set bs \<or> Dropped ino \<in> set bs \<or>
     ino \<in> set (wq_queue q) \<and>
       (wq_worker q = Ended \<or> (\<exists>q'. quiet_step llm_enqueue q q' \<and> wq_worker q' \<noteq> wq_worker q \<and> wq_worker q' \<noteq> Waiting)))"
proof -
  have "task_known q ino bs" by (rule llm_q.submitted_known [OF assms])
  moreover have "wq_queue q \<noteq> [] \<Longrightarrow> wq_worker q \<noteq> Ended \<Longrightarrow>
      \<exists>q'. quiet_step llm_enqueue q q' \<and> wq_worker q' \<noteq> wq_worker q \<and> wq_worker q' \<noteq> Waiting"
    using worker_goes_on [OF wq_reach_inv [OF assms(1)]] by blast
  moreover have "wq_queue q \<noteq> [] \<Longrightarrow> wq_worker q \<noteq> Waiting" using wq_reach_inv [OF assms(1)] by (auto simp: wq_inv_def)
  ultimately show ?thesis using llm_q.queue_distinct [OF assms(1)] unfolding task_known_def by fastforce
qed

theorem sessions_queue_delivers_witness:
  "\<exists>q. wq_reach llm_enqueue q \<and> wq_log q = [Submitted 5, Submitted 5] \<and> (5 :: nat) \<in> set (wq_queue q) \<and>
     (\<exists>q'. quiet_step llm_enqueue q q' \<and> wq_worker q' \<noteq> wq_worker q)"
proof -
  let ?q1 = "(wq_start :: nat work_queue)\<lparr>wq_queue := [5], wq_log := [Submitted 5]\<rparr>"
    and ?q2 = "(wq_start :: nat work_queue)\<lparr>wq_queue := [5], wq_log := [Submitted 5, Submitted 5]\<rparr>"
  have "wq_step llm_enqueue wq_start ?q1"
    using wq_step.submit_added [of wq_start llm_enqueue 5 "[5]"] by (simp add: wq_start_def llm_enqueue_def cond_signal_def)
  moreover have "wq_step llm_enqueue ?q1 ?q2"
    using wq_step.submit_skipped [of ?q1 llm_enqueue 5] by (simp add: wq_start_def llm_enqueue_def)
  ultimately have r: "wq_reach llm_enqueue ?q2" using wq_reach_step [OF wq_reach_step [OF wq_reach_start]] by blast
  have "wq_log ?q2 = [Submitted 5] @ Submitted 5 # []" by simp
  from sessions_queue_delivers [OF r this] show ?thesis
    by (intro exI [of _ ?q2]) (use r in \<open>auto simp: wq_start_def\<close>)
qed

text \<open>
  C17. Texts are embedded in the order in which they were asked for, each once: while the memory
  thread runs, what was asked for is what it has taken, followed by what waits. When the shutdown is
  over, it has taken exactly the texts asked for before it returned. A text asked for after that (the
  inference thread still runs then, and \<^verbatim>\<open>running\<close> is still set) is thrown away.
\<close>

theorem texts_queue_order:
  assumes "wq_reach mem_enqueue q"
  shows "(wq_worker q \<noteq> Ended \<longrightarrow> submitted_tasks (wq_log q) = taken_tasks (wq_log q) @ wq_queue q) \<and>
    (wq_stop q = Stopped \<longrightarrow> (\<exists>as bs. wq_log q = as @ Returned # bs \<and>
      taken_tasks (wq_log q) = submitted_tasks as \<and> dropped_tasks bs = submitted_tasks bs))"
proof -
  have o: "order_inv q" and i: "wq_inv q" using mem_q.order_reach wq_reach_inv assms by blast+
  have "\<exists>as bs. wq_log q = as @ Returned # bs \<and> taken_tasks (wq_log q) = submitted_tasks as \<and> dropped_tasks bs = submitted_tasks bs"
    if "wq_stop q = Stopped"
  proof -
    have "wq_worker q = Ended" "wq_queue q = []" using i that by (simp_all add: wq_inv_def)
    with o show ?thesis unfolding order_inv_def by fastforce
  qed
  with o show ?thesis by (simp add: order_inv_def)
qed

definition late_text :: mem_task where
  "late_text = \<lparr>mt_ino = 5, mt_seq = 0, mt_text = ''bye'', mt_role = None\<rparr>"

lemma late_run:
  "wq_reach mem_enqueue \<lparr>wq_queue = [], wq_shutdown = True, wq_worker = Ended, wq_stop = Stopped,
     wq_log = [Returned, Submitted late_text, Dropped late_text]\<rparr>"
proof -
  let ?q1 = "wq_start\<lparr>wq_shutdown := True, wq_stop := Joining\<rparr>"
  let ?q2 = "?q1\<lparr>wq_worker := Ended, wq_log := [Returned]\<rparr>"
  let ?q3 = "?q2\<lparr>wq_queue := [late_text], wq_log := [Returned, Submitted late_text]\<rparr>"
  have "wq_step mem_enqueue wq_start ?q1"
    using wq_step.asks [of wq_start mem_enqueue] by (simp add: wq_start_def cond_signal_def)
  moreover have "wq_step mem_enqueue ?q1 ?q2"
    using wq_step.ends [of ?q1 mem_enqueue] by (simp add: wq_start_def)
  moreover have "wq_step mem_enqueue ?q2 ?q3"
    using wq_step.submit_added [of ?q2 mem_enqueue late_text "[late_text]"] by (simp add: wq_start_def mem_enqueue_def cond_signal_def)
  ultimately have "wq_reach mem_enqueue ?q3"
    by (intro wq_reach_step [OF wq_reach_step [OF wq_reach_step [OF wq_reach_start]]])
  from wq_reach_step [OF this wq_step.joins] show ?thesis by (simp add: wq_start_def)
qed

theorem texts_queue_order_witness:
  "\<exists>q as bs. wq_reach mem_enqueue q \<and> wq_log q = as @ Returned # bs \<and> dropped_tasks bs = [late_text] \<and> taken_tasks (wq_log q) = []"
  using texts_queue_order [OF late_run] late_run by (fastforce simp: Cons_eq_append_conv)

text \<open>
  C18. A shutdown comes to its end: once it has been asked for, every step of the worker and of the
  join (without new requests) brings the end nearer, the worker no longer sleeps, some step is possible until the join is over,
  and then the list is empty and the worker has taken everything that was waiting, in order.
\<close>

theorem shutdown_drains_queue:
  assumes "wq_reach enq q" "wq_stop q \<noteq> Up" "(quiet_step enq ^^ k) q q'"
  shows "k \<le> stop_work q \<and> wq_worker q' \<noteq> Waiting \<and>
    ((\<exists>q2. quiet_step enq q' q2) \<or>
     wq_stop q' = Stopped \<and> wq_queue q' = [] \<and> wq_worker q' = Ended \<and>
     (wq_worker q \<noteq> Ended \<longrightarrow> taken_tasks (wq_log q') = taken_tasks (wq_log q) @ wq_queue q))"
proof -
  note r = quiet_run [OF assms(3) wq_reach_inv [OF assms(1)] assms(2)]
  then have awake: "wq_worker q' \<noteq> Waiting" by (auto simp: wq_inv_def)
  show ?thesis
  proof (cases "wq_stop q' = Stopped")
    case True
    then have "wq_worker q' = Ended" "wq_queue q' = []" using r by (auto simp: wq_inv_def)
    with True r show ?thesis by auto
  next
    case False
    with r awake quiet_goes_on [of q' enq] show ?thesis by auto
  qed
qed

theorem shutdown_drains_queue_witness:
  "\<exists>k q'. (quiet_step llm_enqueue ^^ k)
     \<lparr>wq_queue = [5 :: nat], wq_shutdown = True, wq_worker = Ready, wq_stop = Joining, wq_log = [Submitted 5]\<rparr> q' \<and>
     wq_stop q' = Stopped \<and> taken_tasks (wq_log q') = [5]"
proof -
  let ?q1 = "(wq_start :: nat work_queue)\<lparr>wq_queue := [5], wq_log := [Submitted 5]\<rparr>"
  let ?q2 = "\<lparr>wq_queue = [5 :: nat], wq_shutdown = True, wq_worker = Ready, wq_stop = Joining, wq_log = [Submitted 5]\<rparr>"
  have "wq_step llm_enqueue wq_start ?q1"
    using wq_step.submit_added [of wq_start llm_enqueue 5 "[5]"] by (simp add: wq_start_def llm_enqueue_def cond_signal_def)
  moreover have "wq_step llm_enqueue ?q1 ?q2"
    using wq_step.asks [of ?q1 llm_enqueue] by (simp add: wq_start_def cond_signal_def)
  ultimately have r: "wq_reach llm_enqueue ?q2" by (intro wq_reach_step [OF wq_reach_step [OF wq_reach_start]])
  obtain k q' where q': "(quiet_step llm_enqueue ^^ k) ?q2 q'" "wq_stop q' = Stopped"
    using quiet_end [OF wq_reach_inv [OF r], of llm_enqueue] by fastforce
  have "wq_inv q'" using quiet_run [OF q'(1) wq_reach_inv [OF r]] by simp
  then have "\<not> (\<exists>q2. quiet_step llm_enqueue q' q2)"
    using q'(2) by (auto simp: quiet_step_def wq_inv_def elim!: wq_step.cases)
  with shutdown_drains_queue [OF r _ q'(1)] q' show ?thesis by auto
qed

end
