(* ===== verification/Indexing.thy ===== *)
theory Indexing
  imports Workers
begin

text \<open>
  What the memory holds of a file: the run of \<^verbatim>\<open>mem_index_file\<close> and of the memory thread of
  \<^verbatim>\<open>src/mem.c\<close> from the file's text to the stored chunks, and what is left of texts that still wait
  in the queue when their file is indexed again or removed.
\<close>

declare encode.simps [simp del]

section \<open>The chunks cover the text\<close>

lemma chunk_end_progress: "pos < length content \<Longrightarrow> pos < chunk_end content pos"
  using chunk_end_gt [of content pos] chunk_end_le [of pos content] by (cases "chunk_end content pos < length content") auto

lemma mem_chunks_cover:
  "pos \<le> j \<Longrightarrow> j < length content \<Longrightarrow> \<exists>r\<in>set (mem_chunks content pos). fst r \<le> j \<and> j < snd r"
proof (induction content pos rule: mem_chunks.induct)
  case (1 content pos)
  let ?e = "chunk_end content pos"
  have p: "pos < length content" using "1.prems" by simp
  show ?case
  proof (cases "j < ?e")
    case True
    with "1.prems" p show ?thesis by (subst mem_chunks.simps) (simp add: Let_def)
  next
    case False
    let ?q = "if MEM_CHUNK_OVERLAP < ?e then ?e - MEM_CHUNK_OVERLAP else 0"
    have e: "\<not> length content \<le> ?e" using False "1.prems" by simp
    have "?q \<le> j" using False by auto
    with "1.IH" [OF p refl e] "1.prems"(2) obtain r where "r \<in> set (mem_chunks content ?q)" "fst r \<le> j" "j < snd r" by blast
    with p e show ?thesis by (subst mem_chunks.simps) (auto simp: Let_def)
  qed
qed

lemma mem_chunks_range:
  "r \<in> set (mem_chunks content pos) \<Longrightarrow> fst r < snd r \<and> snd r \<le> length content \<and> snd r \<le> fst r + MEM_CHUNK_SIZE + 1"
proof (induction content pos rule: mem_chunks.induct)
  case (1 content pos)
  have p: "pos < length content" using "1.prems" by (subst (asm) mem_chunks.simps) (simp split: if_splits)
  from "1.prems" consider "r = (pos, chunk_end content pos)"
    | "\<not> length content \<le> chunk_end content pos" "r \<in> set (mem_chunks content
        (if MEM_CHUNK_OVERLAP < chunk_end content pos then chunk_end content pos - MEM_CHUNK_OVERLAP else 0))"
    using p by (subst (asm) mem_chunks.simps) (auto simp: Let_def split: if_splits)
  then show ?case
  proof cases
    case 1
    with chunk_end_le [OF p] chunk_end_progress [OF p] show ?thesis by simp
  next
    case 2
    then show ?thesis using "1.IH" [OF p refl] by blast
  qed
qed

section \<open>The text of a file\<close>

context kv_store
begin

lemma mem_assemble_bytes:
  assumes "full_blocks (contents s) ino" "sz \<le> n * KVBFS_BLOCK_SIZE" "b \<le> n"
    and "\<And>b. b < n \<Longrightarrow> contents s (encode (KBlock ino b)) \<noteq> None"
  shows "mem_assemble K s ino sz [b..<n] (file_bytes (contents s) ino (min sz (b * KVBFS_BLOCK_SIZE))) =
    file_bytes (contents s) ino sz"
proof -
  have "mem_assemble K s ino sz bs f = read_all K s ino sz bs f" if "\<forall>b\<in>set bs. contents s (encode (KBlock ino b)) \<noteq> None" for bs f
    using that by (induction bs arbitrary: f) (auto simp: Let_def get block_key_encode)
  moreover have "\<forall>b\<in>set [b..<n]. contents s (encode (KBlock ino b)) \<noteq> None" using assms(4) by simp
  ultimately show ?thesis using read_all_bytes [OF assms(1-3)] by simp
qed

end

section \<open>Numbers and tasks\<close>

definition index_task :: "nat \<Rightarrow> nat \<Rightarrow> string \<Rightarrow> mem_task" where
  "index_task ino q t = \<lparr>mt_ino = ino, mt_seq = q, mt_text = cstr t, mt_role = Some ''content''\<rparr>"

text \<open>The last task of the queue with a number, among those the model gives a vector for.\<close>

definition last_task :: "fs_env \<Rightarrow> mem_task list \<Rightarrow> nat \<Rightarrow> nat \<Rightarrow> mem_task option" where
  "last_task env ts ino q =
     (let us = filter (\<lambda>t. mt_ino t = ino \<and> mt_seq t = q \<and> mem_embed_text env (mt_text t) \<noteq> None) ts
      in if us = [] then None else Some (last us))"

lemma last_task_append:
  "last_task env (ts @ us) ino q = (case last_task env us ino q of None \<Rightarrow> last_task env ts ino q | Some t \<Rightarrow> Some t)"
  by (simp add: last_task_def Let_def)

lemma last_task_Nil [simp]: "last_task env [] ino q = None"
  by (simp add: last_task_def)

lemma last_task_Cons:
  "last_task env (t # ts) ino q = (case last_task env ts ino q of
     None \<Rightarrow> if mt_ino t = ino \<and> mt_seq t = q \<and> mem_embed_text env (mt_text t) \<noteq> None then Some t else None
   | Some u \<Rightarrow> Some u)"
proof -
  have "last_task env [t] ino q = (if mt_ino t = ino \<and> mt_seq t = q \<and> mem_embed_text env (mt_text t) \<noteq> None then Some t else None)"
    by (simp add: last_task_def)
  with last_task_append [of env "[t]" ts ino q] show ?thesis by (cases "last_task env ts ino q") simp_all
qed

text \<open>What the store holds of a number: text, vector and header of a task, or nothing of the three.\<close>

definition entry_of :: "fs_env \<Rightarrow> (string \<Rightarrow> bytes option) \<Rightarrow> nat \<Rightarrow> nat \<Rightarrow> mem_task option \<Rightarrow> bool" where
  "entry_of env M ino q x \<longleftrightarrow>
     M (mem_key_text ino q) = map_option mt_text x \<and>
     M (mem_key_vec ino q) = map_option (\<lambda>t. e_float_bytes env (the (mem_embed_text env (mt_text t)))) x \<and>
     M (mem_key_header ino q) = map_option (\<lambda>t. mem_header_bytes t (e_now env)) x"

context kv_store_live
begin

lemma memorize_step:
  assumes "mem_running (mem c)" "read_u32 K (db c) (mem_key_seq ino) = k" "k + 1 < 4294967296"
  shows "\<exists>s. mem_memorize K c ino t (Some ''content'') =
      (True, c\<lparr>db := s, mem := (mem c)\<lparr>mem_queue := mem_queue (mem c) @ [index_task ino k t]\<rparr>\<rparr>) \<and>
    read_u32 K s (mem_key_seq ino) = k + 1 \<and> (\<forall>x. x \<noteq> KMemSeq ino \<longrightarrow> contents s (encode x) = contents (db c) (encode x))"
proof -
  have key: "mem_key_seq ino = encode (KMemSeq ino)" by (simp add: encode.simps)
  let ?s = "snd (kv_put K (db c) (mem_key_seq ino) (le_bytes 4 (u32 (k + 1))))"
  have "contents ?s = (contents (db c))(encode (KMemSeq ino) \<mapsto> le_bytes 4 (k + 1))" using assms(3) by (simp add: key)
  then show ?thesis
    using assms
    by (intro exI [of _ ?s])
      (simp add: mem_memorize_def mem_next_seq_def Let_def index_task_def read_u32_def get key SIZEOF_U32_def)
qed

lemma memorize_all_run:
  assumes "mem_running (mem c)" "read_u32 K (db c) (mem_key_seq ino) = k" "k + length ts < 4294967296"
  shows "\<exists>s. memorize_all K c ino ts = c\<lparr>db := s, mem := (mem c)\<lparr>mem_queue := mem_queue (mem c) @
      map2 (index_task ino) [k..<k + length ts] ts\<rparr>\<rparr> \<and>
    (\<forall>x. x \<noteq> KMemSeq ino \<longrightarrow> contents s (encode x) = contents (db c) (encode x))"
  using assms
proof (induction ts arbitrary: c k)
  case Nil
  then show ?case by (intro exI [of _ "db c"]) (simp add: memorize_all_def)
next
  case (Cons t ts)
  from memorize_step [OF Cons.prems(1,2), of t] Cons.prems(3) obtain s where s:
    "snd (mem_memorize K c ino t (Some ''content'')) =
      c\<lparr>db := s, mem := (mem c)\<lparr>mem_queue := mem_queue (mem c) @ [index_task ino k t]\<rparr>\<rparr>"
    "read_u32 K s (mem_key_seq ino) = k + 1" "\<And>x. x \<noteq> KMemSeq ino \<Longrightarrow> contents s (encode x) = contents (db c) (encode x)"
    by auto
  let ?c1 = "c\<lparr>db := s, mem := (mem c)\<lparr>mem_queue := mem_queue (mem c) @ [index_task ino k t]\<rparr>\<rparr>"
  from Cons.IH [of ?c1 "k + 1"] Cons.prems s(2) obtain s' where s':
    "memorize_all K ?c1 ino ts = ?c1\<lparr>db := s', mem := (mem ?c1)\<lparr>mem_queue := mem_queue (mem ?c1) @
      map2 (index_task ino) [k + 1..<k + 1 + length ts] ts\<rparr>\<rparr>"
    "\<forall>x. x \<noteq> KMemSeq ino \<longrightarrow> contents s' (encode x) = contents (db ?c1) (encode x)" by auto
  have "memorize_all K c ino (t # ts) = memorize_all K ?c1 ino ts" by (simp add: memorize_all_def s(1))
  moreover have "[k..<k + length (t # ts)] = k # [k + 1..<k + 1 + length ts]"
    using upt_conv_Cons [of k "k + length (t # ts)"] by simp
  ultimately show ?case using s' s(3) by (intro exI [of _ s']) simp
qed

text \<open>The memory thread, for any queue: the last text with a number is the one that stays.\<close>

lemma store_embedding_entry:
  "entry_of env M ino q x \<Longrightarrow> M = contents s \<Longrightarrow>
   entry_of env (contents (snd (mem_store_embedding K env s t))) ino q
     (if mt_ino t = ino \<and> mt_seq t = q \<and> mem_embed_text env (mt_text t) \<noteq> None then Some t else x)"
  by (auto simp: entry_of_def mem_store_embedding_def task_key_encode Let_def split: option.splits)

lemma mem_worker_last:
  assumes "entry_of env (contents (db c)) ino q x"
  shows "entry_of env (contents (db (mem_worker K env c))) ino q
    (case last_task env (mem_queue (mem c)) ino q of Some t \<Rightarrow> Some t | None \<Rightarrow> x)"
  using assms
proof (induction "mem_queue (mem c)" arbitrary: c x)
  case Nil
  then have "mem_worker_step K env c = None" by (simp add: mem_worker_step_def)
  with Nil show ?case by (simp add: mem_worker.simps [of K env c])
next
  case (Cons t ts)
  let ?c1 = "c\<lparr>mem := (mem c)\<lparr>mem_queue := ts\<rparr>, db := snd (mem_store_embedding K env (db c) t)\<rparr>"
  have "mem_worker_step K env c = Some ?c1" by (simp add: mem_worker_step_def Cons.hyps(2) [symmetric])
  then have w: "mem_worker K env c = mem_worker K env ?c1" by (simp add: mem_worker.simps [of K env c])
  have ih: "mem_queue (mem ?c1) = ts" "db ?c1 = snd (mem_store_embedding K env (db c) t)" by simp_all
  show ?case
    using Cons.hyps(1) [of ?c1] store_embedding_entry [OF Cons.prems refl, of t]
    unfolding w Cons.hyps(2) [symmetric] last_task_Cons ih
    by (auto split: option.splits)
qed

lemma mem_worker_queue: "mem_queue (mem (mem_worker K env c)) = []"
proof (induction "mem_queue (mem c)" arbitrary: c)
  case Nil
  then have "mem_worker_step K env c = None" by (simp add: mem_worker_step_def)
  with Nil show ?case by (simp add: mem_worker.simps [of K env c])
next
  case (Cons t ts)
  let ?c1 = "c\<lparr>mem := (mem c)\<lparr>mem_queue := ts\<rparr>, db := snd (mem_store_embedding K env (db c) t)\<rparr>"
  have "mem_worker_step K env c = Some ?c1" by (simp add: mem_worker_step_def Cons.hyps(2) [symmetric])
  with Cons.hyps(1) [of ?c1] show ?case by (simp add: mem_worker.simps [of K env c])
qed

lemma mem_worker_other:
  "(\<forall>t\<in>set (mem_queue (mem c)). k \<notin> task_keys t) \<Longrightarrow> contents (db (mem_worker K env c)) (encode k) = contents (db c) (encode k)"
proof (induction "mem_queue (mem c)" arbitrary: c)
  case Nil
  then have "mem_worker_step K env c = None" by (simp add: mem_worker_step_def)
  then show ?case by (simp add: mem_worker.simps [of K env c])
next
  case (Cons t ts)
  let ?c1 = "c\<lparr>mem := (mem c)\<lparr>mem_queue := ts\<rparr>, db := snd (mem_store_embedding K env (db c) t)\<rparr>"
  have "mem_worker_step K env c = Some ?c1" by (simp add: mem_worker_step_def Cons.hyps(2) [symmetric])
  then have w: "mem_worker K env c = mem_worker K env ?c1" by (simp add: mem_worker.simps [of K env c])
  have k: "k \<notin> task_keys t" "\<forall>u\<in>set ts. k \<notin> task_keys u" using Cons.prems by (simp_all add: Cons.hyps(2) [symmetric])
  show ?case using Cons.hyps(1) [of ?c1] k store_embedding(2) [OF k(1)] unfolding w by simp
qed

end


lemma index_task_fields [simp]:
  "mt_ino (index_task ino q t) = ino" "mt_seq (index_task ino q t) = q" "mt_text (index_task ino q t) = cstr t"
  by (simp_all add: index_task_def)

lemma last_index_task:
  "last_task env (map2 (index_task ino) [k..<k + length ts] ts) n q =
     (if n = ino \<and> k \<le> q \<and> q < k + length ts \<and> mem_embed_text env (cstr (ts ! (q - k))) \<noteq> None
      then Some (index_task ino q (ts ! (q - k))) else None)"
proof (induction ts arbitrary: k)
  case (Cons t ts)
  have u: "[k..<k + length (t # ts)] = k # [k + 1..<k + 1 + length ts]"
    using upt_conv_Cons [of k "k + length (t # ts)"] by simp
  have "(t # ts) ! (q - k) = (if q = k then t else ts ! (q - (k + 1)))" if "k \<le> q" using that by (simp add: nth_Cons')
  then show ?case
    unfolding u by (simp only: zip_Cons_Cons list.map prod.case last_task_Cons Cons.IH [of "k + 1"]) auto
qed simp

section \<open>Indexing a file\<close>

definition mem_entry :: "nat \<Rightarrow> key \<Rightarrow> bool" where
  "mem_entry ino k \<longleftrightarrow> (\<exists>q. k = KMemVec ino q \<or> k = KMemText ino q \<or> k = KMemHeader ino q)"

context kv_store_live
begin

lemma index_run:
  assumes f: "sfile K contents c ino f" "f \<noteq> []" "mem_is_text f" and run: "mem_running (mem c)"
    and blocks: "\<And>b. b < blocks_of (length f) \<Longrightarrow> contents (db c) (encode (KBlock ino b)) \<noteq> None"
    and wanted: "contents (db c) (encode (KXattr ino ''agentfs.noindex'')) = None"
    and few: "length (mem_chunks f 0) < 4294967296"
  shows "\<exists>c1. mem_index_file K c ino = (True, c1) \<and> sfile K contents c1 ino f \<and>
    mem_queue (mem c1) = mem_queue (mem c) @
      map2 (index_task ino) [0..<length (mem_chunks f 0)] (map (slice f) (mem_chunks f 0)) \<and>
    (\<forall>x. x \<noteq> KMemSeq ino \<longrightarrow> contents (db c1) (encode x) = (if mem_entry ino x then None else contents (db c) (encode x)))"
proof -
  obtain i where i: "ok K c" "view K c ino = Some i" "file_ok (contents (db c)) ino i"
    "file_of (contents (db c)) ino i = f" "i_size i = length f"
    using f(1) by (auto simp: sfile_def)
  let ?c2 = "inode_put (get_c K c ino) ino" and ?cs = "map (slice f) (mem_chunks f 0)"
  have obs: "view K ?c2 = view K c" "refs ?c2 = refs c" "ok K ?c2" "db ?c2 = db c" "mem ?c2 = mem c"
    using i(1,2) by (simp_all add: fs_simps)
  have "i_size i \<le> i_blocks i * KVBFS_BLOCK_SIZE" "i_blocks i = blocks_of (length f)"
    using i(3,5) blocks_of_bounds(1) [of "i_size i"] by (simp_all add: file_ok_def)
  then have whole: "mem_assemble K (db c) ino (i_size i) [0..<i_blocks i] [] = f"
    using mem_assemble_bytes [OF file_ok_full [OF i(3)], of "i_size i" "i_blocks i" 0] i(4) blocks
    by (simp add: file_of_def file_bytes_def)
  define s where "s = mem_delete_embeddings K (db c) ino"
  have sd: "contents s (encode x) = (if x = KMemSeq ino \<or> mem_entry ino x then None else contents (db c) (encode x))" for x
    by (simp add: s_def mem_delete_embeddings_live mem_entry_def)
  let ?c3 = "?c2\<lparr>db := s\<rparr>"
  have "read_u32 K (db ?c3) (mem_key_seq ino) = 0"
    using sd [of "KMemSeq ino"] by (simp add: read_u32_def get encode.simps)
  from memorize_all_run [OF _ this, of ?cs] run few obs(5) obtain s' where s':
    "memorize_all K ?c3 ino ?cs = ?c3\<lparr>db := s', mem := (mem ?c3)\<lparr>mem_queue := mem_queue (mem ?c3) @
      map2 (index_task ino) [0..<0 + length ?cs] ?cs\<rparr>\<rparr>"
    "\<forall>x. x \<noteq> KMemSeq ino \<longrightarrow> contents s' (encode x) = contents s (encode x)"
    by auto
  have noindex: "(case kvbfs_key_xattr KVBFS_KEY_MAX ino ''agentfs.noindex'' of None \<Rightarrow> False | Some key \<Rightarrow> kv_get K (db c) key \<noteq> None) = False"
    using wanted by (auto simp: kvbfs_key_xattr_def get encode.simps Let_def split: option.splits if_splits)
  have eq: "mem_index_file K c ino = (True, memorize_all K ?c3 ino ?cs)"
    using i(1,2,5) f(2,3) run whole held_ic_get [OF held_get [OF i(1,2)]] unfolding mem_index_file_def noindex
    by (simp add: inode_get_view Let_def get_c_obs s_def)
  let ?c1 = "memorize_all K ?c3 ino ?cs"
  have c1: "contents (db ?c1) (encode x) = (if mem_entry ino x then None else contents (db c) (encode x))" if "x \<noteq> KMemSeq ino" for x
    using that s'(2) sd by (simp add: s'(1))
  have "icache ?c1 = icache ?c2" by (simp add: s'(1))
  then have view: "view K ?c1 = view K (?c2\<lparr>db := db ?c1\<rparr>)" "ok K ?c1 = ok K (?c2\<lparr>db := db ?c1\<rparr>)"
    by (auto simp: view_def ok_def fun_eq_iff split: option.split)
  have "sfile K contents ?c1 ino f = sfile K contents (?c2\<lparr>db := db ?c1\<rparr>) ino f"
    unfolding sfile_def view by simp
  also have "\<dots> = sfile K contents ?c2 ino f"
    using c1 obs(4) by (intro sfile_db) (simp_all add: mem_entry_def)
  also have "\<dots>" using i obs by (simp add: sfile_def)
  finally have "sfile K contents ?c1 ino f" .
  moreover have "mem_queue (mem ?c1) = mem_queue (mem c) @ map2 (index_task ino) [0..<length (mem_chunks f 0)] ?cs"
    using obs(5) by (simp add: s'(1))
  ultimately show ?thesis using eq c1 by blast
qed

lemma index_stores:
  assumes "sfile K contents c ino f" "f \<noteq> []" "mem_is_text f" "mem_running (mem c)"
    and "\<And>b. b < blocks_of (length f) \<Longrightarrow> contents (db c) (encode (KBlock ino b)) \<noteq> None"
    and "contents (db c) (encode (KXattr ino ''agentfs.noindex'')) = None"
    and "length (mem_chunks f 0) < 4294967296"
    and run: "mem_index_file K c ino = (r, c1)"
  shows "r \<and> mem_queue (mem (mem_worker K env c1)) = [] \<and>
    entry_of env (contents (db (mem_worker K env c1))) ino q (if q < length (mem_chunks f 0) \<and> mem_embed_text env (cstr (slice f (mem_chunks f 0 ! q))) \<noteq> None
      then Some (index_task ino q (slice f (mem_chunks f 0 ! q)))
      else last_task env (mem_queue (mem c)) ino q)"
proof -
  let ?n = "length (mem_chunks f 0)" and ?cs = "map (slice f) (mem_chunks f 0)"
  obtain c1' where c1': "mem_index_file K c ino = (True, c1')"
    "mem_queue (mem c1') = mem_queue (mem c) @ map2 (index_task ino) [0..<?n] ?cs"
    "\<forall>x. x \<noteq> KMemSeq ino \<longrightarrow> contents (db c1') (encode x) = (if mem_entry ino x then None else contents (db c) (encode x))"
    using index_run [OF assms(1-7)] by blast
  have "r" "c1 = c1'" using run c1'(1) by simp_all
  moreover have "entry_of env (contents (db c1')) ino q None"
    using c1'(3) by (auto simp: entry_of_def task_key_encode mem_entry_def)
  moreover have "last_task env (map2 (index_task ino) [0..<?n] ?cs) ino q =
      (if q < ?n \<and> mem_embed_text env (cstr (slice f (mem_chunks f 0 ! q))) \<noteq> None
       then Some (index_task ino q (slice f (mem_chunks f 0 ! q))) else None)"
    using last_index_task [of env ino 0 ?cs ino q] by (cases "q < ?n") simp_all
  ultimately show ?thesis
    using mem_worker_last [of env c1' ino q None] mem_worker_queue [of env c1']
    by (auto simp: c1'(2) last_task_append split: option.splits if_splits)
qed

end


section \<open>Removing a file\<close>

context kv_store_live
begin

lemma purge_mem_entries: "mem_entry n k \<Longrightarrow> contents (db (purge_inode K c n)) (encode k) = None"
  by (auto simp: purge_inode_def Let_def contents_inode_delete mem_delete_embeddings_live mem_entry_def)

lemma unlink_last:
  assumes inv: "fs_inv K c" and e: "dirent_lookup K (db c) p name = n" "n \<noteq> 0"
    and i: "view K c n = Some i" "\<not> is_dir i" "i_nlink i = 1"
  shows "\<exists>c1. kvbfs_unlink K env c p name = (ReplyOk, c1) \<and> view K c1 n = None \<and> mem c1 = mem c \<and>
    (\<forall>k. mem_entry n k \<longrightarrow> contents (db c1) (encode k) = None)"
proof -
  have fits: "name_fits p name" using e dirent_lookup_fits [of "db c" p name] by (simp add: dirent_lookup_dlook)
  note d = fs_invD [OF inv] fs_inv_entries [OF inv] fs_inv_lt [OF inv i(1)]
  let ?x = "kvbfs_unlink K env c p name"
  have dec: "i_nlink (dec_nlink i) = 0 \<longleftrightarrow> i_nlink i \<le> 1" "i_ino (dec_nlink i) = i_ino i" for i
    by (auto simp: dec_nlink_def)
  have n: "dlook (contents (db c)) p name = n" using e(1) by (simp add: dirent_lookup_dlook)
  note defs = kvbfs_unlink_def fs_simps tree_op_simps n dec
  have "fst ?x = ReplyOk" "view K (snd ?x) n = None" "mem (snd ?x) = mem c" using i e(2) d fits by (auto simp: defs)
  moreover have "contents (db (snd ?x)) (encode k) = None" if "mem_entry n k" for k
    using i e(2) d fits purge_mem_entries [OF that] by (auto simp: defs)
  ultimately show ?thesis by (metis prod.collapse)
qed

end


section \<open>Properties\<close>

text \<open>
  C15. What the memory holds of a file after it was indexed and the memory thread has worked off its
  queue, which is empty then (for a text file without holes and without the \<^verbatim>\<open>noindex\<close> attribute):
  under the numbers from 0 on exactly its chunks, each with its text, the vector of the model for it
  and a header with inode, number and role. The chunks have at most 1601 bytes each and leave out no
  byte of the file (a chunk the model gives no vector for has none of the three). Under a higher number it still holds a text that
  had been waiting in the queue since before, from an older state of the file.
\<close>

theorem index_stores_chunks:
  assumes "kv_store_live K contents" "sfile K contents c ino f" "f \<noteq> []" "mem_is_text f" "mem_running (mem c)"
    and "\<And>b. b < blocks_of (length f) \<Longrightarrow> contents (db c) (encode (KBlock ino b)) \<noteq> None"
    and "contents (db c) (encode (KXattr ino ''agentfs.noindex'')) = None"
    and "length (mem_chunks f 0) < 4294967296"
    and "mem_index_file K c ino = (r, c1)"
  shows "r \<and> (\<forall>j<length f. \<exists>q<length (mem_chunks f 0). fst (mem_chunks f 0 ! q) \<le> j \<and> j < snd (mem_chunks f 0 ! q)) \<and>
    (\<forall>q<length (mem_chunks f 0). length (slice f (mem_chunks f 0 ! q)) \<le> MEM_CHUNK_SIZE + 1) \<and>
    mem_queue (mem (mem_worker K env c1)) = [] \<and>
    (\<forall>q. entry_of env (contents (db (mem_worker K env c1))) ino q
      (if q < length (mem_chunks f 0) \<and> mem_embed_text env (cstr (slice f (mem_chunks f 0 ! q))) \<noteq> None
        then Some (index_task ino q (slice f (mem_chunks f 0 ! q)))
        else last_task env (mem_queue (mem c)) ino q))"
proof -
  have "\<exists>q<length (mem_chunks f 0). fst (mem_chunks f 0 ! q) \<le> j \<and> j < snd (mem_chunks f 0 ! q)" if "j < length f" for j
    using mem_chunks_cover [OF le0 that] by (metis in_set_conv_nth)
  moreover have "length (slice f (mem_chunks f 0 ! q)) \<le> MEM_CHUNK_SIZE + 1" if "q < length (mem_chunks f 0)" for q
    using mem_chunks_range [OF nth_mem [OF that]] by (auto simp: slice_def min_def)
  ultimately show ?thesis using kv_store_live.index_stores [OF assms] by blast
qed

definition old_task :: mem_task where
  "old_task = \<lparr>mt_ino = 5, mt_seq = 3, mt_text = ''old'', mt_role = None\<rparr>"

definition embed_env :: fs_env where
  "embed_env = sample_env\<lparr>e_encode := \<lambda>t. Some [1]\<rparr>"

definition indexing :: "kv_mem kvbfs_ctx" where
  "indexing = sample\<lparr>mem := \<lparr>mem_running = True, mem_shutdown = False, mem_queue = [old_task]\<rparr>\<rparr>"

lemma indexing_mem: "view mem_ops indexing = view mem_ops sample" "ok mem_ops indexing" "db indexing = store_of sample_entries"
  "fs_inv mem_ops indexing"
proof -
  show "view mem_ops indexing = view mem_ops sample" "db indexing = store_of sample_entries"
    by (simp_all add: indexing_def view_def fun_eq_iff)
  show "ok mem_ops indexing" using sample_ok unfolding ok_def by (simp add: indexing_def)
  show "fs_inv mem_ops indexing"
    using sample_fs_inv unfolding fs_inv_def quiet_def refs_def ok_def below_def view_def by (simp add: indexing_def)
qed

theorem index_stores_chunks_witness:
  "DAList.lookup (db (mem_worker mem_ops embed_env (snd (mem_index_file mem_ops indexing 5)))) (mem_key_text 5 0) = Some ''hello!'' \<and>
   DAList.lookup (db (mem_worker mem_ops embed_env (snd (mem_index_file mem_ops indexing 5)))) (mem_key_text 5 3) = Some ''old''"
proof -
  have ch: "mem_chunks ''hello!'' 0 = [(0, 6)]"
    by (subst mem_chunks.simps) (simp add: chunk_end_def Let_def mem_consts)
  have f: "sfile mem_ops DAList.lookup indexing 5 ''hello!''"
    using sample_is_file indexing_mem by (auto simp: sfile_def is_file_def)
  have b: "DAList.lookup (db indexing) (encode (KBlock 5 b)) \<noteq> None" if "b < blocks_of (length ''hello!'')" for b
    using that by (simp add: blocks_of_def KVBFS_BLOCK_SIZE_def indexing_mem)
  have x: "DAList.lookup (db indexing) (encode (KXattr 5 ''agentfs.noindex'')) = None"
    by (simp add: indexing_mem lookup_store_of sample_entries_def)
  obtain r c1 where run: "mem_index_file mem_ops indexing 5 = (r, c1)" by fastforce
  have t: "mem_is_text ''hello!''" "mem_running (mem indexing)"
    by (simp_all add: mem_is_text_def MEM_TEXT_PROBE_def NUL_def indexing_def)
  have all: "entry_of embed_env (DAList.lookup (db (mem_worker mem_ops embed_env c1))) 5 q
      (if q < 1 \<and> mem_embed_text embed_env (cstr (slice ''hello!'' ([(0, 6)] ! q))) \<noteq> None
        then Some (index_task 5 q (slice ''hello!'' ([(0, 6)] ! q))) else last_task embed_env (mem_queue (mem indexing)) 5 q)" for q
    using index_stores_chunks [OF mem.kv_store_live_axioms f _ t b x _ run, of embed_env] unfolding ch by simp
  have new: "cstr (slice ''hello!'' (0, 6)) = ''hello!''" by (simp add: cstr_def slice_def NUL_def)
  have emb: "mem_embed_text embed_env ''hello!'' \<noteq> None" "mem_embed_text embed_env ''old'' \<noteq> None"
    by (simp_all add: mem_embed_text_def embed_env_def Let_def)
  then have old: "last_task embed_env (mem_queue (mem indexing)) 5 3 = Some old_task"
    by (simp add: indexing_def last_task_def old_task_def)
  show ?thesis using all [of 0] all [of 3] new emb(1) old by (simp add: run old_task_def entry_of_def)
qed

text \<open>
  C12. Texts outlive their file. Removing the last name of a file removes its inode and every text
  stored for it, but not the ones that wait in the queue: when the memory thread comes to them, it
  stores exactly those, with their vectors, under the number of an inode that is gone, and nothing
  removes them any more.
\<close>

theorem queued_texts_outlive_file:
  assumes "kv_store_live K contents" "fs_inv K c" "dirent_lookup K (db c) p name = n" "n \<noteq> 0"
    and "view K c n = Some i" "\<not> is_dir i" "i_nlink i = 1" "kvbfs_unlink K env c p name = (r, c1)"
  shows "r = ReplyOk \<and> view K c1 n = None \<and> (\<forall>q. contents (db c1) (mem_key_text n q) = None) \<and>
    (\<forall>q. contents (db (mem_worker K env c1)) (mem_key_text n q) = map_option mt_text (last_task env (mem_queue (mem c)) n q) \<and>
      (contents (db (mem_worker K env c1)) (mem_key_vec n q) = None \<longleftrightarrow> last_task env (mem_queue (mem c)) n q = None))"
proof -
  have u: "r = ReplyOk" "view K c1 n = None" "mem c1 = mem c" "\<And>k. mem_entry n k \<Longrightarrow> contents (db c1) (encode k) = None"
    using kv_store_live.unlink_last [OF assms(1-7), of env] assms(8) by auto
  then have k: "contents (db c1) (mem_key_text n q) = None" "entry_of env (contents (db c1)) n q None" for q
    by (auto simp: entry_of_def task_key_encode mem_entry_def)
  show ?thesis
    using u(1,2) k(1) kv_store_live.mem_worker_last [OF assms(1) k(2)]
    by (auto simp: u(3) entry_of_def split: option.splits)
qed

theorem queued_texts_outlive_file_witness:
  "\<exists>c1. kvbfs_unlink mem_ops embed_env indexing 1 ''a'' = (ReplyOk, c1) \<and> view mem_ops c1 5 = None \<and>
     DAList.lookup (db (mem_worker mem_ops embed_env c1)) (mem_key_text 5 3) = Some ''old''"
proof -
  obtain r c1 where run: "kvbfs_unlink mem_ops embed_env indexing 1 ''a'' = (r, c1)" by fastforce
  have "dirent_lookup mem_ops (db indexing) 1 ''a'' = 5" "view mem_ops indexing 5 = Some file_inode"
    by (simp_all add: mem.dirent_lookup_dlook indexing_mem sample_dlook)
  from queued_texts_outlive_file [OF mem.kv_store_live_axioms indexing_mem(4) this(1) _ this(2) _ _ run]
  have u: "r = ReplyOk" "view mem_ops c1 5 = None"
    "DAList.lookup (db (mem_worker mem_ops embed_env c1)) (mem_key_text 5 3) =
       map_option mt_text (last_task embed_env (mem_queue (mem indexing)) 5 3)"
    by (simp_all add: is_dir_def)
  have "last_task embed_env (mem_queue (mem indexing)) 5 3 = Some old_task"
    by (simp add: indexing_def last_task_def mem_embed_text_def embed_env_def old_task_def Let_def)
  with u run show ?thesis by (intro exI [of _ c1]) (simp add: old_task_def)
qed

end
