(* ===== verification/MemNumbers.thy ===== *)
theory MemNumbers
  imports Indexing
begin

text \<open>
  The numbers of the memory subsystem while several threads ask for texts to be kept:
  \<^verbatim>\<open>mem_memorize\<close> of \<^verbatim>\<open>src/mem.c\<close> is called by every FUSE thread (a file is indexed when it is closed)
  and by the inference thread. \<^verbatim>\<open>mem_next_seq\<close> reads the counter of the inode and stores the next
  one, in two calls of the store and without a lock.
\<close>

declare encode.simps [simp del]

section \<open>Steps\<close>

datatype number_pc = Away | ReadSeq nat string "string option" nat | HaveTask mem_task

record 's numbering =
  mn_db :: 's
  mn_queue :: "mem_task list"
  mn_pc :: "nat \<Rightarrow> number_pc"
  mn_given :: "mem_task list"

definition mn_at :: "'s numbering \<Rightarrow> nat \<Rightarrow> number_pc \<Rightarrow> 's numbering" where
  "mn_at st th p = st\<lparr>mn_pc := (mn_pc st)(th := p)\<rparr>"

text \<open>
  With \<open>excl\<close>, a lock around \<^verbatim>\<open>mem_next_seq\<close> keeps two threads from being in it for the same inode;
  the code has none. \<open>mn_given\<close> are the tasks numbered so far. The last number is never reached.
\<close>

inductive mn_step :: "'s kv_ops \<Rightarrow> fs_env \<Rightarrow> bool \<Rightarrow> 's numbering \<Rightarrow> 's numbering \<Rightarrow> bool"
  for K :: "'s kv_ops" and env :: fs_env and excl :: bool where
  read_seq: "mn_pc st th = Away \<Longrightarrow> (excl \<longrightarrow> (\<forall>th' text role n. mn_pc st th' \<noteq> ReadSeq ino text role n)) \<Longrightarrow>
    mn_step K env excl st (mn_at st th (ReadSeq ino tx r (read_u32 K (mn_db st) (mem_key_seq ino))))"
| write_seq: "mn_pc st th = ReadSeq ino tx r n \<Longrightarrow> n + 1 < 2 ^ 32 \<Longrightarrow>
    t = \<lparr>mt_ino = ino, mt_seq = n, mt_text = cstr tx, mt_role = r\<rparr> \<Longrightarrow>
    kv_put K (mn_db st) (mem_key_seq ino) (le_bytes 4 (u32 (n + 1))) = (b, s) \<Longrightarrow>
    mn_step K env excl st (mn_at (st\<lparr>mn_db := s, mn_given := mn_given st @ [t]\<rparr>) th (HaveTask t))"
| enqueue: "mn_pc st th = HaveTask t \<Longrightarrow>
    mn_step K env excl st (mn_at (st\<lparr>mn_queue := mn_queue st @ [t]\<rparr>) th Away)"
| embed: "mn_queue st = t # ts \<Longrightarrow>
    mn_step K env excl st (st\<lparr>mn_queue := ts, mn_db := snd (mem_store_embedding K env (mn_db st) t)\<rparr>)"

lemma mn_at_simps [simp]:
  "mn_db (mn_at st th p) = mn_db st" "mn_queue (mn_at st th p) = mn_queue st" "mn_given (mn_at st th p) = mn_given st"
  "mn_pc (mn_at st th p) = (mn_pc st)(th := p)"
  by (simp_all add: mn_at_def)

definition mn_start :: "'s \<Rightarrow> 's numbering" where
  "mn_start s = \<lparr>mn_db = s, mn_queue = [], mn_pc = (\<lambda>_. Away), mn_given = []\<rparr>"

definition number_of :: "mem_task \<Rightarrow> nat \<times> nat" where
  "number_of t = (mt_ino t, mt_seq t)"

section \<open>With a lock the numbers are unique\<close>

definition number_inv :: "'s kv_ops \<Rightarrow> 's numbering \<Rightarrow> bool" where
  "number_inv K st \<longleftrightarrow>
     distinct (map number_of (mn_given st)) \<and>
     (\<forall>t\<in>set (mn_given st). mt_seq t < read_u32 K (mn_db st) (mem_key_seq (mt_ino t))) \<and>
     (\<forall>th ino tx r n. mn_pc st th = ReadSeq ino tx r n \<longrightarrow> n = read_u32 K (mn_db st) (mem_key_seq ino)) \<and>
     (\<forall>x y ino tx r n tx' r' n'. mn_pc st x = ReadSeq ino tx r n \<and> mn_pc st y = ReadSeq ino tx' r' n' \<longrightarrow> x = y)"

context kv_store_live
begin

lemma seq_after_put:
  assumes "kv_put K s (mem_key_seq ino) (le_bytes 4 (u32 (n + 1))) = (b, s')" "n + 1 < 2 ^ 32"
  shows "read_u32 K s' (mem_key_seq m) = (if m = ino then n + 1 else read_u32 K s (mem_key_seq m))"
proof -
  have key: "mem_key_seq i = encode (KMemSeq i)" for i by (simp add: encode.simps)
  have "contents s' = (contents s)(encode (KMemSeq ino) \<mapsto> le_bytes 4 (n + 1))"
    using put_eq [OF assms(1)] assms(2) by (simp add: key)
  then show ?thesis using assms(2) by (simp add: read_u32_def get key SIZEOF_U32_def)
qed

lemma seq_after_store: "read_u32 K (snd (mem_store_embedding K env s t)) (mem_key_seq m) = read_u32 K s (mem_key_seq m)"
  using store_embedding(2) [of "KMemSeq m" t env s] by (simp add: read_u32_def get task_keys_def encode.simps)

lemma number_step:
  assumes "mn_step K env True st st'" "number_inv K st"
  shows "number_inv K st'"
  using assms(1)
proof cases
  case (read_seq th ino tx r)
  then show ?thesis using assms(2) by (auto simp: number_inv_def)
next
  case (write_seq th ino tx r n t b s)
  let ?R = "\<lambda>i. read_u32 K (mn_db st) (mem_key_seq i)"
  note a = seq_after_put [OF write_seq(5,3)]
  have n: "n = ?R ino" and u: "\<And>th' tx' r' n'. mn_pc st th' = ReadSeq ino tx' r' n' \<Longrightarrow> th' = th"
    using assms(2) write_seq(2) unfolding number_inv_def by blast+
  have g: "distinct (map number_of (mn_given st))" "\<And>t'. t' \<in> set (mn_given st) \<Longrightarrow> mt_seq t' < ?R (mt_ino t')"
    using assms(2) by (simp_all add: number_inv_def)
  have "number_of t \<notin> number_of ` set (mn_given st)"
    using g(2) by (fastforce simp: number_of_def write_seq(4) n)
  then have 1: "distinct (map number_of (mn_given st'))" using g(1) by (simp add: write_seq(1))
  have 2: "mt_seq t' < read_u32 K s (mem_key_seq (mt_ino t'))" if "t' \<in> set (mn_given st')" for t'
    using that g(2) [of t'] unfolding a by (auto simp: write_seq(1,4) n)
  have 3: "m = read_u32 K s (mem_key_seq i)" if "mn_pc st' th' = ReadSeq i tx ro m" for th' i tx ro m
  proof -
    have "th' \<noteq> th" "mn_pc st th' = ReadSeq i tx ro m" using that by (auto simp: write_seq(1) split: if_splits)
    moreover from this have "i \<noteq> ino" using u by blast
    ultimately show ?thesis using assms(2) unfolding a number_inv_def by simp
  qed
  have 4: "x = y" if "mn_pc st' x = ReadSeq i tx ro m" "mn_pc st' y = ReadSeq i tx' ro' m'" for x y i tx ro m tx' ro' m'
  proof -
    have "mn_pc st x = ReadSeq i tx ro m" "mn_pc st y = ReadSeq i tx' ro' m'"
      using that by (auto simp: write_seq(1) split: if_splits)
    then show ?thesis using assms(2) unfolding number_inv_def by blast
  qed
  have "mn_db st' = s" by (simp add: write_seq(1))
  with 1 2 3 4 show ?thesis unfolding number_inv_def by metis
next
  case (enqueue th t)
  then show ?thesis using assms(2) unfolding number_inv_def by (simp split: if_splits)
next
  case (embed t ts)
  then show ?thesis using assms(2) by (simp add: number_inv_def seq_after_store)
qed

lemma numbers_unique:
  "(mn_step K env True)\<^sup>*\<^sup>* (mn_start s) st \<Longrightarrow> distinct (map number_of (mn_given st))"
proof -
  assume "(mn_step K env True)\<^sup>*\<^sup>* (mn_start s) st"
  then have "number_inv K st"
  proof (induction rule: rtranclp_induct)
    case base
    then show ?case by (simp add: number_inv_def mn_start_def)
  qed (rule number_step)
  then show ?thesis by (simp add: number_inv_def)
qed

section \<open>Without one, two texts share a number\<close>

lemma shared_number:
  assumes xy: "(x :: nat) \<noteq> y" and n: "read_u32 K s (mem_key_seq ino) = n" "n + 1 < 2 ^ 32"
    and t: "t = \<lparr>mt_ino = ino, mt_seq = n, mt_text = cstr tx, mt_role = r\<rparr>"
    and t': "t' = \<lparr>mt_ino = ino, mt_seq = n, mt_text = cstr tx', mt_role = r'\<rparr>"
    and emb: "mem_embed_text env (cstr tx') \<noteq> None"
  shows "\<exists>st. (mn_step K env False)\<^sup>*\<^sup>* (mn_start s) st \<and> mn_given st = [t, t'] \<and> mn_queue st = [] \<and>
    (\<forall>th. mn_pc st th = Away) \<and> read_u32 K (mn_db st) (mem_key_seq ino) = n + 1 \<and>
    contents (mn_db st) (mem_key_text ino n) = Some (cstr tx')"
proof -
  let ?v = "le_bytes 4 (u32 (n + 1))" and ?k = "mem_key_seq ino"
  define s1 where "s1 = snd (kv_put K s ?k ?v)"
  define s2 where "s2 = snd (kv_put K s1 ?k ?v)"
  obtain b1 b2 where p: "kv_put K s ?k ?v = (b1, s1)" "kv_put K s1 ?k ?v = (b2, s2)"
    unfolding s1_def s2_def by (metis prod.collapse)
  define s4 where "s4 = snd (mem_store_embedding K env (snd (mem_store_embedding K env s2 t)) t')"
  let ?S = "\<lambda>d q p p' g. \<lparr>mn_db = d, mn_queue = q, mn_pc = (\<lambda>_. Away)(y := p', x := p), mn_given = g\<rparr>"
  let ?R = "(mn_step K env False)\<^sup>*\<^sup>* (mn_start s)"
  note go = rtranclp.rtrancl_into_rtrancl [of "mn_step K env False" "mn_start s"]
  have "?R (?S s [] Away Away [])" by (simp add: mn_start_def fun_upd_idem)
  then have "?R (?S s [] (ReadSeq ino tx r n) Away [])"
    using go [OF _ mn_step.read_seq [of _ x False ino K env tx r]] n(1) xy by (fastforce simp: mn_at_def)
  then have "?R (?S s [] (ReadSeq ino tx r n) (ReadSeq ino tx' r' n) [])"
    using go [OF _ mn_step.read_seq [of _ y False ino K env tx' r']] n(1) xy by (fastforce simp: mn_at_def fun_upd_twist)
  then have "?R (?S s1 [] (HaveTask t) (ReadSeq ino tx' r' n) [t])"
    using go [OF _ mn_step.write_seq [of _ x ino tx r n t K b1 s1 env False]] n(2) xy p(1) t by (fastforce simp: mn_at_def)
  then have "?R (?S s2 [] (HaveTask t) (HaveTask t') [t, t'])"
    using go [OF _ mn_step.write_seq [of _ y ino tx' r' n t' K b2 s2 env False]] n(2) xy p(2) t'
    by (fastforce simp: mn_at_def fun_upd_twist)
  then have "?R (?S s2 [t] Away (HaveTask t') [t, t'])"
    using go [OF _ mn_step.enqueue [of _ x t K env False]] xy by (fastforce simp: mn_at_def)
  then have "?R (?S s2 [t, t'] Away Away [t, t'])"
    using go [OF _ mn_step.enqueue [of _ y t' K env False]] xy by (fastforce simp: mn_at_def fun_upd_twist)
  then have "?R (?S (snd (mem_store_embedding K env s2 t)) [t'] Away Away [t, t'])"
    using go [OF _ mn_step.embed [of _ t "[t']" K env False]] by fastforce
  then have r: "?R (?S s4 [] Away Away [t, t'])"
    using go [OF _ mn_step.embed [of _ t' "[]" K env False]] unfolding s4_def by fastforce
  have "contents s4 (mem_key_text ino n) = Some (cstr tx')"
    using store_embedding(1) [of env t' "snd (mem_store_embedding K env s2 t)"] emb
    by (auto simp: s4_def task_stored_def t' split: option.splits)
  moreover have "read_u32 K s4 ?k = n + 1"
    using seq_after_put [OF p(2) n(2)] by (simp add: s4_def seq_after_store)
  ultimately show ?thesis using r by (intro exI [of _ "?S s4 [] Away Away [t, t']"]) simp
qed

end

section \<open>Property\<close>

text \<open>
  C13. Two texts of one file can get the same number: when two threads ask at once, both read the
  counter before either has stored the next value, and it grows by one only. Both texts go into the
  queue with the number, and in the end the store holds the second one: the first is lost.
\<close>

theorem texts_share_number:
  assumes "kv_store_live K contents" "(x :: nat) \<noteq> y" "read_u32 K s (mem_key_seq ino) = n" "n + 1 < 2 ^ 32"
    and "t = \<lparr>mt_ino = ino, mt_seq = n, mt_text = cstr tx, mt_role = r\<rparr>"
    and "t' = \<lparr>mt_ino = ino, mt_seq = n, mt_text = cstr tx', mt_role = r'\<rparr>"
    and "mem_embed_text env (cstr tx') \<noteq> None"
  shows "\<exists>st. (mn_step K env False)\<^sup>*\<^sup>* (mn_start s) st \<and> mn_given st = [t, t'] \<and> mn_queue st = [] \<and>
    (\<forall>th. mn_pc st th = Away) \<and> read_u32 K (mn_db st) (mem_key_seq ino) = n + 1 \<and>
    contents (mn_db st) (mem_key_text ino n) = Some (cstr tx')"
  by (rule kv_store_live.shared_number [OF assms])

theorem texts_share_number_witness:
  "\<exists>st. (mn_step mem_ops embed_env False)\<^sup>*\<^sup>* (mn_start (store_of sample_entries)) st \<and>
     map mt_text (mn_given st) = [''mine'', ''yours''] \<and> map number_of (mn_given st) = [(5, 0), (5, 0)] \<and>
     DAList.lookup (mn_db st) (mem_key_text 5 0) = Some ''yours''"
proof -
  have n: "read_u32 mem_ops (store_of sample_entries) (mem_key_seq 5) = 0"
  proof -
    have "mem_key_seq 5 = encode (KMemSeq 5)" by (simp add: encode.simps)
    then show ?thesis unfolding read_u32_def mem.get by (simp only: sample_contents) (simp add: sample_entries_def)
  qed
  have c: "cstr ''mine'' = ''mine''" "cstr ''yours'' = ''yours''" by (simp_all add: cstr_def NUL_def)
  have e: "mem_embed_text embed_env (cstr ''yours'') \<noteq> None"
    unfolding c by (simp add: mem_embed_text_def embed_env_def Let_def)
  have "(0 :: nat) \<noteq> 1" "(0 :: nat) + 1 < 2 ^ 32" by simp_all
  from texts_share_number [OF mem.kv_store_live_axioms this(1) n this(2) refl refl e, of "''mine''" None None]
  show ?thesis unfolding c by (fastforce simp: number_of_def)
qed

end
