(* ===== verification/Spec2Isabelle.thy ===== *)
theory Spec2Isabelle
  imports Remount Readdir NvmeStack Rocks Xattrs Search Program RaceRuns KvMemTable Typed UtSelect UtFunctions DataRaces WorkQueue MemNumbers
begin

text \<open>
  KVBFS is a file system in user space (FUSE, low-level interface) that keeps everything in a
  key-value store. On top of plain files it has version snapshots with a virtual directory
  \<^verbatim>\<open>.versions\<close>, an event stream \<^verbatim>\<open>.events\<close>, a control file \<^verbatim>\<open>.agentfs\<close> for semantic
  search, session files that a language model answers, and three storage backends. This library
  models the C code of \<^verbatim>\<open>src/src\<close> and \<^verbatim>\<open>src/sim\<close>.

  \<^bold>\<open>Parts and theories.\<close>

  Foundations. \<^verbatim>\<open>Prelude\<close> holds strings, integers reduced to their width, little-endian images,
  \<^verbatim>\<open>%lu\<close> and \<^verbatim>\<open>strtoull\<close>. \<^verbatim>\<open>Keys\<close> has the key helpers of \<^verbatim>\<open>kvbfs.h\<close>, \<^verbatim>\<open>version.h\<close>,
  \<^verbatim>\<open>mem.c\<close> and \<^verbatim>\<open>llm.c\<close>; its lemmas show that no two names share a key and what a prefix scan
  meets. \<^verbatim>\<open>Structs\<close> has the stored structures and their memory images.

  Storage. \<^verbatim>\<open>KvStore\<close> is the interface \<^verbatim>\<open>kv_store.h\<close>: the operations are a record that every
  handler takes as its argument \<open>K\<close>, the contract is the locale \<^verbatim>\<open>kv_store\<close> and, for a backend
  that never refuses an update, \<^verbatim>\<open>kv_store_live\<close>. \<^verbatim>\<open>KvMem\<close> is the store of the simulator
  (\<^verbatim>\<open>sim/kv_mem.c\<close>) and interprets both. \<^verbatim>\<open>Rocks\<close> is \<^verbatim>\<open>kv_rocksdb.c\<close> over RocksDB as a
  parameter, whose calls may fail: what the wrapper answers in each case
  (\<^verbatim>\<open>rocksdb_answers_like_map\<close>), and the contract for a library that reports no error. \<^verbatim>\<open>NvmeProto\<close>, \<^verbatim>\<open>NvmeServer\<close>, \<^verbatim>\<open>NvmeClient\<close> are \<^verbatim>\<open>nvme_kv_proto.h\<close>,
  \<^verbatim>\<open>sim/cmd_dispatch.c\<close> with the connection loop of \<^verbatim>\<open>sim/main.c\<close>, and \<^verbatim>\<open>kv_nvme.c\<close>;
  \<^verbatim>\<open>NvmeStack\<close> composes them over a network that cuts bytes into arbitrary segments and shows
  that the result is the store itself, within the bounds of the device, and what happens outside
  of them.

  State. \<^verbatim>\<open>Context\<close> is \<^verbatim>\<open>struct kvbfs_ctx\<close> with the superblock (\<^verbatim>\<open>super.c\<close>); \<^verbatim>\<open>Inode\<close> is
  the inode cache (\<^verbatim>\<open>inode.c\<close>) with its observations \<^verbatim>\<open>view\<close> (the live inodes), \<^verbatim>\<open>refs\<close>
  (references held) and its invariant \<^verbatim>\<open>ok\<close>; \<^verbatim>\<open>VTree\<close> is \<^verbatim>\<open>vfs_versions.c\<close>, \<^verbatim>\<open>Events\<close> is
  \<^verbatim>\<open>events.c\<close>, \<^verbatim>\<open>Version\<close> is \<^verbatim>\<open>version.c\<close>, \<^verbatim>\<open>Samples\<close> a small file system on which the
  properties are applied.

  Hash tables and threads. \<^verbatim>\<open>UtHash\<close> is the part of \<^verbatim>\<open>uthash.h\<close> the program uses, with its
  pointers, the doubling of the buckets and the hash function on 32-bit words; \<^verbatim>\<open>UtPointers\<close> has its
  invariant and what every operation does to the list of elements. \<^verbatim>\<open>UtSort\<close> is the merge sort on
  the linked list, shown to be stable sorting, \<^verbatim>\<open>UtOrder\<close> replacing, adding in order, clearing and
  the check of all pointers, \<^verbatim>\<open>UtSelect\<close> the selection into a second table, \<^verbatim>\<open>UtFunctions\<close> the
  other hash functions and the Bloom filter. \<^verbatim>\<open>UtTable\<close> puts the operations together: a table is a
  list of elements (\<^verbatim>\<open>uthash_refines_list\<close>). \<^verbatim>\<open>UtClients\<close> is the
  interface of a table whose keys are never added twice (locale \<^verbatim>\<open>hash_client\<close>), interpreted for
  inode numbers and for strings: \<^verbatim>\<open>IcacheTable\<close> has the critical sections of \<^verbatim>\<open>inode.c\<close> and
  \<^verbatim>\<open>KvMemTable\<close> the functions of \<^verbatim>\<open>sim/kv_mem.c\<close> with pointers, and both show that they compute
  what the association lists of the other theories compute. \<^verbatim>\<open>InodeRaces\<close> lets any number of
  threads run \<^verbatim>\<open>inode.c\<close> at once, a step being a critical section or an access to the store, and
  proves the invariant; \<^verbatim>\<open>RaceRuns\<close> has the properties and the runs that lose a deletion
  (\<^verbatim>\<open>deleted_inode_returns\<close>) and a number (\<^verbatim>\<open>inode_number_given_twice\<close>). \<^verbatim>\<open>DataRaces\<close> does
  the same for the data of a file, a step being a call of the store in the loops of \<^verbatim>\<open>kvbfs_write\<close>
  and \<^verbatim>\<open>file_append\<close>: writes without a common block are serializable
  (\<^verbatim>\<open>block_writes_serialize\<close>), an answer is not (\<^verbatim>\<open>answer_replaces_message\<close>). \<^verbatim>\<open>WorkQueue\<close> is the
  queue between a client and a worker thread with its condition variable, shutdown and join, as
  \<^verbatim>\<open>mem.c\<close> and \<^verbatim>\<open>llm.c\<close> both have it (locale \<^verbatim>\<open>task_queue\<close>, interpreted for both submissions).

  Handlers of \<^verbatim>\<open>fuse_ops.c\<close>. \<^verbatim>\<open>Dirent\<close> (directory entries and clean-up), \<^verbatim>\<open>FileData\<close> (the
  block loops), \<^verbatim>\<open>Fuse\<close> (replies, lookup and attributes, control file), \<^verbatim>\<open>FuseDir\<close>
  (directory requests), \<^verbatim>\<open>FuseIo\<close> (file requests), \<^verbatim>\<open>FuseXattr\<close> (extended attributes),
  \<^verbatim>\<open>Mount\<close> (\<^verbatim>\<open>context.c\<close> and the destroy callback). A handler is a function from the state
  and its arguments to the reply and the new state, with every error path.

  Memory and inference. \<^verbatim>\<open>Memory\<close> is \<^verbatim>\<open>mem.c\<close>, \<^verbatim>\<open>Llm\<close> and \<^verbatim>\<open>LlmWorker\<close> are
  \<^verbatim>\<open>llm.c\<close>; the embedding model and llama.cpp are parameters (\<^verbatim>\<open>fs_env\<close>, \<^verbatim>\<open>llama\<close>).
  \<^verbatim>\<open>Workers\<close> has the two threads and their shutdown. \<^verbatim>\<open>Indexing\<close> follows a file from
  \<^verbatim>\<open>mem_index_file\<close> through the queue to the stored chunks, \<^verbatim>\<open>MemNumbers\<close> the counter of
  \<^verbatim>\<open>mem_next_seq\<close> while several threads read and store it.

  The programs. \<^verbatim>\<open>Program\<close> is \<^verbatim>\<open>main.c\<close> with the settings, the start of the workers, the FUSE
  session, the clean-up labels and the whole of \<^verbatim>\<open>ctx_destroy\<close>, and \<^verbatim>\<open>main\<close> of
  \<^verbatim>\<open>sim/main.c\<close>. It shows that clean-up is balanced on every path (\<^verbatim>\<open>main_cleans_up\<close>) and
  when the shutdown joins a thread that is not there (\<^verbatim>\<open>background_stops_workers\<close>).

  \<^bold>\<open>Specifications and what is shown.\<close>

  The name space. \<^verbatim>\<open>Tree\<close> states each directory request on an abstract tree (entries and inodes
  as two maps), \<^verbatim>\<open>TreeOps\<close> proves that each handler computes its specification on every branch,
  \<^verbatim>\<open>TreeWf\<close> that the specifications of safe requests keep the tree consistent (exact link counts
  of files and directories, no dangling entry), and \<^verbatim>\<open>Namespace\<close> lifts both to sequences of requests
  by rule induction.

  File contents. \<^verbatim>\<open>FileProps\<close> and \<^verbatim>\<open>Files\<close> show that open, read, write and truncation are the
  operations of a list of bytes. \<^verbatim>\<open>Readdir\<close> is about listings, \<^verbatim>\<open>Remount\<close> about what survives an
  unmount, \<^verbatim>\<open>Xattrs\<close> shows that attribute requests are the operations of a map.

  All requests. \<^verbatim>\<open>Typed\<close> has the step relation of everything the program does to its state (every
  entry of \<^verbatim>\<open>kvbfs_ll_ops\<close> that can change it, the workers, mounting) and shows that every stored
  value keeps the size its reader checks (\<^verbatim>\<open>stored_values_typed\<close>), the vectors of the embedding
  models included. \<^verbatim>\<open>Marks\<close> uses the same relation: nothing that is served changes the marks
  \<^verbatim>\<open>running\<close> of the workers.

  Sessions. \<^verbatim>\<open>Conversation\<close> shows that the conversation format is parsed back,
  \<^verbatim>\<open>SessionFile\<close> lifts the whole-file helpers to the list of bytes, \<^verbatim>\<open>Sessions\<close> and
  \<^verbatim>\<open>Compress\<close> state what a task and a compression do, and that a generation always ends.

  Memory search. \<^verbatim>\<open>Search\<close> shows that the insertion into the table of results keeps the first
  entries of the stable sort of all candidates by falling score (\<^verbatim>\<open>mem_search_best\<close>).

  \<^bold>\<open>Conventions and bounds.\<close> A C string or a buffer is a \<^typ>\<open>string\<close>. An unsigned integer is a
  \<^typ>\<open>nat\<close> with the reduction \<^verbatim>\<open>u64\<close>, \<^verbatim>\<open>u32\<close> or \<^verbatim>\<open>u16\<close> written where the code can wrap. A
  \<^verbatim>\<open>-1\<close> or \<^verbatim>\<open>NULL\<close> is a boolean or an option. A handler is one atomic step: the locks of the code
  make each critical section atomic, and interleavings finer than a handler are modelled only for
  the functions of \<^verbatim>\<open>inode.c\<close>, the writes of one file, the two work queues, the numbers of
  \<^verbatim>\<open>mem.c\<close>, a task of the inference thread (two steps) and the event stream (read between any two
  emissions). Loops are recursive functions that end by a measure;
  those that follow pointers are partial functions, shown to end on every table the program builds.
  None needs fuel. The counters of a hash table are natural numbers; an array of more than
  \<^verbatim>\<open>2^31\<close> buckets is never allocated (\<^verbatim>\<open>alloc_limit\<close>), and where a smaller one cannot be, the
  library ends the program.
  The generation loop runs at most \<^verbatim>\<open>max_tokens\<close> rounds as in the code. Properties of file contents
  assume sizes at least one block below \<^verbatim>\<open>2^64\<close>; those of the event stream fewer than \<^verbatim>\<open>2^64\<close>
  bytes. Nothing is assumed of the length of the texts a model makes: a text that overruns its
  buffer is the outcome \<^verbatim>\<open>Corrupt\<close>, and the properties of generations say when it comes. The properties that use a backend take the contract as an assumption and are applied
  on the simulator's store.

  \<^bold>\<open>Not modelled.\<close> The inference of llama.cpp and the loading of the model files, libfuse and its
  session loop, \<^verbatim>\<open>getopt\<close> and the socket calls of the simulator (parameters), the printed
  messages and the unused logger of \<^verbatim>\<open>utils.c\<close>, the variant of
  \<^verbatim>\<open>uthash.h\<close> that survives a failed allocation and its output of keys, allocation failures outside the hash tables, \<^verbatim>\<open>inode_sync_all\<close> among threads
  (no item is ever dirty), and races between handlers beyond those named above.

  \<^bold>\<open>What the model brought to light.\<close> Inode changes are never stored, because no handler marks an
  inode dirty (\<^verbatim>\<open>written_size_is_lost\<close>); without \<^verbatim>\<open>-f\<close> the workers do not survive the fork
  (\<^verbatim>\<open>background_stops_workers\<close>); a listing continued at an offset loses entries
  (\<^verbatim>\<open>readdir_resume_skips_three\<close>); a rename onto a hard-linked name destroys the file
  (\<^verbatim>\<open>rename_destroys_hard_links\<close>); long names share a virtual inode
  (\<^verbatim>\<open>vtree_numbers\<close>); one long name ends the connection to the device for ever
  (\<^verbatim>\<open>oversized_call_ends_connection\<close>, \<^verbatim>\<open>keys_fit_device\<close>); a malformed list response is read past
  its end (\<^verbatim>\<open>list_response_roundtrip\<close>); the response buffer is too small
  (\<^verbatim>\<open>generation_buffer_bound\<close>); a message without a newline still counts as unanswered after an answer of one line
  (\<^verbatim>\<open>unterminated_message_stays_unanswered\<close>); a thread that loaded an inode brings it back after
  its deletion (\<^verbatim>\<open>deleted_inode_returns\<close>); with a backend that copies values first a number is given
  out twice (\<^verbatim>\<open>inode_number_given_twice\<close>);
  an answer takes the place of what the user writes while it is generated
  (\<^verbatim>\<open>answer_replaces_message\<close>); texts handed in during the shutdown are dropped
  (\<^verbatim>\<open>texts_queue_order\<close>), texts that wait outlive their file (\<^verbatim>\<open>queued_texts_outlive_file\<close>), and two
  texts can share a number (\<^verbatim>\<open>texts_share_number\<close>); a scan that RocksDB ends with an error looks
  complete (\<^verbatim>\<open>rocksdb_answers_like_map\<close>); and the summary of a compressed conversation is not
  shown to the model unless it happens to have a turn marker (\<^verbatim>\<open>compression_keeps_recent\<close>). In a table filled by \<^verbatim>\<open>HASH_SELECT\<close> the next
  addition cuts the list off (\<^verbatim>\<open>select_then_add_loses\<close>); the program does not use it.
\<close>

end
